(* ===== verification/Prelude.thy ===== *)
theory Prelude
  imports Main "HOL-Library.Word" "HOL-Library.Char_ord" "HOL-Library.List_Lexorder"
begin

text \<open>
  Shared ground of the development: the names of the machine types, results as sums,
  and the two kinds of standard-library container the program uses.

  \<^item> A Rust integer that is only stored or compared is a word of its width
    (\<open>u8\<close>, \<open>u32\<close>, \<open>u64\<close>, \<open>i32\<close>, \<open>i64\<close>); a double is its IEEE-754 bit pattern (\<open>f64\<close>),
    which is how the program compares it. Byte totals, lengths and counters are \<open>nat\<close>
    (\<open>usize\<close>), with the saturating operations of the source written out.
  \<^item> A Rust string is its UTF-8 bytes, an Isabelle \<open>string\<close>; \<open>length\<close> is \<open>str::len\<close> and
    the lexicographic order of \<open>List_Lexorder\<close> is the order of \<open>str\<close>.
  \<^item> \<open>Result\<close> is a sum, \<open>Inl\<close> the error; \<open>and_then\<close> is the \<open>?\<close> operator and
    \<open>collect_results\<close> is \<open>collect::<Result<Vec<_>, _>>()\<close>.
  \<^item> A \<open>BTreeMap\<close> whose order is observed is a strictly sorted association list
    (\<open>om_insert\<close>, \<open>om_remove\<close>, \<open>map_of\<close>). A keyed table whose order is never observed is an
    association list searched with the key type's own equality (\<open>get_by\<close>, \<open>remove_by\<close>),
    because the program's key types compare less than their whole content.
\<close>

section \<open>Machine types\<close>

type_synonym u8 = "8 word"
type_synonym u32 = "32 word"
type_synonym u64 = "64 word"
type_synonym i32 = "32 word"
type_synonym i64 = "64 word"
type_synonym f64 = "64 word"
type_synonym usize = nat
type_synonym bytes = "u8 list"

definition u64_max :: nat where
  "u64_max = 2 ^ 64 - 1"

definition sat_u64 :: "nat \<Rightarrow> nat" where
  "sat_u64 n = min n u64_max"

definition sat_add :: "nat \<Rightarrow> nat \<Rightarrow> nat" where
  "sat_add a b = min (a + b) u64_max"

lemma sat_u64_le: "sat_u64 n \<le> n"
  by (simp add: sat_u64_def)

lemma sat_add_le: "sat_add a b \<le> a + b"
  by (simp add: sat_add_def)

lemma sat_add_le_max: "sat_add a b \<le> u64_max"
  by (simp add: sat_add_def)

lemma sat_add_exact: "a + b \<le> u64_max \<Longrightarrow> sat_add a b = a + b"
  by (simp add: sat_add_def)

lemma sat_add_zero: "a \<le> u64_max \<Longrightarrow> sat_add a 0 = a"
  by (simp add: sat_add_def)

section \<open>Results\<close>

fun and_then :: "'e + 'a \<Rightarrow> ('a \<Rightarrow> 'e + 'b) \<Rightarrow> 'e + 'b" where
  "and_then (Inl e) f = Inl e"
| "and_then (Inr a) f = f a"

fun map_err :: "('e \<Rightarrow> 'f) \<Rightarrow> 'e + 'a \<Rightarrow> 'f + 'a" where
  "map_err g (Inl e) = Inl (g e)"
| "map_err g (Inr a) = Inr a"

fun collect_results :: "('e + 'a) list \<Rightarrow> 'e + 'a list" where
  "collect_results [] = Inr []"
| "collect_results (Inl e # rs) = Inl e"
| "collect_results (Inr a # rs) =
     (case collect_results rs of Inl e \<Rightarrow> Inl e | Inr as \<Rightarrow> Inr (a # as))"

text \<open>A loop whose body is a check with \<open>?\<close>: the first refusal ends it.\<close>

fun check_all :: "('a \<Rightarrow> 'e + unit) \<Rightarrow> 'a list \<Rightarrow> 'e + unit" where
  "check_all f [] = Inr ()"
| "check_all f (x # xs) = and_then (f x) (\<lambda>_. check_all f xs)"

lemma and_then_Inr_iff: "and_then r f = Inr b \<longleftrightarrow> (\<exists>a. r = Inr a \<and> f a = Inr b)"
  by (cases r) auto

lemma and_then_unit_Inr [simp]:
  "and_then r f = Inr () \<longleftrightarrow> (\<exists>a. r = Inr a \<and> f a = Inr ())"
  by (cases r) auto

lemma and_then_cong [fundef_cong]:
  "r = r' \<Longrightarrow> (\<And>a. r' = Inr a \<Longrightarrow> f a = g a) \<Longrightarrow> and_then r f = and_then r' g"
  by (cases r') auto

lemma and_then_Inl_iff: "and_then r f = Inl e \<longleftrightarrow> r = Inl e \<or> (\<exists>a. r = Inr a \<and> f a = Inl e)"
  by (cases r) auto

lemma map_err_Inl_iff: "map_err g r = Inl e \<longleftrightarrow> (\<exists>e'. r = Inl e' \<and> g e' = e)"
  by (cases r) auto

lemma map_err_Inr_iff [simp]: "map_err g r = Inr a \<longleftrightarrow> r = Inr a"
  by (cases r) auto

lemma check_all_Inr_iff: "check_all f xs = Inr () \<longleftrightarrow> (\<forall>x \<in> set xs. f x = Inr ())"
  by (induction xs) auto

lemma check_all_Inl:
  "check_all f xs = Inl e \<Longrightarrow> \<exists>x \<in> set xs. f x = Inl e"
proof (induction xs)
  case (Cons x xs)
  then show ?case by (cases "f x") auto
qed simp

lemma collect_results_Inr_iff:
  "collect_results rs = Inr as \<longleftrightarrow> rs = map Inr as"
proof (induction rs arbitrary: as)
  case (Cons r rs)
  show ?case
  proof (cases r)
    case (Inl e)
    then show ?thesis by (cases as) auto
  next
    case (Inr a)
    show ?thesis
    proof (cases "collect_results rs")
      case (Inl e)
      with Cons.IH have "\<nexists>as. rs = map Inr as" by (metis Inl_Inr_False)
      with Inl \<open>r = Inr a\<close> show ?thesis by (auto simp: Cons_eq_map_conv)
    next
      case (Inr bs)
      with Cons.IH have "rs = map Inr bs" by blast
      with Inr \<open>r = Inr a\<close> show ?thesis by (auto simp: inj_map_eq_map inj_def)
    qed
  qed
qed auto

lemma collect_results_length:
  "collect_results rs = Inr as \<Longrightarrow> length as = length rs"
  by (auto simp: collect_results_Inr_iff)

lemma collect_results_map_cong [fundef_cong]:
  "xs = ys \<Longrightarrow> (\<And>x. x \<in> set ys \<Longrightarrow> f x = g x) \<Longrightarrow>
     collect_results (map f xs) = collect_results (map g ys)"
  by (metis map_cong)

section \<open>Ordered maps\<close>

fun om_insert :: "'k::linorder \<Rightarrow> 'v \<Rightarrow> ('k \<times> 'v) list \<Rightarrow> ('k \<times> 'v) list" where
  "om_insert k v [] = [(k, v)]"
| "om_insert k v ((a, b) # ps) =
     (if k < a then (k, v) # (a, b) # ps
      else if k = a then (k, v) # ps
      else (a, b) # om_insert k v ps)"

fun om_remove :: "'k::linorder \<Rightarrow> ('k \<times> 'v) list \<Rightarrow> ('k \<times> 'v) list" where
  "om_remove k [] = []"
| "om_remove k ((a, b) # ps) = (if k = a then ps else (a, b) # om_remove k ps)"

definition om_sorted :: "('k::linorder \<times> 'v) list \<Rightarrow> bool" where
  "om_sorted ps \<longleftrightarrow> sorted_wrt (<) (map fst ps)"

lemma om_sorted_Nil [simp]: "om_sorted []"
  by (simp add: om_sorted_def)

lemma om_sorted_Cons [simp]:
  "om_sorted (p # ps) \<longleftrightarrow> (\<forall>q \<in> set ps. fst p < fst q) \<and> om_sorted ps"
  by (auto simp: om_sorted_def)

lemma om_sorted_distinct: "om_sorted ps \<Longrightarrow> distinct (map fst ps)"
  by (auto simp: om_sorted_def strict_sorted_iff)

lemma keys_om_insert [simp]: "fst ` set (om_insert k v ps) = insert k (fst ` set ps)"
  by (induction ps rule: om_insert.induct) auto

lemma om_sorted_insert: "om_sorted ps \<Longrightarrow> om_sorted (om_insert k v ps)"
proof (induction k v ps rule: om_insert.induct)
  case (2 k v a b ps)
  have "q \<in> set (om_insert k v ps) \<Longrightarrow> fst q = k \<or> fst q \<in> fst ` set ps" for q
    using keys_om_insert [of k v ps] by (metis imageI insertE)
  with 2 show ?case by fastforce
qed simp

lemma set_om_insert:
  "k \<notin> fst ` set ps \<Longrightarrow> set (om_insert k v ps) = insert (k, v) (set ps)"
  by (induction ps rule: om_insert.induct) auto

lemma length_om_insert:
  "k \<notin> fst ` set ps \<Longrightarrow> length (om_insert k v ps) = Suc (length ps)"
  by (induction ps rule: om_insert.induct) auto

lemma om_insert_hd:
  "om_sorted ((a, b) # ps) \<Longrightarrow> k < a \<Longrightarrow> om_insert k v ((a, b) # ps) = (k, v) # (a, b) # ps"
  by simp

lemma map_of_om_insert:
  "map_of (om_insert k v ps) = (map_of ps)(k \<mapsto> v)"
  by (induction ps rule: om_insert.induct) auto

section \<open>Tables keyed by a content equality\<close>

definition get_by :: "('a \<Rightarrow> 'a \<Rightarrow> bool) \<Rightarrow> ('a \<times> 'v) list \<Rightarrow> 'a \<Rightarrow> ('a \<times> 'v) option" where
  "get_by eq ps x = find (\<lambda>p. eq (fst p) x) ps"

definition remove_by :: "('a \<Rightarrow> 'a \<Rightarrow> bool) \<Rightarrow> 'a \<Rightarrow> ('a \<times> 'v) list \<Rightarrow> ('a \<times> 'v) list" where
  "remove_by eq x ps = filter (\<lambda>p. \<not> eq (fst p) x) ps"

definition distinct_by :: "('a \<Rightarrow> 'a \<Rightarrow> bool) \<Rightarrow> ('a \<times> 'v) list \<Rightarrow> bool" where
  "distinct_by eq ps \<longleftrightarrow> sorted_wrt (\<lambda>a b. \<not> eq a b) (map fst ps)"

lemma distinct_by_Nil [simp]: "distinct_by eq []"
  by (simp add: distinct_by_def)

lemma distinct_by_Cons [simp]:
  "distinct_by eq (p # ps) \<longleftrightarrow> (\<forall>q \<in> set ps. \<not> eq (fst p) (fst q)) \<and> distinct_by eq ps"
  by (auto simp: distinct_by_def)

lemma distinct_by_snoc [simp]:
  "distinct_by eq (ps @ [p]) \<longleftrightarrow> (\<forall>q \<in> set ps. \<not> eq (fst q) (fst p)) \<and> distinct_by eq ps"
  by (auto simp: distinct_by_def sorted_wrt_append)

lemma distinct_by_remove: "distinct_by eq ps \<Longrightarrow> distinct_by eq (remove_by eq x ps)"
  by (induction ps) (auto simp: remove_by_def)

lemma get_by_Nil [simp]: "get_by eq [] x = None"
  by (simp add: get_by_def)

lemma get_by_Cons:
  "get_by eq (p # ps) x = (if eq (fst p) x then Some p else get_by eq ps x)"
  by (simp add: get_by_def)

lemma get_by_None_iff: "get_by eq ps x = None \<longleftrightarrow> (\<forall>p \<in> set ps. \<not> eq (fst p) x)"
  by (auto simp: get_by_def find_None_iff)

lemma get_by_SomeD: "get_by eq ps x = Some p \<Longrightarrow> p \<in> set ps \<and> eq (fst p) x"
  by (auto simp: get_by_def find_Some_iff)

lemma remove_by_Cons:
  "remove_by eq x (p # ps) = (if eq (fst p) x then remove_by eq x ps else p # remove_by eq x ps)"
  by (simp add: remove_by_def)

lemma set_remove_by: "set (remove_by eq x ps) = {p \<in> set ps. \<not> eq (fst p) x}"
  by (auto simp: remove_by_def)

lemma remove_by_absent: "get_by eq ps x = None \<Longrightarrow> remove_by eq x ps = ps"
  by (auto simp: remove_by_def get_by_None_iff filter_id_conv)

text \<open>
  The interface a keyed table relies on: the key's equality is an equivalence. Its
  providers are the comparisons of the stream identity and of the point identity.
\<close>

locale content_key =
  fixes eq :: "'a \<Rightarrow> 'a \<Rightarrow> bool"
  assumes eq_refl: "eq a a"
    and eq_sym: "eq a b \<Longrightarrow> eq b a"
    and eq_trans: "eq a b \<Longrightarrow> eq b c \<Longrightarrow> eq a c"
begin

lemma eq_cong: "eq x y \<Longrightarrow> eq a x \<longleftrightarrow> eq a y"
  using eq_sym eq_trans by blast

lemma get_cong: "eq x y \<Longrightarrow> get_by eq ps x = get_by eq ps y"
  by (induction ps) (auto simp: get_by_Cons eq_cong)

lemma get_present:
  "distinct_by eq ps \<Longrightarrow> p \<in> set ps \<Longrightarrow> eq (fst p) x \<Longrightarrow> get_by eq ps x = Some p"
proof (induction ps)
  case (Cons q ps)
  have "p \<in> set ps \<Longrightarrow> \<not> eq (fst q) x"
    using Cons.prems eq_sym [of "fst p" x] eq_trans [of "fst q" x "fst p"] by auto
  with Cons show ?case by (auto simp: get_by_Cons)
qed simp

lemma get_remove:
  "get_by eq (remove_by eq x ps) y = (if eq x y then None else get_by eq ps y)"
proof (induction ps)
  case (Cons p ps)
  have "eq (fst p) x \<Longrightarrow> eq (fst p) y \<longleftrightarrow> eq x y"
    using eq_sym [of "fst p" x] eq_trans [of "fst p" x y] eq_trans [of x "fst p" y] by blast
  moreover have "eq (fst p) y \<Longrightarrow> eq x y \<Longrightarrow> eq (fst p) x"
    using eq_sym [of x y] eq_trans [of "fst p" y x] by blast
  ultimately show ?case using Cons by (auto simp: remove_by_Cons get_by_Cons)
qed (simp add: remove_by_def)

lemma get_append_new:
  "get_by eq (ps @ [(x, v)]) y =
     (case get_by eq ps y of Some p \<Rightarrow> Some p | None \<Rightarrow> if eq x y then Some (x, v) else None)"
  by (induction ps) (auto simp: get_by_Cons)

lemma remove_appended:
  "get_by eq ps x = None \<Longrightarrow> eq x y \<Longrightarrow> remove_by eq y (ps @ [(x, v)]) = ps"
  using eq_cong [of x y]
  by (auto simp: remove_by_def get_by_None_iff filter_id_conv)

lemma remove_commute_append:
  "\<not> eq x y \<Longrightarrow> remove_by eq y (ps @ [(x, v)]) = remove_by eq y ps @ [(x, v)]"
  by (simp add: remove_by_def)

lemma get_self: "distinct_by eq ps \<Longrightarrow> p \<in> set ps \<Longrightarrow> get_by eq ps (fst p) = Some p"
  using get_present eq_refl by blast

lemma distinct_by_distinct: "distinct_by eq ps \<Longrightarrow> distinct ps"
  by (induction ps) (auto simp: eq_refl)

lemma distinct_member_eq:
  "distinct_by eq ps \<Longrightarrow> p \<in> set ps \<Longrightarrow> q \<in> set ps \<Longrightarrow> eq (fst p) (fst q) \<Longrightarrow> p = q"
  using get_present [of ps p "fst q"] get_self [of ps q] by simp

end

end
