(* ===== verification/Values.thy ===== *)
theory Values
  imports Prelude
begin

text \<open>
  The value union and the keyed containers of \<open>crates/telemetry-model/src/values.rs\<close>.

  \<open>model_value\<close> is the enum \<open>Value\<close>; its private containers \<open>HomogeneousArray\<close> and
  \<open>KeyValueList\<close> are the lists inside \<open>ArrayV\<close> and \<open>KvListV\<close>, and the laws their
  constructors enforce are the invariant \<open>wf_value\<close>. \<open>attributes\<close> is the \<open>BTreeMap\<close> of an
  attribute map, a strictly sorted association list, so that equality of attribute maps is
  equality of lists. The nesting walks are the source's loops over an explicit stack, whose
  top is the head of the list; they are proved equal to the recursive depth.
\<close>

section \<open>The value union\<close>

datatype float_bits = Float (float_bits_of: f64)

datatype model_value =
    StringV string
  | BoolV bool
  | IntV i64
  | DoubleV float_bits
  | BytesV bytes
  | ArrayV "model_value list"
  | KvListV "(string \<times> model_value) list"

datatype value_kind =
  StringKind | BoolKind | IntKind | DoubleKind | BytesKind | ArrayKind | KvListKind

fun kind :: "model_value \<Rightarrow> value_kind" where
  "kind (StringV _) = StringKind"
| "kind (BoolV _) = BoolKind"
| "kind (IntV _) = IntKind"
| "kind (DoubleV _) = DoubleKind"
| "kind (BytesV _) = BytesKind"
| "kind (ArrayV _) = ArrayKind"
| "kind (KvListV _) = KvListKind"

record duplicate_key =
  dk_key :: string

record mixed_kind_array =
  first_kind :: value_kind
  offending_index :: usize
  offending_kind :: value_kind

section \<open>Homogeneous arrays\<close>

text \<open>The loop of \<open>try_from_items\<close>, from position \<open>i\<close> on.\<close>

fun find_offender :: "value_kind \<Rightarrow> usize \<Rightarrow> model_value list \<Rightarrow> mixed_kind_array option" where
  "find_offender fk i [] = None"
| "find_offender fk i (v # vs) =
     (if kind v \<noteq> fk
      then Some \<lparr>first_kind = fk, offending_index = i, offending_kind = kind v\<rparr>
      else find_offender fk (Suc i) vs)"

fun try_from_items :: "model_value list \<Rightarrow> mixed_kind_array + model_value list" where
  "try_from_items [] = Inr []"
| "try_from_items (v # vs) =
     (case find_offender (kind v) 1 vs of Some e \<Rightarrow> Inl e | None \<Rightarrow> Inr (v # vs))"

definition array_kind :: "model_value list \<Rightarrow> value_kind option" where
  "array_kind items = (case items of [] \<Rightarrow> None | v # _ \<Rightarrow> Some (kind v))"

definition value_array :: "model_value list \<Rightarrow> mixed_kind_array + model_value" where
  "value_array items = and_then (try_from_items items) (\<lambda>xs. Inr (ArrayV xs))"

definition homogeneous :: "model_value list \<Rightarrow> bool" where
  "homogeneous vs \<longleftrightarrow> (\<forall>a \<in> set vs. \<forall>b \<in> set vs. kind a = kind b)"

lemma find_offender_None: "find_offender fk i vs = None \<longleftrightarrow> (\<forall>v \<in> set vs. kind v = fk)"
  by (induction vs arbitrary: i) auto

lemma find_offender_Some:
  "find_offender fk i vs = Some e \<Longrightarrow>
     \<exists>j < length vs. offending_index e = i + j \<and> first_kind e = fk \<and>
       offending_kind e = kind (vs ! j) \<and> kind (vs ! j) \<noteq> fk \<and> (\<forall>k < j. kind (vs ! k) = fk)"
proof (induction vs arbitrary: i)
  case (Cons v vs)
  show ?case
  proof (cases "kind v = fk")
    case True
    with Cons.prems have "find_offender fk (Suc i) vs = Some e" by simp
    from Cons.IH [OF this] obtain j where
      "j < length vs" "offending_index e = Suc i + j" "first_kind e = fk"
      "offending_kind e = kind (vs ! j)" "kind (vs ! j) \<noteq> fk" "\<forall>k < j. kind (vs ! k) = fk"
      by blast
    with True show ?thesis
      by (intro exI [of _ "Suc j"]) (auto simp: less_Suc_eq_0_disj nth_Cons')
  next
    case False
    with Cons.prems show ?thesis by (intro exI [of _ 0]) auto
  qed
qed simp

lemma homogeneous_Cons: "homogeneous (v # vs) \<longleftrightarrow> (\<forall>w \<in> set vs. kind w = kind v)"
  unfolding homogeneous_def by (simp, metis)

lemma homogeneous_Nil [simp]: "homogeneous []"
  by (simp add: homogeneous_def)

lemma try_from_items_Inr:
  "try_from_items items = Inr xs \<longleftrightarrow> xs = items \<and> homogeneous items"
proof (cases items)
  case (Cons v vs)
  then show ?thesis
    using find_offender_None [of "kind v" 1 vs]
    by (cases "find_offender (kind v) 1 vs") (auto simp: homogeneous_Cons)
qed auto

section \<open>Key-value lists and attribute maps\<close>

text \<open>The loop of \<open>KeyValueList::new\<close>: \<open>seen\<close> is its hash set.\<close>

fun first_repeat :: "string set \<Rightarrow> (string \<times> 'v) list \<Rightarrow> string option" where
  "first_repeat seen [] = None"
| "first_repeat seen ((k, _) # es) =
     (if k \<in> seen then Some k else first_repeat (insert k seen) es)"

definition key_value_list_new ::
  "(string \<times> model_value) list \<Rightarrow> duplicate_key + (string \<times> model_value) list" where
  "key_value_list_new entries =
     (case first_repeat {} entries of
        Some k \<Rightarrow> Inl \<lparr>dk_key = k\<rparr>
      | None \<Rightarrow> Inr entries)"

definition key_value_list_get :: "(string \<times> model_value) list \<Rightarrow> string \<Rightarrow> model_value option" where
  "key_value_list_get entries key = map_option snd (find (\<lambda>p. fst p = key) entries)"

definition value_kv_list :: "(string \<times> model_value) list \<Rightarrow> duplicate_key + model_value" where
  "value_kv_list entries = and_then (key_value_list_new entries) (\<lambda>es. Inr (KvListV es))"

type_synonym attributes = "(string \<times> model_value) list"

text \<open>The loop of \<open>Attributes::from_pairs\<close>: the map grows by vacant entries only.\<close>

fun insert_pairs :: "attributes \<Rightarrow> (string \<times> model_value) list \<Rightarrow> duplicate_key + attributes" where
  "insert_pairs entries [] = Inr entries"
| "insert_pairs entries ((k, v) # ps) =
     (if map_of entries k \<noteq> None then Inl \<lparr>dk_key = k\<rparr>
      else insert_pairs (om_insert k v entries) ps)"

definition from_pairs :: "(string \<times> model_value) list \<Rightarrow> duplicate_key + attributes" where
  "from_pairs ps = insert_pairs [] ps"

definition attributes_get :: "attributes \<Rightarrow> string \<Rightarrow> model_value option" where
  "attributes_get a key = map_of a key"

definition wf_attributes :: "attributes \<Rightarrow> bool" where
  "wf_attributes a \<longleftrightarrow> om_sorted a"

lemma first_repeat_None:
  "first_repeat seen es = None \<longleftrightarrow> distinct (map fst es) \<and> seen \<inter> fst ` set es = {}"
proof (induction es arbitrary: seen)
  case (Cons e es)
  then show ?case by (cases e) auto
qed simp

lemma first_repeat_Some:
  "first_repeat seen es = Some k \<Longrightarrow> k \<in> fst ` set es \<and> (k \<in> seen \<or> \<not> distinct (map fst es))"
proof (induction es arbitrary: seen)
  case (Cons e es)
  then show ?case by (cases e) (auto split: if_splits; blast)
qed simp

lemma key_value_list_new_Inr:
  "key_value_list_new es = Inr es' \<longleftrightarrow> es' = es \<and> distinct (map fst es)"
  using first_repeat_None [of "{}" es]
  by (cases "first_repeat {} es") (auto simp: key_value_list_new_def)

lemma map_of_None_keys: "map_of ps k = None \<longleftrightarrow> k \<notin> fst ` set ps"
  by (simp add: map_of_eq_None_iff)

lemma insert_pairs_Inr:
  assumes "insert_pairs m ps = Inr m'" and "om_sorted m"
  shows "om_sorted m' \<and> distinct (map fst ps) \<and> fst ` set ps \<inter> fst ` set m = {} \<and>
    set m' = set m \<union> set ps \<and> length m' = length m + length ps"
  using assms
proof (induction ps arbitrary: m)
  case (Cons p ps)
  obtain k v where p: "p = (k, v)" by (cases p)
  from Cons.prems p have new: "k \<notin> fst ` set m"
    and rest: "insert_pairs (om_insert k v m) ps = Inr m'"
    by (auto simp: map_of_None_keys split: if_splits)
  from Cons.IH [OF rest om_sorted_insert [OF Cons.prems(2)]] p new
  show ?case by (auto simp: set_om_insert length_om_insert)
qed simp

lemma insert_pairs_total:
  assumes "distinct (map fst ps)" and "fst ` set ps \<inter> fst ` set m = {}"
  shows "\<exists>m'. insert_pairs m ps = Inr m'"
  using assms
proof (induction ps arbitrary: m)
  case (Cons p ps)
  obtain k v where p: "p = (k, v)" by (cases p)
  from Cons.prems p have "k \<notin> fst ` set m" by auto
  moreover from Cons.prems p have disj: "fst ` set ps \<inter> fst ` set (om_insert k v m) = {}"
    by auto
  moreover from Cons.prems have "distinct (map fst ps)" by simp
  from Cons.IH [OF this disj] obtain m' where "insert_pairs (om_insert k v m) ps = Inr m'" by blast
  ultimately show ?case using p by (auto simp: map_of_None_keys)
qed simp

lemma from_pairs_Inr:
  "from_pairs ps = Inr m \<Longrightarrow>
     wf_attributes m \<and> distinct (map fst ps) \<and> set m = set ps \<and> length m = length ps"
  using insert_pairs_Inr [of "[]" ps m] by (auto simp: from_pairs_def wf_attributes_def)

lemma from_pairs_total: "distinct (map fst ps) \<Longrightarrow> \<exists>m. from_pairs ps = Inr m"
  using insert_pairs_total [of ps "[]"] by (simp add: from_pairs_def)

lemma om_sorted_unique:
  assumes "om_sorted a" "om_sorted b" "set a = set b"
  shows "a = b"
proof -
  from assms have "sorted_wrt (<) (map fst a)" "sorted_wrt (<) (map fst b)"
    "set (map fst a) = set (map fst b)"
    by (simp_all add: om_sorted_def)
  then have keys: "map fst a = map fst b"
    using strict_sorted_equal by blast
  have "\<forall>x \<in> set a. \<forall>y \<in> set a. fst x = fst y \<longrightarrow> x = y"
    using om_sorted_distinct [OF \<open>om_sorted a\<close>] by (auto simp: distinct_map inj_on_def)
  with keys assms(3) show ?thesis
    by (intro nth_equalityI) (metis length_map, metis length_map nth_map nth_mem)
qed

section \<open>Well-formed values\<close>

fun wf_value :: "model_value \<Rightarrow> bool" where
  "wf_value (ArrayV vs) \<longleftrightarrow> homogeneous vs \<and> (\<forall>v \<in> set vs. wf_value v)"
| "wf_value (KvListV es) \<longleftrightarrow> distinct (map fst es) \<and> (\<forall>e \<in> set es. wf_value (snd e))"
| "wf_value _ = True"

section \<open>Nesting\<close>

fun depth :: "model_value \<Rightarrow> nat" where
  "depth (ArrayV vs) = Suc (foldr max (map depth vs) 0)"
| "depth (KvListV es) = Suc (foldr max (map (\<lambda>e. depth (snd e)) es) 0)"
| "depth _ = 0"

function exceeds_loop :: "usize \<Rightarrow> (model_value \<times> usize) list \<Rightarrow> bool" where
  "exceeds_loop limit [] = False"
| "exceeds_loop limit ((KvListV es, below) # stack) =
     (if below + 1 > limit then True
      else exceeds_loop limit (rev (map (\<lambda>e. (snd e, below + 1)) es) @ stack))"
| "exceeds_loop limit ((ArrayV vs, below) # stack) =
     (if below + 1 > limit then True
      else exceeds_loop limit (rev (map (\<lambda>v. (v, below + 1)) vs) @ stack))"
| "exceeds_loop limit ((StringV s, below) # stack) = exceeds_loop limit stack"
| "exceeds_loop limit ((BoolV b, below) # stack) = exceeds_loop limit stack"
| "exceeds_loop limit ((IntV i, below) # stack) = exceeds_loop limit stack"
| "exceeds_loop limit ((DoubleV d, below) # stack) = exceeds_loop limit stack"
| "exceeds_loop limit ((BytesV bs, below) # stack) = exceeds_loop limit stack"
  by pat_completeness auto

definition stack_weight :: "(model_value \<times> usize) list \<Rightarrow> nat" where
  "stack_weight st = sum_list (map (\<lambda>p. Suc (size (fst p))) st)"

lemma stack_weight_simps [simp]:
  "stack_weight [] = 0"
  "stack_weight (p # st) = Suc (size (fst p)) + stack_weight st"
  "stack_weight (xs @ ys) = stack_weight xs + stack_weight ys"
  "stack_weight (rev xs) = stack_weight xs"
  by (simp_all add: stack_weight_def rev_map [symmetric])

lemma stack_weight_items: "stack_weight (map (\<lambda>v. (v, b)) vs) = size_list size vs"
  by (induction vs) auto

lemma stack_weight_entries:
  "stack_weight (map (\<lambda>e. (snd e, b)) es) \<le> size_list (size_prod (\<lambda>_. 0) size) es"
  by (induction es) auto

termination exceeds_loop
proof (relation "measure (\<lambda>(limit, st). stack_weight st)", goal_cases)
  case (2 limit es below stack)
  then show ?case using stack_weight_entries [of "below + 1" es] by simp
next
  case (3 limit vs below stack)
  then show ?case using stack_weight_items [of "below + 1" vs] by simp
qed auto

definition exceeds_nesting :: "model_value \<Rightarrow> usize \<Rightarrow> bool" where
  "exceeds_nesting v limit = exceeds_loop limit [(v, 0)]"

function nesting_loop :: "usize \<Rightarrow> (model_value \<times> usize) list \<Rightarrow> usize" where
  "nesting_loop deepest [] = deepest"
| "nesting_loop deepest ((KvListV es, below) # stack) =
     nesting_loop (max deepest (below + 1)) (rev (map (\<lambda>e. (snd e, below + 1)) es) @ stack)"
| "nesting_loop deepest ((ArrayV vs, below) # stack) =
     nesting_loop (max deepest (below + 1)) (rev (map (\<lambda>v. (v, below + 1)) vs) @ stack)"
| "nesting_loop deepest ((StringV s, below) # stack) = nesting_loop deepest stack"
| "nesting_loop deepest ((BoolV b, below) # stack) = nesting_loop deepest stack"
| "nesting_loop deepest ((IntV i, below) # stack) = nesting_loop deepest stack"
| "nesting_loop deepest ((DoubleV d, below) # stack) = nesting_loop deepest stack"
| "nesting_loop deepest ((BytesV bs, below) # stack) = nesting_loop deepest stack"
  by pat_completeness auto

termination nesting_loop
proof (relation "measure (\<lambda>(deepest, st). stack_weight st)", goal_cases)
  case (2 deepest es below stack)
  then show ?case using stack_weight_entries [of "below + 1" es] by simp
next
  case (3 deepest vs below stack)
  then show ?case using stack_weight_items [of "below + 1" vs] by simp
qed auto

definition nesting_depth :: "model_value \<Rightarrow> usize" where
  "nesting_depth v = nesting_loop 0 [(v, 0)]"

lemma less_foldr_max: "n < foldr max xs 0 \<longleftrightarrow> (\<exists>x \<in> set xs. (n::nat) < x)"
  by (induction xs) auto

lemma foldr_max_upper: "x \<in> set xs \<Longrightarrow> (x::nat) \<le> foldr max xs 0"
  by (induction xs) auto

lemma limit_below_max:
  assumes "Suc below \<le> limit"
  shows "(\<exists>n \<in> set ns. 0 < n \<and> limit < Suc below + n) \<longleftrightarrow> limit < Suc (below + foldr max ns 0)"
proof -
  have "limit < Suc below + n \<longleftrightarrow> limit - Suc below < n" for n
    using assms by arith
  then have "(\<exists>n \<in> set ns. 0 < n \<and> limit < Suc below + n) \<longleftrightarrow> limit - Suc below < foldr max ns 0"
    by (metis less_foldr_max gr0I not_less_zero)
  with assms show ?thesis by arith
qed

lemma exceeds_loop_depth:
  "exceeds_loop limit st \<longleftrightarrow> (\<exists>(v, b) \<in> set st. 0 < depth v \<and> limit < b + depth v)"
proof (induction limit st rule: exceeds_loop.induct)
  case (2 limit es below stack)
  show ?case
  proof (cases "limit < below + 1")
    case False
    have "(\<exists>e \<in> set es. 0 < depth (snd e) \<and> limit < below + 1 + depth (snd e)) \<longleftrightarrow>
        limit < below + depth (KvListV es)"
      using limit_below_max [of below limit "map (\<lambda>e. depth (snd e)) es"] False by simp
    moreover have "(\<exists>(w, b) \<in> set (rev (map (\<lambda>e. (snd e, below + 1)) es) @ stack). 0 < depth w \<and> limit < b + depth w) \<longleftrightarrow>
        (\<exists>e \<in> set es. 0 < depth (snd e) \<and> limit < below + 1 + depth (snd e)) \<or>
        (\<exists>(w, b) \<in> set stack. 0 < depth w \<and> limit < b + depth w)"
      by (simp add: bex_Un)
    ultimately show ?thesis
      using 2 False by (simp del: depth.simps add: bex_Un) (simp add: disj_commute)
  qed (force)
next
  case (3 limit vs below stack)
  show ?case
  proof (cases "limit < below + 1")
    case False
    have "(\<exists>v \<in> set vs. 0 < depth v \<and> limit < below + 1 + depth v) \<longleftrightarrow>
        limit < below + depth (ArrayV vs)"
      using limit_below_max [of below limit "map depth vs"] False by simp
    moreover have "(\<exists>(w, b) \<in> set (rev (map (\<lambda>v. (v, below + 1)) vs) @ stack). 0 < depth w \<and> limit < b + depth w) \<longleftrightarrow>
        (\<exists>v \<in> set vs. 0 < depth v \<and> limit < below + 1 + depth v) \<or>
        (\<exists>(w, b) \<in> set stack. 0 < depth w \<and> limit < b + depth w)"
      by (simp add: bex_Un)
    ultimately show ?thesis
      using 3 False by (simp del: depth.simps add: bex_Un) (simp add: disj_commute)
  qed (force)
qed auto

lemma exceeds_nesting_depth: "exceeds_nesting v limit \<longleftrightarrow> limit < depth v"
  by (auto simp: exceeds_nesting_def exceeds_loop_depth)

lemma foldr_max_append: "foldr max (xs @ ys) (0::nat) = max (foldr max xs 0) (foldr max ys 0)"
  by (induction xs) auto

lemma foldr_max_rev: "foldr max (rev xs) (0::nat) = foldr max xs 0"
  by (induction xs) (auto simp: foldr_max_append max.commute simp del: foldr_append)

lemma foldr_max_shift:
  "max (Suc b) (foldr max (map (\<lambda>n. if n = 0 then 0 else Suc b + n) ns) 0) = b + Suc (foldr max ns 0)"
  by (induction ns) auto

definition reached :: "(model_value \<times> usize) list \<Rightarrow> nat" where
  "reached st = foldr max (map (\<lambda>(v, b). if depth v = 0 then 0 else b + depth v) st) 0"

lemma reached_simps:
  "reached [] = 0"
  "reached ((v, b) # st) = max (if depth v = 0 then 0 else b + depth v) (reached st)"
  "reached (rev xs @ st) = max (reached xs) (reached st)"
  by (simp_all add: reached_def foldr_max_append rev_map [symmetric] foldr_max_rev del: foldr_append)

lemma nesting_loop_reached: "nesting_loop deepest st = max deepest (reached st)"
proof (induction deepest st rule: nesting_loop.induct)
  case (2 deepest es below stack)
  have "max (Suc below) (reached (map (\<lambda>e. (snd e, below + 1)) es)) = below + depth (KvListV es)"
    using foldr_max_shift [of below "map (\<lambda>e. depth (snd e)) es"]
    by (simp add: reached_def comp_def)
  with 2 show ?case by (simp add: reached_simps max.assoc del: depth.simps) (metis max.assoc)
next
  case (3 deepest vs below stack)
  have "max (Suc below) (reached (map (\<lambda>v. (v, below + 1)) vs)) = below + depth (ArrayV vs)"
    using foldr_max_shift [of below "map depth vs"]
    by (simp add: reached_def comp_def)
  with 3 show ?case by (simp add: reached_simps max.assoc del: depth.simps) (metis max.assoc)
qed (simp_all add: reached_simps)

lemma nesting_depth_depth: "nesting_depth v = depth v"
  by (simp add: nesting_depth_def nesting_loop_reached reached_simps)

end
