(* ===== verification/Records.thy ===== *)
theory Records
  imports Values
begin

text \<open>
  Trace context, resources and scopes, spans and log records:
  \<open>context.rs\<close>, \<open>resources.rs\<close>, \<open>spans.rs\<close> and \<open>logs.rs\<close> of \<open>crates/telemetry-model/src\<close>.

  Each struct is a record with the source's fields in the source's order. An id is the bytes
  the emitter sent; its width is the invariant \<open>wf_trace_id\<close> or \<open>wf_span_id\<close>. Equality is the
  program's: a resource compares by its attribute map only, so \<open>span_eq\<close> is not equality of
  records. An \<open>Arc\<close> is the value it holds.
\<close>

section \<open>Trace context\<close>

datatype trace_id = TraceId (trace_bytes: bytes)
datatype span_id = SpanId (span_bytes: bytes)

definition trace_id_length :: usize where
  "trace_id_length = 16"

definition span_id_length :: usize where
  "span_id_length = 8"

definition trace_id_is_valid :: "trace_id \<Rightarrow> bool" where
  "trace_id_is_valid t = list_ex (\<lambda>b. b \<noteq> 0) (trace_bytes t)"

definition span_id_is_valid :: "span_id \<Rightarrow> bool" where
  "span_id_is_valid s = list_ex (\<lambda>b. b \<noteq> 0) (span_bytes s)"

definition wf_trace_id :: "trace_id \<Rightarrow> bool" where
  "wf_trace_id t \<longleftrightarrow> length (trace_bytes t) = trace_id_length"

definition wf_span_id :: "span_id \<Rightarrow> bool" where
  "wf_span_id s \<longleftrightarrow> length (span_bytes s) = span_id_length"

datatype trace_flags = TraceFlags (flag_bits: u32)

unbundle bit_operations_syntax

definition sampled_bit :: u32 where
  "sampled_bit = 1"

definition sampled :: "trace_flags \<Rightarrow> bool" where
  "sampled f \<longleftrightarrow> flag_bits f AND sampled_bit = sampled_bit"

record trace_state_entry =
  vendor :: string
  entry_value :: string

datatype trace_state = TraceState (state_entries: "trace_state_entry list")

record trace_context =
  tc_trace_id :: trace_id
  tc_span_id :: span_id
  tc_flags :: trace_flags
  tc_tracestate :: trace_state

section \<open>Resources and scopes\<close>

record resource =
  res_attributes :: attributes
  res_schema_url :: "string option"
  res_dropped :: u32

definition resource_eq :: "resource \<Rightarrow> resource \<Rightarrow> bool" where
  "resource_eq a b \<longleftrightarrow> res_attributes a = res_attributes b"

definition resource_identical :: "resource \<Rightarrow> resource \<Rightarrow> bool" where
  "resource_identical a b \<longleftrightarrow>
     res_attributes a = res_attributes b \<and> res_schema_url a = res_schema_url b \<and>
     res_dropped a = res_dropped b"

record instrumentation_scope =
  sc_name :: string
  sc_version :: "string option"
  sc_attributes :: attributes
  sc_schema_url :: "string option"
  sc_dropped :: u32

lemma resource_identical_iff: "resource_identical a b \<longleftrightarrow> a = (b :: resource)"
  by (cases a; cases b) (auto simp: resource_identical_def)

lemma resource_eq_refl [simp]: "resource_eq a a"
  by (simp add: resource_eq_def)

section \<open>Spans\<close>

datatype span_kind = SpanUnspecified | Internal | Server | Client | Producer | Consumer

datatype span_status_code = StatusUnset | StatusOk | StatusError

record span_status =
  st_code :: span_status_code
  st_message :: string

record emitter_dropped_counts =
  ed_attributes :: u32
  ed_events :: u32
  ed_links :: u32

record span_event =
  ev_time :: "u64 option"
  ev_name :: string
  ev_attributes :: attributes
  ev_dropped :: u32

record span_link =
  ln_context :: trace_context
  ln_attributes :: attributes
  ln_dropped :: u32

record span =
  sp_context :: trace_context
  sp_parent_span_id :: "span_id option"
  sp_name :: string
  sp_kind :: span_kind
  sp_start_time :: u64
  sp_end_time :: "u64 option"
  sp_resource :: resource
  sp_scope :: instrumentation_scope
  sp_attributes :: attributes
  sp_emitter_dropped :: emitter_dropped_counts
  sp_events :: "span_event list"
  sp_links :: "span_link list"
  sp_status :: span_status

definition natural_identity :: "span \<Rightarrow> (trace_id \<times> span_id) option" where
  "natural_identity s =
     (if trace_id_is_valid (tc_trace_id (sp_context s)) \<and> span_id_is_valid (tc_span_id (sp_context s))
      then Some (tc_trace_id (sp_context s), tc_span_id (sp_context s))
      else None)"

definition span_eq :: "span \<Rightarrow> span \<Rightarrow> bool" where
  "span_eq a b \<longleftrightarrow>
     sp_context a = sp_context b \<and> sp_parent_span_id a = sp_parent_span_id b \<and>
     sp_name a = sp_name b \<and> sp_kind a = sp_kind b \<and>
     sp_start_time a = sp_start_time b \<and> sp_end_time a = sp_end_time b \<and>
     resource_eq (sp_resource a) (sp_resource b) \<and> sp_scope a = sp_scope b \<and>
     sp_attributes a = sp_attributes b \<and> sp_emitter_dropped a = sp_emitter_dropped b \<and>
     sp_events a = sp_events b \<and> sp_links a = sp_links b \<and> sp_status a = sp_status b"

lemma span_eq_refl [simp]: "span_eq a a"
  by (simp add: span_eq_def)

lemma natural_identity_Some:
  "natural_identity s = Some k \<Longrightarrow>
     k = (tc_trace_id (sp_context s), tc_span_id (sp_context s)) \<and>
     trace_id_is_valid (fst k) \<and> span_id_is_valid (snd k)"
  by (auto simp: natural_identity_def split: if_splits)

section \<open>Log records\<close>

datatype severity_number = SeverityNumber (severity_of: u8)

record severity_out_of_range =
  attempted :: u8

definition severity_min :: u8 where
  "severity_min = 1"

definition severity_max :: u8 where
  "severity_max = 24"

definition severity_try_new :: "u8 \<Rightarrow> severity_out_of_range + severity_number" where
  "severity_try_new number =
     (if severity_min \<le> number \<and> number \<le> severity_max
      then Inr (SeverityNumber number)
      else Inl \<lparr>attempted = number\<rparr>)"

record log_record =
  lg_timestamp :: "u64 option"
  lg_observed_timestamp :: "u64 option"
  lg_severity_number :: "severity_number option"
  lg_severity_text :: "string option"
  lg_body :: "model_value option"
  lg_resource :: resource
  lg_scope :: instrumentation_scope
  lg_attributes :: attributes
  lg_dropped :: u32
  lg_trace_id :: "trace_id option"
  lg_span_id :: "span_id option"
  lg_trace_flags :: "trace_flags option"
  lg_event_name :: "string option"

definition log_correlation_pair :: "log_record \<Rightarrow> (trace_id \<times> span_id) option" where
  "log_correlation_pair r =
     (case (lg_trace_id r, lg_span_id r) of
        (Some t, Some s) \<Rightarrow> Some (t, s)
      | _ \<Rightarrow> None)"

lemma severity_try_new_Inr:
  "severity_try_new n = Inr s \<longleftrightarrow> 1 \<le> n \<and> n \<le> 24 \<and> s = SeverityNumber n"
  by (auto simp: severity_try_new_def severity_min_def severity_max_def)

section \<open>Values of a record\<close>

text \<open>What the constructors of the containers guarantee of everything a record carries.\<close>

definition wf_attribute_set :: "attributes \<Rightarrow> bool" where
  "wf_attribute_set a \<longleftrightarrow> wf_attributes a \<and> (\<forall>e \<in> set a. wf_value (snd e))"

definition wf_context :: "trace_context \<Rightarrow> bool" where
  "wf_context c \<longleftrightarrow> wf_trace_id (tc_trace_id c) \<and> wf_span_id (tc_span_id c)"

definition wf_resource :: "resource \<Rightarrow> bool" where
  "wf_resource r \<longleftrightarrow> wf_attribute_set (res_attributes r)"

definition wf_scope :: "instrumentation_scope \<Rightarrow> bool" where
  "wf_scope s \<longleftrightarrow> wf_attribute_set (sc_attributes s)"

definition wf_span :: "span \<Rightarrow> bool" where
  "wf_span s \<longleftrightarrow>
     wf_context (sp_context s) \<and> pred_option wf_span_id (sp_parent_span_id s) \<and>
     wf_resource (sp_resource s) \<and> wf_scope (sp_scope s) \<and> wf_attribute_set (sp_attributes s) \<and>
     (\<forall>e \<in> set (sp_events s). wf_attribute_set (ev_attributes e)) \<and>
     (\<forall>l \<in> set (sp_links s). wf_context (ln_context l) \<and> wf_attribute_set (ln_attributes l))"

definition wf_severity :: "severity_number \<Rightarrow> bool" where
  "wf_severity n \<longleftrightarrow> severity_min \<le> severity_of n \<and> severity_of n \<le> severity_max"

definition wf_log_record :: "log_record \<Rightarrow> bool" where
  "wf_log_record r \<longleftrightarrow>
     pred_option wf_severity (lg_severity_number r) \<and> pred_option wf_value (lg_body r) \<and>
     wf_resource (lg_resource r) \<and> wf_scope (lg_scope r) \<and> wf_attribute_set (lg_attributes r) \<and>
     pred_option wf_trace_id (lg_trace_id r) \<and> pred_option wf_span_id (lg_span_id r)"

end
