(* ===== verification/Metrics.thy ===== *)
theory Metrics
  imports Records
begin

text \<open>
  Metric streams and data points: \<open>crates/telemetry-model/src/metrics.rs\<close>.

  The five stream kinds, the four point shapes, the shape law that pairs them, and the two
  comparisons the admission ledger runs on: \<open>stream_eq\<close>, the full content of a stream
  identity (a resource by its attributes only), and \<open>point_key_eq\<close>, the projected key of a
  point, which is blind to the stream's descriptor and to the point's payload. The source
  states \<open>point_key_eq\<close> as a comparison chain whose result is \<open>Equal\<close> exactly when every
  compared field is equal, which is what is modelled: the order itself is never observed.
\<close>

section \<open>Kinds, shapes, numbers\<close>

datatype metric_number = IntNumber i64 | DoubleNumber float_bits

datatype stream_kind =
    Gauge
  | Sum (monotonic: bool)
  | Histogram
  | ExponentialHistogram
  | Summary

datatype point_shape = NumberShape | HistogramShape | ExponentialHistogramShape | SummaryShape

datatype temporality = Delta | Cumulative

fun kind_point_shape :: "stream_kind \<Rightarrow> point_shape" where
  "kind_point_shape Gauge = NumberShape"
| "kind_point_shape (Sum _) = NumberShape"
| "kind_point_shape Histogram = HistogramShape"
| "kind_point_shape ExponentialHistogram = ExponentialHistogramShape"
| "kind_point_shape Summary = SummaryShape"

definition requires_start_time :: "stream_kind \<Rightarrow> bool" where
  "requires_start_time k \<longleftrightarrow> (case k of Gauge \<Rightarrow> False | _ \<Rightarrow> True)"

section \<open>Points\<close>

record exemplar =
  ex_value :: metric_number
  ex_time :: u64
  ex_filtered_attributes :: attributes
  ex_trace_id :: "trace_id option"
  ex_span_id :: "span_id option"

definition exemplar_correlation_pair :: "exemplar \<Rightarrow> (trace_id \<times> span_id) option" where
  "exemplar_correlation_pair e =
     (case (ex_trace_id e, ex_span_id e) of
        (Some t, Some s) \<Rightarrow> Some (t, s)
      | _ \<Rightarrow> None)"

record number_point =
  np_attributes :: attributes
  np_start_time :: "u64 option"
  np_time :: u64
  np_value :: metric_number
  np_flags :: u32
  np_exemplars :: "exemplar list"

record histogram_point =
  hp_attributes :: attributes
  hp_start_time :: u64
  hp_time :: u64
  hp_count :: u64
  hp_sum :: "float_bits option"
  hp_bucket_counts :: "u64 list"
  hp_explicit_bounds :: "float_bits list"
  hp_min :: "float_bits option"
  hp_max :: "float_bits option"
  hp_flags :: u32
  hp_exemplars :: "exemplar list"

record exponential_buckets =
  eb_offset :: i32
  eb_bucket_counts :: "u64 list"

record exponential_histogram_point =
  xp_attributes :: attributes
  xp_start_time :: u64
  xp_time :: u64
  xp_count :: u64
  xp_sum :: "float_bits option"
  xp_scale :: i32
  xp_zero_count :: u64
  xp_zero_threshold :: float_bits
  xp_positive :: exponential_buckets
  xp_negative :: exponential_buckets
  xp_min :: "float_bits option"
  xp_max :: "float_bits option"
  xp_flags :: u32
  xp_exemplars :: "exemplar list"

record quantile_value =
  qv_quantile :: float_bits
  qv_value :: float_bits

record summary_point =
  sm_attributes :: attributes
  sm_start_time :: u64
  sm_time :: u64
  sm_count :: u64
  sm_sum :: "float_bits option"
  sm_quantiles :: "quantile_value list"
  sm_flags :: u32
  sm_exemplars :: "exemplar list"

datatype metric_point =
    NumberP number_point
  | HistogramP histogram_point
  | ExponentialHistogramP exponential_histogram_point
  | SummaryP summary_point

fun point_shape_of :: "metric_point \<Rightarrow> point_shape" where
  "point_shape_of (NumberP _) = NumberShape"
| "point_shape_of (HistogramP _) = HistogramShape"
| "point_shape_of (ExponentialHistogramP _) = ExponentialHistogramShape"
| "point_shape_of (SummaryP _) = SummaryShape"

fun point_attributes :: "metric_point \<Rightarrow> attributes" where
  "point_attributes (NumberP p) = np_attributes p"
| "point_attributes (HistogramP p) = hp_attributes p"
| "point_attributes (ExponentialHistogramP p) = xp_attributes p"
| "point_attributes (SummaryP p) = sm_attributes p"

fun point_start_time :: "metric_point \<Rightarrow> u64 option" where
  "point_start_time (NumberP p) = np_start_time p"
| "point_start_time (HistogramP p) = Some (hp_start_time p)"
| "point_start_time (ExponentialHistogramP p) = Some (xp_start_time p)"
| "point_start_time (SummaryP p) = Some (sm_start_time p)"

fun point_time :: "metric_point \<Rightarrow> u64" where
  "point_time (NumberP p) = np_time p"
| "point_time (HistogramP p) = hp_time p"
| "point_time (ExponentialHistogramP p) = xp_time p"
| "point_time (SummaryP p) = sm_time p"

fun point_flags :: "metric_point \<Rightarrow> u32" where
  "point_flags (NumberP p) = np_flags p"
| "point_flags (HistogramP p) = hp_flags p"
| "point_flags (ExponentialHistogramP p) = xp_flags p"
| "point_flags (SummaryP p) = sm_flags p"

fun point_exemplars :: "metric_point \<Rightarrow> exemplar list" where
  "point_exemplars (NumberP p) = np_exemplars p"
| "point_exemplars (HistogramP p) = hp_exemplars p"
| "point_exemplars (ExponentialHistogramP p) = xp_exemplars p"
| "point_exemplars (SummaryP p) = sm_exemplars p"

definition identity_payload_eq :: "metric_point \<Rightarrow> metric_point \<Rightarrow> stream_kind \<Rightarrow> bool" where
  "identity_payload_eq p q k =
     (if k = Gauge
      then (case (p, q) of
              (NumberP a, NumberP b) \<Rightarrow>
                np_attributes a = np_attributes b \<and> np_time a = np_time b \<and>
                np_value a = np_value b \<and> np_flags a = np_flags b \<and>
                np_exemplars a = np_exemplars b
            | _ \<Rightarrow> False)
      else p = q)"

section \<open>Stream identity and the shape law\<close>

record stream_identity =
  si_resource :: resource
  si_scope :: instrumentation_scope
  si_name :: string
  si_description :: "string option"
  si_unit :: "string option"
  si_metadata :: attributes
  si_kind :: stream_kind
  si_temporality :: "temporality option"

definition stream_eq :: "stream_identity \<Rightarrow> stream_identity \<Rightarrow> bool" where
  "stream_eq a b \<longleftrightarrow>
     resource_eq (si_resource a) (si_resource b) \<and> si_scope a = si_scope b \<and>
     si_name a = si_name b \<and> si_description a = si_description b \<and> si_unit a = si_unit b \<and>
     si_metadata a = si_metadata b \<and> si_kind a = si_kind b \<and>
     si_temporality a = si_temporality b"

datatype stream_shape_error =
    KindShapeMismatch usize point_shape point_shape
  | IntervalKindMissingStartTime usize
  | TemporalityMismatch stream_kind "temporality option"

definition expects_temporality :: "stream_kind \<Rightarrow> bool" where
  "expects_temporality k \<longleftrightarrow>
     (case k of Gauge \<Rightarrow> False | Summary \<Rightarrow> False
      | Sum _ \<Rightarrow> True | Histogram \<Rightarrow> True | ExponentialHistogram \<Rightarrow> True)"

definition check_identity_coherence :: "stream_identity \<Rightarrow> stream_shape_error + unit" where
  "check_identity_coherence s =
     (if expects_temporality (si_kind s) \<noteq> (si_temporality s \<noteq> None)
      then Inl (TemporalityMismatch (si_kind s) (si_temporality s))
      else Inr ())"

definition check_point_coherence ::
  "stream_identity \<Rightarrow> metric_point \<Rightarrow> usize \<Rightarrow> stream_shape_error + unit" where
  "check_point_coherence s p index =
     (let expected = kind_point_shape (si_kind s); found = point_shape_of p
      in if expected \<noteq> found then Inl (KindShapeMismatch index expected found)
         else if requires_start_time (si_kind s) \<and> point_start_time p = None
         then Inl (IntervalKindMissingStartTime index)
         else Inr ())"

record metric_stream =
  ms_identity :: stream_identity
  ms_points :: "metric_point list"

text \<open>The loop of \<open>MetricStream::new\<close> over the enumerated points.\<close>

fun check_points_from :: "stream_identity \<Rightarrow> usize \<Rightarrow> metric_point list \<Rightarrow> stream_shape_error + unit" where
  "check_points_from s i [] = Inr ()"
| "check_points_from s i (p # ps) =
     and_then (check_point_coherence s p i) (\<lambda>_. check_points_from s (Suc i) ps)"

definition metric_stream_new ::
  "stream_identity \<Rightarrow> metric_point list \<Rightarrow> stream_shape_error + metric_stream" where
  "metric_stream_new s ps =
     (if expects_temporality (si_kind s) \<noteq> (si_temporality s \<noteq> None)
      then Inl (TemporalityMismatch (si_kind s) (si_temporality s))
      else and_then (check_points_from s 0 ps)
             (\<lambda>_. Inr \<lparr>ms_identity = s, ms_points = ps\<rparr>))"

section \<open>Point identity\<close>

record point_identity =
  pi_stream :: stream_identity
  pi_point :: metric_point
  pi_start_time :: "u64 option"
  pi_time :: u64
  pi_flags :: u32

definition of_interned :: "stream_identity \<Rightarrow> metric_point \<Rightarrow> point_identity" where
  "of_interned s p =
     \<lparr>pi_stream = s, pi_point = p,
      pi_start_time = (if requires_start_time (si_kind s) then point_start_time p else None),
      pi_time = point_time p, pi_flags = point_flags p\<rparr>"

definition projected_stream_eq :: "stream_identity \<Rightarrow> stream_identity \<Rightarrow> bool" where
  "projected_stream_eq a b \<longleftrightarrow>
     resource_eq (si_resource a) (si_resource b) \<and> si_scope a = si_scope b \<and>
     si_name a = si_name b \<and> si_kind a = si_kind b \<and> si_temporality a = si_temporality b"

definition point_key_eq :: "point_identity \<Rightarrow> point_identity \<Rightarrow> bool" where
  "point_key_eq a b \<longleftrightarrow>
     projected_stream_eq (pi_stream a) (pi_stream b) \<and>
     point_attributes (pi_point a) = point_attributes (pi_point b) \<and>
     pi_start_time a = pi_start_time b \<and> pi_time a = pi_time b \<and> pi_flags a = pi_flags b"

interpretation stream_key: content_key stream_eq
  by unfold_locales (auto simp: stream_eq_def resource_eq_def)

interpretation point_key: content_key point_key_eq
  by unfold_locales (auto simp: point_key_eq_def projected_stream_eq_def resource_eq_def)

lemma stream_eq_projected: "stream_eq a b \<Longrightarrow> projected_stream_eq a b"
  by (auto simp: stream_eq_def projected_stream_eq_def)

lemma point_key_eq_of_interned:
  "point_key_eq (of_interned s p) (of_interned s q) \<longleftrightarrow>
     point_attributes p = point_attributes q \<and>
     (requires_start_time (si_kind s) \<longrightarrow> point_start_time p = point_start_time q) \<and>
     point_time p = point_time q \<and> point_flags p = point_flags q"
  by (auto simp: point_key_eq_def of_interned_def projected_stream_eq_def)

lemma check_points_from_Inr:
  "check_points_from s i ps = Inr () \<longleftrightarrow> (\<forall>p \<in> set ps. check_point_coherence s p 0 = Inr ())"
  by (induction s i ps rule: check_points_from.induct)
     (auto simp: check_point_coherence_def Let_def split: if_splits)

lemma check_identity_coherence_Inr:
  "check_identity_coherence s = Inr () \<longleftrightarrow>
     (expects_temporality (si_kind s) \<longleftrightarrow> si_temporality s \<noteq> None)"
  by (simp add: check_identity_coherence_def)

lemma check_point_coherence_Inr:
  "check_point_coherence s p i = Inr () \<longleftrightarrow>
     kind_point_shape (si_kind s) = point_shape_of p \<and>
     (requires_start_time (si_kind s) \<longrightarrow> point_start_time p \<noteq> None)"
  by (auto simp: check_point_coherence_def Let_def)

definition wf_exemplar :: "exemplar \<Rightarrow> bool" where
  "wf_exemplar e \<longleftrightarrow>
     wf_attribute_set (ex_filtered_attributes e) \<and>
     pred_option wf_trace_id (ex_trace_id e) \<and> pred_option wf_span_id (ex_span_id e)"

definition wf_point :: "metric_point \<Rightarrow> bool" where
  "wf_point p \<longleftrightarrow> wf_attribute_set (point_attributes p) \<and> (\<forall>e \<in> set (point_exemplars p). wf_exemplar e)"

definition wf_stream :: "stream_identity \<Rightarrow> bool" where
  "wf_stream s \<longleftrightarrow>
     wf_resource (si_resource s) \<and> wf_scope (si_scope s) \<and> wf_attribute_set (si_metadata s)"

end
