(* ===== verification/Sizes.thy ===== *)
theory Sizes
  imports Metrics
begin

text \<open>
  Accounted size, the number every byte ceiling counts: \<open>crates/telemetry-model/src/size.rs\<close>.

  One definition per \<open>Accounted\<close> implementation, with the source's terms in the source's
  order. \<open>slot_bytes::<T>()\<close> is twice \<open>size_of::<T>()\<close>, and the compiler chooses the layout
  of the program's own types, so those sizes are a parameter \<open>L\<close> of the definitions, a
  \<open>layout\<close>; only \<open>u64\<close> and \<open>Float\<close>, a one-field struct over \<open>u64\<close>, have a fixed one. \<open>layout64\<close>
  is an instance with plausible sizes for a 64-bit target, for evaluation. \<open>value_stack_bytes\<close> is the
  source's loop over an explicit stack (its top is the head of the list) and is proved equal
  to the recursive \<open>value_bytes\<close>.
\<close>

section \<open>Constants and layout\<close>

definition STRUCTURE_FIXED_BYTES :: usize where
  "STRUCTURE_FIXED_BYTES = 16"

definition KEYED_ENTRY_BYTES :: usize where
  "KEYED_ENTRY_BYTES = 160"

definition ATTRIBUTE_MAP_NODE_BYTES :: usize where
  "ATTRIBUTE_MAP_NODE_BYTES = 768"

definition STRING_ALLOCATION_CHUNK_BYTES :: usize where
  "STRING_ALLOCATION_CHUNK_BYTES = 32"

lemmas size_constants =
  STRUCTURE_FIXED_BYTES_def KEYED_ENTRY_BYTES_def ATTRIBUTE_MAP_NODE_BYTES_def
  STRING_ALLOCATION_CHUNK_BYTES_def

text \<open>\<open>size_of\<close> of the types that are held in growing vectors.\<close>

record layout =
  value_size_of :: usize
  event_size_of :: usize
  link_size_of :: usize
  exemplar_size_of :: usize
  quantile_size_of :: usize
  point_size_of :: usize

definition layout64 :: layout where
  "layout64 = \<lparr>value_size_of = 32, event_size_of = 72, link_size_of = 80,
     exemplar_size_of = 96, quantile_size_of = 16, point_size_of = 248\<rparr>"

definition slot_bytes :: "usize \<Rightarrow> usize" where
  "slot_bytes size_of = 2 * size_of"

definition u64_slot :: usize where
  "u64_slot = slot_bytes 8"

definition heap_string_bytes :: "string \<Rightarrow> usize" where
  "heap_string_bytes text = STRING_ALLOCATION_CHUNK_BYTES + length text"

definition opt_string_bytes :: "string option \<Rightarrow> usize" where
  "opt_string_bytes t = (case t of None \<Rightarrow> 0 | Some s \<Rightarrow> heap_string_bytes s)"

definition opt_bytes :: "usize \<Rightarrow> 'a option \<Rightarrow> usize" where
  "opt_bytes n x = (case x of None \<Rightarrow> 0 | Some _ \<Rightarrow> n)"

section \<open>Values\<close>

function value_stack_bytes :: "layout \<Rightarrow> usize \<Rightarrow> model_value list \<Rightarrow> usize" where
  "value_stack_bytes L tot [] = tot"
| "value_stack_bytes L tot (StringV s # stack) = value_stack_bytes L (tot + length s) stack"
| "value_stack_bytes L tot (BoolV b # stack) = value_stack_bytes L (tot + 1) stack"
| "value_stack_bytes L tot (IntV i # stack) = value_stack_bytes L (tot + 8) stack"
| "value_stack_bytes L tot (DoubleV d # stack) = value_stack_bytes L (tot + 8) stack"
| "value_stack_bytes L tot (BytesV bs # stack) = value_stack_bytes L (tot + length bs) stack"
| "value_stack_bytes L tot (ArrayV vs # stack) =
     value_stack_bytes L (tot + length vs * slot_bytes (value_size_of L)) (rev vs @ stack)"
| "value_stack_bytes L tot (KvListV es # stack) =
     value_stack_bytes L
       (tot + sum_list (map (\<lambda>e. KEYED_ENTRY_BYTES + length (fst e)) es))
       (rev (map snd es) @ stack)"
  by pat_completeness auto

definition values_weight :: "model_value list \<Rightarrow> nat" where
  "values_weight st = stack_weight (map (\<lambda>v. (v, 0)) st)"

lemma values_weight_simps [simp]:
  "values_weight [] = 0"
  "values_weight (v # st) = Suc (size v) + values_weight st"
  "values_weight (xs @ ys) = values_weight xs + values_weight ys"
  "values_weight (rev xs) = values_weight xs"
  by (simp_all add: values_weight_def rev_map [symmetric])

lemma values_weight_items: "values_weight vs = size_list size vs"
  by (simp add: values_weight_def stack_weight_items)

lemma values_weight_entries: "values_weight (map snd es) \<le> size_list (size_prod (\<lambda>_. 0) size) es"
  using stack_weight_entries [of 0 es] by (simp add: values_weight_def comp_def)

termination value_stack_bytes
proof (relation "measure (\<lambda>(L, tot, st). values_weight st)", goal_cases)
  case (7 L tot vs stack)
  then show ?case using values_weight_items [of vs] by simp
next
  case (8 L tot es stack)
  then show ?case using values_weight_entries [of es] by simp
qed auto

definition value_bytes :: "layout \<Rightarrow> model_value \<Rightarrow> usize" where
  "value_bytes L v = value_stack_bytes L 0 [v]"

definition attribute_entry_size :: "layout \<Rightarrow> string \<Rightarrow> model_value \<Rightarrow> usize" where
  "attribute_entry_size L key v = KEYED_ENTRY_BYTES + length key + value_bytes L v"

definition float_size :: "float_bits \<Rightarrow> usize" where
  "float_size _ = 8"

definition array_size :: "layout \<Rightarrow> model_value list \<Rightarrow> usize" where
  "array_size L vs = length vs * slot_bytes (value_size_of L) + value_stack_bytes L 0 (rev vs)"

definition kv_list_size :: "layout \<Rightarrow> (string \<times> model_value) list \<Rightarrow> usize" where
  "kv_list_size L es =
     sum_list (map (\<lambda>e. KEYED_ENTRY_BYTES + length (fst e)) es) +
     value_stack_bytes L 0 (rev (map snd es))"

definition attributes_size :: "layout \<Rightarrow> attributes \<Rightarrow> usize" where
  "attributes_size L a =
     (if a = [] then 0
      else ATTRIBUTE_MAP_NODE_BYTES +
           sum_list (map (\<lambda>e. KEYED_ENTRY_BYTES + length (fst e)) a) +
           value_stack_bytes L 0 (rev (map snd a)))"

text \<open>The recursive reading of the module's formula.\<close>

fun value_size :: "layout \<Rightarrow> model_value \<Rightarrow> nat" where
  "value_size L (StringV s) = length s"
| "value_size L (BoolV b) = 1"
| "value_size L (IntV i) = 8"
| "value_size L (DoubleV d) = 8"
| "value_size L (BytesV bs) = length bs"
| "value_size L (ArrayV vs) = sum_list (map (\<lambda>v. slot_bytes (value_size_of L) + value_size L v) vs)"
| "value_size L (KvListV es) =
     sum_list (map (\<lambda>e. KEYED_ENTRY_BYTES + length (fst e) + value_size L (snd e)) es)"

lemma sum_list_rev [simp]: "sum_list (rev xs) = sum_list (xs :: nat list)"
  by (induction xs) auto

lemma value_stack_bytes_sum:
  "value_stack_bytes L tot st = tot + sum_list (map (value_size L) st)"
proof (induction L tot st rule: value_stack_bytes.induct)
  case (7 L tot vs stack)
  then show ?case
    by (simp add: rev_map [symmetric] sum_list_addf sum_list_triv)
next
  case (8 L tot es stack)
  then show ?case
    by (simp add: rev_map [symmetric] sum_list_addf comp_def)
qed auto

lemma value_bytes_size [simp]: "value_bytes L v = value_size L v"
  by (simp add: value_bytes_def value_stack_bytes_sum)

lemma array_size_value: "array_size L vs = value_size L (ArrayV vs)"
  by (simp add: array_size_def value_stack_bytes_sum rev_map [symmetric] sum_list_addf
      sum_list_triv)

lemma kv_list_size_value: "kv_list_size L es = value_size L (KvListV es)"
  by (simp add: kv_list_size_def value_stack_bytes_sum rev_map [symmetric] sum_list_addf comp_def)

lemma attributes_size_entries:
  "attributes_size L a =
     (if a = [] then 0
      else ATTRIBUTE_MAP_NODE_BYTES + sum_list (map (\<lambda>e. attribute_entry_size L (fst e) (snd e)) a))"
  by (simp add: attributes_size_def attribute_entry_size_def value_stack_bytes_sum
      rev_map [symmetric] sum_list_addf comp_def)

lemma sum_list_le_count:
  "\<forall>x \<in> set xs. f x \<le> b \<Longrightarrow> sum_list (map f xs) \<le> length xs * (b :: nat)"
  by (induction xs) auto

lemma attributes_size_bound:
  assumes "\<forall>e \<in> set a. attribute_entry_size L (fst e) (snd e) \<le> b" and "length a \<le> n"
  shows "attributes_size L a \<le> ATTRIBUTE_MAP_NODE_BYTES + n * b"
proof -
  have "sum_list (map (\<lambda>e. attribute_entry_size L (fst e) (snd e)) a) \<le> length a * b"
    using assms(1) by (rule sum_list_le_count)
  also have "\<dots> \<le> n * b" using assms(2) by simp
  finally show ?thesis by (simp add: attributes_size_entries)
qed

section \<open>Structures\<close>

definition entry_size :: "trace_state_entry \<Rightarrow> usize" where
  "entry_size e = KEYED_ENTRY_BYTES + length (vendor e) + length (entry_value e)"

definition trace_state_size :: "trace_state \<Rightarrow> usize" where
  "trace_state_size t = sum_list (map entry_size (state_entries t))"

definition trace_id_size :: "trace_id \<Rightarrow> usize" where
  "trace_id_size _ = trace_id_length"

definition span_id_size :: "span_id \<Rightarrow> usize" where
  "span_id_size _ = span_id_length"

definition context_size :: "trace_context \<Rightarrow> usize" where
  "context_size c =
     STRUCTURE_FIXED_BYTES + trace_id_size (tc_trace_id c) + span_id_size (tc_span_id c) + 4 +
     trace_state_size (tc_tracestate c)"

definition resource_size :: "layout \<Rightarrow> resource \<Rightarrow> usize" where
  "resource_size L r =
     STRUCTURE_FIXED_BYTES + attributes_size L (res_attributes r) +
     opt_string_bytes (res_schema_url r) + 4"

definition scope_size :: "layout \<Rightarrow> instrumentation_scope \<Rightarrow> usize" where
  "scope_size L s =
     STRUCTURE_FIXED_BYTES + heap_string_bytes (sc_name s) + opt_string_bytes (sc_version s) +
     attributes_size L (sc_attributes s) + opt_string_bytes (sc_schema_url s) + 4"

definition status_size :: "span_status \<Rightarrow> usize" where
  "status_size s = STRUCTURE_FIXED_BYTES + 1 + heap_string_bytes (st_message s)"

definition event_size :: "layout \<Rightarrow> span_event \<Rightarrow> usize" where
  "event_size L e =
     STRUCTURE_FIXED_BYTES + 8 + heap_string_bytes (ev_name e) +
     attributes_size L (ev_attributes e) + 4"

definition link_size :: "layout \<Rightarrow> span_link \<Rightarrow> usize" where
  "link_size L l =
     STRUCTURE_FIXED_BYTES + context_size (ln_context l) + attributes_size L (ln_attributes l) + 4"

definition span_size :: "layout \<Rightarrow> span \<Rightarrow> usize" where
  "span_size L s =
     STRUCTURE_FIXED_BYTES + context_size (sp_context s) +
     opt_bytes span_id_length (sp_parent_span_id s) +
     heap_string_bytes (sp_name s) + 1 + 8 + opt_bytes 8 (sp_end_time s) +
     resource_size L (sp_resource s) + scope_size L (sp_scope s) +
     attributes_size L (sp_attributes s) + 12 +
     length (sp_events s) * slot_bytes (event_size_of L) +
     sum_list (map (event_size L) (sp_events s)) +
     length (sp_links s) * slot_bytes (link_size_of L) +
     sum_list (map (link_size L) (sp_links s)) +
     status_size (sp_status s)"

definition log_record_size :: "layout \<Rightarrow> log_record \<Rightarrow> usize" where
  "log_record_size L r =
     STRUCTURE_FIXED_BYTES + opt_bytes 8 (lg_timestamp r) + opt_bytes 8 (lg_observed_timestamp r) +
     opt_bytes 1 (lg_severity_number r) + opt_string_bytes (lg_severity_text r) +
     (case lg_body r of None \<Rightarrow> 0 | Some v \<Rightarrow> value_bytes L v) +
     resource_size L (lg_resource r) + scope_size L (lg_scope r) +
     attributes_size L (lg_attributes r) + 4 +
     opt_bytes trace_id_length (lg_trace_id r) + opt_bytes span_id_length (lg_span_id r) +
     opt_bytes 4 (lg_trace_flags r) + opt_string_bytes (lg_event_name r)"

definition metric_number_size :: "metric_number \<Rightarrow> usize" where
  "metric_number_size n = 8"

definition exemplar_size :: "layout \<Rightarrow> exemplar \<Rightarrow> usize" where
  "exemplar_size L e =
     STRUCTURE_FIXED_BYTES + metric_number_size (ex_value e) + 8 +
     attributes_size L (ex_filtered_attributes e) +
     opt_bytes trace_id_length (ex_trace_id e) + opt_bytes span_id_length (ex_span_id e)"

definition quantile_size :: "quantile_value \<Rightarrow> usize" where
  "quantile_size _ = STRUCTURE_FIXED_BYTES + 16"

definition buckets_size :: "exponential_buckets \<Rightarrow> usize" where
  "buckets_size b = STRUCTURE_FIXED_BYTES + 4 + length (eb_bucket_counts b) * u64_slot"

definition exemplars_size :: "layout \<Rightarrow> exemplar list \<Rightarrow> usize" where
  "exemplars_size L es =
     length es * slot_bytes (exemplar_size_of L) + sum_list (map (exemplar_size L) es)"

fun point_size :: "layout \<Rightarrow> metric_point \<Rightarrow> usize" where
  "point_size L (NumberP p) =
     STRUCTURE_FIXED_BYTES + attributes_size L (np_attributes p) + opt_bytes 8 (np_start_time p) +
     8 + metric_number_size (np_value p) + 4 + exemplars_size L (np_exemplars p)"
| "point_size L (HistogramP p) =
     STRUCTURE_FIXED_BYTES + attributes_size L (hp_attributes p) + 16 + 8 + opt_bytes 8 (hp_sum p) +
     length (hp_bucket_counts p) * u64_slot + length (hp_explicit_bounds p) * u64_slot +
     opt_bytes 8 (hp_min p) + opt_bytes 8 (hp_max p) + 4 + exemplars_size L (hp_exemplars p)"
| "point_size L (ExponentialHistogramP p) =
     STRUCTURE_FIXED_BYTES + attributes_size L (xp_attributes p) + 16 + 8 + opt_bytes 8 (xp_sum p) +
     4 + 8 + 8 + buckets_size (xp_positive p) + buckets_size (xp_negative p) +
     opt_bytes 8 (xp_min p) + opt_bytes 8 (xp_max p) + 4 + exemplars_size L (xp_exemplars p)"
| "point_size L (SummaryP p) =
     STRUCTURE_FIXED_BYTES + attributes_size L (sm_attributes p) + 16 + 8 + opt_bytes 8 (sm_sum p) +
     length (sm_quantiles p) * slot_bytes (quantile_size_of L) +
     sum_list (map quantile_size (sm_quantiles p)) + 4 + exemplars_size L (sm_exemplars p)"

definition stream_size :: "layout \<Rightarrow> stream_identity \<Rightarrow> usize" where
  "stream_size L s =
     STRUCTURE_FIXED_BYTES + resource_size L (si_resource s) + scope_size L (si_scope s) +
     heap_string_bytes (si_name s) + opt_string_bytes (si_description s) +
     opt_string_bytes (si_unit s) + attributes_size L (si_metadata s) + 1"

definition metric_stream_size :: "layout \<Rightarrow> metric_stream \<Rightarrow> usize" where
  "metric_stream_size L m =
     stream_size L (ms_identity m) + length (ms_points m) * slot_bytes (point_size_of L) +
     sum_list (map (point_size L) (ms_points m))"

text \<open>Every record is charged at least its fixed part: no record is free.\<close>

lemma sizes_positive:
  "0 < span_size L s" "0 < log_record_size L r" "0 < point_size L p" "0 < stream_size L i"
  by (simp_all add: span_size_def log_record_size_def stream_size_def size_constants)
     (cases p; simp add: size_constants)

end
