(* ===== verification/Budgets.thy ===== *)
theory Budgets
  imports Sizes
begin

text \<open>
  The budget taxonomy and the admission-gate checks:
  \<open>crates/telemetry-model/src/budgets.rs\<close>.

  \<open>budget_limits\<close> is the struct with the source's defaults, \<open>budget_rejection\<close> the refusal with
  the budget named, and one definition per check, in the source's order: the first budget a
  record trips is the one its refusal names. The lemmas characterise what a passed gate
  proves of the record (\<open>budget_*\<close>), which is the module's admitted-data invariant.
\<close>

section \<open>Limits and refusals\<close>

definition OTLP_PAYLOAD_BYTES :: usize where
  "OTLP_PAYLOAD_BYTES = 4 * 1024 * 1024"

record budget_limits =
  attributes_per_signal :: usize
  attributes_per_nested_set :: usize
  attribute_value_bytes :: usize
  span_events_per_span :: usize
  span_links_per_span :: usize
  exemplars_per_data_point :: usize
  key_value_list_depth :: usize
  data_points_per_export :: usize
  records_per_export :: usize
  numeric_vector_entries_per_data_point :: usize

definition default_budget_limits :: budget_limits where
  "default_budget_limits =
     \<lparr>attributes_per_signal = 256,
      attributes_per_nested_set = 64,
      attribute_value_bytes = 4 * 1024,
      span_events_per_span = 128,
      span_links_per_span = 32,
      exemplars_per_data_point = 4,
      key_value_list_depth = 8,
      data_points_per_export = 10000,
      records_per_export = 10000,
      numeric_vector_entries_per_data_point = 100000\<rparr>"

datatype budget_name =
    AttributesPerSignal
  | AttributesPerNestedSet
  | AttributeValueSize
  | EventsPerSpan
  | LinksPerSpan
  | ExemplarsPerDataPoint
  | KeyValueListDepth
  | DataPointsPerExport
  | RecordsPerExport
  | NumericVectorEntriesPerDataPoint

fun slug :: "budget_name \<Rightarrow> string" where
  "slug AttributesPerSignal = ''attributes_per_signal''"
| "slug AttributesPerNestedSet = ''attributes_per_nested_set''"
| "slug AttributeValueSize = ''attribute_value_size''"
| "slug EventsPerSpan = ''events_per_span''"
| "slug LinksPerSpan = ''links_per_span''"
| "slug ExemplarsPerDataPoint = ''exemplars_per_data_point''"
| "slug KeyValueListDepth = ''key_value_list_depth''"
| "slug DataPointsPerExport = ''data_points_per_export''"
| "slug RecordsPerExport = ''records_per_export''"
| "slug NumericVectorEntriesPerDataPoint = ''numeric_vector_entries_per_data_point''"

record budget_rejection =
  br_budget :: budget_name
  br_limit :: usize
  br_observed :: usize

definition is_retryable :: "budget_rejection \<Rightarrow> bool" where
  "is_retryable _ = False"

definition refuse :: "budget_name \<Rightarrow> usize \<Rightarrow> usize \<Rightarrow> budget_rejection" where
  "refuse b limit observed = \<lparr>br_budget = b, br_limit = limit, br_observed = observed\<rparr>"

section \<open>The checks\<close>

definition check_value_depth :: "model_value \<Rightarrow> budget_limits \<Rightarrow> budget_rejection + unit" where
  "check_value_depth v limits =
     (let limit = key_value_list_depth limits
      in if exceeds_nesting v limit then Inl (refuse KeyValueListDepth limit (limit + 1))
         else Inr ())"

definition check_attribute_entry ::
  "layout \<Rightarrow> string \<Rightarrow> model_value \<Rightarrow> budget_limits \<Rightarrow> budget_rejection + unit" where
  "check_attribute_entry L key v limits =
     (let entry_size = attribute_entry_size L key v
      in if attribute_value_bytes limits < entry_size
         then Inl (refuse AttributeValueSize (attribute_value_bytes limits) entry_size)
         else check_value_depth v limits)"

definition check_attribute_set ::
  "layout \<Rightarrow> attributes \<Rightarrow> budget_name \<Rightarrow> usize \<Rightarrow> budget_limits \<Rightarrow> budget_rejection + unit" where
  "check_attribute_set L a count_budget limit limits =
     (let n = length a
      in if limit < n then Inl (refuse count_budget limit n)
         else check_all (\<lambda>e. check_attribute_entry L (fst e) (snd e) limits) a)"

definition check_event_or_link_attributes ::
  "layout \<Rightarrow> attributes \<Rightarrow> budget_limits \<Rightarrow> budget_rejection + unit" where
  "check_event_or_link_attributes L a limits =
     check_attribute_set L a AttributesPerNestedSet (attributes_per_nested_set limits) limits"

definition check_resource :: "layout \<Rightarrow> resource \<Rightarrow> budget_limits \<Rightarrow> budget_rejection + unit" where
  "check_resource L r limits =
     check_attribute_set L (res_attributes r) AttributesPerSignal (attributes_per_signal limits) limits"

definition check_scope ::
  "layout \<Rightarrow> instrumentation_scope \<Rightarrow> budget_limits \<Rightarrow> budget_rejection + unit" where
  "check_scope L s limits =
     check_attribute_set L (sc_attributes s) AttributesPerSignal (attributes_per_signal limits) limits"

definition check_span :: "layout \<Rightarrow> span \<Rightarrow> budget_limits \<Rightarrow> budget_rejection + unit" where
  "check_span L s limits =
     and_then (check_resource L (sp_resource s) limits) (\<lambda>_.
     and_then (check_scope L (sp_scope s) limits) (\<lambda>_.
     and_then (check_attribute_set L (sp_attributes s) AttributesPerSignal
                 (attributes_per_signal limits) limits) (\<lambda>_.
     let events = length (sp_events s)
     in if span_events_per_span limits < events
        then Inl (refuse EventsPerSpan (span_events_per_span limits) events)
        else
     and_then (check_all (\<lambda>e. check_event_or_link_attributes L (ev_attributes e) limits)
                 (sp_events s)) (\<lambda>_.
     let links = length (sp_links s)
     in if span_links_per_span limits < links
        then Inl (refuse LinksPerSpan (span_links_per_span limits) links)
        else check_all (\<lambda>l. check_event_or_link_attributes L (ln_attributes l) limits)
               (sp_links s)))))"

definition check_log_record :: "layout \<Rightarrow> log_record \<Rightarrow> budget_limits \<Rightarrow> budget_rejection + unit" where
  "check_log_record L r limits =
     and_then (check_resource L (lg_resource r) limits) (\<lambda>_.
     and_then (check_scope L (lg_scope r) limits) (\<lambda>_.
     and_then (check_attribute_set L (lg_attributes r) AttributesPerSignal
                 (attributes_per_signal limits) limits) (\<lambda>_.
     case lg_body r of None \<Rightarrow> Inr () | Some body \<Rightarrow> check_value_depth body limits)))"

fun numeric_vector_entries :: "metric_point \<Rightarrow> usize" where
  "numeric_vector_entries (NumberP _) = 0"
| "numeric_vector_entries (HistogramP p) =
     length (hp_bucket_counts p) + length (hp_explicit_bounds p)"
| "numeric_vector_entries (ExponentialHistogramP p) =
     length (eb_bucket_counts (xp_positive p)) + length (eb_bucket_counts (xp_negative p))"
| "numeric_vector_entries (SummaryP p) = length (sm_quantiles p)"

definition check_numeric_vector_entries :: "usize \<Rightarrow> budget_limits \<Rightarrow> budget_rejection + unit" where
  "check_numeric_vector_entries n limits =
     (if numeric_vector_entries_per_data_point limits < n
      then Inl (refuse NumericVectorEntriesPerDataPoint
                  (numeric_vector_entries_per_data_point limits) n)
      else Inr ())"

definition check_point :: "layout \<Rightarrow> metric_point \<Rightarrow> budget_limits \<Rightarrow> budget_rejection + unit" where
  "check_point L p limits =
     and_then (check_attribute_set L (point_attributes p) AttributesPerSignal
                 (attributes_per_signal limits) limits) (\<lambda>_.
     let exemplars = length (point_exemplars p)
     in if exemplars_per_data_point limits < exemplars
        then Inl (refuse ExemplarsPerDataPoint (exemplars_per_data_point limits) exemplars)
        else
     and_then (check_all (\<lambda>e. check_attribute_set L (ex_filtered_attributes e)
                 AttributesPerNestedSet (attributes_per_nested_set limits) limits)
                 (point_exemplars p)) (\<lambda>_.
     check_numeric_vector_entries (numeric_vector_entries p) limits))"

definition check_stream_identity ::
  "layout \<Rightarrow> stream_identity \<Rightarrow> budget_limits \<Rightarrow> budget_rejection + unit" where
  "check_stream_identity L s limits =
     and_then (check_resource L (si_resource s) limits) (\<lambda>_.
     and_then (check_scope L (si_scope s) limits) (\<lambda>_.
     check_attribute_set L (si_metadata s) AttributesPerSignal (attributes_per_signal limits) limits))"

definition check_metric_stream ::
  "layout \<Rightarrow> metric_stream \<Rightarrow> budget_limits \<Rightarrow> budget_rejection + unit" where
  "check_metric_stream L m limits =
     and_then (check_stream_identity L (ms_identity m) limits) (\<lambda>_.
     check_all (\<lambda>p. check_point L p limits) (ms_points m))"

definition check_export_point_count :: "usize \<Rightarrow> budget_limits \<Rightarrow> budget_rejection + unit" where
  "check_export_point_count n limits =
     (if data_points_per_export limits < n
      then Inl (refuse DataPointsPerExport (data_points_per_export limits) n)
      else Inr ())"

definition check_export_record_count :: "usize \<Rightarrow> budget_limits \<Rightarrow> budget_rejection + unit" where
  "check_export_record_count n limits =
     (if records_per_export limits < n
      then Inl (refuse RecordsPerExport (records_per_export limits) n)
      else Inr ())"

section \<open>What a passed gate proves\<close>

definition attributes_within :: "layout \<Rightarrow> budget_limits \<Rightarrow> usize \<Rightarrow> attributes \<Rightarrow> bool" where
  "attributes_within L limits n a \<longleftrightarrow>
     length a \<le> n \<and>
     (\<forall>e \<in> set a. attribute_entry_size L (fst e) (snd e) \<le> attribute_value_bytes limits \<and>
        depth (snd e) \<le> key_value_list_depth limits)"

abbreviation (input) signal_set_within where
  "signal_set_within L limits \<equiv> attributes_within L limits (attributes_per_signal limits)"

abbreviation (input) nested_set_within where
  "nested_set_within L limits \<equiv> attributes_within L limits (attributes_per_nested_set limits)"

lemma budget_depth: "check_value_depth v limits = Inr () \<longleftrightarrow> depth v \<le> key_value_list_depth limits"
  by (auto simp: check_value_depth_def Let_def exceeds_nesting_depth)

lemma budget_attribute_set:
  "check_attribute_set L a b n limits = Inr () \<longleftrightarrow> attributes_within L limits n a"
  by (auto simp: check_attribute_set_def Let_def check_all_Inr_iff check_attribute_entry_def
      budget_depth attributes_within_def)

lemmas budget_sets = budget_attribute_set check_event_or_link_attributes_def
  check_resource_def check_scope_def check_all_Inr_iff

definition span_within :: "layout \<Rightarrow> budget_limits \<Rightarrow> span \<Rightarrow> bool" where
  "span_within L limits s \<longleftrightarrow>
     signal_set_within L limits (res_attributes (sp_resource s)) \<and>
     signal_set_within L limits (sc_attributes (sp_scope s)) \<and>
     signal_set_within L limits (sp_attributes s) \<and>
     length (sp_events s) \<le> span_events_per_span limits \<and>
     (\<forall>e \<in> set (sp_events s). nested_set_within L limits (ev_attributes e)) \<and>
     length (sp_links s) \<le> span_links_per_span limits \<and>
     (\<forall>l \<in> set (sp_links s). nested_set_within L limits (ln_attributes l))"

definition log_within :: "layout \<Rightarrow> budget_limits \<Rightarrow> log_record \<Rightarrow> bool" where
  "log_within L limits r \<longleftrightarrow>
     signal_set_within L limits (res_attributes (lg_resource r)) \<and>
     signal_set_within L limits (sc_attributes (lg_scope r)) \<and>
     signal_set_within L limits (lg_attributes r) \<and>
     pred_option (\<lambda>v. depth v \<le> key_value_list_depth limits) (lg_body r)"

definition point_within :: "layout \<Rightarrow> budget_limits \<Rightarrow> metric_point \<Rightarrow> bool" where
  "point_within L limits p \<longleftrightarrow>
     signal_set_within L limits (point_attributes p) \<and>
     length (point_exemplars p) \<le> exemplars_per_data_point limits \<and>
     (\<forall>e \<in> set (point_exemplars p). nested_set_within L limits (ex_filtered_attributes e)) \<and>
     numeric_vector_entries p \<le> numeric_vector_entries_per_data_point limits"

definition stream_within :: "layout \<Rightarrow> budget_limits \<Rightarrow> stream_identity \<Rightarrow> bool" where
  "stream_within L limits s \<longleftrightarrow>
     signal_set_within L limits (res_attributes (si_resource s)) \<and>
     signal_set_within L limits (sc_attributes (si_scope s)) \<and>
     signal_set_within L limits (si_metadata s)"

lemma budget_span: "check_span L s limits = Inr () \<longleftrightarrow> span_within L limits s"
  by (auto simp: check_span_def Let_def budget_sets span_within_def)

lemma budget_log: "check_log_record L r limits = Inr () \<longleftrightarrow> log_within L limits r"
  by (auto simp: check_log_record_def budget_sets budget_depth log_within_def split: option.splits)

lemma budget_point: "check_point L p limits = Inr () \<longleftrightarrow> point_within L limits p"
  by (auto simp: check_point_def Let_def budget_sets check_numeric_vector_entries_def
      point_within_def)

lemma budget_stream: "check_stream_identity L s limits = Inr () \<longleftrightarrow> stream_within L limits s"
  by (auto simp: check_stream_identity_def budget_sets stream_within_def)

lemma within_size:
  "attributes_within L limits n a \<Longrightarrow>
     attributes_size L a \<le> ATTRIBUTE_MAP_NODE_BYTES + n * attribute_value_bytes limits"
  by (rule attributes_size_bound) (auto simp: attributes_within_def)

end
