(* ===== verification/Identity.thy ===== *)
theory Identity
  imports Budgets
begin

text \<open>
  Admission-assigned identity: \<open>crates/telemetry-model/src/identity.rs\<close>.

  An entity id is a span's natural identity or a session serial. The serial of an \<open>AssignedId\<close>
  is a \<open>NonZeroU64\<close> in the source, a \<open>nat\<close> here: the counter that issues it panics at
  2 ^ 64 records, which no session reaches (the source's own \<open>expect\<close> states it).
\<close>

datatype entity_id = Span (e_trace: trace_id) (e_span: span_id) | Assigned (e_serial: nat)

fun assigned_serial :: "entity_id \<Rightarrow> nat option" where
  "assigned_serial (Span _ _) = None"
| "assigned_serial (Assigned n) = Some n"

datatype admission_time = AdmissionTime (as_unix_nano: u64)

record 'r admitted =
  ad_entity :: entity_id
  ad_at :: admission_time
  ad_record :: 'r

datatype admission_outcome =
    Admitted entity_id
  | Collapsed entity_id
  | Conflict entity_id
  | Rejected budget_rejection
  | Invalid stream_shape_error

fun outcome_entity :: "admission_outcome \<Rightarrow> entity_id option" where
  "outcome_entity (Admitted e) = Some e"
| "outcome_entity (Collapsed e) = Some e"
| "outcome_entity (Conflict e) = Some e"
| "outcome_entity (Rejected _) = None"
| "outcome_entity (Invalid _) = None"

end
