(* ===== verification/Residency.thy ===== *)
theory Residency
  imports Identity
begin

text \<open>
  The storage contract: \<open>order.rs\<close>, \<open>keep.rs\<close>, \<open>stats.rs\<close> and \<open>store.rs\<close> of
  \<open>crates/storage/src\<close>.

  The residency order is the key's \<open>Ord\<close>: admission time, then the entity tie-break. It is
  proved total by the instantiation of \<open>linorder\<close>, so the ordered maps of the prelude and
  \<open>min\<close> apply to keys. The lifecycle hook is modelled by the calls it receives
  (\<open>hook_call\<close>), in order: what a hook does with them belongs to its own component. The scan
  contract is the locale \<open>ordered_scan\<close>; its client lemma is the full walk the contract's
  documentation promises.
\<close>

section \<open>The residency order\<close>

datatype ordering = Less | Equal | Greater

definition compare_lin :: "'a::linorder \<Rightarrow> 'a \<Rightarrow> ordering" where
  "compare_lin a b = (if a < b then Less else if a = b then Equal else Greater)"

fun then_with :: "ordering \<Rightarrow> ordering \<Rightarrow> ordering" where
  "then_with Equal r = r"
| "then_with l r = l"

datatype admission_key = AdmissionKey (key_time: admission_time) (key_entity: entity_id)

fun entity_order :: "entity_id \<Rightarrow> entity_id \<Rightarrow> ordering" where
  "entity_order (Span lt ls) (Span rt rs) =
     then_with (compare_lin (trace_bytes lt) (trace_bytes rt))
               (compare_lin (span_bytes ls) (span_bytes rs))"
| "entity_order (Span _ _) (Assigned _) = Less"
| "entity_order (Assigned _) (Span _ _) = Greater"
| "entity_order (Assigned l) (Assigned r) = compare_lin l r"

definition key_cmp :: "admission_key \<Rightarrow> admission_key \<Rightarrow> ordering" where
  "key_cmp a b =
     then_with (compare_lin (as_unix_nano (key_time a)) (as_unix_nano (key_time b)))
               (entity_order (key_entity a) (key_entity b))"

lemma compare_lin_simps [simp]:
  "compare_lin a b = Less \<longleftrightarrow> a < b" "compare_lin a b = Equal \<longleftrightarrow> a = b"
  "compare_lin a b = Greater \<longleftrightarrow> b < a" "compare_lin a a = Equal"
  by (auto simp: compare_lin_def)

lemma then_with_simps [simp]:
  "then_with l r = Less \<longleftrightarrow> l = Less \<or> l = Equal \<and> r = Less"
  "then_with l r = Equal \<longleftrightarrow> l = Equal \<and> r = Equal"
  "then_with l r = Greater \<longleftrightarrow> l = Greater \<or> l = Equal \<and> r = Greater"
  by (cases l; simp)+

lemma entity_order_Equal: "entity_order a b = Equal \<longleftrightarrow> a = b"
  by (cases a; cases b) (auto intro: trace_id.expand span_id.expand)

lemma entity_order_swap: "entity_order a b = Greater \<longleftrightarrow> entity_order b a = Less"
  by (cases a; cases b) auto

lemma entity_order_trans:
  "entity_order a b = Less \<Longrightarrow> entity_order b c = Less \<Longrightarrow> entity_order a c = Less"
  by (cases a; cases b; cases c) auto

lemma key_cmp_Equal: "key_cmp a b = Equal \<longleftrightarrow> a = b"
  by (cases a; cases b) (auto simp: key_cmp_def entity_order_Equal intro: admission_time.expand)

lemma key_cmp_swap: "key_cmp a b = Greater \<longleftrightarrow> key_cmp b a = Less"
  by (auto simp: key_cmp_def entity_order_swap)

lemma key_cmp_trans: "key_cmp a b = Less \<Longrightarrow> key_cmp b c = Less \<Longrightarrow> key_cmp a c = Less"
  by (auto simp: key_cmp_def intro: entity_order_trans)

instantiation admission_key :: linorder
begin

definition less_admission_key :: "admission_key \<Rightarrow> admission_key \<Rightarrow> bool" where
  "a < b \<longleftrightarrow> key_cmp a b = Less"

definition less_eq_admission_key :: "admission_key \<Rightarrow> admission_key \<Rightarrow> bool" where
  "a \<le> b \<longleftrightarrow> key_cmp a b \<noteq> Greater"

instance
proof
  fix a b c :: admission_key
  note defs = less_admission_key_def less_eq_admission_key_def
  show "a < b \<longleftrightarrow> a \<le> b \<and> \<not> b \<le> a"
    by (simp add: defs key_cmp_swap) (metis key_cmp_Equal key_cmp_trans ordering.distinct(1))
  show "a \<le> a" using key_cmp_Equal [of a a] by (simp add: defs)
  show "a \<le> c" if "a \<le> b" "b \<le> c"
    using that key_cmp_trans [of a b c] key_cmp_Equal key_cmp_swap key_cmp_trans
    unfolding defs by (metis ordering.exhaust)
  show "a = b" if "a \<le> b" "b \<le> a"
    using that key_cmp_Equal key_cmp_swap unfolding defs by (metis ordering.exhaust)
  show "a \<le> b \<or> b \<le> a"
    using key_cmp_swap [of a b] by (auto simp: defs)
qed

end

lemma key_less_iff:
  "a < b \<longleftrightarrow> as_unix_nano (key_time a) < as_unix_nano (key_time b) \<or>
     as_unix_nano (key_time a) = as_unix_nano (key_time b) \<and>
     entity_order (key_entity a) (key_entity b) = Less"
  by (simp add: less_admission_key_def key_cmp_def)

lemma key_le_time: "a \<le> b \<Longrightarrow> as_unix_nano (key_time a) \<le> as_unix_nano (key_time b)"
  by (auto simp: le_less key_less_iff)

section \<open>Scans\<close>

record 'r scan_item =
  it_key :: admission_key
  it_record :: 'r

record 'r scan_page =
  pg_items :: "'r scan_item list"
  pg_cursor :: "admission_key option"

text \<open>The full walk: scan from \<open>after\<close>, then from each page's cursor, at most \<open>n\<close> pages.\<close>

fun walk :: "(admission_key option \<Rightarrow> usize \<Rightarrow> 'r scan_page) \<Rightarrow> usize \<Rightarrow> nat \<Rightarrow>
    admission_key option \<Rightarrow> 'r scan_item list" where
  "walk scan limit 0 after = []"
| "walk scan limit (Suc n) after =
     (let page = scan after limit
      in pg_items page @
         (case pg_cursor page of None \<Rightarrow> [] | Some c \<Rightarrow> walk scan limit n (Some c)))"

definition as_item :: "admission_key \<times> 'r \<Rightarrow> 'r scan_item" where
  "as_item p = \<lparr>it_key = fst p, it_record = snd p\<rparr>"

definition past :: "admission_key option \<Rightarrow> (admission_key \<times> 'r) list \<Rightarrow> (admission_key \<times> 'r) list" where
  "past after ps = (case after of None \<Rightarrow> ps | Some k \<Rightarrow> filter (\<lambda>p. k < fst p) ps)"

locale ordered_scan =
  fixes resident :: "'s \<Rightarrow> (admission_key \<times> 'r) list"
    and scan :: "'s \<Rightarrow> admission_key option \<Rightarrow> usize \<Rightarrow> 'r scan_page"
    and ok :: "'s \<Rightarrow> bool"
  assumes resident_sorted: "ok s \<Longrightarrow> om_sorted (resident s)"
    and scan_items: "ok s \<Longrightarrow> pg_items (scan s after limit) = map as_item (take limit (past after (resident s)))"
    and scan_cursor: "ok s \<Longrightarrow> 0 < limit \<Longrightarrow> pg_cursor (scan s after limit) =
      (if length (past after (resident s)) \<le> limit then None
       else Some (fst (past after (resident s) ! (limit - 1))))"
begin

lemma past_cursor:
  assumes "ok s" "0 < limit" "limit < length (past after (resident s))"
  shows "past (Some (fst (past after (resident s) ! (limit - 1)))) (resident s) =
    drop limit (past after (resident s))"
proof -
  let ?ps = "past after (resident s)"
  let ?c = "fst (?ps ! (limit - 1))"
  have sorted: "om_sorted (resident s)" using assms by (simp add: resident_sorted)
  then have sorted': "om_sorted ?ps"
    unfolding past_def by (cases after) (auto simp: om_sorted_def sorted_wrt_map sorted_wrt_filter)
  have c: "?ps ! (limit - 1) \<in> set ?ps" using assms by simp
  have "filter (\<lambda>p. ?c < fst p) (resident s) = filter (\<lambda>p. ?c < fst p) ?ps"
    using c unfolding past_def by (cases after) (auto intro: filter_cong)
  also have "\<dots> = drop limit ?ps"
  proof -
    have less: "fst (?ps ! i) < fst (?ps ! j)" if "i < j" "j < length ?ps" for i j
      using sorted' that by (auto simp: om_sorted_def sorted_wrt_iff_nth_less)
    have "p \<in> set (take limit ?ps) \<Longrightarrow> \<not> ?c < fst p" for p
    proof -
      assume "p \<in> set (take limit ?ps)"
      then obtain i where i: "i < limit" "p = ?ps ! i" "i < length ?ps"
        by (auto simp: in_set_conv_nth)
      then show "\<not> ?c < fst p"
        using less [of i "limit - 1"] assms(3) less_asym by (cases "i = limit - 1") fastforce+
    qed
    then have front: "filter (\<lambda>p. ?c < fst p) (take limit ?ps) = []" by (simp add: filter_empty_conv)
    have "p \<in> set (drop limit ?ps) \<Longrightarrow> ?c < fst p" for p
    proof -
      assume "p \<in> set (drop limit ?ps)"
      then obtain i where "p = drop limit ?ps ! i" "i < length (drop limit ?ps)"
        by (metis in_set_conv_nth)
      then have "p = ?ps ! (limit + i)" "limit + i < length ?ps" by simp_all
      then show "?c < fst p" using less [of "limit - 1" "limit + i"] assms(2) by simp
    qed
    then have "filter (\<lambda>p. ?c < fst p) (drop limit ?ps) = drop limit ?ps"
      by (simp add: filter_id_conv)
    with front show ?thesis
      by (metis append_take_drop_id filter_append append_Nil)
  qed
  finally show ?thesis by (simp add: past_def)
qed

text \<open>A walk with a page per record is enough: it yields everything past its start, once, in order.\<close>

lemma walk_past:
  assumes "ok s" "0 < limit" "length (past after (resident s)) \<le> n" "0 < n"
  shows "walk (scan s) limit n after = map as_item (past after (resident s))"
  using assms(3,4)
proof (induction n arbitrary: after)
  case (Suc n)
  let ?ps = "past after (resident s)"
  show ?case
  proof (cases "length ?ps \<le> limit")
    case True
    then show ?thesis using assms(1,2) by (simp add: scan_items scan_cursor Let_def)
  next
    case False
    let ?c = "fst (?ps ! (limit - 1))"
    have rest: "past (Some ?c) (resident s) = drop limit ?ps"
      using False assms by (intro past_cursor) auto
    have "walk (scan s) limit n (Some ?c) = map as_item (drop limit ?ps)"
      using Suc.IH [of "Some ?c"] rest Suc.prems assms(2) False by auto
    then have "walk (scan s) limit (Suc n) after =
        map as_item (take limit ?ps) @ map as_item (drop limit ?ps)"
      using False assms(1,2) by (simp add: scan_items scan_cursor Let_def)
    then show ?thesis by (metis append_take_drop_id map_append)
  qed
qed simp

lemma full_walk:
  "ok s \<Longrightarrow> 0 < limit \<Longrightarrow> length (resident s) < n \<Longrightarrow>
     walk (scan s) limit n None = map as_item (resident s)"
  using walk_past [of s limit None n] by (simp add: past_def)

end

section \<open>Keeps, hooks, statistics\<close>

datatype eviction_cause = RecordCeiling | AccountedBytesCeiling | AdmissionWindow

datatype keep_outcome =
    Kept nat
  | Duplicate
  | Oversized
  | SeriesCapReached
  | IdentityOverCeiling nat nat

fun outcome_evicted :: "keep_outcome \<Rightarrow> nat" where
  "outcome_evicted (Kept n) = n"
| "outcome_evicted Duplicate = 0"
| "outcome_evicted Oversized = 0"
| "outcome_evicted SeriesCapReached = 0"
| "outcome_evicted (IdentityOverCeiling _ _) = 0"

text \<open>The calls an \<open>EvictionHook\<close> receives.\<close>

datatype hook_call =
    Evicted entity_id
  | StreamReleased stream_identity
  | KeepRefused entity_id "stream_identity option"

record store_stats =
  resident_records :: nat
  resident_spans :: nat
  resident_log_records :: nat
  resident_metric_points :: nat
  stat_resident_streams :: nat
  accounted_bytes :: nat
  record_accounted_bytes :: nat
  identity_accounted_bytes :: nat
  evicted_for_record_ceiling :: nat
  evicted_for_accounted_bytes_ceiling :: nat
  evicted_for_admission_window :: nat
  oversized_refusals :: nat
  duplicate_keeps :: nat
  kept_out_series_cap :: nat
  identity_over_ceiling_refusals :: nat
  hook_deliveries :: nat
  refused_hook_deliveries :: nat
  admission_anomalies_total :: nat

definition total_evictions :: "store_stats \<Rightarrow> nat" where
  "total_evictions s =
     evicted_for_record_ceiling s + evicted_for_accounted_bytes_ceiling s +
     evicted_for_admission_window s"

definition total_keep_refusals :: "store_stats \<Rightarrow> nat" where
  "total_keep_refusals s =
     oversized_refusals s + kept_out_series_cap s + identity_over_ceiling_refusals s"

record point_view =
  pv_point :: metric_point
  pv_stream :: stream_identity

end
