(* ===== verification/Shelf.thy ===== *)
theory Shelf
  imports Residency
begin

text \<open>
  One kind's residency shelf: \<open>crates/storage-memory/src/shelf.rs\<close>.

  \<open>by_key\<close> is the ordered map (a strictly sorted association list), \<open>by_entity\<close> the entity
  index. The shelf is generic in its record; the record type's \<open>Accounted\<close> implementation is
  the parameter \<open>sz\<close>. \<open>wf_shelf\<close> says that the index and the map hold the same records and
  that the byte sum is exact; the saturating arithmetic keeps it exact as long as the sum
  fits a \<open>u64\<close>.
\<close>

record 'r shelf =
  by_key :: "(admission_key \<times> 'r) list"
  by_entity :: "entity_id \<rightharpoonup> admission_key"
  shelf_bytes :: nat

definition shelf_new :: "'r shelf" where
  "shelf_new = \<lparr>by_key = [], by_entity = Map.empty, shelf_bytes = 0\<rparr>"

definition shelf_insert :: "('r \<Rightarrow> usize) \<Rightarrow> 'r admitted \<Rightarrow> 'r shelf \<Rightarrow> 'r shelf" where
  "shelf_insert sz a sh =
     (let key = AdmissionKey (ad_at a) (ad_entity a)
      in \<lparr>by_key = om_insert key (ad_record a) (by_key sh),
          by_entity = (by_entity sh)(ad_entity a \<mapsto> key),
          shelf_bytes = sat_add (shelf_bytes sh) (sat_u64 (sz (ad_record a)))\<rparr>)"

definition shelf_contains :: "entity_id \<Rightarrow> 'r shelf \<Rightarrow> bool" where
  "shelf_contains e sh \<longleftrightarrow> by_entity sh e \<noteq> None"

definition shelf_len :: "'r shelf \<Rightarrow> usize" where
  "shelf_len sh = length (by_key sh)"

definition smallest_key :: "'r shelf \<Rightarrow> admission_key option" where
  "smallest_key sh = (case by_key sh of [] \<Rightarrow> None | (k, _) # _ \<Rightarrow> Some k)"

definition pop_smallest ::
  "('r \<Rightarrow> usize) \<Rightarrow> 'r shelf \<Rightarrow> ((admission_key \<times> 'r) \<times> 'r shelf) option" where
  "pop_smallest sz sh =
     (case by_key sh of
        [] \<Rightarrow> None
      | (k, r) # _ \<Rightarrow>
          Some ((k, r),
            \<lparr>by_key = om_remove k (by_key sh),
             by_entity = (by_entity sh)(key_entity k := None),
             shelf_bytes = shelf_bytes sh - sat_u64 (sz r)\<rparr>))"

definition shelf_get :: "entity_id \<Rightarrow> 'r shelf \<Rightarrow> 'r option" where
  "shelf_get e sh =
     (case by_entity sh e of
        None \<Rightarrow> None
      | Some key \<Rightarrow> map_of (by_key sh) key)"

text \<open>The loop of \<open>page_from\<close>, its locals as arguments.\<close>

fun page_from ::
  "usize \<Rightarrow> 'r scan_item list \<Rightarrow> admission_key option \<Rightarrow> (admission_key \<times> 'r) list \<Rightarrow> 'r scan_page" where
  "page_from limit items last_in_page [] = \<lparr>pg_items = items, pg_cursor = None\<rparr>"
| "page_from limit items last_in_page ((key, record) # records) =
     (if length items = limit
      then \<lparr>pg_items = items, pg_cursor = last_in_page\<rparr>
      else page_from limit (items @ [\<lparr>it_key = key, it_record = record\<rparr>]) (Some key) records)"

definition scan_after :: "'r shelf \<Rightarrow> admission_key option \<Rightarrow> usize \<Rightarrow> 'r scan_page" where
  "scan_after sh after limit =
     (if limit = 0 then \<lparr>pg_items = [], pg_cursor = None\<rparr>
      else case after of
             Some k \<Rightarrow> page_from limit [] None (filter (\<lambda>p. k < fst p) (by_key sh))
           | None \<Rightarrow> page_from limit [] None (by_key sh))"

section \<open>The shelf invariant\<close>

definition total_size :: "('r \<Rightarrow> usize) \<Rightarrow> (admission_key \<times> 'r) list \<Rightarrow> nat" where
  "total_size sz ps = sum_list (map (\<lambda>p. sz (snd p)) ps)"

definition index_matches :: "'r shelf \<Rightarrow> bool" where
  "index_matches sh \<longleftrightarrow>
     (\<forall>e k. by_entity sh e = Some k \<longleftrightarrow> key_entity k = e \<and> k \<in> fst ` set (by_key sh))"

definition wf_shelf :: "('r \<Rightarrow> usize) \<Rightarrow> 'r shelf \<Rightarrow> bool" where
  "wf_shelf sz sh \<longleftrightarrow>
     om_sorted (by_key sh) \<and> index_matches sh \<and>
     shelf_bytes sh = total_size sz (by_key sh) \<and> shelf_bytes sh \<le> u64_max"

lemma total_size_simps [simp]:
  "total_size sz [] = 0"
  "total_size sz (p # ps) = sz (snd p) + total_size sz ps"
  "total_size sz (ps @ qs) = total_size sz ps + total_size sz qs"
  by (simp_all add: total_size_def)

lemma total_size_insert:
  "k \<notin> fst ` set ps \<Longrightarrow> total_size sz (om_insert k r ps) = sz r + total_size sz ps"
  by (induction ps rule: om_insert.induct) auto

lemma total_size_member: "p \<in> set ps \<Longrightarrow> sz (snd p) \<le> total_size sz ps"
  by (induction ps) auto

lemma wf_shelf_new: "wf_shelf sz shelf_new"
  by (simp add: wf_shelf_def shelf_new_def index_matches_def)

lemma absent_key:
  "wf_shelf sz sh \<Longrightarrow> \<not> shelf_contains e sh \<Longrightarrow> AdmissionKey t e \<notin> fst ` set (by_key sh)"
  unfolding wf_shelf_def index_matches_def shelf_contains_def
  by (metis admission_key.sel(2) option.distinct(1))

lemma wf_shelf_insert:
  assumes wf: "wf_shelf sz sh" and new: "\<not> shelf_contains (ad_entity a) sh"
    and fits: "shelf_bytes sh + sz (ad_record a) \<le> u64_max"
  shows "wf_shelf sz (shelf_insert sz a sh)"
    and "shelf_bytes (shelf_insert sz a sh) = shelf_bytes sh + sz (ad_record a)"
    and "shelf_len (shelf_insert sz a sh) = Suc (shelf_len sh)"
proof -
  let ?k = "AdmissionKey (ad_at a) (ad_entity a)"
  have k: "?k \<notin> fst ` set (by_key sh)" using wf new by (rule absent_key)
  have none: "by_entity sh (ad_entity a) = None"
    using new by (simp add: shelf_contains_def)
  have idx: "\<And>e k. by_entity sh e = Some k \<longleftrightarrow> key_entity k = e \<and> k \<in> fst ` set (by_key sh)"
    using wf by (simp add: wf_shelf_def index_matches_def)
  have "index_matches (shelf_insert sz a sh)"
    unfolding index_matches_def
  proof (intro allI)
    fix e k
    show "by_entity (shelf_insert sz a sh) e = Some k \<longleftrightarrow>
      key_entity k = e \<and> k \<in> fst ` set (by_key (shelf_insert sz a sh))"
      using idx [of e k] none idx [of "ad_entity a" k]
      by (cases "e = ad_entity a"; cases k) (auto simp: shelf_insert_def Let_def)
  qed
  moreover have bytes: "shelf_bytes (shelf_insert sz a sh) = shelf_bytes sh + sz (ad_record a)"
    using fits by (simp add: shelf_insert_def Let_def sat_add_def sat_u64_def)
  moreover have "om_sorted (by_key (shelf_insert sz a sh))"
    "total_size sz (by_key (shelf_insert sz a sh)) = total_size sz (by_key sh) + sz (ad_record a)"
    using wf k by (simp_all add: wf_shelf_def shelf_insert_def Let_def om_sorted_insert total_size_insert)
  ultimately show "wf_shelf sz (shelf_insert sz a sh)"
    using wf fits by (simp add: wf_shelf_def)
  show "shelf_bytes (shelf_insert sz a sh) = shelf_bytes sh + sz (ad_record a)" by (rule bytes)
  show "shelf_len (shelf_insert sz a sh) = Suc (shelf_len sh)"
    using k by (simp add: shelf_len_def shelf_insert_def Let_def length_om_insert)
qed

lemma pop_smallest_cases:
  assumes "pop_smallest sz sh = Some ((k, r), sh')" "wf_shelf sz sh"
  shows "by_key sh = (k, r) # by_key sh'" "wf_shelf sz sh'"
    "shelf_bytes sh = shelf_bytes sh' + sz r" "shelf_len sh = Suc (shelf_len sh')"
    "by_entity sh' = (by_entity sh)(key_entity k := None)"
proof -
  obtain rest where rest: "by_key sh = (k, r) # rest" "by_key sh' = rest"
    and ent: "by_entity sh' = (by_entity sh)(key_entity k := None)"
    and bytes: "shelf_bytes sh' = shelf_bytes sh - sat_u64 (sz r)"
    using assms(1) by (auto simp: pop_smallest_def split: list.splits prod.splits)
  from rest show "by_key sh = (k, r) # by_key sh'" by simp
  from rest show "shelf_len sh = Suc (shelf_len sh')" by (simp add: shelf_len_def)
  show "by_entity sh' = (by_entity sh)(key_entity k := None)" by (rule ent)
  have "sz r \<le> u64_max" using assms(2) rest by (simp add: wf_shelf_def)
  with assms(2) rest bytes show sum: "shelf_bytes sh = shelf_bytes sh' + sz r"
    by (simp add: wf_shelf_def sat_u64_def)
  have idx: "\<And>e k. by_entity sh e = Some k \<longleftrightarrow> key_entity k = e \<and> k \<in> fst ` set (by_key sh)"
    using assms(2) by (simp add: wf_shelf_def index_matches_def)
  have lt: "\<forall>q \<in> set rest. k < fst q" using assms(2) rest by (simp add: wf_shelf_def)
  have "index_matches sh'"
    unfolding index_matches_def
  proof (intro allI)
    fix e k'
    have "key_entity k' = key_entity k \<Longrightarrow> k' \<in> fst ` set (by_key sh) \<Longrightarrow> k' = k"
      using idx [of "key_entity k" k'] idx [of "key_entity k" k] rest by auto
    then show "by_entity sh' e = Some k' \<longleftrightarrow> key_entity k' = e \<and> k' \<in> fst ` set (by_key sh')"
      using idx [of e k'] rest ent lt by auto
  qed
  with assms(2) rest sum show "wf_shelf sz sh'" by (simp add: wf_shelf_def)
qed

lemma pop_smallest_None: "pop_smallest sz sh = None \<longleftrightarrow> smallest_key sh = None"
  by (auto simp: pop_smallest_def smallest_key_def split: list.splits)

lemma pop_smallest_key: "pop_smallest sz sh = Some ((k, r), sh') \<Longrightarrow> smallest_key sh = Some k"
  by (auto simp: pop_smallest_def smallest_key_def split: list.splits)

lemma smallest_key_least:
  assumes "om_sorted (by_key sh)" "smallest_key sh = Some k"
  shows "k \<in> fst ` set (by_key sh)" "\<forall>p \<in> set (by_key sh). k \<le> fst p"
  using assms by (auto simp: smallest_key_def split: list.splits intro: less_imp_le)

lemma smallest_key_None: "smallest_key sh = None \<longleftrightarrow> by_key sh = []"
  by (auto simp: smallest_key_def split: list.splits)

lemma shelf_get_iff:
  assumes "wf_shelf sz sh"
  shows "shelf_get e sh = Some r \<longleftrightarrow> (\<exists>t. (AdmissionKey t e, r) \<in> set (by_key sh))"
proof -
  have idx: "\<And>e k. by_entity sh e = Some k \<longleftrightarrow> key_entity k = e \<and> k \<in> fst ` set (by_key sh)"
    and d: "distinct (map fst (by_key sh))"
    using assms by (auto simp: wf_shelf_def index_matches_def om_sorted_distinct)
  show ?thesis
  proof
    assume "shelf_get e sh = Some r"
    then obtain k where k: "by_entity sh e = Some k" "map_of (by_key sh) k = Some r"
      by (auto simp: shelf_get_def split: option.splits)
    with idx show "\<exists>t. (AdmissionKey t e, r) \<in> set (by_key sh)"
      by (cases k) (auto dest: map_of_SomeD)
  next
    assume "\<exists>t. (AdmissionKey t e, r) \<in> set (by_key sh)"
    then obtain t where t: "(AdmissionKey t e, r) \<in> set (by_key sh)" by blast
    with idx [of e "AdmissionKey t e"] d show "shelf_get e sh = Some r"
      by (force simp: shelf_get_def map_of_is_SomeI)
  qed
qed

section \<open>Scans\<close>

lemma page_from_items:
  "length items \<le> limit \<Longrightarrow>
     pg_items (page_from limit items prev ps) = items @ map as_item (take (limit - length items) ps)"
proof (induction limit items prev ps rule: page_from.induct)
  case (2 limit items prev key r records)
  then show ?case
    by (cases "length items = limit"; auto simp: as_item_def take_Cons' Suc_diff_Suc)
qed simp

lemma page_from_cursor:
  "length items \<le> limit \<Longrightarrow>
     pg_cursor (page_from limit items prev ps) =
       (if length items + length ps \<le> limit then None
        else if length items = limit then prev
        else Some (fst (ps ! (limit - length items - 1))))"
proof (induction limit items prev ps rule: page_from.induct)
  case (2 limit items prev key r records)
  then show ?case
    by (cases "length items = limit"; auto simp: nth_Cons' Suc_diff_Suc)
qed simp

interpretation shelf_scan: ordered_scan by_key scan_after "wf_shelf sz" for sz
proof unfold_locales
  fix s :: "'a shelf" and after :: "admission_key option" and limit :: usize
  assume "wf_shelf sz s"
  then show "om_sorted (by_key s)" by (simp add: wf_shelf_def)
  show "pg_items (scan_after s after limit) = map as_item (take limit (past after (by_key s)))"
    by (auto simp: scan_after_def past_def page_from_items split: option.splits)
  show "pg_cursor (scan_after s after limit) =
      (if length (past after (by_key s)) \<le> limit then None
       else Some (fst (past after (by_key s) ! (limit - 1))))" if "0 < limit"
    using that by (auto simp: scan_after_def past_def page_from_cursor split: option.splits)
qed

end
