(* ===== verification/Memory_Store.thy ===== *)
theory Memory_Store
  imports Shelf
begin

text \<open>
  The in-memory store: \<open>store.rs\<close> and \<open>config.rs\<close> of \<open>crates/storage-memory/src\<close>.

  The state is the struct's; \<open>series\<close> is a table keyed by stream content. Whether a hook is
  wired is a flag, and every operation returns the calls it made to the hook, in order.
  \<open>enforce_against\<close> is the source's loop, total because every turn removes a record. \<open>u64\<close>
  sums saturate as in the source; \<open>usize\<close> and counters are naturals. The layout parameter
  \<open>L\<close> is the one of the accounted sizes.
\<close>

section \<open>Configuration and state\<close>

record memory_config =
  max_records :: nat
  max_accounted_bytes :: nat
  admission_window :: nat
  series_cap :: nat

text \<open>The window is a \<open>Duration\<close>, in nanoseconds.\<close>

definition default_memory_config :: memory_config where
  "default_memory_config =
     \<lparr>max_records = 2000000, max_accounted_bytes = 256 * 1024 * 1024,
      admission_window = 24 * 60 * 60 * 1000000000, series_cap = 100000\<rparr>"

record point_slot =
  ps_point :: metric_point
  ps_stream :: stream_identity

definition slot_size :: "layout \<Rightarrow> point_slot \<Rightarrow> usize" where
  "slot_size L slot = point_size L (ps_point slot)"

record store_counters =
  c_record_ceiling :: nat
  c_accounted_bytes_ceiling :: nat
  c_admission_window :: nat
  c_oversized :: nat
  c_duplicate_keeps :: nat
  c_series_cap :: nat
  c_identity_over_ceiling :: nat
  c_hook_deliveries :: nat
  c_refused_hook_deliveries :: nat

record memory_store =
  config :: memory_config
  window_nanos :: nat
  hook :: bool
  spans_shelf :: "span shelf"
  logs_shelf :: "log_record shelf"
  points_shelf :: "point_slot shelf"
  series :: "(stream_identity \<times> nat) list"
  identity_bytes :: nat
  counters :: store_counters
  observed_anomalies :: nat

definition zero_counters :: store_counters where
  "zero_counters =
     \<lparr>c_record_ceiling = 0, c_accounted_bytes_ceiling = 0, c_admission_window = 0,
      c_oversized = 0, c_duplicate_keeps = 0, c_series_cap = 0, c_identity_over_ceiling = 0,
      c_hook_deliveries = 0, c_refused_hook_deliveries = 0\<rparr>"

definition store_new :: "memory_config \<Rightarrow> bool \<Rightarrow> memory_store" where
  "store_new cfg wired =
     \<lparr>config = cfg, window_nanos = sat_u64 (admission_window cfg), hook = wired,
      spans_shelf = shelf_new, logs_shelf = shelf_new, points_shelf = shelf_new,
      series = [], identity_bytes = 0, counters = zero_counters, observed_anomalies = 0\<rparr>"

section \<open>Residency\<close>

definition store_resident_streams :: "memory_store \<Rightarrow> nat" where
  "store_resident_streams st = sat_u64 (length (series st))"

definition store_resident_records :: "memory_store \<Rightarrow> nat" where
  "store_resident_records st =
     sat_u64 (shelf_len (spans_shelf st) + shelf_len (logs_shelf st) + shelf_len (points_shelf st))"

definition store_record_bytes :: "memory_store \<Rightarrow> nat" where
  "store_record_bytes st =
     sat_add (sat_add (shelf_bytes (spans_shelf st)) (shelf_bytes (logs_shelf st)))
             (shelf_bytes (points_shelf st))"

definition store_accounted_bytes :: "memory_store \<Rightarrow> nat" where
  "store_accounted_bytes st = sat_add (store_record_bytes st) (identity_bytes st)"

definition accounted_u64 :: "usize \<Rightarrow> nat" where
  "accounted_u64 n = sat_u64 n"

definition min_key :: "admission_key option list \<Rightarrow> admission_key option" where
  "min_key ks =
     (case List.map_filter id ks of [] \<Rightarrow> None | k # rest \<Rightarrow> Some (fold min rest k))"

definition oldest_key :: "memory_store \<Rightarrow> admission_key option" where
  "oldest_key st =
     min_key [smallest_key (spans_shelf st), smallest_key (logs_shelf st),
              smallest_key (points_shelf st)]"

definition expired :: "nat \<Rightarrow> admission_time \<Rightarrow> admission_time \<Rightarrow> bool" where
  "expired window now t \<longleftrightarrow>
     unat (as_unix_nano t) \<le> unat (as_unix_nano now) \<and>
     window \<le> unat (as_unix_nano now) - unat (as_unix_nano t)"

definition first_violation :: "admission_time \<Rightarrow> memory_store \<Rightarrow> eviction_cause option" where
  "first_violation now st =
     (if max_records (config st) < store_resident_records st then Some RecordCeiling
      else if max_accounted_bytes (config st) < store_accounted_bytes st
      then Some AccountedBytesCeiling
      else case oldest_key st of
             None \<Rightarrow> None
           | Some oldest \<Rightarrow>
               if expired (window_nanos st) now (key_time oldest) then Some AdmissionWindow else None)"

definition adjust_by :: "('a \<Rightarrow> 'a \<Rightarrow> bool) \<Rightarrow> 'a \<Rightarrow> ('v \<Rightarrow> 'v) \<Rightarrow> ('a \<times> 'v) list \<Rightarrow> ('a \<times> 'v) list" where
  "adjust_by eq x f ps = map (\<lambda>p. if eq (fst p) x then (fst p, f (snd p)) else p) ps"

definition charge_stream :: "layout \<Rightarrow> stream_identity \<Rightarrow> memory_store \<Rightarrow> memory_store" where
  "charge_stream L s st =
     (case get_by stream_eq (series st) s of
        None \<Rightarrow>
          st\<lparr>series := series st @ [(s, 1)],
             identity_bytes := sat_add (identity_bytes st) (accounted_u64 (stream_size L s))\<rparr>
      | Some (_, n) \<Rightarrow>
          st\<lparr>series := adjust_by stream_eq s (\<lambda>n. n + 1) (series st),
             identity_bytes :=
               (if n = 0 then sat_add (identity_bytes st) (accounted_u64 (stream_size L s))
                else identity_bytes st)\<rparr>)"

definition release_stream_ref :: "layout \<Rightarrow> stream_identity \<Rightarrow> memory_store \<Rightarrow> memory_store \<times> bool" where
  "release_stream_ref L s st =
     (case get_by stream_eq (series st) s of
        None \<Rightarrow> (st, False)
      | Some (_, n) \<Rightarrow>
          if n - 1 = 0
          then (st\<lparr>series := remove_by stream_eq s (series st),
                   identity_bytes := identity_bytes st - accounted_u64 (stream_size L s)\<rparr>, True)
          else (st\<lparr>series := adjust_by stream_eq s (\<lambda>n. n - 1) (series st)\<rparr>, False))"

section \<open>Eviction\<close>

definition pop_oldest ::
  "layout \<Rightarrow> memory_store \<Rightarrow> ((admission_key \<times> stream_identity option) \<times> memory_store) option" where
  "pop_oldest L st =
     (case oldest_key st of
        None \<Rightarrow> None
      | Some oldest \<Rightarrow>
          if Some oldest = smallest_key (spans_shelf st)
          then (case pop_smallest (span_size L) (spans_shelf st) of
                  None \<Rightarrow> None
                | Some ((key, _), sh) \<Rightarrow> Some ((key, None), st\<lparr>spans_shelf := sh\<rparr>))
          else if Some oldest = smallest_key (logs_shelf st)
          then (case pop_smallest (log_record_size L) (logs_shelf st) of
                  None \<Rightarrow> None
                | Some ((key, _), sh) \<Rightarrow> Some ((key, None), st\<lparr>logs_shelf := sh\<rparr>))
          else (case pop_smallest (slot_size L) (points_shelf st) of
                  None \<Rightarrow> None
                | Some ((key, slot), sh) \<Rightarrow>
                    (let (st1, retired) = release_stream_ref L (ps_stream slot) (st\<lparr>points_shelf := sh\<rparr>)
                     in Some ((key, if retired then Some (ps_stream slot) else None), st1))))"

fun count_eviction :: "eviction_cause \<Rightarrow> store_counters \<Rightarrow> store_counters" where
  "count_eviction RecordCeiling c = c\<lparr>c_record_ceiling := c_record_ceiling c + 1\<rparr>"
| "count_eviction AccountedBytesCeiling c =
     c\<lparr>c_accounted_bytes_ceiling := c_accounted_bytes_ceiling c + 1\<rparr>"
| "count_eviction AdmissionWindow c = c\<lparr>c_admission_window := c_admission_window c + 1\<rparr>"

text \<open>The hook's calls for one eviction, the record's first, counted once made.\<close>

definition report_eviction ::
  "admission_key \<Rightarrow> stream_identity option \<Rightarrow> memory_store \<Rightarrow> memory_store \<times> hook_call list" where
  "report_eviction key released st =
     (if hook st
      then (st\<lparr>counters := (counters st)\<lparr>c_hook_deliveries := c_hook_deliveries (counters st) + 1\<rparr>\<rparr>,
            Evicted (key_entity key) #
            (case released of None \<Rightarrow> [] | Some s \<Rightarrow> [StreamReleased s]))
      else (st, []))"

text \<open>One turn of the loop; \<open>None\<close> ends it.\<close>

definition evict_one ::
  "layout \<Rightarrow> admission_time \<Rightarrow> memory_store \<Rightarrow> (memory_store \<times> hook_call list) option" where
  "evict_one L now st =
     (case first_violation now st of
        None \<Rightarrow> None
      | Some cause \<Rightarrow>
          (case pop_oldest L st of
             None \<Rightarrow> None
           | Some ((key, released), st1) \<Rightarrow>
               Some (report_eviction key released
                       (st1\<lparr>counters := count_eviction cause (counters st1)\<rparr>))))"

definition resident_count :: "memory_store \<Rightarrow> nat" where
  "resident_count st =
     shelf_len (spans_shelf st) + shelf_len (logs_shelf st) + shelf_len (points_shelf st)"

lemma pop_smallest_len: "pop_smallest sz sh = Some (p, sh') \<Longrightarrow> shelf_len sh' < shelf_len sh"
  by (auto simp: pop_smallest_def shelf_len_def split: list.splits)

lemma release_stream_ref_rest:
  "spans_shelf (fst (release_stream_ref L s st)) = spans_shelf st"
  "logs_shelf (fst (release_stream_ref L s st)) = logs_shelf st"
  "points_shelf (fst (release_stream_ref L s st)) = points_shelf st"
  "counters (fst (release_stream_ref L s st)) = counters st"
  "config (fst (release_stream_ref L s st)) = config st"
  "window_nanos (fst (release_stream_ref L s st)) = window_nanos st"
  "hook (fst (release_stream_ref L s st)) = hook st"
  by (auto simp: release_stream_ref_def Let_def split: option.splits)

lemma pop_oldest_shrinks: "pop_oldest L st = Some (p, st') \<Longrightarrow> resident_count st' < resident_count st"
  using release_stream_ref_rest(1-3) [of L _ st]
  by (auto simp: pop_oldest_def resident_count_def release_stream_ref_def
      dest!: pop_smallest_len split: option.splits if_splits prod.splits)

lemma evict_one_shrinks: "evict_one L now st = Some (st', cs) \<Longrightarrow> resident_count st' < resident_count st"
  by (auto simp: evict_one_def report_eviction_def resident_count_def
      dest!: pop_oldest_shrinks split: option.splits if_splits)

function enforce_against ::
  "layout \<Rightarrow> admission_time \<Rightarrow> memory_store \<Rightarrow> memory_store \<times> nat \<times> hook_call list" where
  "enforce_against L now st =
     (case evict_one L now st of
        None \<Rightarrow> (st, 0, [])
      | Some (st1, calls) \<Rightarrow>
          (let (st2, n, more) = enforce_against L now st1 in (st2, n + 1, calls @ more)))"
  by pat_completeness auto

termination
  by (relation "measure (\<lambda>(L, now, st). resident_count st)") (auto dest: evict_one_shrinks)

declare enforce_against.simps [simp del]

section \<open>Keeps\<close>

definition report_refusal ::
  "entity_id \<Rightarrow> stream_identity option \<Rightarrow> memory_store \<Rightarrow> memory_store \<times> hook_call list" where
  "report_refusal e s st =
     (if hook st
      then (st\<lparr>counters := (counters st)
                 \<lparr>c_refused_hook_deliveries := c_refused_hook_deliveries (counters st) + 1\<rparr>\<rparr>,
            [KeepRefused e s])
      else (st, []))"

definition refuse_early ::
  "'r shelf \<Rightarrow> entity_id \<Rightarrow> nat \<Rightarrow> nat \<Rightarrow> store_counters \<Rightarrow> store_counters \<times> (keep_outcome + unit)" where
  "refuse_early sh e sz max_bytes c =
     (if shelf_contains e sh
      then (c\<lparr>c_duplicate_keeps := c_duplicate_keeps c + 1\<rparr>, Inl Duplicate)
      else if max_bytes < sz then (c\<lparr>c_oversized := c_oversized c + 1\<rparr>, Inl Oversized)
      else (c, Inr ()))"

definition keep_on_shelf ::
  "('r \<Rightarrow> usize) \<Rightarrow> 'r shelf \<Rightarrow> 'r admitted \<Rightarrow> nat \<Rightarrow> nat \<Rightarrow> store_counters \<Rightarrow>
     'r shelf \<times> store_counters \<times> (keep_outcome + admission_time)" where
  "keep_on_shelf size_of sh a sz max_bytes c =
     (case refuse_early sh (ad_entity a) sz max_bytes c of
        (c1, Inl out) \<Rightarrow> (sh, c1, Inl out)
      | (c1, Inr _) \<Rightarrow> (shelf_insert size_of a sh, c1, Inr (ad_at a)))"

definition enforce_kept ::
  "layout \<Rightarrow> admission_time \<Rightarrow> memory_store \<Rightarrow> memory_store \<times> keep_outcome \<times> hook_call list" where
  "enforce_kept L now st =
     (case enforce_against L now st of (st1, n, calls) \<Rightarrow> (st1, Kept n, calls))"

definition keep_refusal ::
  "entity_id \<Rightarrow> stream_identity option \<Rightarrow> keep_outcome \<Rightarrow> memory_store \<Rightarrow>
     memory_store \<times> keep_outcome \<times> hook_call list" where
  "keep_refusal e s out st =
     (if out = Oversized
      then (case report_refusal e s st of (st1, calls) \<Rightarrow> (st1, out, calls))
      else (st, out, []))"

definition keep_span ::
  "layout \<Rightarrow> span admitted \<Rightarrow> memory_store \<Rightarrow> memory_store \<times> keep_outcome \<times> hook_call list" where
  "keep_span L a st =
     (case keep_on_shelf (span_size L) (spans_shelf st) a (accounted_u64 (span_size L (ad_record a)))
             (max_accounted_bytes (config st)) (counters st) of
        (sh, c, result) \<Rightarrow>
          (let st1 = st\<lparr>spans_shelf := sh, counters := c\<rparr>
           in case result of
                Inr now \<Rightarrow> enforce_kept L now st1
              | Inl out \<Rightarrow> keep_refusal (ad_entity a) None out st1))"

definition keep_log_record ::
  "layout \<Rightarrow> log_record admitted \<Rightarrow> memory_store \<Rightarrow> memory_store \<times> keep_outcome \<times> hook_call list" where
  "keep_log_record L a st =
     (case keep_on_shelf (log_record_size L) (logs_shelf st) a
             (accounted_u64 (log_record_size L (ad_record a)))
             (max_accounted_bytes (config st)) (counters st) of
        (sh, c, result) \<Rightarrow>
          (let st1 = st\<lparr>logs_shelf := sh, counters := c\<rparr>
           in case result of
                Inr now \<Rightarrow> enforce_kept L now st1
              | Inl out \<Rightarrow> keep_refusal (ad_entity a) None out st1))"

definition keep_metric_point ::
  "layout \<Rightarrow> metric_point admitted \<Rightarrow> stream_identity \<Rightarrow> memory_store \<Rightarrow>
     memory_store \<times> keep_outcome \<times> hook_call list" where
  "keep_metric_point L a s st =
     (case refuse_early (points_shelf st) (ad_entity a) (accounted_u64 (point_size L (ad_record a)))
             (max_accounted_bytes (config st)) (counters st) of
        (c, Inl out) \<Rightarrow> keep_refusal (ad_entity a) (Some s) out (st\<lparr>counters := c\<rparr>)
      | (c, Inr _) \<Rightarrow>
          (let st1 = st\<lparr>counters := c\<rparr>; ceiling = max_accounted_bytes (config st);
               bytes = accounted_u64 (stream_size L s)
           in if ceiling < bytes
              then (case report_refusal (ad_entity a) (Some s)
                           (st1\<lparr>counters := c\<lparr>c_identity_over_ceiling := c_identity_over_ceiling c + 1\<rparr>\<rparr>) of
                      (st2, calls) \<Rightarrow> (st2, IdentityOverCeiling ceiling bytes, calls))
              else if get_by stream_eq (series st1) s = None \<and>
                      series_cap (config st1) \<le> store_resident_streams st1
              then (case report_refusal (ad_entity a) (Some s)
                           (st1\<lparr>counters := c\<lparr>c_series_cap := c_series_cap c + 1\<rparr>\<rparr>) of
                      (st2, calls) \<Rightarrow> (st2, SeriesCapReached, calls))
              else
                (let slot = \<lparr>ps_point = ad_record a, ps_stream = s\<rparr>;
                     admitted_slot =
                       \<lparr>ad_entity = ad_entity a, ad_at = ad_at a, ad_record = slot\<rparr>;
                     st2 = st1\<lparr>points_shelf :=
                             shelf_insert (slot_size L) admitted_slot (points_shelf st1)\<rparr>
                 in enforce_kept L (ad_at a) (charge_stream L s st2))))"

section \<open>Retrieval and the rest of the contract\<close>

definition store_span :: "memory_store \<Rightarrow> entity_id \<Rightarrow> span option" where
  "store_span st e = shelf_get e (spans_shelf st)"

definition store_log_record :: "memory_store \<Rightarrow> entity_id \<Rightarrow> log_record option" where
  "store_log_record st e = shelf_get e (logs_shelf st)"

definition view_of :: "point_slot \<Rightarrow> point_view" where
  "view_of slot = \<lparr>pv_point = ps_point slot, pv_stream = ps_stream slot\<rparr>"

definition store_metric_point :: "memory_store \<Rightarrow> entity_id \<Rightarrow> point_view option" where
  "store_metric_point st e = map_option view_of (shelf_get e (points_shelf st))"

definition scan_spans :: "memory_store \<Rightarrow> admission_key option \<Rightarrow> usize \<Rightarrow> span scan_page" where
  "scan_spans st = scan_after (spans_shelf st)"

definition scan_log_records :: "memory_store \<Rightarrow> admission_key option \<Rightarrow> usize \<Rightarrow> log_record scan_page" where
  "scan_log_records st = scan_after (logs_shelf st)"

definition scan_metric_points :: "memory_store \<Rightarrow> admission_key option \<Rightarrow> usize \<Rightarrow> point_view scan_page" where
  "scan_metric_points st after limit =
     (let page = scan_after (points_shelf st) after limit
      in \<lparr>pg_items = map (\<lambda>i. \<lparr>it_key = it_key i, it_record = view_of (it_record i)\<rparr>) (pg_items page),
          pg_cursor = pg_cursor page\<rparr>)"

definition enforce_retention ::
  "layout \<Rightarrow> admission_time \<Rightarrow> memory_store \<Rightarrow> memory_store \<times> nat \<times> hook_call list" where
  "enforce_retention L now st = enforce_against L now st"

definition observe_admission_anomalies :: "nat \<Rightarrow> memory_store \<Rightarrow> memory_store" where
  "observe_admission_anomalies total_seen st = st\<lparr>observed_anomalies := total_seen\<rparr>"

definition stats :: "memory_store \<Rightarrow> store_stats" where
  "stats st =
     \<lparr>resident_records = store_resident_records st,
      resident_spans = sat_u64 (shelf_len (spans_shelf st)),
      resident_log_records = sat_u64 (shelf_len (logs_shelf st)),
      resident_metric_points = sat_u64 (shelf_len (points_shelf st)),
      stat_resident_streams = store_resident_streams st,
      accounted_bytes = store_accounted_bytes st,
      record_accounted_bytes = store_record_bytes st,
      identity_accounted_bytes = identity_bytes st,
      evicted_for_record_ceiling = c_record_ceiling (counters st),
      evicted_for_accounted_bytes_ceiling = c_accounted_bytes_ceiling (counters st),
      evicted_for_admission_window = c_admission_window (counters st),
      oversized_refusals = c_oversized (counters st),
      duplicate_keeps = c_duplicate_keeps (counters st),
      kept_out_series_cap = c_series_cap (counters st),
      identity_over_ceiling_refusals = c_identity_over_ceiling (counters st),
      hook_deliveries = c_hook_deliveries (counters st),
      refused_hook_deliveries = c_refused_hook_deliveries (counters st),
      admission_anomalies_total = observed_anomalies st\<rparr>"

end
