(* ===== verification/Samples.thy ===== *)
theory Samples
  imports Identity
begin

text \<open>
  Concrete records, for the evaluated instances that accompany the properties: a span, a log
  record, a metric stream and a point, each parameterised by what an instance varies.
\<close>

definition sample_trace :: "u8 \<Rightarrow> trace_id" where
  "sample_trace b = TraceId (b # replicate 15 0)"

definition sample_span_id :: "u8 \<Rightarrow> span_id" where
  "sample_span_id b = SpanId (b # replicate 7 0)"

definition sample_resource :: "string option \<Rightarrow> resource" where
  "sample_resource url = \<lparr>res_attributes = [(''svc'', StringV ''a'')], res_schema_url = url, res_dropped = 0\<rparr>"

definition sample_scope :: instrumentation_scope where
  "sample_scope = \<lparr>sc_name = ''lib'', sc_version = None, sc_attributes = [], sc_schema_url = None,
     sc_dropped = 0\<rparr>"

definition sample_span :: "u8 \<Rightarrow> string \<Rightarrow> string option \<Rightarrow> span" where
  "sample_span b name url =
     \<lparr>sp_context = \<lparr>tc_trace_id = sample_trace b, tc_span_id = sample_span_id b,
        tc_flags = TraceFlags 1, tc_tracestate = TraceState []\<rparr>,
      sp_parent_span_id = None, sp_name = name, sp_kind = Server, sp_start_time = 1,
      sp_end_time = Some 2, sp_resource = sample_resource url, sp_scope = sample_scope,
      sp_attributes = [], sp_emitter_dropped = \<lparr>ed_attributes = 0, ed_events = 0, ed_links = 0\<rparr>,
      sp_events = [], sp_links = [], sp_status = \<lparr>st_code = StatusOk, st_message = []\<rparr>\<rparr>"

definition sample_log :: "model_value option \<Rightarrow> log_record" where
  "sample_log body =
     \<lparr>lg_timestamp = Some 1, lg_observed_timestamp = None, lg_severity_number = None,
      lg_severity_text = None, lg_body = body, lg_resource = sample_resource None,
      lg_scope = sample_scope, lg_attributes = [], lg_dropped = 0, lg_trace_id = None,
      lg_span_id = None, lg_trace_flags = None, lg_event_name = None\<rparr>"

definition sample_stream :: "string \<Rightarrow> string option \<Rightarrow> string option \<Rightarrow> stream_identity" where
  "sample_stream name description url =
     \<lparr>si_resource = sample_resource url, si_scope = sample_scope, si_name = name,
      si_description = description, si_unit = None, si_metadata = [],
      si_kind = Sum True, si_temporality = Some Cumulative\<rparr>"

definition sample_point :: "u64 \<Rightarrow> i64 \<Rightarrow> metric_point" where
  "sample_point t v = NumberP \<lparr>np_attributes = [], np_start_time = Some 0, np_time = t,
     np_value = IntNumber v, np_flags = 0, np_exemplars = []\<rparr>"

lemmas sample_defs = sample_trace_def sample_span_id_def sample_resource_def sample_scope_def
  sample_span_def sample_log_def sample_stream_def sample_point_def


lemmas budget_eval = budget_span budget_log budget_point budget_stream span_within_def
  log_within_def point_within_def stream_within_def attributes_within_def
  attribute_entry_size_def size_constants default_budget_limits_def

lemma sample_natural_identity:
  "b \<noteq> 0 \<Longrightarrow> natural_identity (sample_span b name url) = Some (sample_trace b, sample_span_id b)"
  by (simp add: natural_identity_def sample_defs trace_id_is_valid_def span_id_is_valid_def)

lemma sample_nameless: "natural_identity (sample_span 0 name url) = None"
  by (simp add: natural_identity_def sample_defs trace_id_is_valid_def span_id_is_valid_def
      list_ex_iff)

lemma sample_span_gate [simp]:
  "check_span layout64 (sample_span b name url) default_budget_limits = Inr ()"
  by (simp add: budget_eval sample_defs)

lemma sample_log_gate [simp]:
  "check_log_record layout64 (sample_log None) default_budget_limits = Inr ()"
  by (simp add: budget_eval sample_defs)

lemma sample_point_gates [simp]:
  "check_identity_coherence (sample_stream name d url) = Inr ()"
  "check_point_coherence (sample_stream name d url) (sample_point t v) i = Inr ()"
  "check_stream_identity layout64 (sample_stream name d url) default_budget_limits = Inr ()"
  "check_point layout64 (sample_point t v) default_budget_limits = Inr ()"
  by (simp_all add: budget_eval sample_defs check_identity_coherence_def check_point_coherence_def
      expects_temporality_def requires_start_time_def Let_def)

lemma sample_span_eq:
  "span_eq (sample_span b name url) (sample_span b' name' url') \<longleftrightarrow> b = b' \<and> name = name'"
  by (auto simp: span_eq_def sample_defs resource_eq_def)

lemma sample_stream_eq:
  "stream_eq (sample_stream n d url) (sample_stream n' d' url') \<longleftrightarrow> n = n' \<and> d = d'"
  by (auto simp: stream_eq_def sample_defs resource_eq_def)

end
