(* ===== verification/Store_Laws.thy ===== *)
theory Store_Laws
  imports Memory_Store Samples "HOL-Library.Multiset"
begin

text \<open>
  The laws of the in-memory store.

  \<open>wf_store\<close> ties the byte sums, the entity indexes and the series table to what is resident.
  Its parameter \<open>U\<close> is the set of streams that may occur. Everything but the identity charge is
  exact for every such set; the charge is exact when the accounted size of the streams of \<open>U\<close> is
  determined by their content (\<open>size_coherent\<close>), because the store charges the first stream of a
  content and releases the last one. The laws of the retention loop follow by induction over its
  turns; \<open>sane_config\<close> excludes ceilings within a factor three of the \<open>u64\<close> range, where the
  saturating sums stop being exact.
\<close>

section \<open>Tables\<close>

lemma get_adjust:
  "get_by eq (adjust_by eq s f ps) x =
     map_option (\<lambda>p. if eq (fst p) s then (fst p, f (snd p)) else p) (get_by eq ps x)"
  by (induction ps) (auto simp: adjust_by_def get_by_Cons)

lemma keys_adjust [simp]: "map fst (adjust_by eq s f ps) = map fst ps"
  by (auto simp: adjust_by_def)

lemma key_set_adjust [simp]: "fst ` set (adjust_by eq s f ps) = fst ` set ps"
  by (metis keys_adjust list.set_map)

lemma distinct_by_adjust [simp]: "distinct_by eq (adjust_by eq s f ps) = distinct_by eq ps"
  by (simp add: distinct_by_def)

definition series_count :: "(stream_identity \<times> nat) list \<Rightarrow> stream_identity \<Rightarrow> nat" where
  "series_count ps x = (case get_by stream_eq ps x of None \<Rightarrow> 0 | Some p \<Rightarrow> snd p)"

definition stream_count :: "(admission_key \<times> point_slot) list \<Rightarrow> stream_identity \<Rightarrow> nat" where
  "stream_count ps x = length (filter (\<lambda>p. stream_eq (ps_stream (snd p)) x) ps)"

lemma stream_count_simps [simp]:
  "stream_count [] x = 0"
  "stream_count (p # ps) x = (if stream_eq (ps_stream (snd p)) x then 1 else 0) + stream_count ps x"
  by (simp_all add: stream_count_def)

lemma stream_count_insert:
  "k \<notin> fst ` set ps \<Longrightarrow> stream_count (om_insert k v ps) x =
     (if stream_eq (ps_stream v) x then 1 else 0) + stream_count ps x"
  by (induction k v ps rule: om_insert.induct) auto

lemma series_count_cong: "stream_eq x y \<Longrightarrow> series_count ps x = series_count ps y"
  unfolding series_count_def using stream_key.get_cong by metis

lemma series_count_adjust:
  "series_count (adjust_by stream_eq s f ps) x =
     (if stream_eq s x \<and> get_by stream_eq ps x \<noteq> None then f (series_count ps x) else series_count ps x)"
proof (cases "get_by stream_eq ps x")
  case None
  then show ?thesis by (simp add: series_count_def get_adjust)
next
  case (Some p)
  then have "stream_eq (fst p) x" using get_by_SomeD by fastforce
  then have "stream_eq (fst p) s \<longleftrightarrow> stream_eq s x"
    using stream_key.eq_sym stream_key.eq_trans by blast
  with Some show ?thesis by (simp add: series_count_def get_adjust)
qed

lemma series_count_remove:
  "series_count (remove_by stream_eq s ps) x = (if stream_eq s x then 0 else series_count ps x)"
  by (simp add: series_count_def stream_key.get_remove)

lemma series_count_append:
  "get_by stream_eq ps s = None \<Longrightarrow>
     series_count (ps @ [(s, n)]) x = (if stream_eq s x then n else series_count ps x)"
proof -
  assume none: "get_by stream_eq ps s = None"
  have "stream_eq s x \<Longrightarrow> get_by stream_eq ps x = None"
    using none stream_key.get_cong by metis
  then show ?thesis
    by (simp add: series_count_def stream_key.get_append_new split: option.splits)
qed

lemma series_member_count:
  "distinct_by stream_eq ps \<Longrightarrow> p \<in> set ps \<Longrightarrow> series_count ps (fst p) = snd p"
  by (simp add: series_count_def stream_key.get_self)

section \<open>The invariant\<close>

definition size_coherent :: "layout \<Rightarrow> stream_identity set \<Rightarrow> bool" where
  "size_coherent L U \<longleftrightarrow> (\<forall>x \<in> U. \<forall>y \<in> U. stream_eq x y \<longrightarrow> stream_size L x = stream_size L y)"

definition series_ok :: "memory_store \<Rightarrow> bool" where
  "series_ok st \<longleftrightarrow>
     distinct_by stream_eq (series st) \<and> (\<forall>p \<in> set (series st). 0 < snd p) \<and>
     (\<forall>x. series_count (series st) x = stream_count (by_key (points_shelf st)) x)"

definition identity_sum :: "layout \<Rightarrow> (stream_identity \<times> nat) list \<Rightarrow> nat" where
  "identity_sum L ps = sum_list (map (\<lambda>p. stream_size L (fst p)) ps)"

definition streams_in :: "stream_identity set \<Rightarrow> memory_store \<Rightarrow> bool" where
  "streams_in U st \<longleftrightarrow>
     fst ` set (series st) \<subseteq> U \<and> (\<forall>p \<in> set (by_key (points_shelf st)). ps_stream (snd p) \<in> U)"

definition record_bytes :: "memory_store \<Rightarrow> nat" where
  "record_bytes st =
     shelf_bytes (spans_shelf st) + shelf_bytes (logs_shelf st) + shelf_bytes (points_shelf st)"

definition raw_bytes :: "memory_store \<Rightarrow> nat" where
  "raw_bytes st = record_bytes st + identity_bytes st"

definition wf_store :: "layout \<Rightarrow> stream_identity set \<Rightarrow> memory_store \<Rightarrow> bool" where
  "wf_store L U st \<longleftrightarrow>
     wf_shelf (span_size L) (spans_shelf st) \<and> wf_shelf (log_record_size L) (logs_shelf st) \<and>
     wf_shelf (slot_size L) (points_shelf st) \<and> series_ok st \<and> streams_in U st \<and>
     record_bytes st \<le> u64_max \<and> identity_bytes st \<le> u64_max \<and>
     (size_coherent L U \<longrightarrow> identity_bytes st = identity_sum L (series st))"

lemma identity_sum_simps [simp]:
  "identity_sum L [] = 0"
  "identity_sum L (p # ps) = stream_size L (fst p) + identity_sum L ps"
  "identity_sum L (ps @ qs) = identity_sum L ps + identity_sum L qs"
  by (simp_all add: identity_sum_def)

lemma identity_sum_adjust [simp]: "identity_sum L (adjust_by eq s f ps) = identity_sum L ps"
  by (induction ps) (auto simp: adjust_by_def)

lemma identity_sum_remove:
  assumes "distinct_by stream_eq ps" "get_by stream_eq ps s = Some p"
  shows "identity_sum L ps = identity_sum L (remove_by stream_eq s ps) + stream_size L (fst p)"
  using assms
proof (induction ps)
  case (Cons q ps)
  show ?case
  proof (cases "stream_eq (fst q) s")
    case True
    then have "\<forall>r \<in> set ps. \<not> stream_eq (fst r) s"
      using Cons.prems(1) stream_key.eq_sym stream_key.eq_trans by (metis distinct_by_Cons)
    then have "remove_by stream_eq s ps = ps"
      by (simp add: remove_by_def filter_id_conv)
    with True Cons.prems show ?thesis by (simp add: remove_by_Cons get_by_Cons)
  next
    case False
    with Cons show ?thesis by (simp add: remove_by_Cons get_by_Cons)
  qed
qed simp

lemma wf_store_new: "wf_store L U (store_new cfg wired)"
  by (simp add: wf_store_def store_new_def wf_shelf_new series_ok_def series_count_def streams_in_def
      record_bytes_def) (simp add: shelf_new_def)

lemma wf_store_counters [simp]:
  "wf_store L U (st\<lparr>counters := c\<rparr>) = wf_store L U st"
  "wf_store L U (st\<lparr>observed_anomalies := n\<rparr>) = wf_store L U st"
  by (simp_all add: wf_store_def series_ok_def streams_in_def record_bytes_def)

text \<open>What the store reports of its records is exact; the identity charge is added to it.\<close>

lemma reported_bytes:
  assumes "wf_store L U st"
  shows "store_record_bytes st = record_bytes st" "store_accounted_bytes st = sat_u64 (raw_bytes st)"
  using assms
  by (auto simp: wf_store_def store_accounted_bytes_def store_record_bytes_def sat_add_def record_bytes_def
      raw_bytes_def sat_u64_def)

definition store_keys :: "memory_store \<Rightarrow> admission_key set" where
  "store_keys st =
     fst ` set (by_key (spans_shelf st)) \<union> fst ` set (by_key (logs_shelf st)) \<union>
     fst ` set (by_key (points_shelf st))"

definition entity_list :: "memory_store \<Rightarrow> entity_id list" where
  "entity_list st =
     map (key_entity \<circ> fst) (by_key (spans_shelf st)) @ map (key_entity \<circ> fst) (by_key (logs_shelf st)) @
     map (key_entity \<circ> fst) (by_key (points_shelf st))"

lemma length_entity_list: "length (entity_list st) = resident_count st"
  by (simp add: entity_list_def resident_count_def shelf_len_def)

lemma store_counters_rest [simp]:
  "store_keys (st\<lparr>counters := c\<rparr>) = store_keys st" "entity_list (st\<lparr>counters := c\<rparr>) = entity_list st"
  "record_bytes (st\<lparr>counters := c\<rparr>) = record_bytes st" "raw_bytes (st\<lparr>counters := c\<rparr>) = raw_bytes st"
  by (simp_all add: store_keys_def entity_list_def record_bytes_def raw_bytes_def)

section \<open>The oldest record\<close>

lemma fold_min: "fold min rest k \<in> insert k (set rest) \<and> (\<forall>x \<in> insert k (set rest). fold min rest k \<le> (x :: 'a :: linorder))"
proof (induction rest arbitrary: k)
  case (Cons x xs)
  from Cons.IH [of "min x k"] show ?case
    by (auto simp: min_def split: if_splits)
qed simp

lemma min_key_Some:
  assumes "min_key ks = Some k"
  shows "Some k \<in> set ks" "Some x \<in> set ks \<Longrightarrow> k \<le> x"
proof -
  have mf: "set (List.map_filter id ks) = {x. Some x \<in> set ks}"
    by (auto simp: List.map_filter_def image_iff) force
  obtain a as where as: "List.map_filter id ks = a # as" "k = fold min as a"
    using assms by (auto simp: min_key_def split: list.splits)
  from fold_min [of as a] as mf show "Some k \<in> set ks" by auto
  from fold_min [of as a] as mf show "Some x \<in> set ks \<Longrightarrow> k \<le> x" by auto
qed

lemma min_key_None: "min_key ks = None \<Longrightarrow> k \<in> set ks \<Longrightarrow> k = None"
  by (induction ks) (auto simp: min_key_def List.map_filter_simps split: list.splits option.splits)

lemma oldest_key_Some:
  assumes "wf_store L U st" "oldest_key st = Some k"
  shows "k \<in> store_keys st" "\<forall>k' \<in> store_keys st. k \<le> k'"
proof -
  have sorted: "om_sorted (by_key (spans_shelf st))" "om_sorted (by_key (logs_shelf st))"
    "om_sorted (by_key (points_shelf st))"
    using assms(1) by (simp_all add: wf_store_def wf_shelf_def)
  note m = min_key_Some [OF assms(2) [unfolded oldest_key_def]]
  show "k \<in> store_keys st"
    using m(1) smallest_key_least(1) [OF sorted(1)] smallest_key_least(1) [OF sorted(2)]
      smallest_key_least(1) [OF sorted(3)] by (auto simp: store_keys_def)
  have least: "k \<le> fst p" if p: "p \<in> set (by_key sh)" and sh: "om_sorted (by_key sh)"
    and mem: "smallest_key sh \<noteq> None \<Longrightarrow> smallest_key sh \<in> set [smallest_key (spans_shelf st),
       smallest_key (logs_shelf st), smallest_key (points_shelf st)]" for p and sh :: "'z shelf"
  proof -
    obtain x where x: "smallest_key sh = Some x"
      using p by (cases "smallest_key sh") (auto simp: smallest_key_None)
    with mem have "Some x \<in> set [smallest_key (spans_shelf st), smallest_key (logs_shelf st),
        smallest_key (points_shelf st)]" by simp
    then have "k \<le> x" by (rule m(2))
    also have "x \<le> fst p" using smallest_key_least(2) [OF sh x] p by simp
    finally show ?thesis .
  qed
  show "\<forall>k' \<in> store_keys st. k \<le> k'"
    unfolding store_keys_def using sorted by (auto intro!: least)
qed

lemma oldest_key_None:
  assumes "oldest_key st = None"
  shows "by_key (spans_shelf st) = []" "by_key (logs_shelf st) = []" "by_key (points_shelf st) = []"
proof -
  have "smallest_key (spans_shelf st) = None" "smallest_key (logs_shelf st) = None"
    "smallest_key (points_shelf st) = None"
    by (rule min_key_None [OF assms [unfolded oldest_key_def]], simp)+
  then show "by_key (spans_shelf st) = []" "by_key (logs_shelf st) = []" "by_key (points_shelf st) = []"
    by (simp_all add: smallest_key_None)
qed


lemma oldest_smallest:
  assumes "oldest_key st = Some k"
  shows "Some k = smallest_key (spans_shelf st) \<or> Some k = smallest_key (logs_shelf st) \<or>
    Some k = smallest_key (points_shelf st)"
  using min_key_Some(1) [OF assms [unfolded oldest_key_def]] by auto

lemma pop_key:
  assumes "smallest_key sh = Some k"
  obtains r sh' where "pop_smallest sz sh = Some ((k, r), sh')"
  using assms by (auto simp: pop_smallest_def smallest_key_def split: list.splits)

text \<open>The three ways the oldest record leaves.\<close>

lemma pop_oldest_cases:
  assumes "pop_oldest L st = Some ((k, released), st')"
  obtains (spans) r sh where "oldest_key st = Some k" "pop_smallest (span_size L) (spans_shelf st) = Some ((k, r), sh)"
      "st' = st\<lparr>spans_shelf := sh\<rparr>" "released = None"
  | (logs) r sh where "oldest_key st = Some k"
      "pop_smallest (log_record_size L) (logs_shelf st) = Some ((k, r), sh)"
      "st' = st\<lparr>logs_shelf := sh\<rparr>" "released = None"
  | (points) slot sh retired where "oldest_key st = Some k"
      "pop_smallest (slot_size L) (points_shelf st) = Some ((k, slot), sh)"
      "release_stream_ref L (ps_stream slot) (st\<lparr>points_shelf := sh\<rparr>) = (st', retired)"
      "released = (if retired then Some (ps_stream slot) else None)"
proof -
  obtain o' where o': "oldest_key st = Some o'"
    using assms by (auto simp: pop_oldest_def split: option.splits)
  consider (a) "smallest_key (spans_shelf st) = Some o'"
    | (b) "Some o' \<noteq> smallest_key (spans_shelf st)" "smallest_key (logs_shelf st) = Some o'"
    | (c) "Some o' \<noteq> smallest_key (spans_shelf st)" "Some o' \<noteq> smallest_key (logs_shelf st)"
      "smallest_key (points_shelf st) = Some o'"
    using oldest_smallest [OF o'] by metis
  then show thesis
  proof cases
    case a
    obtain r sh where pop: "pop_smallest (span_size L) (spans_shelf st) = Some ((o', r), sh)"
      by (rule pop_key [OF a])
    then have "pop_oldest L st = Some ((o', None), st\<lparr>spans_shelf := sh\<rparr>)"
      using a o' by (simp add: pop_oldest_def)
    with pop o' assms show thesis by (intro spans [of r sh]) simp_all
  next
    case b
    obtain r sh where pop: "pop_smallest (log_record_size L) (logs_shelf st) = Some ((o', r), sh)"
      by (rule pop_key [OF b(2)])
    then have "pop_oldest L st = Some ((o', None), st\<lparr>logs_shelf := sh\<rparr>)"
      using b o' by (simp add: pop_oldest_def)
    with pop o' assms show thesis by (intro logs [of r sh]) simp_all
  next
    case c
    obtain slot sh where pop: "pop_smallest (slot_size L) (points_shelf st) = Some ((o', slot), sh)"
      by (rule pop_key [OF c(3)])
    obtain st1 retired where rel: "release_stream_ref L (ps_stream slot) (st\<lparr>points_shelf := sh\<rparr>) = (st1, retired)"
      by (cases "release_stream_ref L (ps_stream slot) (st\<lparr>points_shelf := sh\<rparr>)")
    then have "pop_oldest L st = Some ((o', if retired then Some (ps_stream slot) else None), st1)"
      using pop c(1,2) o' by (simp add: pop_oldest_def)
    with pop rel o' assms show thesis by (intro points [of slot sh retired]) simp_all
  qed
qed

lemma pop_oldest_None: "pop_oldest L st = None \<Longrightarrow> oldest_key st = None"
proof (rule ccontr)
  assume none: "pop_oldest L st = None" and "oldest_key st \<noteq> None"
  then obtain k where k: "oldest_key st = Some k" by auto
  consider "smallest_key (spans_shelf st) = Some k"
    | "Some k \<noteq> smallest_key (spans_shelf st)" "smallest_key (logs_shelf st) = Some k"
    | "Some k \<noteq> smallest_key (spans_shelf st)" "Some k \<noteq> smallest_key (logs_shelf st)"
      "smallest_key (points_shelf st) = Some k"
    using oldest_smallest [OF k] by metis
  then show False
    using none k pop_smallest_None [of "span_size L" "spans_shelf st"]
      pop_smallest_None [of "log_record_size L" "logs_shelf st"]
      pop_smallest_None [of "slot_size L" "points_shelf st"]
    by cases (auto simp: pop_oldest_def Let_def split: option.splits prod.splits)
qed

text \<open>Releasing one point's residency of its stream.\<close>

lemma release_stream_ref_ok:
  assumes d: "distinct_by stream_eq (series st)" and pos: "\<forall>p \<in> set (series st). 0 < snd p"
    and cnt: "0 < series_count (series st) s"
    and rel: "release_stream_ref L s st = (st', retired)"
  shows "distinct_by stream_eq (series st')" "\<forall>p \<in> set (series st'). 0 < snd p"
    "series_count (series st') x = (if stream_eq s x then series_count (series st) x - 1 else series_count (series st) x)"
    "retired \<longleftrightarrow> series_count (series st) s = 1"
    "fst ` set (series st') \<subseteq> fst ` set (series st)"
proof -
  obtain t n where tn: "get_by stream_eq (series st) s = Some (t, n)"
    using cnt by (auto simp: series_count_def split: option.splits)
  then have sc: "series_count (series st) s = n" by (simp add: series_count_def)
  then have n: "0 < n" using cnt by simp
  have same: "stream_eq s x \<Longrightarrow> series_count (series st) x = n" for x
    using sc series_count_cong by metis
  have present: "stream_eq s x \<Longrightarrow> get_by stream_eq (series st) x \<noteq> None" for x
    using tn stream_key.get_cong by (metis option.distinct(1))
  show "distinct_by stream_eq (series st')"
    using rel tn d by (auto simp: release_stream_ref_def distinct_by_remove split: if_splits)
  show "series_count (series st') x = (if stream_eq s x then series_count (series st) x - 1 else series_count (series st) x)"
    using rel tn n same [of x] present [of x]
    by (auto simp: release_stream_ref_def series_count_remove series_count_adjust split: if_splits)
  show "retired \<longleftrightarrow> series_count (series st) s = 1"
    using rel tn n sc by (auto simp: release_stream_ref_def split: if_splits)
  show "fst ` set (series st') \<subseteq> fst ` set (series st)"
  proof (cases "n - 1 = 0")
    case True
    with rel tn show ?thesis by (auto simp: release_stream_ref_def set_remove_by)
  next
    case False
    with rel tn have "series st' = adjust_by stream_eq s (\<lambda>n. n - 1) (series st)"
      by (auto simp: release_stream_ref_def)
    then show ?thesis by simp
  qed
  show "\<forall>p \<in> set (series st'). 0 < snd p"
  proof
    fix p assume p: "p \<in> set (series st')"
    show "0 < snd p"
    proof (cases "n = 1")
      case True
      with p rel tn pos show ?thesis by (auto simp: release_stream_ref_def set_remove_by)
    next
      case False
      with rel tn n have st': "series st' = adjust_by stream_eq s (\<lambda>n. n - 1) (series st)"
        by (auto simp: release_stream_ref_def)
      with p have "p \<in> (\<lambda>q. if stream_eq (fst q) s then (fst q, snd q - 1) else q) ` set (series st)"
        by (simp add: adjust_by_def)
      then obtain q where q: "q \<in> set (series st)"
        "p = (if stream_eq (fst q) s then (fst q, snd q - 1) else q)" by blast
      have "stream_eq (fst q) s \<Longrightarrow> snd q = n"
        using stream_key.get_present [OF d q(1), of s] tn by auto
      with q pos n False show ?thesis by (cases "stream_eq (fst q) s") auto
    qed
  qed
qed


lemma release_identity_falls:
  "release_stream_ref L s st = (st', retired) \<Longrightarrow> identity_bytes st' \<le> identity_bytes st"
  by (auto simp: release_stream_ref_def split: option.splits if_splits)

lemma release_identity:
  assumes d: "distinct_by stream_eq (series st)" and cnt: "0 < series_count (series st) s"
    and rel: "release_stream_ref L s st = (st', retired)"
    and id: "identity_bytes st = identity_sum L (series st)" "identity_bytes st \<le> u64_max"
    and coh: "\<forall>p \<in> set (series st). stream_eq (fst p) s \<longrightarrow> stream_size L (fst p) = stream_size L s"
  shows "identity_bytes st' = identity_sum L (series st')"
proof -
  obtain t n where tn: "get_by stream_eq (series st) s = Some (t, n)"
    using cnt by (auto simp: series_count_def split: option.splits)
  then have size: "stream_size L t = stream_size L s"
    using coh get_by_SomeD by fastforce
  have sum: "identity_sum L (series st) = identity_sum L (remove_by stream_eq s (series st)) + stream_size L s"
    using identity_sum_remove [OF d tn] size by simp
  with id have "stream_size L s \<le> u64_max" by simp
  with rel tn id sum show ?thesis
    by (auto simp: release_stream_ref_def accounted_u64_def sat_u64_def split: if_splits)
qed

lemma pop_oldest_rest:
  assumes "pop_oldest L st = Some (p, st')"
  shows "config st' = config st" "window_nanos st' = window_nanos st" "hook st' = hook st"
    "counters st' = counters st"
proof -
  obtain k r where p: "p = (k, r)" by (cases p)
  have "config st' = config st \<and> window_nanos st' = window_nanos st \<and> hook st' = hook st \<and>
    counters st' = counters st"
    using assms unfolding p
  proof (cases rule: pop_oldest_cases)
    case (points slot sh retired)
    have "st' = fst (release_stream_ref L (ps_stream slot) (st\<lparr>points_shelf := sh\<rparr>))"
      using points(3) by simp
    then show ?thesis by (simp add: release_stream_ref_rest)
  qed simp_all
  then show "config st' = config st" "window_nanos st' = window_nanos st" "hook st' = hook st"
    "counters st' = counters st" by simp_all
qed

lemma wf_store_parts:
  assumes "wf_store L U st"
  shows "wf_shelf (span_size L) (spans_shelf st)" "wf_shelf (log_record_size L) (logs_shelf st)"
    "wf_shelf (slot_size L) (points_shelf st)" "series_ok st" "streams_in U st"
    "record_bytes st \<le> u64_max" "identity_bytes st \<le> u64_max"
    "size_coherent L U \<Longrightarrow> identity_bytes st = identity_sum L (series st)"
  using assms by (simp_all add: wf_store_def)

text \<open>An empty store: no bytes of records, no series; its identity charge is 0 when it is exact.\<close>

lemma empty_series: "series_ok st \<Longrightarrow> by_key (points_shelf st) = [] \<Longrightarrow> series st = []"
  by (cases "series st") (use series_member_count [of "series st" "hd (series st)"] in \<open>auto simp: series_ok_def\<close>)

lemma empty_store:
  assumes wf: "wf_store L U st" and none: "resident_count st = 0"
  shows "record_bytes st = 0" "series st = []" "size_coherent L U \<Longrightarrow> identity_bytes st = 0"
proof -
  have empty: "by_key (spans_shelf st) = []" "by_key (logs_shelf st) = []" "by_key (points_shelf st) = []"
    using none by (simp_all add: resident_count_def shelf_len_def)
  note parts = wf_store_parts [OF wf]
  show "record_bytes st = 0"
    using parts(1-3) empty by (simp add: wf_shelf_def record_bytes_def)
  show "series st = []" by (rule empty_series [OF parts(4) empty(3)])
  then show "size_coherent L U \<Longrightarrow> identity_bytes st = 0" using parts(8) by simp
qed

text \<open>Popping keeps the invariant, and names the stream exactly when its last point went.\<close>

lemma wf_pop_oldest:
  assumes wf: "wf_store L U st" and pop: "pop_oldest L st = Some ((k, released), st')"
  shows "wf_store L U st'" "raw_bytes st' \<le> raw_bytes st"
    "mset (entity_list st) = add_mset (key_entity k) (mset (entity_list st'))"
    "store_keys st = insert k (store_keys st')" "\<forall>k' \<in> store_keys st. k \<le> k'"
    "\<forall>x. series_count (series st') x \<le> series_count (series st) x"
    "\<forall>x. 0 < series_count (series st) x \<and> series_count (series st') x = 0 \<longleftrightarrow>
        (\<exists>s. released = Some s \<and> stream_eq s x)"
proof -
  note parts = wf_store_parts [OF wf]
  have "wf_store L U st' \<and> raw_bytes st' \<le> raw_bytes st \<and>
    mset (entity_list st) = add_mset (key_entity k) (mset (entity_list st')) \<and>
    store_keys st = insert k (store_keys st') \<and>
    (\<forall>x. series_count (series st') x \<le> series_count (series st) x) \<and>
    (\<forall>x. 0 < series_count (series st) x \<and> series_count (series st') x = 0 \<longleftrightarrow>
        (\<exists>s. released = Some s \<and> stream_eq s x))"
    using pop
  proof (cases rule: pop_oldest_cases)
    case (spans r sh)
    note c = pop_smallest_cases [OF spans(2) parts(1)]
    show ?thesis
      using wf c spans(3,4)
      by (auto simp: wf_store_def series_ok_def streams_in_def record_bytes_def raw_bytes_def entity_list_def
          store_keys_def)
  next
    case (logs r sh)
    note c = pop_smallest_cases [OF logs(2) parts(2)]
    show ?thesis
      using wf c logs(3,4)
      by (auto simp: wf_store_def series_ok_def streams_in_def record_bytes_def raw_bytes_def entity_list_def
          store_keys_def)
  next
    case (points slot sh retired)
    note c = pop_smallest_cases [OF points(2) parts(3)]
    let ?s = "ps_stream slot" and ?mid = "st\<lparr>points_shelf := sh\<rparr>"
    have fields: "spans_shelf st' = spans_shelf st" "logs_shelf st' = logs_shelf st" "points_shelf st' = sh"
      using release_stream_ref_rest(1-3) [of L ?s ?mid] points(3) by simp_all
    have d: "distinct_by stream_eq (series ?mid)" and pos: "\<forall>p \<in> set (series ?mid). 0 < snd p"
      and sc: "\<And>x. series_count (series ?mid) x = stream_count (by_key (points_shelf st)) x"
      using parts(4) by (simp_all add: series_ok_def)
    have cnt: "0 < series_count (series ?mid) ?s"
      using c(1) sc by (simp add: stream_key.eq_refl)
    note r = release_stream_ref_ok [OF d pos cnt points(3)]
    have inU: "?s \<in> U" "fst ` set (series st) \<subseteq> U"
      using parts(5) c(1) by (auto simp: streams_in_def)
    then have "\<forall>p \<in> set (series ?mid). stream_eq (fst p) ?s \<longrightarrow> stream_size L (fst p) = stream_size L ?s"
      if "size_coherent L U" using that by (auto simp: size_coherent_def)
    with release_identity [OF d cnt points(3)] parts(7,8)
    have exact: "size_coherent L U \<Longrightarrow> identity_bytes st' = identity_sum L (series st')" by simp
    have falls: "identity_bytes st' \<le> identity_bytes st" using release_identity_falls [OF points(3)] by simp
    have "series_ok st'"
      unfolding series_ok_def using r(1,2,3) sc c(1) fields by simp
    moreover have "streams_in U st'"
      using parts(5) r(5) c(1) fields by (auto simp: streams_in_def)
    moreover have "record_bytes st' \<le> record_bytes st"
      using fields c(3) by (simp add: record_bytes_def)
    ultimately have wf': "wf_store L U st'" "raw_bytes st' \<le> raw_bytes st"
      using parts c(2) fields exact falls by (simp_all add: wf_store_def raw_bytes_def)
    have released: "0 < series_count (series st) x \<and> series_count (series st') x = 0 \<longleftrightarrow>
        (\<exists>s. released = Some s \<and> stream_eq s x)" for x
      using r(3) [of x] r(4) points(4) series_count_cong [of ?s x "series st"] cnt by auto
    show ?thesis
      using wf' r(3) fields c(1) released
      by (auto simp: entity_list_def store_keys_def)
  qed
  then show "wf_store L U st'" "raw_bytes st' \<le> raw_bytes st"
    "mset (entity_list st) = add_mset (key_entity k) (mset (entity_list st'))"
    "store_keys st = insert k (store_keys st')"
    "\<forall>x. series_count (series st') x \<le> series_count (series st) x"
    "\<forall>x. 0 < series_count (series st) x \<and> series_count (series st') x = 0 \<longleftrightarrow>
        (\<exists>s. released = Some s \<and> stream_eq s x)" by simp_all
  have "oldest_key st = Some k" using pop by (cases rule: pop_oldest_cases) simp_all
  from oldest_key_Some(2) [OF wf this] show "\<forall>k' \<in> store_keys st. k \<le> k'" .
qed


section \<open>The retention loop\<close>

fun call_entity :: "hook_call \<Rightarrow> entity_id list" where
  "call_entity (Evicted e) = [e]"
| "call_entity (StreamReleased _) = []"
| "call_entity (KeepRefused _ _) = []"

fun call_stream :: "hook_call \<Rightarrow> stream_identity list" where
  "call_stream (Evicted _) = []"
| "call_stream (StreamReleased s) = [s]"
| "call_stream (KeepRefused _ _) = []"

definition evicted_entities :: "hook_call list \<Rightarrow> entity_id list" where
  "evicted_entities cs = concat (map call_entity cs)"

definition released_streams :: "hook_call list \<Rightarrow> stream_identity list" where
  "released_streams cs = concat (map call_stream cs)"

lemma calls_simps [simp]:
  "evicted_entities [] = []" "released_streams [] = []"
  "evicted_entities (c # cs) = call_entity c @ evicted_entities cs"
  "released_streams (c # cs) = call_stream c @ released_streams cs"
  "evicted_entities (cs @ ds) = evicted_entities cs @ evicted_entities ds"
  "released_streams (cs @ ds) = released_streams cs @ released_streams ds"
  by (simp_all add: evicted_entities_def released_streams_def)

definition eviction_counters :: "store_counters \<Rightarrow> nat" where
  "eviction_counters c = c_record_ceiling c + c_accounted_bytes_ceiling c + c_admission_window c"

text \<open>What a stretch of the loop does, from \<open>st\<close> to \<open>st'\<close> in \<open>n\<close> turns.\<close>

definition evicts :: "layout \<Rightarrow> stream_identity set \<Rightarrow> memory_store \<Rightarrow> memory_store \<Rightarrow> nat \<Rightarrow> hook_call list \<Rightarrow> bool" where
  "evicts L U st st' n calls \<longleftrightarrow>
     wf_store L U st' \<and> raw_bytes st' \<le> raw_bytes st \<and>
     config st' = config st \<and> window_nanos st' = window_nanos st \<and> hook st' = hook st \<and>
     resident_count st = resident_count st' + n \<and>
     store_keys st' \<subseteq> store_keys st \<and>
     (\<forall>k \<in> store_keys st - store_keys st'. \<forall>k' \<in> store_keys st'. k \<le> k') \<and>
     (\<forall>x. series_count (series st') x \<le> series_count (series st) x)"

definition reports :: "memory_store \<Rightarrow> memory_store \<Rightarrow> nat \<Rightarrow> hook_call list \<Rightarrow> bool" where
  "reports st st' n calls \<longleftrightarrow>
     eviction_counters (counters st') = eviction_counters (counters st) + n \<and>
     c_hook_deliveries (counters st') = c_hook_deliveries (counters st) + (if hook st then n else 0) \<and>
     c_refused_hook_deliveries (counters st') = c_refused_hook_deliveries (counters st) \<and>
     (if hook st
      then mset (entity_list st) = mset (entity_list st') + mset (evicted_entities calls) \<and>
        (\<forall>x. 0 < series_count (series st) x \<and> series_count (series st') x = 0 \<longleftrightarrow>
           (\<exists>s \<in> set (released_streams calls). stream_eq s x))
      else calls = [])"

lemma evicts_refl: "wf_store L U st \<Longrightarrow> evicts L U st st 0 []"
  by (simp add: evicts_def)

lemma reports_refl: "reports st st 0 []"
  by (auto simp: reports_def)

lemma evict_one_laws:
  assumes wf: "wf_store L U st" and one: "evict_one L now st = Some (st', calls)"
  shows "evicts L U st st' 1 calls" "reports st st' 1 calls"
proof -
  obtain cause k released st1 where pop: "pop_oldest L st = Some ((k, released), st1)"
    and st': "(st', calls) = report_eviction k released (st1\<lparr>counters := count_eviction cause (counters st1)\<rparr>)"
    using one by (auto simp: evict_one_def split: option.splits) metis
  note w = wf_pop_oldest [OF wf pop] and rest = pop_oldest_rest [OF pop]
  obtain c where c: "st' = st1\<lparr>counters := c\<rparr>"
    and counts: "eviction_counters c = eviction_counters (counters st) + 1"
      "c_hook_deliveries c = c_hook_deliveries (counters st) + (if hook st then 1 else 0)"
      "c_refused_hook_deliveries c = c_refused_hook_deliveries (counters st)"
    using st' rest by (cases cause) (auto simp: report_eviction_def eviction_counters_def)
  have calls: "calls = (if hook st then Evicted (key_entity k) #
      (case released of None \<Rightarrow> [] | Some s \<Rightarrow> [StreamReleased s]) else [])"
    using st' rest by (auto simp: report_eviction_def)
  have len: "resident_count st = resident_count st1 + 1"
    using arg_cong [OF w(3), of size] length_entity_list [of st] length_entity_list [of st1] by simp
  have order: "\<forall>k1 \<in> store_keys st - store_keys st1. \<forall>k' \<in> store_keys st1. k1 \<le> k'"
    using w(4,5) by auto
  have "resident_count st' = resident_count st1" unfolding c by (simp add: resident_count_def)
  then show "evicts L U st st' 1 calls"
    unfolding evicts_def c using w rest len order by auto
  have "(\<exists>s \<in> set (released_streams calls). stream_eq s x) \<longleftrightarrow> (\<exists>s. released = Some s \<and> stream_eq s x)"
    if "hook st" for x
    using that unfolding calls by (cases released) simp_all
  moreover have "evicted_entities calls = [key_entity k]" if "hook st"
    using that unfolding calls by (cases released) simp_all
  ultimately show "reports st st' 1 calls"
    unfolding reports_def c using w(3,7) counts calls by auto
qed

lemma evicts_trans:
  assumes "evicts L U st st1 m as" "evicts L U st1 st2 n bs"
  shows "evicts L U st st2 (n + m) (as @ bs)"
proof -
  have "k \<le> k'" if "k \<in> store_keys st - store_keys st2" "k' \<in> store_keys st2" for k k'
    using assms that unfolding evicts_def by (cases "k \<in> store_keys st1") blast+
  with assms show ?thesis unfolding evicts_def by (auto intro: order_trans)
qed

lemma reports_trans:
  assumes "reports st st1 m as" "reports st1 st2 n bs" "hook st1 = hook st"
    and mono: "\<forall>x. series_count (series st1) x \<le> series_count (series st) x"
      "\<forall>x. series_count (series st2) x \<le> series_count (series st1) x"
  shows "reports st st2 (n + m) (as @ bs)"
proof (cases "hook st")
  case True
  have "0 < series_count (series st) x \<and> series_count (series st2) x = 0 \<longleftrightarrow>
      (\<exists>s \<in> set (released_streams (as @ bs)). stream_eq s x)" for x
  proof -
    have a: "0 < series_count (series st) x \<and> series_count (series st1) x = 0 \<longleftrightarrow>
        (\<exists>s \<in> set (released_streams as). stream_eq s x)"
      and b: "0 < series_count (series st1) x \<and> series_count (series st2) x = 0 \<longleftrightarrow>
        (\<exists>s \<in> set (released_streams bs). stream_eq s x)"
      using assms(1-3) True by (simp_all add: reports_def)
    have "series_count (series st1) x = 0 \<Longrightarrow> series_count (series st2) x = 0"
      "0 < series_count (series st1) x \<Longrightarrow> 0 < series_count (series st) x"
      using mono by (metis le_zero_eq, metis less_le_trans)
    then show ?thesis using a b by (simp only: calls_simps set_append bex_Un) auto
  qed
  with assms True show ?thesis by (simp add: reports_def)
qed (use assms in \<open>simp add: reports_def\<close>)

lemma enforce_laws:
  assumes "wf_store L U st" "enforce_against L now st = (st', n, calls)"
  shows "evicts L U st st' n calls \<and> reports st st' n calls \<and> evict_one L now st' = None"
  using assms
proof (induction L now st arbitrary: st' n calls rule: enforce_against.induct)
  case (1 L now st)
  show ?case
  proof (cases "evict_one L now st")
    case None
    with 1 show ?thesis
      by (auto simp: enforce_against.simps [of L now st] evicts_refl reports_refl)
  next
    case (Some p)
    obtain st1 as where p: "p = (st1, as)" by (cases p)
    note one = evict_one_laws [OF 1(2) Some [unfolded p]]
    obtain m bs where rec: "enforce_against L now st1 = (st', m, bs)" "n = m + 1" "calls = as @ bs"
      using 1(3) Some p by (auto simp: enforce_against.simps [of L now st] split: prod.splits)
    have wf1: "wf_store L U st1" using one(1) by (simp add: evicts_def)
    from 1(1) [OF Some p [symmetric] wf1 rec(1)]
    have ih: "evicts L U st1 st' m bs" "reports st1 st' m bs" "evict_one L now st' = None" by blast+
    have "evicts L U st st' n calls"
      using evicts_trans [OF one(1) ih(1)] rec by simp
    moreover have "reports st st' n calls"
      using reports_trans [OF one(2) ih(2)] one(1) ih(1) rec by (simp add: evicts_def)
    ultimately show ?thesis using ih(3) by blast
  qed
qed

text \<open>
  When the loop ends, no ceiling is violated or nothing is left to evict. An empty store violates none,
  unless its identity charge has drifted.
\<close>

lemma evict_one_None:
  assumes wf: "wf_store L U st" and none: "evict_one L now st = None"
  shows "first_violation now st = None \<or> resident_count st = 0"
    and "size_coherent L U \<Longrightarrow> first_violation now st = None"
proof -
  show empty: "first_violation now st = None \<or> resident_count st = 0"
  proof (cases "first_violation now st")
    case (Some cause)
    with none have pop: "pop_oldest L st = None"
      by (auto simp: evict_one_def split: option.splits)
    from oldest_key_None [OF pop_oldest_None [OF pop]] show ?thesis
      by (simp add: resident_count_def shelf_len_def)
  qed simp
  assume coh: "size_coherent L U"
  have "first_violation now st = None" if count: "resident_count st = 0"
  proof -
    have "raw_bytes st = 0" using empty_store [OF wf count] coh by (simp add: raw_bytes_def)
    then have "store_accounted_bytes st = 0" by (simp add: reported_bytes [OF wf] sat_u64_def)
    moreover have "store_resident_records st = 0"
      using count by (simp add: store_resident_records_def resident_count_def sat_u64_def)
    moreover have "oldest_key st = None"
      using count by (simp add: resident_count_def shelf_len_def oldest_key_def smallest_key_def min_key_def
          List.map_filter_simps)
    ultimately show ?thesis by (simp add: first_violation_def)
  qed
  with empty show "first_violation now st = None" by blast
qed


section \<open>Keeps\<close>

definition sane_config :: "memory_config \<Rightarrow> bool" where
  "sane_config cfg \<longleftrightarrow>
     3 * max_accounted_bytes cfg \<le> u64_max \<and> 0 < u64_max \<and> max_records cfg < u64_max \<and>
     series_cap cfg \<le> u64_max"

text \<open>A settled store: well formed, within every ceiling and the series cap, or empty.\<close>

definition settled :: "layout \<Rightarrow> stream_identity set \<Rightarrow> memory_store \<Rightarrow> bool" where
  "settled L U st \<longleftrightarrow>
     wf_store L U st \<and> (resident_count st = 0 \<or> raw_bytes st \<le> max_accounted_bytes (config st)) \<and>
     resident_count st \<le> max_records (config st) \<and> length (series st) \<le> series_cap (config st)"

lemma accounted_u64_fits:
  "sane_config cfg \<Longrightarrow> accounted_u64 n \<le> max_accounted_bytes cfg \<Longrightarrow> n \<le> max_accounted_bytes cfg"
  by (auto simp: sane_config_def accounted_u64_def sat_u64_def min_def split: if_splits)

lemma insert_fits:
  "sane_config cfg \<Longrightarrow> a \<le> max_accounted_bytes cfg \<Longrightarrow> b \<le> max_accounted_bytes cfg \<Longrightarrow>
     c \<le> max_accounted_bytes cfg \<Longrightarrow> a + b + c \<le> u64_max"
  by (simp add: sane_config_def)

lemma no_violation_settles:
  assumes wf: "wf_store L U st" and none: "first_violation now st = None \<or> resident_count st = 0"
    and sane: "sane_config (config st)" and cap: "length (series st) \<le> series_cap (config st)"
  shows "settled L U st"
proof (cases "resident_count st = 0")
  case False
  with none have none: "first_violation now st = None" by simp
  have "store_accounted_bytes st \<le> max_accounted_bytes (config st)"
    "store_resident_records st \<le> max_records (config st)"
    using none by (auto simp: first_violation_def not_less split: if_splits)
  moreover from this(2) have "resident_count st \<le> max_records (config st)"
    using sane by (auto simp: store_resident_records_def resident_count_def sat_u64_def sane_config_def
        min_def split: if_splits)
  moreover have "raw_bytes st \<le> max_accounted_bytes (config st)"
    using calculation(1) sane
    by (auto simp: reported_bytes [OF wf] sat_u64_def sane_config_def min_def split: if_splits)
  ultimately show ?thesis using wf cap by (simp add: settled_def)
qed (use wf cap in \<open>simp add: settled_def\<close>)

lemma series_length_mono:
  assumes "series_ok st" "series_ok st'" and mono: "\<forall>x. series_count (series st') x \<le> series_count (series st) x"
  shows "length (series st') \<le> length (series st)"
proof -
  let ?f = "\<lambda>p. the (get_by stream_eq (series st) (fst p))"
  have d': "distinct_by stream_eq (series st')"
    using assms by (simp add: series_ok_def)
  have found: "get_by stream_eq (series st) (fst p) \<noteq> None" if "p \<in> set (series st')" for p
  proof -
    have "0 < series_count (series st') (fst p)"
      using that assms(2) series_member_count [OF d' that] by (auto simp: series_ok_def)
    then have "0 < series_count (series st) (fst p)" using mono by (meson less_le_trans)
    then show ?thesis by (auto simp: series_count_def split: option.splits)
  qed
  have f: "?f p \<in> set (series st) \<and> stream_eq (fst (?f p)) (fst p)" if p: "p \<in> set (series st')" for p
  proof -
    obtain q where "get_by stream_eq (series st) (fst p) = Some q" using found [OF p] by auto
    then show ?thesis using get_by_SomeD by fastforce
  qed
  have "inj_on ?f (set (series st'))"
  proof
    fix p q assume pq: "p \<in> set (series st')" "q \<in> set (series st')" "?f p = ?f q"
    have "stream_eq (fst p) (fst q)"
      using f [OF pq(1)] f [OF pq(2)] pq(3) stream_key.eq_sym stream_key.eq_trans by metis
    then show "p = q" using stream_key.distinct_member_eq [OF d' pq(1,2)] by blast
  qed
  then have "card (set (series st')) \<le> card (set (series st))"
    using f by (intro card_inj_on_le [of ?f]) auto
  moreover have "distinct (series st')"
    using d' by (rule stream_key.distinct_by_distinct)
  ultimately show ?thesis using card_length [of "series st"] by (simp add: distinct_card)
qed

lemma insert_shelf_laws:
  assumes "wf_shelf sz sh" "\<not> shelf_contains (ad_entity a) sh" "shelf_bytes sh + sz (ad_record a) \<le> u64_max"
  shows "wf_shelf sz (shelf_insert sz a sh)"
    "shelf_bytes (shelf_insert sz a sh) = shelf_bytes sh + sz (ad_record a)"
    "mset (map (key_entity \<circ> fst) (by_key (shelf_insert sz a sh))) =
      add_mset (ad_entity a) (mset (map (key_entity \<circ> fst) (by_key sh)))"
    "fst ` set (by_key (shelf_insert sz a sh)) =
      insert (AdmissionKey (ad_at a) (ad_entity a)) (fst ` set (by_key sh))"
proof -
  show "wf_shelf sz (shelf_insert sz a sh)"
    "shelf_bytes (shelf_insert sz a sh) = shelf_bytes sh + sz (ad_record a)"
    using wf_shelf_insert [OF assms] by simp_all
  have "mset (map (key_entity \<circ> fst) (om_insert k r ps)) = add_mset (key_entity k) (mset (map (key_entity \<circ> fst) ps))"
    if "k \<notin> fst ` set ps" for k and r :: 'a and ps
    using that by (induction k r ps rule: om_insert.induct) auto
  from this [OF absent_key [OF assms(1,2), of "ad_at a"]]
  show "mset (map (key_entity \<circ> fst) (by_key (shelf_insert sz a sh))) =
      add_mset (ad_entity a) (mset (map (key_entity \<circ> fst) (by_key sh)))"
    by (simp add: shelf_insert_def Let_def)
  show "fst ` set (by_key (shelf_insert sz a sh)) =
      insert (AdmissionKey (ad_at a) (ad_entity a)) (fst ` set (by_key sh))"
    by (simp add: shelf_insert_def Let_def)
qed


definition refusal_counters :: "store_counters \<Rightarrow> nat" where
  "refusal_counters c = c_oversized c + c_series_cap c + c_identity_over_ceiling c"

lemma refusal_counters_cong:
  "evict_one L now st = Some (st', cs) \<Longrightarrow> refusal_counters (counters st') = refusal_counters (counters st)"
proof -
  assume "evict_one L now st = Some (st', cs)"
  then obtain cause k released st1 where "pop_oldest L st = Some ((k, released), st1)"
    and "(st', cs) = report_eviction k released (st1\<lparr>counters := count_eviction cause (counters st1)\<rparr>)"
    by (auto simp: evict_one_def split: option.splits) metis
  then show ?thesis
    using pop_oldest_rest(4) [of L st "(k, released)" st1]
    by (cases cause) (auto simp: report_eviction_def refusal_counters_def split: if_splits)
qed

lemma enforce_refusal_counters:
  "enforce_against L now st = (st', n, calls) \<Longrightarrow>
     refusal_counters (counters st') = refusal_counters (counters st)"
proof (induction L now st arbitrary: st' n calls rule: enforce_against.induct)
  case (1 L now st)
  show ?case
  proof (cases "evict_one L now st")
    case None
    with 1(2) show ?thesis by (simp add: enforce_against.simps [of L now st])
  next
    case (Some p)
    obtain st1 as where p: "p = (st1, as)" by (cases p)
    obtain m bs where "enforce_against L now st1 = (st', m, bs)"
      using 1(2) Some p by (auto simp: enforce_against.simps [of L now st] split: prod.splits)
    from 1(1) [OF Some p [symmetric] this] refusal_counters_cong [OF Some [unfolded p]]
    show ?thesis by simp
  qed
qed

definition inserted ::
  "layout \<Rightarrow> stream_identity set \<Rightarrow> entity_id \<Rightarrow> admission_time \<Rightarrow> memory_store \<Rightarrow> memory_store \<Rightarrow> bool" where
  "inserted L U e t st st1 \<longleftrightarrow>
     wf_store L U st1 \<and> mset (entity_list st1) = add_mset e (mset (entity_list st)) \<and>
     store_keys st1 = insert (AdmissionKey t e) (store_keys st) \<and>
     config st1 = config st \<and> window_nanos st1 = window_nanos st \<and> hook st1 = hook st \<and>
     counters st1 = counters st \<and> length (series st1) \<le> series_cap (config st) \<and>
     (\<forall>x. series_count (series st) x \<le> series_count (series st1) x)"

definition keep_effect ::
  "layout \<Rightarrow> stream_identity set \<Rightarrow> entity_id \<Rightarrow> admission_time \<Rightarrow> stream_identity option \<Rightarrow>
     memory_store \<Rightarrow> memory_store \<Rightarrow> keep_outcome \<Rightarrow> hook_call list \<Rightarrow> bool" where
  "keep_effect L U e t s st st' out calls \<longleftrightarrow>
     (case out of
        Kept n \<Rightarrow> \<exists>st1. inserted L U e t st st1 \<and> evicts L U st1 st' n calls \<and>
          reports st1 st' n calls \<and> (first_violation t st' = None \<or> resident_count st' = 0) \<and>
          refusal_counters (counters st') = refusal_counters (counters st)
      | Duplicate \<Rightarrow> e \<in> set (entity_list st) \<and> calls = [] \<and>
          st' = st\<lparr>counters := (counters st)\<lparr>c_duplicate_keeps := c_duplicate_keeps (counters st) + 1\<rparr>\<rparr>
      | _ \<Rightarrow> st' = st\<lparr>counters := counters st'\<rparr> \<and>
          calls = (if hook st then [KeepRefused e s] else []) \<and>
          refusal_counters (counters st') = refusal_counters (counters st) + 1 \<and>
          eviction_counters (counters st') = eviction_counters (counters st) \<and>
          c_hook_deliveries (counters st') = c_hook_deliveries (counters st) \<and>
          c_refused_hook_deliveries (counters st') =
            c_refused_hook_deliveries (counters st) + (if hook st then 1 else 0))"

lemma shelf_contains_entity:
  assumes "wf_shelf sz sh" "shelf_contains e sh"
  shows "e \<in> set (map (key_entity \<circ> fst) (by_key sh))"
proof -
  obtain k where k: "by_entity sh e = Some k" using assms(2) by (auto simp: shelf_contains_def)
  then have "key_entity k = e \<and> k \<in> fst ` set (by_key sh)"
    using assms(1) by (simp add: wf_shelf_def index_matches_def)
  then show ?thesis by auto
qed

lemma settled_parts:
  assumes "settled L U st"
  shows "wf_store L U st" "record_bytes st \<le> max_accounted_bytes (config st)"
    "length (series st) \<le> series_cap (config st)"
    "size_coherent L U \<Longrightarrow> raw_bytes st \<le> max_accounted_bytes (config st)"
proof -
  show wf: "wf_store L U st" and "length (series st) \<le> series_cap (config st)"
    using assms by (simp_all add: settled_def)
  from empty_store [OF wf] assms
  show "record_bytes st \<le> max_accounted_bytes (config st)"
    "size_coherent L U \<Longrightarrow> raw_bytes st \<le> max_accounted_bytes (config st)"
    by (auto simp: settled_def raw_bytes_def)
qed

lemma kept_effect:
  assumes ins: "inserted L U e t st st1" and kept: "enforce_kept L t st1 = (st', out, calls)"
  shows "keep_effect L U e t s st st' out calls" "\<exists>n. out = Kept n"
proof -
  obtain n where n: "enforce_against L t st1 = (st', n, calls)" "out = Kept n"
    using kept by (auto simp: enforce_kept_def split: prod.splits)
  have wf1: "wf_store L U st1" using ins by (simp add: inserted_def)
  note laws = enforce_laws [OF wf1 n(1)]
  then have "wf_store L U st'" "evict_one L t st' = None" by (simp_all add: evicts_def)
  then have "first_violation t st' = None \<or> resident_count st' = 0" by (rule evict_one_None(1))
  moreover have "refusal_counters (counters st') = refusal_counters (counters st)"
    using enforce_refusal_counters [OF n(1)] ins by (simp add: inserted_def)
  ultimately show "keep_effect L U e t s st st' out calls" "\<exists>n. out = Kept n"
    using laws ins n by (auto simp: keep_effect_def)
qed

lemma keep_effect_settled:
  assumes st: "settled L U st" and sane: "sane_config (config st)"
    and eff: "keep_effect L U e t s st st' out calls"
  shows "settled L U st' \<and> config st' = config st \<and> hook st' = hook st \<and> window_nanos st' = window_nanos st"
proof (cases "\<exists>n. out = Kept n")
  case True
  then obtain n st1 where n: "inserted L U e t st st1" "evicts L U st1 st' n calls"
    "first_violation t st' = None \<or> resident_count st' = 0"
    using eff by (auto simp: keep_effect_def)
  then have same: "config st' = config st" "hook st' = hook st" "window_nanos st' = window_nanos st"
    and wf': "wf_store L U st'" by (simp_all add: inserted_def evicts_def)
  have "length (series st') \<le> length (series st1)"
    using n by (intro series_length_mono) (auto simp: inserted_def evicts_def wf_store_def)
  then have "settled L U st'"
    using n same by (intro no_violation_settles [OF wf' n(3)]) (auto simp: inserted_def sane)
  with same show ?thesis by simp
next
  case False
  then have "st' = st\<lparr>counters := counters st'\<rparr>"
    using eff by (auto simp: keep_effect_def split: keep_outcome.splits)
  then obtain c where c: "st' = st\<lparr>counters := c\<rparr>" by blast
  have "resident_count st' = resident_count st" unfolding c by (simp add: resident_count_def)
  then show ?thesis using st unfolding c settled_def by simp
qed

lemma refusal_effect:
  assumes "report_refusal e s (st\<lparr>counters := c\<rparr>) = (st', calls)"
    and "refusal_counters c = refusal_counters (counters st) + 1"
    and "c_refused_hook_deliveries c = c_refused_hook_deliveries (counters st)"
    and "eviction_counters c = eviction_counters (counters st)"
    and "c_hook_deliveries c = c_hook_deliveries (counters st)"
    and "out \<noteq> Duplicate" "\<nexists>n. out = Kept n"
  shows "keep_effect L U e t s st st' out calls"
proof -
  obtain c' where c': "st' = st\<lparr>counters := c'\<rparr>" "refusal_counters c' = refusal_counters (counters st) + 1"
    "c_refused_hook_deliveries c' = c_refused_hook_deliveries (counters st) + (if hook st then 1 else 0)"
    "eviction_counters c' = eviction_counters (counters st)"
    "c_hook_deliveries c' = c_hook_deliveries (counters st)"
    and calls: "calls = (if hook st then [KeepRefused e s] else [])"
  proof (cases "hook st")
    case True
    show thesis
      by (rule that [of "c\<lparr>c_refused_hook_deliveries := c_refused_hook_deliveries c + 1\<rparr>"])
         (use True assms in \<open>simp_all add: report_refusal_def refusal_counters_def
           eviction_counters_def\<close>)
  next
    case False
    show thesis
      by (rule that [of c]) (use False assms in \<open>simp_all add: report_refusal_def\<close>)
  qed
  from assms(6,7) show ?thesis
    unfolding keep_effect_def c'(1) using c'(2-5) calls by (cases out) simp_all
qed

lemma keep_span_effect:
  assumes st: "settled L U st" and sane: "sane_config (config st)"
    and keep: "keep_span L a st = (st', out, calls)"
  shows "keep_effect L U (ad_entity a) (ad_at a) None st st' out calls"
proof -
  note wf = settled_parts(1) [OF st] and parts = wf_store_parts [OF settled_parts(1) [OF st]]
  let ?sz = "span_size L (ad_record a)" and ?sh = "spans_shelf st"
  consider "shelf_contains (ad_entity a) ?sh"
    | "\<not> shelf_contains (ad_entity a) ?sh" "max_accounted_bytes (config st) < accounted_u64 ?sz"
    | "\<not> shelf_contains (ad_entity a) ?sh" "accounted_u64 ?sz \<le> max_accounted_bytes (config st)"
    by linarith
  then show ?thesis
  proof cases
    case 1
    have "ad_entity a \<in> set (entity_list st)"
      using shelf_contains_entity [OF parts(1) 1] by (auto simp: entity_list_def)
    with 1 keep show ?thesis
      by (auto simp: keep_span_def keep_on_shelf_def refuse_early_def keep_refusal_def keep_effect_def)
  next
    case 2
    let ?c = "(counters st)\<lparr>c_oversized := c_oversized (counters st) + 1\<rparr>"
    have "report_refusal (ad_entity a) None (st\<lparr>counters := ?c\<rparr>) = (st', calls)" "out = Oversized"
      using keep 2 by (auto simp: keep_span_def keep_on_shelf_def refuse_early_def keep_refusal_def
          split: prod.splits)
    then show ?thesis
      by (intro refusal_effect [where st = st and c = ?c]) (simp_all add: refusal_counters_def eviction_counters_def)
  next
    case 3
    have sz: "?sz \<le> max_accounted_bytes (config st)" by (rule accounted_u64_fits [OF sane 3(2)])
    then have fits: "shelf_bytes ?sh + ?sz \<le> u64_max" "record_bytes st + ?sz \<le> u64_max"
      using settled_parts(2) [OF st] sane by (auto simp: record_bytes_def sane_config_def)
    note ins = insert_shelf_laws [OF parts(1) 3(1) fits(1)]
    let ?st1 = "st\<lparr>spans_shelf := shelf_insert (span_size L) a ?sh, counters := counters st\<rparr>"
    have "record_bytes ?st1 = record_bytes st + ?sz" using ins(2) by (simp add: record_bytes_def)
    then have "wf_store L U ?st1"
      using wf ins(1) fits(2) by (simp add: wf_store_def series_ok_def streams_in_def)
    then have "inserted L U (ad_entity a) (ad_at a) st ?st1"
      using ins(3,4) settled_parts(3) [OF st] by (simp add: inserted_def entity_list_def store_keys_def)
    moreover have "enforce_kept L (ad_at a) ?st1 = (st', out, calls)"
      using keep 3 by (simp add: keep_span_def keep_on_shelf_def refuse_early_def Let_def)
    ultimately show ?thesis by (intro kept_effect(1))
  qed
qed

lemma keep_log_effect:
  assumes st: "settled L U st" and sane: "sane_config (config st)"
    and keep: "keep_log_record L a st = (st', out, calls)"
  shows "keep_effect L U (ad_entity a) (ad_at a) None st st' out calls"
proof -
  note wf = settled_parts(1) [OF st] and parts = wf_store_parts [OF settled_parts(1) [OF st]]
  let ?sz = "log_record_size L (ad_record a)" and ?sh = "logs_shelf st"
  consider "shelf_contains (ad_entity a) ?sh"
    | "\<not> shelf_contains (ad_entity a) ?sh" "max_accounted_bytes (config st) < accounted_u64 ?sz"
    | "\<not> shelf_contains (ad_entity a) ?sh" "accounted_u64 ?sz \<le> max_accounted_bytes (config st)"
    by linarith
  then show ?thesis
  proof cases
    case 1
    have "ad_entity a \<in> set (entity_list st)"
      using shelf_contains_entity [OF parts(2) 1] by (auto simp: entity_list_def)
    with 1 keep show ?thesis
      by (auto simp: keep_log_record_def keep_on_shelf_def refuse_early_def keep_refusal_def keep_effect_def)
  next
    case 2
    let ?c = "(counters st)\<lparr>c_oversized := c_oversized (counters st) + 1\<rparr>"
    have "report_refusal (ad_entity a) None (st\<lparr>counters := ?c\<rparr>) = (st', calls)" "out = Oversized"
      using keep 2 by (auto simp: keep_log_record_def keep_on_shelf_def refuse_early_def keep_refusal_def
          split: prod.splits)
    then show ?thesis
      by (intro refusal_effect [where st = st and c = ?c]) (simp_all add: refusal_counters_def eviction_counters_def)
  next
    case 3
    have sz: "?sz \<le> max_accounted_bytes (config st)" by (rule accounted_u64_fits [OF sane 3(2)])
    then have fits: "shelf_bytes ?sh + ?sz \<le> u64_max" "record_bytes st + ?sz \<le> u64_max"
      using settled_parts(2) [OF st] sane by (auto simp: record_bytes_def sane_config_def)
    note ins = insert_shelf_laws [OF parts(2) 3(1) fits(1)]
    let ?st1 = "st\<lparr>logs_shelf := shelf_insert (log_record_size L) a ?sh, counters := counters st\<rparr>"
    have "record_bytes ?st1 = record_bytes st + ?sz" using ins(2) by (simp add: record_bytes_def)
    then have "wf_store L U ?st1"
      using wf ins(1) fits(2) by (simp add: wf_store_def series_ok_def streams_in_def)
    then have "inserted L U (ad_entity a) (ad_at a) st ?st1"
      using ins(3,4) settled_parts(3) [OF st] by (simp add: inserted_def entity_list_def store_keys_def)
    moreover have "enforce_kept L (ad_at a) ?st1 = (st', out, calls)"
      using keep 3 by (simp add: keep_log_record_def keep_on_shelf_def refuse_early_def Let_def)
    ultimately show ?thesis by (intro kept_effect(1))
  qed
qed


lemma charge_stream_rest:
  "spans_shelf (charge_stream L s st) = spans_shelf st" "logs_shelf (charge_stream L s st) = logs_shelf st"
  "points_shelf (charge_stream L s st) = points_shelf st" "config (charge_stream L s st) = config st"
  "window_nanos (charge_stream L s st) = window_nanos st" "hook (charge_stream L s st) = hook st"
  "counters (charge_stream L s st) = counters st"
  by (auto simp: charge_stream_def split: option.splits)

lemma charge_stream_ok:
  fixes L :: layout and s :: stream_identity
  assumes d: "distinct_by stream_eq (series st)" and pos: "\<forall>p \<in> set (series st). 0 < snd p"
  defines "st' \<equiv> charge_stream L s st"
  shows "distinct_by stream_eq (series st')" "\<forall>p \<in> set (series st'). 0 < snd p"
    "series_count (series st') x = (if stream_eq s x then series_count (series st) x + 1 else series_count (series st) x)"
    "identity_bytes st \<le> u64_max \<Longrightarrow> identity_bytes st' \<le> u64_max"
    "identity_bytes st = identity_sum L (series st) \<Longrightarrow> identity_bytes st + stream_size L s \<le> u64_max \<Longrightarrow>
       identity_bytes st' = identity_sum L (series st')"
    "fst ` set (series st') \<subseteq> insert s (fst ` set (series st))"
    "length (series st') = length (series st) + (if get_by stream_eq (series st) s = None then 1 else 0)"
proof -
  have *: "distinct_by stream_eq (series st') \<and> (\<forall>p \<in> set (series st'). 0 < snd p) \<and>
    series_count (series st') x = (if stream_eq s x then series_count (series st) x + 1 else series_count (series st) x) \<and>
    (identity_bytes st \<le> u64_max \<longrightarrow> identity_bytes st' \<le> u64_max) \<and>
    (identity_bytes st = identity_sum L (series st) \<longrightarrow> identity_bytes st + stream_size L s \<le> u64_max \<longrightarrow>
       identity_bytes st' = identity_sum L (series st')) \<and>
    fst ` set (series st') \<subseteq> insert s (fst ` set (series st)) \<and>
    length (series st') = length (series st) + (if get_by stream_eq (series st) s = None then 1 else 0)"
  proof (cases "get_by stream_eq (series st) s")
    case None
    have st': "series st' = series st @ [(s, 1)]"
      "identity_bytes st' = sat_add (identity_bytes st) (accounted_u64 (stream_size L s))"
      using None by (simp_all add: st'_def charge_stream_def)
    have "identity_bytes st' \<le> u64_max"
      "identity_bytes st + stream_size L s \<le> u64_max \<Longrightarrow> identity_bytes st' = identity_bytes st + stream_size L s"
      unfolding st'(2) by (simp_all add: sat_add_def accounted_u64_def sat_u64_def)
    note bytes = this
    have "stream_eq s x \<Longrightarrow> series_count (series st) x = 0"
      using None stream_key.get_cong [of s x "series st"] by (simp add: series_count_def)
    with None d pos bytes show ?thesis
      unfolding st'(1) by (auto simp: series_count_append get_by_None_iff)
  next
    case (Some p)
    obtain t n where p: "p = (t, n)" by (cases p)
    have n: "0 < n" using get_by_SomeD [OF Some] pos p by auto
    have st': "series st' = adjust_by stream_eq s (\<lambda>n. n + 1) (series st)" "identity_bytes st' = identity_bytes st"
      using Some p n by (simp_all add: st'_def charge_stream_def)
    have "stream_eq s x \<Longrightarrow> get_by stream_eq (series st) x \<noteq> None"
      using Some stream_key.get_cong by (metis option.distinct(1))
    then have cnt: "series_count (series st') x = (if stream_eq s x then series_count (series st) x + 1 else series_count (series st) x)"
      unfolding st'(1) by (simp add: series_count_adjust)
    have "\<forall>p \<in> set (series st'). 0 < snd p"
      using pos unfolding st'(1) adjust_by_def by auto
    moreover have "fst ` set (series st') \<subseteq> insert s (fst ` set (series st))"
      unfolding st'(1) key_set_adjust by blast
    moreover have "length (series st') = length (series st)" unfolding st'(1) by (simp add: adjust_by_def)
    ultimately show ?thesis using cnt d Some by (simp add: st')
  qed
  from * show "distinct_by stream_eq (series st')" "\<forall>p \<in> set (series st'). 0 < snd p"
    "series_count (series st') x = (if stream_eq s x then series_count (series st) x + 1 else series_count (series st) x)"
    "identity_bytes st \<le> u64_max \<Longrightarrow> identity_bytes st' \<le> u64_max"
    "identity_bytes st = identity_sum L (series st) \<Longrightarrow> identity_bytes st + stream_size L s \<le> u64_max \<Longrightarrow>
       identity_bytes st' = identity_sum L (series st')"
    "fst ` set (series st') \<subseteq> insert s (fst ` set (series st))"
    "length (series st') = length (series st) + (if get_by stream_eq (series st) s = None then 1 else 0)"
    by simp_all
qed

lemma keep_point_effect:
  assumes st: "settled L U st" and sane: "sane_config (config st)" and s: "s \<in> U"
    and keep: "keep_metric_point L a s st = (st', out, calls)"
  shows "keep_effect L U (ad_entity a) (ad_at a) (Some s) st st' out calls"
proof -
  note wf = settled_parts(1) [OF st] and parts = wf_store_parts [OF settled_parts(1) [OF st]]
  let ?sz = "point_size L (ad_record a)" and ?sh = "points_shelf st" and ?max = "max_accounted_bytes (config st)"
  let ?bytes = "accounted_u64 (stream_size L s)"
  consider (dup) "shelf_contains (ad_entity a) ?sh"
    | (over) "\<not> shelf_contains (ad_entity a) ?sh" "?max < accounted_u64 ?sz"
    | (ident) "\<not> shelf_contains (ad_entity a) ?sh" "accounted_u64 ?sz \<le> ?max" "?max < ?bytes"
    | (cap) "\<not> shelf_contains (ad_entity a) ?sh" "accounted_u64 ?sz \<le> ?max" "?bytes \<le> ?max"
      "get_by stream_eq (series st) s = None" "series_cap (config st) \<le> store_resident_streams st"
    | (kept) "\<not> shelf_contains (ad_entity a) ?sh" "accounted_u64 ?sz \<le> ?max" "?bytes \<le> ?max"
      "get_by stream_eq (series st) s = None \<longrightarrow> store_resident_streams st < series_cap (config st)"
    by (meson not_le)
  then show ?thesis
  proof cases
    case dup
    have "ad_entity a \<in> set (entity_list st)"
      using shelf_contains_entity [OF parts(3) dup] by (auto simp: entity_list_def)
    with dup keep show ?thesis
      by (auto simp: keep_metric_point_def refuse_early_def keep_refusal_def keep_effect_def)
  next
    case over
    let ?c = "(counters st)\<lparr>c_oversized := c_oversized (counters st) + 1\<rparr>"
    have "report_refusal (ad_entity a) (Some s) (st\<lparr>counters := ?c\<rparr>) = (st', calls)" "out = Oversized"
      using keep over by (auto simp: keep_metric_point_def refuse_early_def keep_refusal_def split: prod.splits)
    then show ?thesis
      by (intro refusal_effect [where st = st and c = ?c]) (simp_all add: refusal_counters_def eviction_counters_def)
  next
    case ident
    let ?c = "(counters st)\<lparr>c_identity_over_ceiling := c_identity_over_ceiling (counters st) + 1\<rparr>"
    have "report_refusal (ad_entity a) (Some s) (st\<lparr>counters := ?c\<rparr>) = (st', calls)"
      "out = IdentityOverCeiling ?max ?bytes"
      using keep ident by (auto simp: keep_metric_point_def refuse_early_def Let_def split: prod.splits)
    then show ?thesis
      by (intro refusal_effect [where st = st and c = ?c]) (simp_all add: refusal_counters_def eviction_counters_def)
  next
    case cap
    let ?c = "(counters st)\<lparr>c_series_cap := c_series_cap (counters st) + 1\<rparr>"
    have "report_refusal (ad_entity a) (Some s) (st\<lparr>counters := ?c\<rparr>) = (st', calls)" "out = SeriesCapReached"
      using keep cap by (auto simp: keep_metric_point_def refuse_early_def Let_def
          store_resident_streams_def split: prod.splits)
    then show ?thesis
      by (intro refusal_effect [where st = st and c = ?c]) (simp_all add: refusal_counters_def eviction_counters_def)
  next
    case kept
    let ?slot = "\<lparr>ad_entity = ad_entity a, ad_at = ad_at a, ad_record = \<lparr>ps_point = ad_record a, ps_stream = s\<rparr>\<rparr>"
    let ?st0 = "st\<lparr>points_shelf := shelf_insert (slot_size L) ?slot ?sh\<rparr>"
    let ?st1 = "charge_stream L s ?st0"
    have sz: "?sz \<le> ?max" by (rule accounted_u64_fits [OF sane kept(2)])
    have idsz: "stream_size L s \<le> ?max" by (rule accounted_u64_fits [OF sane kept(3)])
    have fits: "shelf_bytes ?sh + ?sz \<le> u64_max" "record_bytes st + ?sz \<le> u64_max"
      using settled_parts(2) [OF st] sane sz by (auto simp: record_bytes_def sane_config_def)
    have room: "size_coherent L U \<Longrightarrow> identity_bytes st + stream_size L s \<le> u64_max"
      using settled_parts(4) [OF st] sane idsz by (auto simp: raw_bytes_def sane_config_def)
    have slotsz: "slot_size L (ad_record ?slot) = ?sz" by (simp add: slot_size_def)
    have new: "\<not> shelf_contains (ad_entity ?slot) ?sh" using kept(1) by simp
    note ins = insert_shelf_laws [OF parts(3) new fits(1) [folded slotsz]]
    have sok: "distinct_by stream_eq (series ?st0)" "\<forall>p \<in> set (series ?st0). 0 < snd p"
      using parts(4) by (simp_all add: series_ok_def)
    note ch = charge_stream_ok [OF sok, of L s] and rest = charge_stream_rest [of L s ?st0]
    have k: "AdmissionKey (ad_at a) (ad_entity a) \<notin> fst ` set (by_key ?sh)"
      using absent_key [OF parts(3) kept(1)] .
    have pts: "by_key (points_shelf ?st1) =
        om_insert (AdmissionKey (ad_at a) (ad_entity a)) \<lparr>ps_point = ad_record a, ps_stream = s\<rparr> (by_key ?sh)"
      using rest(3) by (simp add: shelf_insert_def Let_def)
    have "series_ok ?st1"
      unfolding series_ok_def using ch(1,2,3) parts(4)
      by (simp add: pts stream_count_insert [OF k] series_ok_def)
    moreover have "streams_in U ?st1"
      unfolding streams_in_def pts using ch(6) parts(5) s
      by (auto simp: streams_in_def set_om_insert [OF k])
    moreover have "record_bytes ?st1 \<le> u64_max"
      using fits(2) ins(2) slotsz rest by (simp add: record_bytes_def)
    ultimately have "wf_store L U ?st1"
      unfolding wf_store_def using parts(1,2,7,8) ins(1) ch(4,5) room rest by simp
    moreover have "length (series ?st1) \<le> series_cap (config st)"
      using ch(7) settled_parts(3) [OF st] kept(4) sane
      by (auto simp: store_resident_streams_def sat_u64_def sane_config_def min_def split: if_splits)
    ultimately have "inserted L U (ad_entity a) (ad_at a) st ?st1"
      using ins(3,4) rest ch(3) by (simp add: inserted_def entity_list_def store_keys_def)
    moreover have "enforce_kept L (ad_at a) ?st1 = (st', out, calls)"
      using keep kept by (auto simp: keep_metric_point_def refuse_early_def Let_def store_resident_streams_def)
    ultimately show ?thesis by (intro kept_effect(1))
  qed
qed

end
