(* ===== verification/Store_Promises.thy ===== *)
theory Store_Promises
  imports Store_Laws
begin

text \<open>
  What the in-memory store promises over whole sessions: its ceilings, its eviction order, the
  lifecycle reports it owes its hook and the completeness of its scans. A session is a list of
  the contract's state-changing operations, run from an empty store.
\<close>

datatype store_op =
    KeepSpan "span admitted"
  | KeepLog "log_record admitted"
  | KeepPoint "metric_point admitted" stream_identity
  | EnforceRetention admission_time
  | ObserveAnomalies nat

text \<open>One operation: the store after it, the entities it let in, the hook's calls.\<close>

fun store_step :: "layout \<Rightarrow> store_op \<Rightarrow> memory_store \<Rightarrow> memory_store \<times> entity_id list \<times> hook_call list" where
  "store_step L (KeepSpan a) st =
     (case keep_span L a st of (st1, out, calls) \<Rightarrow>
        (st1, (case out of Kept _ \<Rightarrow> [ad_entity a] | _ \<Rightarrow> []), calls))"
| "store_step L (KeepLog a) st =
     (case keep_log_record L a st of (st1, out, calls) \<Rightarrow>
        (st1, (case out of Kept _ \<Rightarrow> [ad_entity a] | _ \<Rightarrow> []), calls))"
| "store_step L (KeepPoint a s) st =
     (case keep_metric_point L a s st of (st1, out, calls) \<Rightarrow>
        (st1, (case out of Kept _ \<Rightarrow> [ad_entity a] | _ \<Rightarrow> []), calls))"
| "store_step L (EnforceRetention now) st =
     (case enforce_retention L now st of (st1, n, calls) \<Rightarrow> (st1, [], calls))"
| "store_step L (ObserveAnomalies n) st = (observe_admission_anomalies n st, [], [])"

fun store_run :: "layout \<Rightarrow> store_op list \<Rightarrow> memory_store \<Rightarrow> memory_store \<times> entity_id list \<times> hook_call list" where
  "store_run L [] st = (st, [], [])"
| "store_run L (x # xs) st =
     (case store_step L x st of (st1, ks, cs) \<Rightarrow>
        (case store_run L xs st1 of (st2, ks', cs') \<Rightarrow> (st2, ks @ ks', cs @ cs')))"

fun op_streams :: "store_op \<Rightarrow> stream_identity list" where
  "op_streams (KeepPoint _ s) = [s]"
| "op_streams _ = []"

definition streams_of :: "store_op list \<Rightarrow> stream_identity set" where
  "streams_of ops = set (concat (map op_streams ops))"

text \<open>The bookkeeping between two states of a session.\<close>

definition books :: "memory_store \<Rightarrow> memory_store \<Rightarrow> entity_id list \<Rightarrow> hook_call list \<Rightarrow> bool" where
  "books st st' kept calls \<longleftrightarrow>
     eviction_counters (counters st') + resident_count st' =
       eviction_counters (counters st) + resident_count st + length kept \<and>
     (if hook st
      then mset (entity_list st) + mset kept = mset (entity_list st') + mset (evicted_entities calls) \<and>
        c_hook_deliveries (counters st') + eviction_counters (counters st) =
          c_hook_deliveries (counters st) + eviction_counters (counters st') \<and>
        c_refused_hook_deliveries (counters st') + refusal_counters (counters st) =
          c_refused_hook_deliveries (counters st) + refusal_counters (counters st')
      else calls = [])"

lemma books_refl: "books st st [] []"
  by (simp add: books_def)

lemma books_trans:
  assumes "books st st1 ks cs" "books st1 st2 ks' cs'" "hook st1 = hook st"
  shows "books st st2 (ks @ ks') (cs @ cs')"
proof (cases "hook st")
  case True
  have "mset (entity_list st) + mset (ks @ ks') =
      mset (entity_list st2) + mset (evicted_entities (cs @ cs'))"
    using assms True by (simp add: books_def ac_simps) (metis (no_types, lifting) union_assoc union_commute)
  with assms True show ?thesis by (simp add: books_def)
qed (use assms in \<open>simp add: books_def\<close>)

lemma reports_books:
  assumes "reports st st' n calls" "resident_count st = resident_count st' + n"
    "refusal_counters (counters st') = refusal_counters (counters st)"
  shows "books st st' [] calls"
  using assms by (simp add: reports_def books_def)


lemma keep_effect_books:
  assumes eff: "keep_effect L U e t s st st' out calls"
  shows "books st st' (case out of Kept _ \<Rightarrow> [e] | _ \<Rightarrow> []) calls"
proof (cases "\<exists>n. out = Kept n")
  case True
  then obtain n st1 where n: "out = Kept n" "inserted L U e t st st1" "evicts L U st1 st' n calls"
    "reports st1 st' n calls" "refusal_counters (counters st') = refusal_counters (counters st)"
    using eff by (auto simp: keep_effect_def)
  have "size (mset (entity_list st1)) = size (mset (entity_list st)) + 1"
    using n(2) by (simp add: inserted_def del: size_mset)
  then have "resident_count st1 = resident_count st + 1" by (simp add: length_entity_list)
  then show ?thesis
    using n by (cases "hook st") (simp_all add: books_def reports_def evicts_def inserted_def)
next
  case False
  then have "st' = st\<lparr>counters := counters st'\<rparr>"
    using eff by (auto simp: keep_effect_def split: keep_outcome.splits)
  then obtain c where c: "st' = st\<lparr>counters := c\<rparr>" by blast
  have rc: "resident_count (st\<lparr>counters := c\<rparr>) = resident_count st" by (simp add: resident_count_def)
  show ?thesis
    using eff False rc unfolding c books_def keep_effect_def
    by (cases out) (auto simp: eviction_counters_def refusal_counters_def)
qed

lemma store_step_laws:
  assumes st: "settled L U st" and sane: "sane_config (config st)"
    and sub: "set (op_streams x) \<subseteq> U" and step: "store_step L x st = (st', kept, calls)"
  shows "settled L U st' \<and> config st' = config st \<and> hook st' = hook st \<and>
    window_nanos st' = window_nanos st \<and> books st st' kept calls"
proof (cases x)
  case (KeepSpan a)
  then obtain out where "keep_span L a st = (st', out, calls)"
    "kept = (case out of Kept _ \<Rightarrow> [ad_entity a] | _ \<Rightarrow> [])"
    using step by (auto split: prod.splits)
  with keep_span_effect [OF st sane] keep_effect_settled [OF st sane] keep_effect_books
  show ?thesis by blast
next
  case (KeepLog a)
  then obtain out where "keep_log_record L a st = (st', out, calls)"
    "kept = (case out of Kept _ \<Rightarrow> [ad_entity a] | _ \<Rightarrow> [])"
    using step by (auto split: prod.splits)
  with keep_log_effect [OF st sane] keep_effect_settled [OF st sane] keep_effect_books
  show ?thesis by blast
next
  case (KeepPoint a s)
  then obtain out where "keep_metric_point L a s st = (st', out, calls)" "s \<in> U"
    "kept = (case out of Kept _ \<Rightarrow> [ad_entity a] | _ \<Rightarrow> [])"
    using step sub by (auto split: prod.splits)
  with keep_point_effect [OF st sane] keep_effect_settled [OF st sane] keep_effect_books
  show ?thesis by blast
next
  case (EnforceRetention now)
  then obtain n where n: "enforce_against L now st = (st', n, calls)" "kept = []"
    using step by (auto simp: enforce_retention_def split: prod.splits)
  note laws = enforce_laws [OF settled_parts(1) [OF st] n(1)]
  then have e: "evicts L U st st' n calls" and r: "reports st st' n calls"
    and none: "evict_one L now st' = None" by simp_all
  then have wf': "wf_store L U st'" and same: "config st' = config st" "hook st' = hook st"
    "window_nanos st' = window_nanos st" by (simp_all add: evicts_def)
  have "length (series st') \<le> length (series st)"
    using e settled_parts(1) [OF st] by (intro series_length_mono) (auto simp: evicts_def wf_store_def)
  then have "settled L U st'"
    using settled_parts(3) [OF st] sane same
    by (intro no_violation_settles [OF wf' evict_one_None(1) [OF wf' none]]) simp_all
  moreover have "books st st' kept calls"
    using r e n enforce_refusal_counters [OF n(1)] by (auto intro!: reports_books simp: evicts_def)
  ultimately show ?thesis using same by simp
next
  case (ObserveAnomalies n)
  have rc: "resident_count (st\<lparr>observed_anomalies := n\<rparr>) = resident_count st"
    "entity_list (st\<lparr>observed_anomalies := n\<rparr>) = entity_list st"
    "raw_bytes (st\<lparr>observed_anomalies := n\<rparr>) = raw_bytes st"
    by (simp_all add: resident_count_def entity_list_def record_bytes_def raw_bytes_def)
  from ObserveAnomalies step have "st' = st\<lparr>observed_anomalies := n\<rparr>" "kept = []" "calls = []"
    by (simp_all add: observe_admission_anomalies_def)
  then show ?thesis using st rc by (simp add: settled_def books_def)
qed

lemma store_run_laws:
  assumes "settled L U st" "sane_config (config st)" "streams_of ops \<subseteq> U" "store_run L ops st = (st', kept, calls)"
  shows "settled L U st' \<and> config st' = config st \<and> hook st' = hook st \<and>
    window_nanos st' = window_nanos st \<and> books st st' kept calls"
  using assms
proof (induction ops arbitrary: st kept calls)
  case (Cons x xs)
  obtain st1 ks cs where one: "store_step L x st = (st1, ks, cs)" by (metis prod_cases3)
  obtain st2 ks' cs' where rest: "store_run L xs st1 = (st2, ks', cs')" by (metis prod_cases3)
  have eqs: "st' = st2" "kept = ks @ ks'" "calls = cs @ cs'"
    using Cons.prems(4) one rest by auto
  have "set (op_streams x) \<subseteq> U" and sub: "streams_of xs \<subseteq> U"
    using Cons.prems(3) by (auto simp: streams_of_def)
  with store_step_laws [OF Cons.prems(1,2) _ one]
  have s1: "settled L U st1" "config st1 = config st" "hook st1 = hook st"
    "window_nanos st1 = window_nanos st" "books st st1 ks cs" by auto
  have rest': "store_run L xs st1 = (st', ks', cs')" using rest eqs by simp
  have "settled L U st' \<and> config st' = config st1 \<and> hook st' = hook st1 \<and>
    window_nanos st' = window_nanos st1 \<and> books st1 st' ks' cs'"
    using Cons.prems(2) s1(2) by (intro Cons.IH [OF s1(1) _ sub rest']) simp
  with s1 eqs show ?case by (auto intro: books_trans)
qed (auto intro: books_refl)


section \<open>Promises\<close>

definition store_session ::
  "layout \<Rightarrow> memory_config \<Rightarrow> bool \<Rightarrow> store_op list \<Rightarrow> memory_store \<times> entity_id list \<times> hook_call list" where
  "store_session L cfg wired ops = store_run L ops (store_new cfg wired)"

lemma settled_new: "settled L U (store_new cfg wired)"
proof -
  have "wf_store L U (store_new cfg wired)" by (rule wf_store_new)
  then show ?thesis
    by (simp add: settled_def store_new_def resident_count_def shelf_new_def shelf_len_def)
qed

lemma session_laws:
  assumes "sane_config cfg" and "store_session L cfg wired ops = (st, kept, calls)"
  shows "settled L (streams_of ops) st" "config st = cfg" "hook st = wired"
    "window_nanos st = sat_u64 (admission_window cfg)" "books (store_new cfg wired) st kept calls"
  using store_run_laws [OF settled_new, of cfg wired ops "streams_of ops" L st kept calls] assms
  by (auto simp: store_session_def store_new_def)

text \<open>The small configuration and the one-point session of the evaluated instances.\<close>

definition tiny_config :: memory_config where
  "tiny_config = \<lparr>max_records = 1, max_accounted_bytes = 10000, admission_window = 100, series_cap = 5\<rparr>"

definition point_op :: "nat \<Rightarrow> u64 \<Rightarrow> store_op" where
  "point_op n t = KeepPoint \<lparr>ad_entity = Assigned n, ad_at = AdmissionTime t, ad_record = sample_point t 1\<rparr>
     (sample_stream ''m'' None None)"

lemma tiny_sane: "sane_config tiny_config"
  by (simp add: sane_config_def tiny_config_def u64_max_def)

lemma point_ops_coherent: "size_coherent L (streams_of (map (\<lambda>(n, t). point_op n t) xs))"
proof -
  have "streams_of (map (\<lambda>(n, t). point_op n t) xs) \<subseteq> {sample_stream ''m'' None None}"
    by (induction xs) (auto simp: streams_of_def point_op_def)
  then show ?thesis by (auto simp: size_coherent_def)
qed

text \<open>C3: Retention is bounded. For every configuration whose byte ceiling is within a third of the
  \<open>u64\<close> range (\<open>sane_config\<close>), after every operation of every session, whatever was kept and in whatever
  order, the store reports no more resident records, distinct streams and bytes of resident records
  than its configuration allows; and the bytes it reports in total, records and identities, stay
  within the byte ceiling as long as anything is resident. The identity charge of a session whose
  streams differ in size although their contents compare equal may drift (C35), so an empty store
  can report more than its ceiling, and what the identities really take is bounded only without such
  streams: then the reported total is within the ceiling always, and it is what the resident records
  and one identity per distinct stream really take.\<close>

theorem store_ceilings_hold:
  assumes "sane_config cfg" and "st = fst (store_session L cfg wired ops)"
  shows "resident_records (stats st) \<le> max_records cfg \<and> stat_resident_streams (stats st) \<le> series_cap cfg \<and>
         record_accounted_bytes (stats st) \<le> max_accounted_bytes cfg \<and>
         (resident_records (stats st) = 0 \<or> accounted_bytes (stats st) \<le> max_accounted_bytes cfg) \<and>
         (size_coherent L (streams_of ops) \<longrightarrow>
            accounted_bytes (stats st) \<le> max_accounted_bytes cfg \<and>
            total_size (span_size L) (by_key (spans_shelf st)) +
              total_size (log_record_size L) (by_key (logs_shelf st)) +
              total_size (slot_size L) (by_key (points_shelf st)) +
              sum_list (map (\<lambda>p. stream_size L (fst p)) (series st)) \<le> max_accounted_bytes cfg)"
proof -
  obtain kept calls where s: "store_session L cfg wired ops = (st, kept, calls)"
    using assms(2) by (metis prod.collapse)
  note laws = session_laws [OF assms(1) s]
  note settled = settled_parts [OF laws(1), unfolded laws(2)]
  note wf = wf_store_parts [OF settled(1)] and reported = reported_bytes [OF settled(1)]
  have records: "resident_count st \<le> max_records cfg"
    "resident_count st = 0 \<or> raw_bytes st \<le> max_accounted_bytes cfg"
    using laws(1,2) by (simp_all add: settled_def)
  have "sat_u64 n \<le> m" if "n \<le> m" for n m using that by (simp add: sat_u64_def)
  then show ?thesis
    using records settled(2-4) reported wf(1-3,8)
    by (auto simp: stats_def store_resident_records_def resident_count_def store_resident_streams_def
        raw_bytes_def record_bytes_def wf_shelf_def identity_sum_def sat_u64_def)
qed

lemma store_ceilings_hold_witness:
  "resident_records (stats (fst (store_session layout64 tiny_config True [point_op 1 5, point_op 2 6]))) \<le> 1 \<and>
   accounted_bytes (stats (fst (store_session layout64 tiny_config True [point_op 1 5, point_op 2 6]))) \<le> 10000"
  using store_ceilings_hold [OF tiny_sane refl, of layout64 True "[point_op 1 5, point_op 2 6]"]
    point_ops_coherent [of layout64 "[(1, 5), (2, 6)]"]
  by (simp add: tiny_config_def)

text \<open>C14: The byte accounting counts what residency pins. In every session of a sane configuration the
  bytes reported of records are exactly the accounted sizes of the resident records, the series table
  holds a stream, once up to content, exactly as often as resident points reference it, and the total
  reported is the saturating sum of record and identity bytes. The identity bytes are exact, one
  accounted size per distinct resident stream, for the sessions whose streams have one size per
  content (\<open>size_coherent\<close>; without that they may drift, C35), and then the total is the plain sum.\<close>

theorem store_accounting_exact:
  assumes "sane_config cfg" and "st = fst (store_session L cfg wired ops)"
  shows "record_accounted_bytes (stats st) =
           total_size (span_size L) (by_key (spans_shelf st)) +
           total_size (log_record_size L) (by_key (logs_shelf st)) +
           total_size (slot_size L) (by_key (points_shelf st)) \<and>
         distinct_by stream_eq (series st) \<and>
         (\<forall>x. series_count (series st) x = stream_count (by_key (points_shelf st)) x) \<and>
         accounted_bytes (stats st) =
           sat_add (record_accounted_bytes (stats st)) (identity_accounted_bytes (stats st)) \<and>
         (size_coherent L (streams_of ops) \<longrightarrow>
            identity_accounted_bytes (stats st) = sum_list (map (\<lambda>p. stream_size L (fst p)) (series st)) \<and>
            accounted_bytes (stats st) =
              record_accounted_bytes (stats st) + identity_accounted_bytes (stats st))"
proof -
  obtain kept calls where s: "store_session L cfg wired ops = (st, kept, calls)"
    using assms(2) by (metis prod.collapse)
  note laws = session_laws [OF assms(1) s]
  note settled = settled_parts [OF laws(1), unfolded laws(2)]
  note parts = wf_store_parts [OF settled(1)] and reported = reported_bytes [OF settled(1)]
  have "sat_u64 (raw_bytes st) = raw_bytes st" if "size_coherent L (streams_of ops)"
    using settled(4) [OF that] assms(1) by (auto simp: sane_config_def sat_u64_def)
  then show ?thesis
    using parts(1-4,8) reported
    by (auto simp: stats_def wf_shelf_def series_ok_def identity_sum_def raw_bytes_def record_bytes_def
        store_accounted_bytes_def)
qed

lemma store_accounting_exact_witness:
  "accounted_bytes (stats (fst (store_session layout64 tiny_config True [point_op 1 5]))) =
     record_accounted_bytes (stats (fst (store_session layout64 tiny_config True [point_op 1 5]))) +
     identity_accounted_bytes (stats (fst (store_session layout64 tiny_config True [point_op 1 5])))"
proof -
  have "size_coherent layout64 (streams_of [point_op 1 5])"
    using point_ops_coherent [of layout64 "[(1, 5)]"] by simp
  then show ?thesis
    using store_accounting_exact [OF tiny_sane refl, of layout64 True "[point_op 1 5]"] by blast
qed

text \<open>C15: Retention restores the law: a retention pass against a reading \<open>now\<close> leaves no resident
  record whose admission lies a window or more before \<open>now\<close>, nothing over a ceiling (or nothing
  resident at all, when a drifted identity charge, C35, keeps an empty store over its byte ceiling),
  and reports as its count exactly the records that left. Nothing is over a ceiling for certain when
  the session's streams have one size per content.\<close>

theorem retention_pass_complete:
  assumes "sane_config cfg" and "st = fst (store_session L cfg wired ops)"
    and "enforce_retention L now st = (st', n, calls)"
  shows "(\<forall>k \<in> store_keys st'. \<not> expired (sat_u64 (admission_window cfg)) now (key_time k)) \<and>
         (first_violation now st' = None \<or> store_keys st' = {}) \<and>
         (size_coherent L (streams_of ops) \<longrightarrow> first_violation now st' = None) \<and>
         resident_count st = resident_count st' + n"
proof -
  obtain kept calls' where s: "store_session L cfg wired ops = (st, kept, calls')"
    using assms(2) by (metis prod.collapse)
  note laws = session_laws [OF assms(1) s] and wf = settled_parts(1) [OF session_laws(1) [OF assms(1) s]]
  note e = enforce_laws [OF wf assms(3) [unfolded enforce_retention_def]]
  then have wf': "wf_store L (streams_of ops) st'" and w: "window_nanos st' = sat_u64 (admission_window cfg)"
    and n: "resident_count st = resident_count st' + n" and last: "evict_one L now st' = None"
    using laws(4) by (simp_all add: evicts_def)
  note none = evict_one_None [OF wf' last]
  have empty: "store_keys st' = {}" if "resident_count st' = 0"
    using that by (simp add: resident_count_def shelf_len_def store_keys_def)
  have "\<not> expired (window_nanos st') now (key_time k)" if k: "k \<in> store_keys st'" for k
  proof -
    have clear: "first_violation now st' = None" using none(1) empty k by blast
    have "store_keys st' = {}" if "oldest_key st' = None"
      using oldest_key_None [OF that] by (simp add: store_keys_def)
    then obtain o' where o': "oldest_key st' = Some o'" using k by (cases "oldest_key st'") auto
    then have "\<not> expired (window_nanos st') now (key_time o')"
      using clear by (auto simp: first_violation_def split: if_splits)
    moreover have "unat (as_unix_nano (key_time o')) \<le> unat (as_unix_nano (key_time k))"
      using key_le_time [of o' k] oldest_key_Some(2) [OF wf' o'] k by (simp add: word_le_nat_alt)
    ultimately show ?thesis by (auto simp: expired_def)
  qed
  with none empty n w show ?thesis by auto
qed

lemma retention_pass_complete_witness:
  "first_violation (AdmissionTime 500) (fst (enforce_retention layout64 (AdmissionTime 500)
     (fst (store_session layout64 tiny_config True [point_op 1 5])))) = None"
proof -
  let ?st = "fst (store_session layout64 tiny_config True [point_op 1 5])"
  obtain st' n calls where e: "enforce_retention layout64 (AdmissionTime 500) ?st = (st', n, calls)"
    by (metis prod_cases3)
  then show ?thesis
    using retention_pass_complete [OF tiny_sane refl e] point_ops_coherent [of layout64 "[(1, 5)]"]
    by simp
qed

text \<open>Eviction follows the residency order: whatever a retention pass removes, each removed
  record's key (admission time, then entity) is at or before every key that stays, and no
  record enters.\<close>

theorem eviction_takes_the_oldest:
  assumes "sane_config cfg" and "st = fst (store_session L cfg wired ops)"
    and "st' = fst (enforce_retention L now st)"
  shows "store_keys st' \<subseteq> store_keys st \<and>
         (\<forall>gone \<in> store_keys st - store_keys st'. \<forall>stays \<in> store_keys st'. gone \<le> stays)"
proof -
  obtain kept calls' where s: "store_session L cfg wired ops = (st, kept, calls')"
    using assms(2) by (metis prod.collapse)
  obtain n calls where e: "enforce_against L now st = (st', n, calls)"
    using assms(3) by (metis enforce_retention_def prod.collapse)
  from enforce_laws [OF settled_parts(1) [OF session_laws(1) [OF assms(1) s]] e]
  show ?thesis by (simp add: evicts_def)
qed

lemma eviction_takes_the_oldest_witness:
  "store_keys (fst (enforce_retention layout64 (AdmissionTime 500)
     (fst (store_session layout64 tiny_config True [point_op 1 5]))))
   \<subseteq> store_keys (fst (store_session layout64 tiny_config True [point_op 1 5]))"
  using eviction_takes_the_oldest [OF tiny_sane refl refl] by simp

text \<open>Residency is accounted for, record by record: with a hook wired, the entities ever let
  in are, as a multiset, the entities resident at the end together with the entities the hook
  was told were evicted; every eviction and every refusal was reported exactly once.\<close>

theorem lifecycle_reports_complete:
  assumes "sane_config cfg" and "store_session L cfg True ops = (st, kept, calls)"
  shows "mset kept = mset (entity_list st) + mset (evicted_entities calls) \<and>
         hook_deliveries (stats st) = total_evictions (stats st) \<and>
         refused_hook_deliveries (stats st) = total_keep_refusals (stats st)"
  using session_laws(5) [OF assms]
  by (simp add: books_def store_new_def zero_counters_def eviction_counters_def refusal_counters_def
      entity_list_def shelf_new_def stats_def total_evictions_def total_keep_refusals_def)

lemma lifecycle_reports_complete_witness:
  "hook_deliveries (stats (fst (store_session layout64 tiny_config True [point_op 1 5, point_op 2 6]))) =
   total_evictions (stats (fst (store_session layout64 tiny_config True [point_op 1 5, point_op 2 6])))"
proof -
  obtain st kept calls where s:
    "store_session layout64 tiny_config True (map (\<lambda>(n, t). point_op n t) [(1, 5), (2, 6)]) = (st, kept, calls)"
    by (metis prod_cases3)
  from lifecycle_reports_complete [OF tiny_sane s] s show ?thesis by simp
qed

text \<open>A stream is released exactly when it leaves: the streams a retention pass reports released
  to the hook are, up to content, exactly those that had a resident point before the pass and
  have none after it.\<close>

theorem stream_release_exact:
  assumes "sane_config cfg" and "st = fst (store_session L cfg True ops)"
    and "enforce_retention L now st = (st', n, calls)"
  shows "(\<exists>s \<in> set (released_streams calls). stream_eq s x) \<longleftrightarrow>
     0 < stream_count (by_key (points_shelf st)) x \<and> stream_count (by_key (points_shelf st')) x = 0"
proof -
  obtain kept calls' where s: "store_session L cfg True ops = (st, kept, calls')"
    using assms(2) by (metis prod.collapse)
  note laws = session_laws [OF assms(1) s]
  note wf = settled_parts(1) [OF laws(1)]
  note e = enforce_laws [OF wf assms(3) [unfolded enforce_retention_def]]
  then have "wf_store L (streams_of ops) st'" by (simp add: evicts_def)
  with wf have "series_ok st" "series_ok st'" by (simp_all add: wf_store_def)
  with e laws(3) show ?thesis by (simp add: reports_def series_ok_def)
qed

lemma stream_release_exact_witness:
  "\<exists>st' n calls. enforce_retention layout64 (AdmissionTime 500)
       (fst (store_session layout64 tiny_config True [point_op 1 5])) = (st', n, calls) \<and>
     ((\<exists>s \<in> set (released_streams calls). stream_eq s (sample_stream ''m'' None None)) \<longleftrightarrow>
      0 < stream_count (by_key (points_shelf (fst (store_session layout64 tiny_config True [point_op 1 5]))))
            (sample_stream ''m'' None None) \<and>
      stream_count (by_key (points_shelf st')) (sample_stream ''m'' None None) = 0)"
proof -
  let ?st = "fst (store_session layout64 tiny_config True [point_op 1 5])"
  obtain st' n calls where e: "enforce_retention layout64 (AdmissionTime 500) ?st = (st', n, calls)"
    by (metis prod_cases3)
  from stream_release_exact [OF tiny_sane _ e] e
  show ?thesis by simp
qed

text \<open>C29: Scans are complete: walking the resident spans page by page, from the start and then from
  each page's cursor, with any positive page size, yields every resident span exactly once, in
  residency order, with the key it is filed under.\<close>

theorem span_walk_complete:
  assumes "sane_config cfg" and "st = fst (store_session L cfg wired ops)" and "0 < limit"
  shows "walk (scan_spans st) limit (Suc (shelf_len (spans_shelf st))) None =
           map as_item (by_key (spans_shelf st)) \<and>
         om_sorted (by_key (spans_shelf st))"
proof -
  obtain kept calls' where s: "store_session L cfg wired ops = (st, kept, calls')"
    using assms(2) by (metis prod.collapse)
  have "wf_shelf (span_size L) (spans_shelf st)"
    using settled_parts(1) [OF session_laws(1) [OF assms(1) s]] by (simp add: wf_store_def)
  then show ?thesis
    using shelf_scan.full_walk [of "span_size L" "spans_shelf st" limit] assms(3)
    by (simp add: scan_spans_def shelf_len_def wf_shelf_def del: walk.simps)
qed

lemma span_walk_complete_witness:
  "walk (scan_spans (fst (store_session layout64 tiny_config True [point_op 1 5]))) 3
     (Suc (shelf_len (spans_shelf (fst (store_session layout64 tiny_config True [point_op 1 5]))))) None =
   map as_item (by_key (spans_shelf (fst (store_session layout64 tiny_config True [point_op 1 5]))))"
  using span_walk_complete [OF tiny_sane refl, of 3 layout64 True "[point_op 1 5]"]
  by (simp del: walk.simps)


section \<open>The identity charge of streams that differ only in provenance\<close>

text \<open>C35: The identity charge leaks when two resident points carry content-equal streams of different
  accounted size, which the program's stream comparison allows, because it ignores the
  resource's schema URL: the first point's stream is charged, the last point's is subtracted.
  After both points are gone the series table is as before but the identity bytes are too high
  by the difference of the sizes, for the rest of the session.\<close>

theorem identity_charge_leaks:
  assumes "stream_eq s1 s2" and "get_by stream_eq (series st) s1 = None"
    and "stream_size L s2 \<le> stream_size L s1"
    and "identity_bytes st + stream_size L s1 \<le> u64_max"
  shows "let charged = charge_stream L s2 (charge_stream L s1 st);
             (one_left, released1) = release_stream_ref L s1 charged;
             (none_left, released2) = release_stream_ref L s2 one_left
         in \<not> released1 \<and> released2 \<and> series none_left = series st \<and>
            identity_bytes none_left = identity_bytes st + (stream_size L s1 - stream_size L s2)"
proof -
  have eqs: "stream_eq s1 s1" "stream_eq s2 s2" "stream_eq s2 s1" "stream_eq s1 s2"
    using assms(1) stream_key.eq_refl stream_key.eq_sym by blast+
  have abs: "get_by stream_eq (series st) s2 = None"
    using assms(1,2) stream_key.get_cong by metis
  have drop: "remove_by stream_eq s2 (series st) = series st" using abs by (rule remove_by_absent)
  have keep: "adjust_by stream_eq s f (series st) = series st" if "get_by stream_eq (series st) s = None" for f s
    using that unfolding adjust_by_def get_by_None_iff by (intro map_idI) simp
  have fit: "sat_u64 (stream_size L s1) = stream_size L s1" "sat_u64 (stream_size L s2) = stream_size L s2"
    "sat_add (identity_bytes st) (stream_size L s1) = identity_bytes st + stream_size L s1"
    using assms(3,4) by (simp_all add: sat_u64_def sat_add_def)
  have app: "adjust_by eq s f (ps @ [(s', n)]) = adjust_by eq s f ps @ [(s', if eq s' s then f n else n)]"
    for eq and s s' :: stream_identity and f and ps and n :: nat
    by (simp add: adjust_by_def)
  have found: "get_by stream_eq (series st @ [(s1, n)]) s = Some (s1, n)" if "s = s1 \<or> s = s2" for s n
    using that assms(2) abs eqs by (auto simp: stream_key.get_append_new)
  have gone: "remove_by stream_eq s2 (series st @ [(s1, n)]) = series st" for n
    using drop eqs(4) by (simp add: remove_by_def)
  show ?thesis
    using assms(2,3) abs eqs fit found gone keep
    by (simp add: charge_stream_def release_stream_ref_def app accounted_u64_def Let_def)
qed

lemma identity_charge_leaks_witness:
  "let s1 = sample_stream ''m'' None (Some ''v2''); s2 = sample_stream ''m'' None None;
       st = store_new tiny_config True;
       charged = charge_stream layout64 s2 (charge_stream layout64 s1 st);
       (one_left, released1) = release_stream_ref layout64 s1 charged;
       (none_left, released2) = release_stream_ref layout64 s2 one_left
   in released2 \<and> series none_left = [] \<and> identity_bytes none_left = 34"
proof -
  have sizes: "stream_size layout64 (sample_stream ''m'' None (Some ''v2'')) =
      stream_size layout64 (sample_stream ''m'' None None) + 34"
    by (simp add: stream_size_def resource_size_def opt_string_bytes_def heap_string_bytes_def
        sample_defs size_constants)
  have small: "stream_size layout64 (sample_stream ''m'' None None) \<le> 2000"
    by (simp add: stream_size_def resource_size_def scope_size_def opt_string_bytes_def
        heap_string_bytes_def attributes_size_entries attribute_entry_size_def sample_defs size_constants)
  have new: "series (store_new tiny_config True) = []" "identity_bytes (store_new tiny_config True) = 0"
    by (simp_all add: store_new_def)
  have "(2034::nat) \<le> u64_max" by (simp add: u64_max_def)
  with sizes small new show ?thesis
    using identity_charge_leaks [of "sample_stream ''m'' None (Some ''v2'')" "sample_stream ''m'' None None"
        "store_new tiny_config True" layout64]
    by (simp add: sample_stream_eq Let_def split: prod.splits)
qed

end
