(* ===== verification/Ledger.thy ===== *)
theory Ledger
  imports Identity
begin

text \<open>
  The admission ledger: \<open>crates/telemetry-model/src/ledger.rs\<close>.

  The state is the struct's. \<open>spans\<close> is a map; \<open>points\<close> and \<open>streams\<close> are keyed by the types'
  own comparisons, which ignore part of the key's content (\<open>point_key_eq\<close>, \<open>stream_eq\<close>), so
  they are tables of the prelude whose first component is the stored key: the standing key is
  the one the first admission stored, and \<open>get_by\<close> returns it. A payload shared through an
  \<open>Arc\<close> is a value. The invariant \<open>wf_ledger\<close> ties the assigned-id index to the points and
  every standing record to the gates it passed.
\<close>

section \<open>State\<close>

record admission_anomalies =
  span_identity_conflicts :: nat
  point_identity_conflicts :: nat
  provenance_mismatches :: nat

definition anomalies_total :: "admission_anomalies \<Rightarrow> nat" where
  "anomalies_total a =
     span_identity_conflicts a + point_identity_conflicts a + provenance_mismatches a"

record span_admission =
  sa_outcome :: admission_outcome
  sa_record :: "span option"

record point_admission =
  pa_outcome :: admission_outcome
  pa_record :: "metric_point option"
  pa_stream :: "stream_identity option"
  pa_fresh_intern :: bool

record admission_ledger =
  next_serial :: nat
  spans :: "trace_id \<times> span_id \<rightharpoonup> entity_id \<times> span"
  points :: "(point_identity \<times> entity_id) list"
  assigned_points :: "nat \<rightharpoonup> point_identity"
  streams :: "(stream_identity \<times> unit) list"
  limits :: budget_limits
  anomalies :: admission_anomalies

definition ledger_new :: "budget_limits \<Rightarrow> admission_ledger" where
  "ledger_new lim =
     \<lparr>next_serial = 0, spans = Map.empty, points = [], assigned_points = Map.empty,
      streams = [], limits = lim,
      anomalies = \<lparr>span_identity_conflicts = 0, point_identity_conflicts = 0,
                   provenance_mismatches = 0\<rparr>\<rparr>"

section \<open>Operations\<close>

definition assigned_entity :: "admission_ledger \<Rightarrow> admission_ledger \<times> entity_id" where
  "assigned_entity l = (l\<lparr>next_serial := next_serial l + 1\<rparr>, Assigned (next_serial l + 1))"

fun forget :: "entity_id \<Rightarrow> admission_ledger \<Rightarrow> admission_ledger" where
  "forget (Span t s) l = l\<lparr>spans := (spans l)((t, s) := None)\<rparr>"
| "forget (Assigned n) l =
     (case assigned_points l n of
        Some k \<Rightarrow> l\<lparr>assigned_points := (assigned_points l)(n := None),
                   points := remove_by point_key_eq k (points l)\<rparr>
      | None \<Rightarrow> l)"

definition release_stream :: "stream_identity \<Rightarrow> admission_ledger \<Rightarrow> admission_ledger" where
  "release_stream s l = l\<lparr>streams := remove_by stream_eq s (streams l)\<rparr>"

definition resident_streams :: "admission_ledger \<Rightarrow> nat" where
  "resident_streams l = length (streams l)"

definition count_span_conflict :: "admission_ledger \<Rightarrow> admission_ledger" where
  "count_span_conflict l =
     l\<lparr>anomalies := (anomalies l)
        \<lparr>span_identity_conflicts := span_identity_conflicts (anomalies l) + 1\<rparr>\<rparr>"

definition count_point_conflict :: "admission_ledger \<Rightarrow> admission_ledger" where
  "count_point_conflict l =
     l\<lparr>anomalies := (anomalies l)
        \<lparr>point_identity_conflicts := point_identity_conflicts (anomalies l) + 1\<rparr>\<rparr>"

definition count_mismatch :: "admission_ledger \<Rightarrow> admission_ledger" where
  "count_mismatch l =
     l\<lparr>anomalies := (anomalies l)
        \<lparr>provenance_mismatches := provenance_mismatches (anomalies l) + 1\<rparr>\<rparr>"

lemmas ledger_counters =
  count_span_conflict_def count_point_conflict_def count_mismatch_def anomalies_total_def

definition admit_span :: "layout \<Rightarrow> span \<Rightarrow> admission_ledger \<Rightarrow> admission_ledger \<times> span_admission" where
  "admit_span L s l =
     (case check_span L s (limits l) of
        Inl rejection \<Rightarrow> (l, \<lparr>sa_outcome = Rejected rejection, sa_record = None\<rparr>)
      | Inr _ \<Rightarrow>
          (case natural_identity s of
             None \<Rightarrow>
               (let (l1, entity) = assigned_entity l
                in (l1, \<lparr>sa_outcome = Admitted entity, sa_record = Some s\<rparr>))
           | Some key \<Rightarrow>
               (let entity = Span (fst key) (snd key)
                in case spans l key of
                     Some (standing, held) \<Rightarrow>
                       if span_eq held s
                       then ((if res_schema_url (sp_resource held) \<noteq> res_schema_url (sp_resource s)
                              then count_mismatch l else l),
                             \<lparr>sa_outcome = Collapsed standing, sa_record = Some held\<rparr>)
                       else (count_span_conflict l,
                             \<lparr>sa_outcome = Conflict standing, sa_record = None\<rparr>)
                   | None \<Rightarrow>
                       (l\<lparr>spans := (spans l)(key \<mapsto> (entity, s))\<rparr>,
                        \<lparr>sa_outcome = Admitted entity, sa_record = Some s\<rparr>))))"

definition admit_log_record ::
  "layout \<Rightarrow> log_record \<Rightarrow> admission_ledger \<Rightarrow> admission_ledger \<times> admission_outcome" where
  "admit_log_record L r l =
     (case check_log_record L r (limits l) of
        Inl rejection \<Rightarrow> (l, Rejected rejection)
      | Inr _ \<Rightarrow> (let (l1, entity) = assigned_entity l in (l1, Admitted entity)))"

definition refused_point :: "admission_outcome \<Rightarrow> point_admission" where
  "refused_point out =
     \<lparr>pa_outcome = out, pa_record = None, pa_stream = None, pa_fresh_intern = False\<rparr>"

text \<open>The interning step: the standing stream of equal content, or this one, made fresh.\<close>

definition intern ::
  "stream_identity \<Rightarrow> admission_ledger \<Rightarrow> admission_ledger \<times> stream_identity \<times> bool" where
  "intern s l =
     (case get_by stream_eq (streams l) s of
        Some standing \<Rightarrow> (l, fst standing, False)
      | None \<Rightarrow> (l\<lparr>streams := streams l @ [(s, ())]\<rparr>, s, True))"

text \<open>What stands under the point's key decides its fate.\<close>

definition admit_interned ::
  "stream_identity \<Rightarrow> metric_point \<Rightarrow> stream_identity \<Rightarrow> bool \<Rightarrow> admission_ledger \<Rightarrow>
     admission_ledger \<times> point_admission" where
  "admit_interned s p interned fresh l =
     (let key = of_interned interned p
      in case get_by point_key_eq (points l) key of
           Some (standing_key, standing) \<Rightarrow>
             if stream_eq (pi_stream standing_key) interned
             then if identity_payload_eq (pi_point standing_key) p (si_kind s)
                  then ((if res_schema_url (si_resource interned) \<noteq> res_schema_url (si_resource s)
                         then count_mismatch l else l),
                        \<lparr>pa_outcome = Collapsed standing, pa_record = Some (pi_point standing_key),
                         pa_stream = Some interned, pa_fresh_intern = fresh\<rparr>)
                  else (count_point_conflict l,
                        \<lparr>pa_outcome = Conflict standing, pa_record = None,
                         pa_stream = Some interned, pa_fresh_intern = fresh\<rparr>)
             else (let l1 = count_point_conflict l
                   in ((if fresh then release_stream s l1 else l1),
                       refused_point (Conflict standing)))
         | None \<Rightarrow>
             (let (l1, entity) = assigned_entity l
              in (l1\<lparr>points := points l1 @ [(key, entity)],
                     assigned_points := (assigned_points l1)(e_serial entity \<mapsto> key)\<rparr>,
                  \<lparr>pa_outcome = Admitted entity, pa_record = Some p,
                   pa_stream = Some interned, pa_fresh_intern = fresh\<rparr>)))"

definition admit_metric_point ::
  "layout \<Rightarrow> stream_identity \<Rightarrow> metric_point \<Rightarrow> admission_ledger \<Rightarrow>
     admission_ledger \<times> point_admission" where
  "admit_metric_point L s p l =
     (case check_identity_coherence s of
        Inl err \<Rightarrow> (l, refused_point (Invalid err))
      | Inr _ \<Rightarrow>
     (case check_point_coherence s p 0 of
        Inl err \<Rightarrow> (l, refused_point (Invalid err))
      | Inr _ \<Rightarrow>
     (case check_stream_identity L s (limits l) of
        Inl rejection \<Rightarrow> (l, refused_point (Rejected rejection))
      | Inr _ \<Rightarrow>
     (case check_point L p (limits l) of
        Inl rejection \<Rightarrow> (l, refused_point (Rejected rejection))
      | Inr _ \<Rightarrow>
          (let (l1, interned, fresh) = intern s l
           in admit_interned s p interned fresh l1)))))"


section \<open>The branches\<close>

lemma admit_span_cases:
  obtains (rejected) r where "check_span L s (limits l) = Inl r"
      "admit_span L s l = (l, \<lparr>sa_outcome = Rejected r, sa_record = None\<rparr>)"
  | (nameless) "check_span L s (limits l) = Inr ()" "natural_identity s = None"
      "admit_span L s l = (l\<lparr>next_serial := next_serial l + 1\<rparr>,
         \<lparr>sa_outcome = Admitted (Assigned (next_serial l + 1)), sa_record = Some s\<rparr>)"
  | (collapsed) k e held where "check_span L s (limits l) = Inr ()" "natural_identity s = Some k"
      "spans l k = Some (e, held)" "span_eq held s"
      "admit_span L s l =
         ((if res_schema_url (sp_resource held) \<noteq> res_schema_url (sp_resource s)
           then count_mismatch l else l),
          \<lparr>sa_outcome = Collapsed e, sa_record = Some held\<rparr>)"
  | (conflict) k e held where "check_span L s (limits l) = Inr ()" "natural_identity s = Some k"
      "spans l k = Some (e, held)" "\<not> span_eq held s"
      "admit_span L s l = (count_span_conflict l, \<lparr>sa_outcome = Conflict e, sa_record = None\<rparr>)"
  | (fresh) k where "check_span L s (limits l) = Inr ()" "natural_identity s = Some k"
      "spans l k = None"
      "admit_span L s l =
         (l\<lparr>spans := (spans l)(k \<mapsto> (Span (fst k) (snd k), s))\<rparr>,
          \<lparr>sa_outcome = Admitted (Span (fst k) (snd k)), sa_record = Some s\<rparr>)"
proof (cases "check_span L s (limits l)")
  case (Inl r)
  then show thesis by (intro rejected) (simp_all add: admit_span_def)
next
  case (Inr u)
  then have ok: "check_span L s (limits l) = Inr ()" by simp
  show thesis
  proof (cases "natural_identity s")
    case None
    with ok show thesis by (intro nameless) (simp_all add: admit_span_def assigned_entity_def)
  next
    case (Some k)
    show thesis
    proof (cases "spans l k")
      case None
      with ok Some show thesis by (intro fresh) (simp_all add: admit_span_def Let_def)
    next
      case (Some v)
      obtain e held where v: "v = (e, held)" by (cases v)
      show thesis
        by (cases "span_eq held s")
           (use ok \<open>natural_identity s = Some k\<close> Some v in
             \<open>auto intro: collapsed conflict simp: admit_span_def Let_def\<close>)
    qed
  qed
qed

text \<open>A delivered point passes every gate or is refused with the ledger untouched.\<close>

definition point_gates :: "layout \<Rightarrow> stream_identity \<Rightarrow> metric_point \<Rightarrow> budget_limits \<Rightarrow> bool" where
  "point_gates L s p lim \<longleftrightarrow>
     check_identity_coherence s = Inr () \<and> check_point_coherence s p 0 = Inr () \<and>
     check_stream_identity L s lim = Inr () \<and> check_point L p lim = Inr ()"

lemma admit_metric_point_gates:
  "point_gates L s p (limits l) \<Longrightarrow>
     admit_metric_point L s p l =
       (case intern s l of (l1, interned, fresh) \<Rightarrow> admit_interned s p interned fresh l1)"
  by (simp add: point_gates_def admit_metric_point_def Let_def)

lemma admit_metric_point_refused:
  assumes "\<not> point_gates L s p (limits l)"
  obtains out where "admit_metric_point L s p l = (l, refused_point out)"
    "outcome_entity out = None"
proof -
  have "\<exists>out. admit_metric_point L s p l = (l, refused_point out) \<and> outcome_entity out = None"
    using assms by (auto simp: point_gates_def admit_metric_point_def split: sum.splits)
  then show thesis using that by blast
qed

lemma admit_interned_cases:
  fixes s p interned fresh l
  defines "key \<equiv> of_interned interned p"
  obtains (collapsed) k e where "get_by point_key_eq (points l) key = Some (k, e)"
      "stream_eq (pi_stream k) interned" "identity_payload_eq (pi_point k) p (si_kind s)"
      "admit_interned s p interned fresh l =
         ((if res_schema_url (si_resource interned) \<noteq> res_schema_url (si_resource s)
           then count_mismatch l else l),
          \<lparr>pa_outcome = Collapsed e, pa_record = Some (pi_point k),
           pa_stream = Some interned, pa_fresh_intern = fresh\<rparr>)"
  | (conflict) k e where "get_by point_key_eq (points l) key = Some (k, e)"
      "stream_eq (pi_stream k) interned" "\<not> identity_payload_eq (pi_point k) p (si_kind s)"
      "admit_interned s p interned fresh l =
         (count_point_conflict l,
          \<lparr>pa_outcome = Conflict e, pa_record = None,
           pa_stream = Some interned, pa_fresh_intern = fresh\<rparr>)"
  | (descriptor) k e where "get_by point_key_eq (points l) key = Some (k, e)"
      "\<not> stream_eq (pi_stream k) interned"
      "admit_interned s p interned fresh l =
         ((if fresh then release_stream s (count_point_conflict l) else count_point_conflict l),
          refused_point (Conflict e))"
  | (fresh) "get_by point_key_eq (points l) key = None"
      "admit_interned s p interned fresh l =
         (l\<lparr>next_serial := next_serial l + 1,
            points := points l @ [(key, Assigned (next_serial l + 1))],
            assigned_points := (assigned_points l)(next_serial l + 1 \<mapsto> key)\<rparr>,
          \<lparr>pa_outcome = Admitted (Assigned (next_serial l + 1)), pa_record = Some p,
           pa_stream = Some interned, pa_fresh_intern = fresh\<rparr>)"
proof (cases "get_by point_key_eq (points l) key")
  case None
  then show thesis
    by (intro fresh) (simp_all add: key_def admit_interned_def assigned_entity_def Let_def)
next
  case (Some v)
  obtain k e where v: "v = (k, e)" by (cases v)
  show thesis
    by (cases "stream_eq (pi_stream k) interned";
        cases "identity_payload_eq (pi_point k) p (si_kind s)")
       (use Some v in \<open>auto intro: collapsed conflict descriptor
          simp: key_def admit_interned_def Let_def\<close>)
qed

lemma intern_stream_eq: "intern s l = (l1, interned, fresh) \<Longrightarrow> stream_eq interned s"
  by (auto simp: intern_def stream_key.eq_refl split: option.splits dest: get_by_SomeD)

lemma intern_rest:
  "intern s l = (l1, interned, fresh) \<Longrightarrow>
     spans l1 = spans l \<and> points l1 = points l \<and> assigned_points l1 = assigned_points l \<and>
     next_serial l1 = next_serial l \<and> limits l1 = limits l \<and> anomalies l1 = anomalies l"
  by (auto simp: intern_def split: option.splits)

lemma intern_undone:
  assumes "intern s l = (l1, interned, fresh)"
  shows "(if fresh then release_stream s l1 else l1) = l"
  using assms stream_key.remove_appended [of "streams l" s s "()"]
  by (auto simp: intern_def release_stream_def stream_key.eq_refl split: option.splits)

section \<open>The invariant\<close>

definition standing_span_ok :: "layout \<Rightarrow> budget_limits \<Rightarrow> trace_id \<times> span_id \<Rightarrow> entity_id \<times> span \<Rightarrow> bool" where
  "standing_span_ok L lim k v \<longleftrightarrow>
     fst v = Span (fst k) (snd k) \<and> natural_identity (snd v) = Some k \<and>
     span_within L lim (snd v)"

definition standing_point_ok :: "layout \<Rightarrow> budget_limits \<Rightarrow> point_identity \<Rightarrow> bool" where
  "standing_point_ok L lim k \<longleftrightarrow>
     k = of_interned (pi_stream k) (pi_point k) \<and>
     point_gates L (pi_stream k) (pi_point k) lim"

definition index_agrees :: "admission_ledger \<Rightarrow> bool" where
  "index_agrees l \<longleftrightarrow>
     (\<forall>p \<in> set (points l). \<exists>n. snd p = Assigned n \<and> 0 < n \<and> n \<le> next_serial l \<and>
        assigned_points l n = Some (fst p)) \<and>
     (\<forall>n k. assigned_points l n = Some k \<longrightarrow> (k, Assigned n) \<in> set (points l))"

definition wf_ledger :: "layout \<Rightarrow> admission_ledger \<Rightarrow> bool" where
  "wf_ledger L l \<longleftrightarrow>
     (\<forall>k v. spans l k = Some v \<longrightarrow> standing_span_ok L (limits l) k v) \<and>
     distinct_by point_key_eq (points l) \<and> index_agrees l \<and>
     (\<forall>p \<in> set (points l). standing_point_ok L (limits l) (fst p)) \<and>
     distinct_by stream_eq (streams l)"

lemma wf_ledger_parts:
  assumes "wf_ledger L l"
  shows "spans l k = Some v \<Longrightarrow> standing_span_ok L (limits l) k v"
    and "distinct_by point_key_eq (points l)" and "index_agrees l"
    and "p \<in> set (points l) \<Longrightarrow> standing_point_ok L (limits l) (fst p)"
    and "distinct_by stream_eq (streams l)"
  using assms by (cases k; cases v; force simp: wf_ledger_def)+

lemma wf_ledger_new: "wf_ledger L (ledger_new lim)"
  by (simp add: wf_ledger_def ledger_new_def index_agrees_def)

lemma wf_ledger_counters [simp]:
  "wf_ledger L (count_mismatch l) = wf_ledger L l"
  "wf_ledger L (count_span_conflict l) = wf_ledger L l"
  "wf_ledger L (count_point_conflict l) = wf_ledger L l"
  by (simp_all add: wf_ledger_def ledger_counters index_agrees_def)

lemma ledger_counters_rest [simp]:
  "spans (count_mismatch l) = spans l" "spans (count_span_conflict l) = spans l"
  "spans (count_point_conflict l) = spans l"
  "points (count_mismatch l) = points l" "points (count_span_conflict l) = points l"
  "points (count_point_conflict l) = points l"
  "streams (count_mismatch l) = streams l" "streams (count_span_conflict l) = streams l"
  "streams (count_point_conflict l) = streams l"
  "next_serial (count_mismatch l) = next_serial l"
  "next_serial (count_span_conflict l) = next_serial l"
  "next_serial (count_point_conflict l) = next_serial l"
  "assigned_points (count_mismatch l) = assigned_points l"
  "assigned_points (count_span_conflict l) = assigned_points l"
  "assigned_points (count_point_conflict l) = assigned_points l"
  "limits (count_mismatch l) = limits l" "limits (count_span_conflict l) = limits l"
  "limits (count_point_conflict l) = limits l"
  by (simp_all add: ledger_counters)

lemma wf_ledger_serial:
  assumes "wf_ledger L l"
  shows "wf_ledger L (l\<lparr>next_serial := next_serial l + 1\<rparr>)"
proof -
  have "\<exists>n. snd p = Assigned n \<and> 0 < n \<and> n \<le> next_serial l + 1 \<and> assigned_points l n = Some (fst p)"
    if "p \<in> set (points l)" for p
    using wf_ledger_parts(3) [OF assms] that le_SucI by (fastforce simp: index_agrees_def)
  with assms show ?thesis by (auto simp: wf_ledger_def index_agrees_def)
qed

lemma wf_release_stream: "wf_ledger L l \<Longrightarrow> wf_ledger L (release_stream s l)"
  by (auto simp: wf_ledger_def release_stream_def index_agrees_def distinct_by_remove)

lemma wf_admit_span:
  assumes "wf_ledger L l"
  shows "wf_ledger L (fst (admit_span L s l))"
proof (cases rule: admit_span_cases [of L s l])
  case nameless
  with wf_ledger_serial [OF assms] show ?thesis by simp
next
  case (fresh k)
  have "standing_span_ok L (limits l) k (Span (fst k) (snd k), s)"
    using fresh by (simp add: standing_span_ok_def budget_span [symmetric])
  with assms fresh show ?thesis by (auto simp: wf_ledger_def index_agrees_def)
qed (use assms in auto)

lemma wf_admit_log_record:
  "wf_ledger L l \<Longrightarrow> wf_ledger L (fst (admit_log_record L r l))"
  using wf_ledger_serial [of L l]
  by (auto simp: admit_log_record_def assigned_entity_def split: sum.splits)


lemma point_gates_cong:
  "stream_eq a b \<Longrightarrow> point_gates L a p lim = point_gates L b p lim"
  by (auto simp: point_gates_def stream_eq_def resource_eq_def check_identity_coherence_def
      check_point_coherence_def budget_stream stream_within_def Let_def split: if_splits)

lemma of_interned_idem [simp]:
  "of_interned (pi_stream (of_interned s p)) (pi_point (of_interned s p)) = of_interned s p"
  "pi_stream (of_interned s p) = s" "pi_point (of_interned s p) = p"
  by (simp_all add: of_interned_def)

lemma index_agrees_append:
  assumes "index_agrees l" "l' = l\<lparr>next_serial := next_serial l + 1,
     points := points l @ [(k, Assigned (next_serial l + 1))],
     assigned_points := (assigned_points l)(next_serial l + 1 \<mapsto> k)\<rparr>"
  shows "index_agrees l'"
proof -
  have old: "\<exists>n. snd p = Assigned n \<and> 0 < n \<and> n \<le> next_serial l \<and> assigned_points l n = Some (fst p)"
    if "p \<in> set (points l)" for p
    using assms(1) that by (auto simp: index_agrees_def)
  then have "\<exists>n. snd p = Assigned n \<and> 0 < n \<and> n \<le> next_serial l' \<and> assigned_points l' n = Some (fst p)"
    if "p \<in> set (points l)" for p
    using that assms(2) by fastforce
  with assms show ?thesis by (auto simp: index_agrees_def)
qed

lemma wf_admit_interned:
  assumes wf: "wf_ledger L l" and gates: "point_gates L s p (limits l)" and eq: "stream_eq interned s"
  shows "wf_ledger L (fst (admit_interned s p interned fresh l))"
proof (cases rule: admit_interned_cases [where s = s and p = p and interned = interned and fresh = fresh and l = l])
  case new: fresh
  let ?k = "of_interned interned p"
  have "standing_point_ok L (limits l) ?k"
    using gates point_gates_cong [OF eq] by (simp add: standing_point_ok_def)
  moreover have "distinct_by point_key_eq (points l @ [(?k, Assigned (next_serial l + 1))])"
    using new(1) wf_ledger_parts(2) [OF wf] by (simp add: get_by_None_iff)
  moreover have "index_agrees (fst (admit_interned s p interned fresh l))"
    using index_agrees_append [OF wf_ledger_parts(3) [OF wf] refl, of ?k] new(2) by simp
  ultimately show ?thesis
    using wf new(2) by (auto simp: wf_ledger_def)
qed (use wf in \<open>auto simp: wf_release_stream\<close>)

lemma wf_intern:
  assumes "wf_ledger L l" "intern s l = (l1, interned, fresh)"
  shows "wf_ledger L l1"
proof (cases "get_by stream_eq (streams l) s")
  case None
  with assms(2) have l1: "l1 = l\<lparr>streams := streams l @ [(s, ())]\<rparr>" by (auto simp: intern_def)
  from None assms(1) show ?thesis
    unfolding l1 wf_ledger_def index_agrees_def by (simp add: get_by_None_iff)
qed (use assms in \<open>simp add: intern_def\<close>)

lemma wf_admit_metric_point:
  assumes "wf_ledger L l"
  shows "wf_ledger L (fst (admit_metric_point L s p l))"
proof (cases "point_gates L s p (limits l)")
  case True
  obtain l1 interned fresh where i: "intern s l = (l1, interned, fresh)" by (metis prod_cases3)
  with True intern_rest [OF i] show ?thesis
    by (simp add: admit_metric_point_gates wf_admit_interned [OF wf_intern [OF assms i]]
        intern_stream_eq [OF i])
next
  case False
  then show ?thesis using assms by (auto elim: admit_metric_point_refused)
qed

lemma wf_forget:
  assumes wf: "wf_ledger L l"
  shows "wf_ledger L (forget e l)"
proof (cases e)
  case (Span t s)
  with wf show ?thesis by (auto simp: wf_ledger_def index_agrees_def)
next
  case (Assigned n)
  show ?thesis
  proof (cases "assigned_points l n")
    case None
    with wf Assigned show ?thesis by simp
  next
    case (Some k)
    let ?l = "forget e l"
    have d: "distinct_by point_key_eq (points l)" and idx: "index_agrees l"
      using wf_ledger_parts [OF wf] by auto
    have l': "?l = l\<lparr>assigned_points := (assigned_points l)(n := None),
        points := remove_by point_key_eq k (points l)\<rparr>"
      using Assigned Some by simp
    have k: "(k, entity_id.Assigned n) \<in> set (points l)"
      using idx Some by (auto simp: index_agrees_def)
    have other: "\<not> point_key_eq (fst p) k" if "p \<in> set (points l)" "assigned_points l m = Some (fst p)"
        "snd p = entity_id.Assigned m" "m \<noteq> n" for p m
      using point_key.distinct_member_eq [OF d that(1) k] that by auto
    have "index_agrees ?l"
      unfolding l' index_agrees_def
    proof (intro conjI ballI allI impI, goal_cases)
      case (1 p)
      then have p: "p \<in> set (points l)" and "\<not> point_key_eq (fst p) k"
        by (auto simp: set_remove_by)
      then obtain m where "snd p = entity_id.Assigned m" "0 < m" "m \<le> next_serial l"
        "assigned_points l m = Some (fst p)" using idx by (auto simp: index_agrees_def)
      moreover from this Some \<open>\<not> point_key_eq (fst p) k\<close> point_key.eq_refl have "m \<noteq> n" by auto
      ultimately show ?case by auto
    next
      case (2 m k')
      then have "assigned_points l m = Some k'" "m \<noteq> n" by (auto split: if_splits)
      moreover from this(1) idx have "(k', entity_id.Assigned m) \<in> set (points l)"
        by (auto simp: index_agrees_def)
      ultimately show ?case using other [of "(k', entity_id.Assigned m)" m] by (auto simp: set_remove_by)
    qed
    with wf show ?thesis
      unfolding wf_ledger_def l' by (auto simp: distinct_by_remove set_remove_by)
  qed
qed

end
