(* ===== verification/Ledger_Laws.thy ===== *)
theory Ledger_Laws
  imports Ledger Samples
begin

text \<open>
  What the admission ledger promises its callers, over whole sessions.

  A session is a list of deliveries and residency reports (\<open>ledger_op\<close>), run from a ledger;
  the laws of identity are stated over every such list. The interface \<open>identity_book\<close> is what
  the eviction hook and the export undo rely on: dropping an entity removes exactly that
  entity from the standing records and keeps the invariant.
\<close>

section \<open>Standing records\<close>

definition live_entities :: "admission_ledger \<Rightarrow> entity_id set" where
  "live_entities l = {e. \<exists>k s. spans l k = Some (e, s)} \<union> snd ` set (points l)"

lemma wf_span_entry:
  "wf_ledger L l \<Longrightarrow> spans l k = Some (e, s) \<Longrightarrow>
     e = Span (fst k) (snd k) \<and> natural_identity s = Some k \<and> span_within L (limits l) s"
  using wf_ledger_parts(1) [of L l k "(e, s)"] by (simp add: standing_span_ok_def)

lemma wf_point_entry:
  assumes "wf_ledger L l" "(k, e) \<in> set (points l)"
  obtains n where "e = Assigned n" "0 < n" "n \<le> next_serial l" "assigned_points l n = Some k"
  using wf_ledger_parts(3) [OF assms(1)] assms(2) by (auto simp: index_agrees_def)

lemma wf_assigned_entry:
  "wf_ledger L l \<Longrightarrow> assigned_points l n = Some k \<Longrightarrow> (k, Assigned n) \<in> set (points l)"
  using wf_ledger_parts(3) [of L l] by (auto simp: index_agrees_def)

lemma live_span_iff:
  assumes wf: "wf_ledger L l"
  shows "Span t s \<in> live_entities l \<longleftrightarrow> spans l (t, s) \<noteq> None"
proof
  assume "Span t s \<in> live_entities l"
  then consider k r where "spans l k = Some (Span t s, r)" | k where "(k, Span t s) \<in> set (points l)"
    by (auto simp: live_entities_def)
  then show "spans l (t, s) \<noteq> None"
  proof cases
    case 1
    with wf_span_entry [OF wf 1] show ?thesis by (cases k) simp
  next
    case 2
    with wf_point_entry [OF wf 2] show ?thesis by blast
  qed
next
  assume "spans l (t, s) \<noteq> None"
  then obtain e r where e: "spans l (t, s) = Some (e, r)" by auto
  with wf_span_entry [OF wf e] show "Span t s \<in> live_entities l" by (auto simp: live_entities_def)
qed

lemma live_assigned_iff:
  assumes wf: "wf_ledger L l"
  shows "Assigned n \<in> live_entities l \<longleftrightarrow> assigned_points l n \<noteq> None"
proof
  assume "Assigned n \<in> live_entities l"
  then consider k r where "spans l k = Some (Assigned n, r)" | k where "(k, Assigned n) \<in> set (points l)"
    by (auto simp: live_entities_def)
  then show "assigned_points l n \<noteq> None"
  proof cases
    case 1
    with wf_span_entry [OF wf 1] show ?thesis by simp
  next
    case 2
    with wf_point_entry [OF wf 2] show ?thesis by blast
  qed
next
  assume "assigned_points l n \<noteq> None"
  then obtain k where "assigned_points l n = Some k" by auto
  from wf_assigned_entry [OF wf this] show "Assigned n \<in> live_entities l"
    by (force simp: live_entities_def)
qed

lemmas live_iff = live_span_iff live_assigned_iff

lemma serial_bound:
  assumes wf: "wf_ledger L l" and n: "assigned_points l n = Some k"
  shows "0 < n \<and> n \<le> next_serial l"
proof -
  obtain m where "Assigned n = Assigned m" "0 < m" "m \<le> next_serial l"
    using wf_point_entry [OF wf wf_assigned_entry [OF wf n]] by blast
  then show ?thesis by simp
qed

lemma serial_unused:
  assumes "wf_ledger L l" "next_serial l < n"
  shows "assigned_points l n = None" "Assigned n \<notin> live_entities l"
proof -
  show "assigned_points l n = None"
  proof (cases "assigned_points l n")
    case (Some k)
    with serial_bound [OF assms(1) Some] assms(2) show ?thesis by simp
  qed
  then show "Assigned n \<notin> live_entities l" by (simp add: live_assigned_iff [OF assms(1)])
qed

lemma spans_forget:
  "spans (forget e l) (t, s) = (if e = Span t s then None else spans l (t, s))"
  by (cases e) (auto split: option.splits)

lemma assigned_points_forget:
  "assigned_points (forget e l) n = (if e = Assigned n then None else assigned_points l n)"
  by (cases e) (auto split: option.splits)

lemma live_forget:
  assumes wf: "wf_ledger L l"
  shows "live_entities (forget e l) = live_entities l - {e}"
proof -
  have "x \<in> live_entities (forget e l) \<longleftrightarrow> x \<in> live_entities l - {e}" for x
    by (cases x) (auto simp: live_iff [OF wf] live_iff [OF wf_forget [OF wf]] spans_forget
        assigned_points_forget simp del: forget.simps)
  then show ?thesis by blast
qed

locale identity_book =
  fixes ok :: "'l \<Rightarrow> bool" and live :: "'l \<Rightarrow> entity_id set"
    and drop_entity :: "entity_id \<Rightarrow> 'l \<Rightarrow> 'l"
  assumes ok_drop: "ok l \<Longrightarrow> ok (drop_entity e l)"
    and live_drop: "ok l \<Longrightarrow> live (drop_entity e l) = live l - {e}"
begin

lemma drop_all:
  "ok l \<Longrightarrow> ok (fold drop_entity es l) \<and> live (fold drop_entity es l) = live l - set es"
  by (induction es arbitrary: l) (auto simp: ok_drop live_drop)

lemma drop_absent: "ok l \<Longrightarrow> e \<notin> live l \<Longrightarrow> live (drop_entity e l) = live l"
  by (simp add: live_drop)

end

interpretation book: identity_book "wf_ledger L" live_entities forget for L
  by unfold_locales (simp_all add: wf_forget live_forget)

section \<open>Sessions\<close>

datatype ledger_op =
    AdmitSpan span
  | AdmitLog log_record
  | AdmitPoint stream_identity metric_point
  | Forget entity_id
  | Release stream_identity

fun ledger_step :: "layout \<Rightarrow> ledger_op \<Rightarrow> admission_ledger \<Rightarrow> admission_ledger" where
  "ledger_step L (AdmitSpan s) l = fst (admit_span L s l)"
| "ledger_step L (AdmitLog r) l = fst (admit_log_record L r l)"
| "ledger_step L (AdmitPoint s p) l = fst (admit_metric_point L s p l)"
| "ledger_step L (Forget e) l = forget e l"
| "ledger_step L (Release s) l = release_stream s l"

fun op_outcome :: "layout \<Rightarrow> ledger_op \<Rightarrow> admission_ledger \<Rightarrow> admission_outcome option" where
  "op_outcome L (AdmitSpan s) l = Some (sa_outcome (snd (admit_span L s l)))"
| "op_outcome L (AdmitLog r) l = Some (snd (admit_log_record L r l))"
| "op_outcome L (AdmitPoint s p) l = Some (pa_outcome (snd (admit_metric_point L s p l)))"
| "op_outcome L _ l = None"

definition ledger_run :: "layout \<Rightarrow> ledger_op list \<Rightarrow> admission_ledger \<Rightarrow> admission_ledger" where
  "ledger_run L = fold (ledger_step L)"

lemma ledger_run_simps [simp]:
  "ledger_run L [] l = l"
  "ledger_run L (x # xs) l = ledger_run L xs (ledger_step L x l)"
  "ledger_run L (xs @ ys) l = ledger_run L ys (ledger_run L xs l)"
  by (simp_all add: ledger_run_def)

lemma wf_ledger_step: "wf_ledger L l \<Longrightarrow> wf_ledger L (ledger_step L x l)"
  by (cases x) (simp_all add: wf_admit_span wf_admit_log_record wf_admit_metric_point wf_forget
      wf_release_stream)

lemma wf_ledger_run: "wf_ledger L l \<Longrightarrow> wf_ledger L (ledger_run L xs l)"
  by (induction xs arbitrary: l) (auto simp: wf_ledger_step)

text \<open>How one admission changes the ledger: entries are only ever added.\<close>

lemma admit_span_grows:
  "spans l k = Some v \<Longrightarrow> spans (fst (admit_span L s l)) k = Some v"
  "points (fst (admit_span L s l)) = points l" "limits (fst (admit_span L s l)) = limits l"
  by (cases rule: admit_span_cases [of L s l]; auto)+

lemma admit_log_record_rest:
  "spans (fst (admit_log_record L r l)) = spans l"
  "points (fst (admit_log_record L r l)) = points l"
  "limits (fst (admit_log_record L r l)) = limits l"
  by (auto simp: admit_log_record_def assigned_entity_def split: sum.splits)

lemma admit_interned_grows:
  "spans (fst (admit_interned s p interned fresh l)) = spans l"
  "\<exists>new. points (fst (admit_interned s p interned fresh l)) = points l @ new"
  "limits (fst (admit_interned s p interned fresh l)) = limits l"
  by (cases rule: admit_interned_cases [where s = s and p = p and interned = interned and
        fresh = fresh and l = l]; auto simp: release_stream_def)+

lemma admit_metric_point_grows:
  "spans (fst (admit_metric_point L s p l)) = spans l"
  "\<exists>new. points (fst (admit_metric_point L s p l)) = points l @ new"
  "limits (fst (admit_metric_point L s p l)) = limits l"
proof -
  obtain l1 interned fresh where i: "intern s l = (l1, interned, fresh)" by (metis prod_cases3)
  have "spans (fst (admit_metric_point L s p l)) = spans l \<and>
    (\<exists>new. points (fst (admit_metric_point L s p l)) = points l @ new) \<and>
    limits (fst (admit_metric_point L s p l)) = limits l"
  proof (cases "point_gates L s p (limits l)")
    case True
    with i intern_rest [OF i] show ?thesis
      using admit_interned_grows [of s p interned fresh l1] by (simp add: admit_metric_point_gates)
  next
    case False
    then show ?thesis by (auto elim: admit_metric_point_refused)
  qed
  then show "spans (fst (admit_metric_point L s p l)) = spans l"
    "\<exists>new. points (fst (admit_metric_point L s p l)) = points l @ new"
    "limits (fst (admit_metric_point L s p l)) = limits l" by auto
qed

lemma forget_limits [simp]: "limits (forget e l) = limits l"
  by (cases e) (auto split: option.splits)

lemma ledger_step_limits [simp]: "limits (ledger_step L x l) = limits l"
  by (cases x) (auto simp: admit_span_grows admit_log_record_rest admit_metric_point_grows
      release_stream_def)

lemma ledger_run_limits [simp]: "limits (ledger_run L xs l) = limits l"
  by (induction xs arbitrary: l) auto

text \<open>A standing record is gone only when its own entity was forgotten.\<close>

lemma span_stands_step:
  assumes "wf_ledger L l" "spans l k = Some (e, s)" "x \<noteq> Forget e"
  shows "spans (ledger_step L x l) k = Some (e, s)"
proof (cases x)
  case (Forget e')
  then show ?thesis
    using assms wf_span_entry [OF assms(1,2)] by (cases e') (auto split: option.splits)
qed (use assms in \<open>auto simp: admit_span_grows admit_log_record_rest admit_metric_point_grows
       release_stream_def\<close>)

lemma point_stands_step:
  assumes wf: "wf_ledger L l" and k: "(k, e) \<in> set (points l)" and x: "x \<noteq> Forget e"
  shows "(k, e) \<in> set (points (ledger_step L x l))"
proof (cases x)
  case (AdmitPoint s p)
  then show ?thesis
    using k admit_metric_point_grows(2) [of L s p l] by auto
next
  case (Forget e')
  show ?thesis
  proof (cases e')
    case (Assigned n)
    show ?thesis
    proof (cases "assigned_points l n")
      case (Some k')
      have "\<not> point_key_eq k k'"
      proof
        assume "point_key_eq k k'"
        then have "(k, e) = (k', Assigned n)"
          using point_key.distinct_member_eq [OF wf_ledger_parts(2) [OF wf] k wf_assigned_entry [OF wf Some]]
          by simp
        with Assigned Forget x show False by simp
      qed
      with Some Assigned Forget k show ?thesis by (simp add: set_remove_by)
    qed (use Forget Assigned k in simp)
  qed (use Forget k in simp)
qed (use k in \<open>auto simp: admit_span_grows admit_log_record_rest release_stream_def\<close>)

lemma span_stands_run:
  "wf_ledger L l \<Longrightarrow> spans l k = Some (e, s) \<Longrightarrow> Forget e \<notin> set xs \<Longrightarrow>
     spans (ledger_run L xs l) k = Some (e, s)"
proof (induction xs arbitrary: l)
  case (Cons x xs)
  then have "spans (ledger_step L x l) k = Some (e, s)"
    by (intro span_stands_step) auto
  with Cons show ?case by (simp add: wf_ledger_step)
qed simp

lemma point_stands_run:
  "wf_ledger L l \<Longrightarrow> (k, e) \<in> set (points l) \<Longrightarrow> Forget e \<notin> set xs \<Longrightarrow>
     (k, e) \<in> set (points (ledger_run L xs l))"
proof (induction xs arbitrary: l)
  case (Cons x xs)
  then have "(k, e) \<in> set (points (ledger_step L x l))"
    by (intro point_stands_step) auto
  with Cons show ?case by (simp add: wf_ledger_step)
qed simp


section \<open>Redelivery\<close>

lemma check_span_cong: "span_eq s s' \<Longrightarrow> check_span L s lim = check_span L s' lim"
  by (simp add: span_eq_def check_span_def check_resource_def resource_eq_def Let_def cong: if_cong)

lemma natural_identity_cong: "span_eq s s' \<Longrightarrow> natural_identity s = natural_identity s'"
  by (auto simp: span_eq_def natural_identity_def)

lemma admitted_span_stands:
  assumes "natural_identity s = Some k" "sa_outcome (snd (admit_span L s l)) = Admitted e"
  shows "e = Span (fst k) (snd k)" "spans (fst (admit_span L s l)) k = Some (e, s)"
    "check_span L s (limits l) = Inr ()"
  using assms by (cases rule: admit_span_cases [of L s l]; simp)+

lemma redelivered_span:
  assumes "spans l k = Some (e, held)" "natural_identity s = Some k"
    "check_span L s (limits l) = Inr ()"
  shows "admit_span L s l =
    (if span_eq held s
     then ((if res_schema_url (sp_resource held) \<noteq> res_schema_url (sp_resource s)
            then count_mismatch l else l),
           \<lparr>sa_outcome = Collapsed e, sa_record = Some held\<rparr>)
     else (count_span_conflict l, \<lparr>sa_outcome = Conflict e, sa_record = None\<rparr>))"
  using assms by (simp add: admit_span_def Let_def)

lemma intern_eq: "\<exists>l1 interned fresh. intern s l = (l1, interned, fresh) \<and> stream_eq interned s"
  by (metis intern_stream_eq prod_cases3)

lemma admitted_point_stands:
  assumes "pa_outcome (snd (admit_metric_point L s p l)) = Admitted e"
  obtains interned where "stream_eq interned s" "point_gates L s p (limits l)"
    "(of_interned interned p, e) \<in> set (points (fst (admit_metric_point L s p l)))"
    "e = Assigned (next_serial l + 1)"
proof -
  obtain l1 interned fresh where i: "intern s l = (l1, interned, fresh)" "stream_eq interned s"
    using intern_eq by blast
  have gates: "point_gates L s p (limits l)"
  proof (rule ccontr)
    assume "\<not> point_gates L s p (limits l)"
    then show False
      using assms by (auto elim!: admit_metric_point_refused [of L s p l] simp: refused_point_def)
  qed
  show thesis
  proof (cases rule: admit_interned_cases [where s = s and p = p and interned = interned and fresh = fresh and l = l1])
    case new: fresh
    show thesis
      using assms gates i intern_rest [OF i(1)] new
      by (intro that [of interned]) (simp_all add: admit_metric_point_gates)
  qed (use assms gates i in \<open>auto simp: admit_metric_point_gates refused_point_def\<close>)
qed

lemma redelivered_point:
  assumes wf: "wf_ledger L l" and k: "(k, e) \<in> set (points l)" and gates: "point_gates L s p (limits l)"
    and key: "point_key_eq k (of_interned s p)"
  shows "pa_outcome (snd (admit_metric_point L s p l)) =
      (if stream_eq (pi_stream k) s \<and> identity_payload_eq (pi_point k) p (si_kind s)
       then Collapsed e else Conflict e)"
    and "stream_eq (pi_stream k) s \<Longrightarrow> identity_payload_eq (pi_point k) p (si_kind s) \<Longrightarrow>
      pa_record (snd (admit_metric_point L s p l)) = Some (pi_point k)"
    and "\<not> stream_eq (pi_stream k) s \<Longrightarrow>
      admit_metric_point L s p l = (count_point_conflict l, refused_point (Conflict e))"
proof -
  obtain l1 interned fresh where i: "intern s l = (l1, interned, fresh)" "stream_eq interned s"
    using intern_eq by blast
  note rest = intern_rest [OF i(1)]
  have "point_key_eq (of_interned s p) (of_interned interned p)"
    using i(2) by (auto simp: point_key_eq_def of_interned_def stream_eq_def resource_eq_def
        projected_stream_eq_def)
  with key have "point_key_eq k (of_interned interned p)"
    using point_key.eq_trans by blast
  then have found: "get_by point_key_eq (points l1) (of_interned interned p) = Some (k, e)"
    using point_key.get_present [OF wf_ledger_parts(2) [OF wf] k] rest by simp
  have same: "stream_eq (pi_stream k) interned \<longleftrightarrow> stream_eq (pi_stream k) s"
    using stream_key.eq_cong [OF i(2)] by blast
  have res: "admit_metric_point L s p l = admit_interned s p interned fresh l1"
    using gates i by (simp add: admit_metric_point_gates)
  show "pa_outcome (snd (admit_metric_point L s p l)) =
      (if stream_eq (pi_stream k) s \<and> identity_payload_eq (pi_point k) p (si_kind s)
       then Collapsed e else Conflict e)"
    "stream_eq (pi_stream k) s \<Longrightarrow> identity_payload_eq (pi_point k) p (si_kind s) \<Longrightarrow>
      pa_record (snd (admit_metric_point L s p l)) = Some (pi_point k)"
    unfolding res using found same by (simp_all add: admit_interned_def Let_def refused_point_def)
  show "admit_metric_point L s p l = (count_point_conflict l, refused_point (Conflict e))"
    if "\<not> stream_eq (pi_stream k) s"
  proof -
    have "(if fresh then release_stream s (count_point_conflict l1) else count_point_conflict l1) =
        count_point_conflict (if fresh then release_stream s l1 else l1)"
      by (simp add: release_stream_def ledger_counters)
    also have "\<dots> = count_point_conflict l" by (simp add: intern_undone [OF i(1)])
    finally show ?thesis
      unfolding res using found same that by (simp add: admit_interned_def Let_def)
  qed
qed

lemma payload_eq_key:
  assumes "identity_payload_eq p p' (si_kind s)" "stream_eq s s'" "stream_eq t s"
  shows "point_key_eq (of_interned t p) (of_interned s' p')"
proof (cases "si_kind s = Gauge")
  case True
  with assms show ?thesis
    by (auto simp: identity_payload_eq_def point_key_eq_def of_interned_def requires_start_time_def
        stream_eq_def projected_stream_eq_def resource_eq_def split: metric_point.splits)
next
  case False
  with assms show ?thesis
    by (auto simp: identity_payload_eq_def point_key_eq_def of_interned_def
        stream_eq_def projected_stream_eq_def resource_eq_def)
qed

lemma payload_eq_gates:
  assumes "identity_payload_eq p p' (si_kind s)" "point_gates L s p lim"
  shows "point_gates L s p' lim"
proof (cases "si_kind s = Gauge")
  case True
  with assms show ?thesis
    by (auto simp: identity_payload_eq_def point_gates_def check_point_coherence_def Let_def
        requires_start_time_def budget_point point_within_def split: metric_point.splits if_splits)
next
  case False
  with assms show ?thesis by (simp add: identity_payload_eq_def)
qed

section \<open>Fresh identities\<close>

lemma admitted_span_fresh:
  assumes "wf_ledger L l" "sa_outcome (snd (admit_span L s l)) = Admitted e"
  shows "e \<notin> live_entities l \<and> (\<forall>n. e = Assigned n \<longrightarrow> next_serial l < n)"
proof (cases rule: admit_span_cases [of L s l])
  case nameless
  with assms serial_unused(2) [OF assms(1), of "next_serial l + 1"] show ?thesis by auto
next
  case (fresh k)
  with assms show ?thesis by (cases k) (auto simp: live_iff)
qed (use assms in auto)

lemma admitted_log_fresh:
  assumes "wf_ledger L l" "snd (admit_log_record L r l) = Admitted e"
  shows "e \<notin> live_entities l \<and> e = Assigned (next_serial l + 1)"
  using assms serial_unused(2) [OF assms(1), of "next_serial l + 1"]
  by (auto simp: admit_log_record_def assigned_entity_def split: sum.splits)

lemma admitted_point_fresh:
  assumes "wf_ledger L l" "pa_outcome (snd (admit_metric_point L s p l)) = Admitted e"
  shows "e \<notin> live_entities l \<and> e = Assigned (next_serial l + 1)"
proof -
  have "e = Assigned (next_serial l + 1)"
    by (rule admitted_point_stands [OF assms(2)]) simp
  then show ?thesis using serial_unused(2) [OF assms(1)] by simp
qed

lemma ledger_step_serial:
  "next_serial l \<le> next_serial (ledger_step L x l)"
proof (cases x)
  case (AdmitSpan s)
  then show ?thesis by (cases rule: admit_span_cases [of L s l]) auto
next
  case (AdmitLog r)
  then show ?thesis by (auto simp: admit_log_record_def assigned_entity_def split: sum.splits)
next
  case (AdmitPoint s p)
  obtain l1 interned fresh where i: "intern s l = (l1, interned, fresh)" by (metis prod_cases3)
  show ?thesis
  proof (cases "point_gates L s p (limits l)")
    case True
    with AdmitPoint i intern_rest [OF i] show ?thesis
      by (cases rule: admit_interned_cases [where s = s and p = p and interned = interned and
            fresh = fresh and l = l1])
         (auto simp: admit_metric_point_gates release_stream_def)
  next
    case False
    with AdmitPoint show ?thesis by (auto elim: admit_metric_point_refused)
  qed
next
  case (Forget e)
  then show ?thesis by (cases e) (auto split: option.splits)
qed (simp add: release_stream_def)

lemma admitted_serial_counted:
  assumes "op_outcome L x l = Some (Admitted (Assigned n))"
  shows "next_serial (ledger_step L x l) = n \<and> next_serial l < n"
proof (cases x)
  case (AdmitSpan s)
  with assms show ?thesis by (cases rule: admit_span_cases [of L s l]) auto
next
  case (AdmitLog r)
  with assms show ?thesis
    by (auto simp: admit_log_record_def assigned_entity_def split: sum.splits)
next
  case (AdmitPoint s p)
  obtain l1 interned fresh where i: "intern s l = (l1, interned, fresh)" by (metis prod_cases3)
  show ?thesis
  proof (cases "point_gates L s p (limits l)")
    case True
    with AdmitPoint assms i intern_rest [OF i] show ?thesis
      by (cases rule: admit_interned_cases [where s = s and p = p and interned = interned and
            fresh = fresh and l = l1])
         (auto simp: admit_metric_point_gates refused_point_def)
  next
    case False
    with AdmitPoint assms show ?thesis
      by (auto elim!: admit_metric_point_refused [of L s p l] simp: refused_point_def)
  qed
qed (use assms in auto)

text \<open>The assigned serials a session hands out, in order.\<close>

fun admitted_serials :: "layout \<Rightarrow> ledger_op list \<Rightarrow> admission_ledger \<Rightarrow> nat list" where
  "admitted_serials L [] l = []"
| "admitted_serials L (x # xs) l =
     (case op_outcome L x l of
        Some (Admitted (Assigned n)) \<Rightarrow> [n]
      | _ \<Rightarrow> []) @ admitted_serials L xs (ledger_step L x l)"

lemma admitted_serials_above:
  "sorted_wrt (<) (admitted_serials L xs l) \<and> (\<forall>n \<in> set (admitted_serials L xs l). next_serial l < n)"
proof (induction xs arbitrary: l)
  case (Cons x xs)
  let ?l = "ledger_step L x l"
  have mono: "next_serial l \<le> next_serial ?l" by (rule ledger_step_serial)
  show ?case
  proof (cases "\<exists>n. op_outcome L x l = Some (Admitted (Assigned n))")
    case True
    then obtain n where n: "op_outcome L x l = Some (Admitted (Assigned n))" by blast
    with admitted_serial_counted [OF n] Cons.IH [of ?l] mono show ?thesis by fastforce
  next
    case False
    then have "admitted_serials L (x # xs) l = admitted_serials L xs ?l"
      by (auto split: option.splits admission_outcome.splits entity_id.splits)
    moreover have "\<forall>n \<in> set (admitted_serials L xs ?l). next_serial l < n"
      using Cons.IH [of ?l] mono by fastforce
    ultimately show ?thesis using Cons.IH [of ?l] by simp
  qed
qed simp


section \<open>The laws of identity\<close>

definition session :: "layout \<Rightarrow> budget_limits \<Rightarrow> ledger_op list \<Rightarrow> admission_ledger" where
  "session L lim xs = ledger_run L xs (ledger_new lim)"

lemma wf_session: "wf_ledger L (session L lim xs)"
  by (simp add: session_def wf_ledger_run wf_ledger_new)

lemma session_limits [simp]: "limits (session L lim xs) = lim"
  by (simp add: session_def ledger_new_def)

lemma session_step: "session L lim (xs @ [x]) = ledger_step L x (session L lim xs)"
  by (simp add: session_def)

lemma session_append: "session L lim (xs @ ys) = ledger_run L ys (session L lim xs)"
  by (simp add: session_def)

text \<open>Facts that evaluate a session over the sample records.\<close>

lemmas sample_session = session_def ledger_new_def admit_span_def admit_log_record_def
  assigned_entity_def sample_natural_identity sample_span_eq Let_def

text \<open>C27: In every session, however deliveries, evictions and stream releases interleave, the
  ledger is well formed: each standing span is filed under its own natural identity and passed
  the budget gates; point keys and stream identities are pairwise distinct under the program's
  comparisons; the assigned-id index names exactly the standing points; each standing point
  passed its shape law and its budgets; every serial in use is between 1 and the counter.\<close>

theorem ledger_session_invariant: "wf_ledger L (session L lim ops)"
  by (rule wf_session)

text \<open>C28: Redelivery of a span collapses. Once a span with a natural identity was admitted as an
  entity, then as long as that entity is not forgotten, after any number of other operations,
  every delivery equal to it under the program's comparison collapses onto that entity, returns
  the payload first admitted and changes nothing but the provenance counter.\<close>

theorem span_redelivery_collapses:
  assumes "natural_identity s = Some k"
    and "op_outcome L (AdmitSpan s) (session L lim before) = Some (Admitted e)"
    and "Forget e \<notin> set since" and "span_eq s s'"
  shows "let l = session L lim (before @ [AdmitSpan s] @ since)
         in snd (admit_span L s' l) = \<lparr>sa_outcome = Collapsed e, sa_record = Some s\<rparr> \<and>
            fst (admit_span L s' l) =
              (if res_schema_url (sp_resource s) \<noteq> res_schema_url (sp_resource s')
               then count_mismatch l else l)"
proof -
  let ?l = "session L lim (before @ [AdmitSpan s] @ since)"
  have adm: "sa_outcome (snd (admit_span L s (session L lim before))) = Admitted e"
    using assms(2) by simp
  note stands = admitted_span_stands [OF assms(1) adm]
  have "spans ?l k = Some (e, s)"
    using span_stands_run [OF wf_session [of L lim "before @ [AdmitSpan s]"], of k e s since]
      stands(2) assms(3) by (simp add: session_def)
  then have "admit_span L s' ?l =
    ((if res_schema_url (sp_resource s) \<noteq> res_schema_url (sp_resource s')
      then count_mismatch ?l else ?l), \<lparr>sa_outcome = Collapsed e, sa_record = Some s\<rparr>)"
    using redelivered_span [of ?l k e s s' L] assms(1,4) stands(3)
      natural_identity_cong [OF assms(4)] check_span_cong [OF assms(4)] by simp
  then show ?thesis by simp
qed

lemma span_redelivery_collapses_witness:
  "sa_outcome (snd (admit_span layout64 (sample_span 1 ''op'' (Some ''v2''))
     (session layout64 default_budget_limits
        [AdmitSpan (sample_span 1 ''op'' None), AdmitLog (sample_log None)])))
   = Collapsed (Span (sample_trace 1) (sample_span_id 1))"
proof -
  have "op_outcome layout64 (AdmitSpan (sample_span 1 ''op'' None)) (session layout64 default_budget_limits [])
      = Some (Admitted (Span (sample_trace 1) (sample_span_id 1)))"
    by (simp add: sample_session)
  moreover have "span_eq (sample_span 1 ''op'' None) (sample_span 1 ''op'' (Some ''v2''))"
    by (simp add: sample_span_eq)
  ultimately show ?thesis
    using span_redelivery_collapses [of "sample_span 1 ''op'' None" _ layout64 default_budget_limits
        "[]" _ "[AdmitLog (sample_log None)]" "sample_span 1 ''op'' (Some ''v2'')"]
    by (simp add: Let_def sample_natural_identity)
qed

text \<open>The first record stands. While an admitted span's entity is not forgotten, a delivery
  under the same natural identity with different content is a recorded conflict naming that
  entity: no payload is returned, and the ledger is unchanged but for the conflict counter.\<close>

theorem span_conflict_first_stands:
  assumes "natural_identity s = Some k"
    and "op_outcome L (AdmitSpan s) (session L lim before) = Some (Admitted e)"
    and "Forget e \<notin> set since"
    and "natural_identity s' = Some k" and "\<not> span_eq s s'" and "check_span L s' lim = Inr ()"
  shows "let l = session L lim (before @ [AdmitSpan s] @ since)
         in admit_span L s' l = (count_span_conflict l, \<lparr>sa_outcome = Conflict e, sa_record = None\<rparr>) \<and>
            spans l k = Some (e, s) \<and>
            anomalies_total (anomalies (fst (admit_span L s' l))) = anomalies_total (anomalies l) + 1"
proof -
  let ?l = "session L lim (before @ [AdmitSpan s] @ since)"
  have adm: "sa_outcome (snd (admit_span L s (session L lim before))) = Admitted e"
    using assms(2) by simp
  have stands: "spans ?l k = Some (e, s)"
    using span_stands_run [OF wf_session [of L lim "before @ [AdmitSpan s]"], of k e s since]
      admitted_span_stands(2) [OF assms(1) adm] assms(3) by (simp add: session_def)
  then have "admit_span L s' ?l = (count_span_conflict ?l, \<lparr>sa_outcome = Conflict e, sa_record = None\<rparr>)"
    using redelivered_span [of ?l k e s s' L] assms by simp
  with stands show ?thesis by (simp add: ledger_counters)
qed

lemma span_conflict_first_stands_witness:
  "sa_outcome (snd (admit_span layout64 (sample_span 1 ''other'' None)
     (session layout64 default_budget_limits [AdmitSpan (sample_span 1 ''op'' None)])))
   = Conflict (Span (sample_trace 1) (sample_span_id 1))"
proof -
  have "op_outcome layout64 (AdmitSpan (sample_span 1 ''op'' None)) (session layout64 default_budget_limits [])
      = Some (Admitted (Span (sample_trace 1) (sample_span_id 1)))"
    by (simp add: sample_session)
  moreover have "\<not> span_eq (sample_span 1 ''op'' None) (sample_span 1 ''other'' None)"
    by (simp add: sample_span_eq)
  ultimately show ?thesis
    using span_conflict_first_stands [of "sample_span 1 ''op'' None" _ layout64 default_budget_limits
        "[]" _ "[]" "sample_span 1 ''other'' None"]
    by (simp add: Let_def sample_natural_identity)
qed


lemma admitted_point_stands_since:
  assumes "op_outcome L (AdmitPoint s p) (session L lim before) = Some (Admitted e)"
    and "Forget e \<notin> set since"
  obtains interned where "stream_eq interned s" "point_gates L s p lim"
    "(of_interned interned p, e) \<in> set (points (session L lim (before @ [AdmitPoint s p] @ since)))"
proof -
  obtain interned where i: "stream_eq interned s" "point_gates L s p (limits (session L lim before))"
    "(of_interned interned p, e) \<in> set (points (fst (admit_metric_point L s p (session L lim before))))"
    using assms(1) admitted_point_stands [of L s p "session L lim before" e] by auto
  then have "(of_interned interned p, e) \<in> set (points (session L lim (before @ [AdmitPoint s p] @ since)))"
    using point_stands_run [OF wf_session [of L lim "before @ [AdmitPoint s p]"], of _ e since] assms(2)
    by (simp add: session_def)
  with i that show thesis by simp
qed

text \<open>Redelivery of a metric point collapses. Once a point of a stream was admitted as an
  entity, then as long as that entity is not forgotten, even if the stream's interning was
  released in between, every delivery of an equal stream and an equal point (for a gauge, equal
  but for a start time) collapses onto that entity and returns the payload first admitted.\<close>

theorem point_redelivery_collapses:
  assumes "op_outcome L (AdmitPoint s p) (session L lim before) = Some (Admitted e)"
    and "Forget e \<notin> set since"
    and "stream_eq s s'" and "identity_payload_eq p p' (si_kind s)"
  shows "let a = snd (admit_metric_point L s' p' (session L lim (before @ [AdmitPoint s p] @ since)))
         in pa_outcome a = Collapsed e \<and> pa_record a = Some p"
proof -
  let ?l = "session L lim (before @ [AdmitPoint s p] @ since)"
  obtain interned where i: "stream_eq interned s" "point_gates L s p lim"
      "(of_interned interned p, e) \<in> set (points ?l)"
    by (rule admitted_point_stands_since [OF assms(1,2)])
  have kinds: "si_kind s' = si_kind s" using assms(3) by (simp add: stream_eq_def)
  have "point_gates L s' p' (limits ?l)"
    using payload_eq_gates [OF assms(4) i(2)] point_gates_cong [OF assms(3)] by simp
  moreover have "point_key_eq (of_interned interned p) (of_interned s' p')"
    using assms(3,4) i(1) by (intro payload_eq_key [of p p' s]) simp_all
  moreover have "stream_eq interned s'" using i(1) assms(3) stream_key.eq_trans by blast
  ultimately show ?thesis
    using redelivered_point(1,2) [OF wf_session i(3), of s' p'] assms(4) kinds by (simp add: Let_def)
qed

lemma point_redelivery_collapses_witness:
  "pa_outcome (snd (admit_metric_point layout64 (sample_stream ''m'' None (Some ''v2'')) (sample_point 5 1)
     (session layout64 default_budget_limits
        [AdmitPoint (sample_stream ''m'' None None) (sample_point 5 1),
         Release (sample_stream ''m'' None None)])))
   = Collapsed (Assigned 1)"
proof -
  have "op_outcome layout64 (AdmitPoint (sample_stream ''m'' None None) (sample_point 5 1))
      (session layout64 default_budget_limits []) = Some (Admitted (Assigned 1))"
    by (simp add: sample_session admit_metric_point_def intern_def admit_interned_def)
  moreover have "identity_payload_eq (sample_point 5 1) (sample_point 5 1)
      (si_kind (sample_stream ''m'' None None))"
    by (simp add: identity_payload_eq_def sample_defs)
  ultimately show ?thesis
    using point_redelivery_collapses [of layout64 "sample_stream ''m'' None None" "sample_point 5 1"
        default_budget_limits "[]" "Assigned 1" "[Release (sample_stream ''m'' None None)]"
        "sample_stream ''m'' None (Some ''v2'')" "sample_point 5 1"]
    by (simp add: Let_def sample_stream_eq)
qed

text \<open>A changed descriptor conflicts. While an admitted point's entity is not forgotten, a
  delivery with the same point key (attributes, interval, time, flags) under a stream that
  differs from the first one only in its descriptor is a recorded conflict naming the entity:
  neither payload nor stream is handed out, and the ledger, its interned streams included, is
  unchanged but for the conflict counter.\<close>

theorem descriptor_change_conflicts:
  assumes "op_outcome L (AdmitPoint s p) (session L lim before) = Some (Admitted e)"
    and "Forget e \<notin> set since"
    and "projected_stream_eq s s'" and "\<not> stream_eq s s'"
    and "point_attributes p = point_attributes p'" and "point_time p = point_time p'"
    and "point_flags p = point_flags p'" and "point_start_time p = point_start_time p'"
    and "point_gates L s' p' lim"
  shows "let l = session L lim (before @ [AdmitPoint s p] @ since)
         in admit_metric_point L s' p' l = (count_point_conflict l, refused_point (Conflict e))"
proof -
  let ?l = "session L lim (before @ [AdmitPoint s p] @ since)"
  obtain interned where i: "stream_eq interned s" "(of_interned interned p, e) \<in> set (points ?l)"
    by (rule admitted_point_stands_since [OF assms(1,2)])
  have "point_key_eq (of_interned interned p) (of_interned s' p')"
    using assms(3,5-8) i(1)
    by (auto simp: point_key_eq_def of_interned_def projected_stream_eq_def stream_eq_def resource_eq_def)
  moreover have "\<not> stream_eq interned s'"
    using i(1) assms(4) stream_key.eq_sym stream_key.eq_trans by blast
  ultimately show ?thesis
    using redelivered_point(3) [OF wf_session i(2), of s' p'] assms(9) by (simp add: Let_def)
qed

lemma descriptor_change_conflicts_witness:
  "pa_outcome (snd (admit_metric_point layout64 (sample_stream ''m'' (Some ''d'') None) (sample_point 5 1)
     (session layout64 default_budget_limits
        [AdmitPoint (sample_stream ''m'' None None) (sample_point 5 1)])))
   = Conflict (Assigned 1)"
proof -
  have "op_outcome layout64 (AdmitPoint (sample_stream ''m'' None None) (sample_point 5 1))
      (session layout64 default_budget_limits []) = Some (Admitted (Assigned 1))"
    by (simp add: sample_session admit_metric_point_def intern_def admit_interned_def)
  moreover have "projected_stream_eq (sample_stream ''m'' None None) (sample_stream ''m'' (Some ''d'') None)"
    by (simp add: projected_stream_eq_def sample_defs resource_eq_def)
  ultimately show ?thesis
    using descriptor_change_conflicts [of layout64 "sample_stream ''m'' None None" "sample_point 5 1"
        default_budget_limits "[]" "Assigned 1" "[]"
        "sample_stream ''m'' (Some ''d'') None" "sample_point 5 1"]
    by (simp add: Let_def sample_stream_eq point_gates_def refused_point_def)
qed

text \<open>Forgetting a span frees its natural identity: the next delivery of that identity that
  passes the gates, whatever its content, is admitted as that entity and stands.\<close>

theorem forget_frees_span:
  assumes "natural_identity s = Some k" and "check_span L s lim = Inr ()"
  shows "let l = forget (Span (fst k) (snd k)) (session L lim ops)
         in snd (admit_span L s l) = \<lparr>sa_outcome = Admitted (Span (fst k) (snd k)), sa_record = Some s\<rparr> \<and>
            spans (fst (admit_span L s l)) k = Some (Span (fst k) (snd k), s)"
proof (cases k)
  case (Pair t i)
  with assms show ?thesis by (simp add: admit_span_def Let_def)
qed

lemma forget_frees_span_witness:
  "sa_outcome (snd (admit_span layout64 (sample_span 1 ''other'' None)
     (forget (Span (sample_trace 1) (sample_span_id 1))
        (session layout64 default_budget_limits [AdmitSpan (sample_span 1 ''op'' None)]))))
   = Admitted (Span (sample_trace 1) (sample_span_id 1))"
  using forget_frees_span [of "sample_span 1 ''other'' None" "(sample_trace 1, sample_span_id 1)"
      layout64 default_budget_limits "[AdmitSpan (sample_span 1 ''op'' None)]"]
  by (simp add: Let_def sample_natural_identity)

text \<open>Forgetting an admitted point frees its point key: the same delivery, made again right
  after, is admitted under a serial the session never used before, not collapsed onto the
  forgotten record.\<close>

theorem forget_frees_point:
  assumes "op_outcome L (AdmitPoint s p) (session L lim before) = Some (Admitted e)"
    and "Forget e \<notin> set since"
  shows "let l = session L lim (before @ [AdmitPoint s p] @ since)
         in pa_outcome (snd (admit_metric_point L s p (forget e l))) = Admitted (Assigned (next_serial l + 1)) \<and>
            Assigned (next_serial l + 1) \<noteq> e"
proof -
  let ?l = "session L lim (before @ [AdmitPoint s p] @ since)"
  obtain interned where i: "stream_eq interned s" "point_gates L s p lim"
      "(of_interned interned p, e) \<in> set (points ?l)"
    by (rule admitted_point_stands_since [OF assms])
  note wf = wf_session [of L lim "before @ [AdmitPoint s p] @ since"]
  obtain n where n: "e = Assigned n" "n \<le> next_serial ?l" "assigned_points ?l n = Some (of_interned interned p)"
    using wf_point_entry [OF wf i(3)] by metis
  let ?f = "forget e ?l"
  have f: "next_serial ?f = next_serial ?l" "points ?f = remove_by point_key_eq (of_interned interned p) (points ?l)"
    "limits ?f = lim"
    using n by auto
  obtain l1 t fresh where j: "intern s ?f = (l1, t, fresh)" "stream_eq t s" using intern_eq by blast
  have "stream_eq interned t" using i(1) j(2) stream_key.eq_sym stream_key.eq_trans by blast
  then have "point_key_eq (of_interned interned p) (of_interned t p)"
    by (auto simp: point_key_eq_def of_interned_def projected_stream_eq_def stream_eq_def resource_eq_def)
  then have "get_by point_key_eq (points l1) (of_interned t p) = None"
    using intern_rest [OF j(1)] f by (simp add: point_key.get_remove)
  then have "pa_outcome (snd (admit_interned s p t fresh l1)) = Admitted (Assigned (next_serial ?l + 1))"
    using intern_rest [OF j(1)] f by (simp add: admit_interned_def assigned_entity_def Let_def)
  moreover have "admit_metric_point L s p ?f = admit_interned s p t fresh l1"
    using i(2) f j(1) by (simp add: admit_metric_point_gates)
  ultimately show ?thesis using n by (simp add: Let_def)
qed

lemma forget_frees_point_witness:
  "pa_outcome (snd (admit_metric_point layout64 (sample_stream ''m'' None None) (sample_point 5 1)
     (forget (Assigned 1) (session layout64 default_budget_limits
        [AdmitPoint (sample_stream ''m'' None None) (sample_point 5 1)]))))
   = Admitted (Assigned 2)"
proof -
  have first: "op_outcome layout64 (AdmitPoint (sample_stream ''m'' None None) (sample_point 5 1))
      (session layout64 default_budget_limits []) = Some (Admitted (Assigned 1))"
    by (simp add: sample_session admit_metric_point_def intern_def admit_interned_def)
  moreover have "next_serial (session layout64 default_budget_limits
        [AdmitPoint (sample_stream ''m'' None None) (sample_point 5 1)]) = 1"
    by (simp add: sample_session admit_metric_point_def intern_def admit_interned_def)
  ultimately show ?thesis
    using forget_frees_point [of layout64 "sample_stream ''m'' None None" "sample_point 5 1"
        default_budget_limits "[]" "Assigned 1" "[]"]
    by (simp add: Let_def)
qed

text \<open>Serials never repeat: the admission-assigned ids a session hands out, to spans without a
  valid natural identity, to log records and to points alike, are strictly increasing, so no
  two admitted records of a session share one, evicted or not.\<close>

theorem assigned_serials_never_repeat:
  "sorted_wrt (<) (admitted_serials L ops (ledger_new lim)) \<and>
   distinct (admitted_serials L ops (ledger_new lim))"
  using admitted_serials_above [of L ops "ledger_new lim"] by (simp add: strict_sorted_iff)

text \<open>An admitted entity is new: whatever operation admits a record, the entity it names is
  not the entity of any record standing in the ledger at that moment.\<close>

theorem admitted_entity_is_new:
  assumes "op_outcome L x (session L lim ops) = Some (Admitted e)"
  shows "e \<notin> live_entities (session L lim ops)"
proof (cases x)
  case (AdmitSpan s)
  with assms admitted_span_fresh [OF wf_session] show ?thesis by simp
next
  case (AdmitLog r)
  with assms admitted_log_fresh [OF wf_session] show ?thesis by simp
next
  case (AdmitPoint s p)
  with assms admitted_point_fresh [OF wf_session] show ?thesis by simp
qed (use assms in auto)

lemma admitted_entity_is_new_witness:
  "Assigned 1 \<notin> live_entities (session layout64 default_budget_limits [AdmitSpan (sample_span 1 ''op'' None)])"
  by (rule admitted_entity_is_new [of _ "AdmitLog (sample_log None)"]) (simp add: sample_session)

text \<open>A refused delivery leaves no trace: when admission rejects a delivery by a budget or as
  an invalid shape, the ledger is exactly what it was: no entry, no interned stream, no serial
  spent, no anomaly counted.\<close>

theorem refused_delivery_leaves_no_trace:
  assumes "op_outcome L x l = Some out" and "outcome_entity out = None"
  shows "ledger_step L x l = l"
proof (cases x)
  case (AdmitSpan s)
  with assms show ?thesis by (cases rule: admit_span_cases [of L s l]) auto
next
  case (AdmitLog r)
  with assms show ?thesis
    by (auto simp: admit_log_record_def assigned_entity_def split: sum.splits)
next
  case (AdmitPoint s p)
  obtain l1 interned fresh where i: "intern s l = (l1, interned, fresh)" by (metis prod_cases3)
  show ?thesis
  proof (cases "point_gates L s p (limits l)")
    case True
    with AdmitPoint assms i show ?thesis
      by (cases rule: admit_interned_cases [where s = s and p = p and interned = interned and
            fresh = fresh and l = l1])
         (auto simp: admit_metric_point_gates refused_point_def)
  next
    case False
    with AdmitPoint show ?thesis by (auto elim: admit_metric_point_refused)
  qed
qed (use assms in auto)

lemma refused_delivery_leaves_no_trace_witness:
  "ledger_step layout64 (AdmitLog (sample_log (Some (ArrayV [ArrayV []]))))
     (ledger_new (default_budget_limits\<lparr>key_value_list_depth := 1\<rparr>))
   = ledger_new (default_budget_limits\<lparr>key_value_list_depth := 1\<rparr>)"
proof -
  let ?r = "sample_log (Some (ArrayV [ArrayV []]))"
  let ?l = "ledger_new (default_budget_limits\<lparr>key_value_list_depth := 1\<rparr>)"
  have "op_outcome layout64 (AdmitLog ?r) ?l = Some (Rejected (refuse KeyValueListDepth 1 2))"
    by (simp add: ledger_new_def admit_log_record_def check_log_record_def check_resource_def
        check_scope_def check_attribute_set_def check_attribute_entry_def check_value_depth_def
        attribute_entry_size_def exceeds_nesting_depth sample_defs size_constants
        default_budget_limits_def Let_def numeral_2_eq_2)
  then show ?thesis by (rule refused_delivery_leaves_no_trace) simp
qed

end
