(* ===== verification/Wire.thy ===== *)
theory Wire
  imports Identity
begin

text \<open>
  The OTLP messages ingestion decodes into: the \<open>prost\<close> message structs of
  \<open>crates/telemetry-ingestion/src/otlp\<close>, field by field, in the source's order.

  A double is its bit pattern. \<open>AnyValue\<close> is its \<open>oneof\<close>, \<open>WireNone\<close> when unset; the wrapper
  messages \<open>ArrayValue\<close> and \<open>KeyValueList\<close> are the lists they hold. Their recursion is a mutual
  datatype. The parsing of bytes into these messages is \<open>prost\<close>'s and a parameter of the
  pipeline.
\<close>

datatype any_value =
    WireNone
  | WireString string
  | WireBool bool
  | WireInt i64
  | WireDouble f64
  | WireArray "any_value list"
  | WireKvlist "key_value list"
  | WireBytes bytes
  | WireStringStrindex i32
and key_value = KeyValue (kv_key: string) (kv_value: "any_value option") (kv_strindex: i32)

record wire_scope =
  ws_name :: string
  ws_version :: string
  ws_attributes :: "key_value list"
  ws_dropped :: u32

record entity_ref =
  er_schema_url :: string
  er_type :: string
  er_id_keys :: "string list"
  er_description_keys :: "string list"

record wire_resource =
  wr_attributes :: "key_value list"
  wr_dropped :: u32
  wr_entity_refs :: "entity_ref list"

section \<open>Traces\<close>

record wire_event =
  we_time :: u64
  we_name :: string
  we_attributes :: "key_value list"
  we_dropped :: u32

record wire_link =
  wl_trace_id :: bytes
  wl_span_id :: bytes
  wl_trace_state :: string
  wl_attributes :: "key_value list"
  wl_dropped :: u32
  wl_flags :: u32

record wire_status =
  wst_message :: string
  wst_code :: i32

record wire_span =
  wsp_trace_id :: bytes
  wsp_span_id :: bytes
  wsp_trace_state :: string
  wsp_parent_span_id :: bytes
  wsp_flags :: u32
  wsp_name :: string
  wsp_kind :: i32
  wsp_start :: u64
  wsp_end :: u64
  wsp_attributes :: "key_value list"
  wsp_dropped_attributes :: u32
  wsp_events :: "wire_event list"
  wsp_dropped_events :: u32
  wsp_links :: "wire_link list"
  wsp_dropped_links :: u32
  wsp_status :: "wire_status option"

record scope_spans =
  ss_scope :: "wire_scope option"
  ss_spans :: "wire_span list"
  ss_schema_url :: string

record resource_spans =
  rs_resource :: "wire_resource option"
  rs_scope_spans :: "scope_spans list"
  rs_schema_url :: string

section \<open>Logs\<close>

record wire_log =
  wlg_time :: u64
  wlg_observed :: u64
  wlg_severity_number :: i32
  wlg_severity_text :: string
  wlg_body :: "any_value option"
  wlg_attributes :: "key_value list"
  wlg_dropped :: u32
  wlg_flags :: u32
  wlg_trace_id :: bytes
  wlg_span_id :: bytes
  wlg_event_name :: string

record scope_logs =
  sl_scope :: "wire_scope option"
  sl_records :: "wire_log list"
  sl_schema_url :: string

record resource_logs =
  rl_resource :: "wire_resource option"
  rl_scope_logs :: "scope_logs list"
  rl_schema_url :: string

section \<open>Metrics\<close>

datatype wire_number = AsDouble f64 | AsInt i64

record wire_exemplar =
  wex_filtered :: "key_value list"
  wex_time :: u64
  wex_span_id :: bytes
  wex_trace_id :: bytes
  wex_value :: "wire_number option"

record number_data_point =
  nd_attributes :: "key_value list"
  nd_start :: u64
  nd_time :: u64
  nd_exemplars :: "wire_exemplar list"
  nd_flags :: u32
  nd_value :: "wire_number option"

record histogram_data_point =
  hd_attributes :: "key_value list"
  hd_start :: u64
  hd_time :: u64
  hd_count :: u64
  hd_sum :: "f64 option"
  hd_bucket_counts :: "u64 list"
  hd_explicit_bounds :: "f64 list"
  hd_exemplars :: "wire_exemplar list"
  hd_flags :: u32
  hd_min :: "f64 option"
  hd_max :: "f64 option"

record wire_buckets =
  wb_offset :: i32
  wb_bucket_counts :: "u64 list"

record exponential_data_point =
  xd_attributes :: "key_value list"
  xd_start :: u64
  xd_time :: u64
  xd_count :: u64
  xd_sum :: "f64 option"
  xd_scale :: i32
  xd_zero_count :: u64
  xd_positive :: "wire_buckets option"
  xd_negative :: "wire_buckets option"
  xd_flags :: u32
  xd_exemplars :: "wire_exemplar list"
  xd_min :: "f64 option"
  xd_max :: "f64 option"
  xd_zero_threshold :: f64

record value_at_quantile =
  vq_quantile :: f64
  vq_value :: f64

record summary_data_point =
  sd_attributes :: "key_value list"
  sd_start :: u64
  sd_time :: u64
  sd_count :: u64
  sd_sum :: f64
  sd_quantiles :: "value_at_quantile list"
  sd_flags :: u32

text \<open>The \<open>data\<close> oneof: the gauge's points; the sum's with temporality and monotonicity; and so on.\<close>

datatype metric_data =
    GaugeData "number_data_point list"
  | SumData "number_data_point list" i32 bool
  | HistogramData "histogram_data_point list" i32
  | ExponentialData "exponential_data_point list" i32
  | SummaryData "summary_data_point list"

record wire_metric =
  wm_name :: string
  wm_description :: string
  wm_unit :: string
  wm_metadata :: "key_value list"
  wm_data :: "metric_data option"

record scope_metrics =
  sm_scope :: "wire_scope option"
  sm_metrics :: "wire_metric list"
  sm_schema_url :: string

record resource_metrics =
  rm_resource :: "wire_resource option"
  rm_scope_metrics :: "scope_metrics list"
  rm_schema_url :: string

section \<open>Defaults\<close>

text \<open>What \<open>unwrap_or_default\<close> yields for an absent message.\<close>

definition default_resource :: wire_resource where
  "default_resource = \<lparr>wr_attributes = [], wr_dropped = 0, wr_entity_refs = []\<rparr>"

definition default_scope :: wire_scope where
  "default_scope = \<lparr>ws_name = [], ws_version = [], ws_attributes = [], ws_dropped = 0\<rparr>"

definition default_status :: wire_status where
  "default_status = \<lparr>wst_message = [], wst_code = 0\<rparr>"

definition or_default :: "'a \<Rightarrow> 'a option \<Rightarrow> 'a" where
  "or_default d x = (case x of None \<Rightarrow> d | Some v \<Rightarrow> v)"

end
