(* ===== verification/Hand_Off.thy ===== *)
theory Hand_Off
  imports Identity
begin

text \<open>
  The signals of admission and the bounded hand-off queue: \<open>signal.rs\<close> and \<open>queue.rs\<close> of
  \<open>crates/telemetry-ingestion/src\<close>.

  The queue's critical sections are its operations: \<open>offer\<close> appends or refuses, \<open>pop_locked\<close>
  takes the front record. Its mutex and condition variable only order them; blocking in \<open>pop\<close>
  is the precondition that a record is present, and \<open>pop_timeout\<close> returning without one
  changes nothing. The sink port \<open>RecordSink\<close> is the locale \<open>record_sink\<close>, whose law is what
  the pipeline's export-atomic hand-off relies on.
\<close>

section \<open>Signals and refusals\<close>

datatype unrepresentable =
    IdLength string usize usize
  | UnknownEnumValue string i32
  | MissingValue string
  | EmptyMetric
  | UnsupportedEntityRefs
  | TraceStateMember string
  | TraceStateOverCap usize usize

datatype record_rejection =
    Budget budget_rejection
  | Shape stream_shape_error
  | Unrepresentable unrepresentable
  | RepeatedKey duplicate_key
  | MixedArray mixed_kind_array
  | Severity severity_out_of_range

datatype record_outcome =
    RecordAdmitted entity_id
  | RecordCollapsed entity_id
  | RecordConflict entity_id
  | RecordRejected record_rejection

datatype admission_signal =
    QueueSaturated string usize usize
  | PayloadOverCap usize usize
  | ExportOverCap budget_rejection
  | MalformedRequest string
  | Draining

fun signal_is_retryable :: "admission_signal \<Rightarrow> bool" where
  "signal_is_retryable (QueueSaturated _ _ _) = True"
| "signal_is_retryable (PayloadOverCap _ _) = False"
| "signal_is_retryable (ExportOverCap _) = False"
| "signal_is_retryable (MalformedRequest _) = False"
| "signal_is_retryable Draining = False"

section \<open>Queued records\<close>

datatype stored_record =
    StoredSpan span
  | StoredLog log_record
  | StoredPoint stream_identity metric_point

record queued_record =
  qr_entity :: entity_id
  qr_at :: admission_time
  qr_record :: stored_record

fun stored_size :: "layout \<Rightarrow> stored_record \<Rightarrow> usize" where
  "stored_size L (StoredSpan s) = span_size L s"
| "stored_size L (StoredLog r) = log_record_size L r"
| "stored_size L (StoredPoint s p) = point_size L p + stream_size L s"

definition QUEUE_CEILING_BYTES :: usize where
  "QUEUE_CEILING_BYTES = 64 * 1024 * 1024"

definition PIPELINE_QUEUE_NAME :: string where
  "PIPELINE_QUEUE_NAME = ''ingestion''"

section \<open>The bounded queue\<close>

record bounded_queue =
  q_name :: string
  q_ceiling :: usize
  q_items :: "queued_record list"
  q_accounted :: usize

definition queue_new :: "string \<Rightarrow> usize \<Rightarrow> bounded_queue" where
  "queue_new name ceiling = \<lparr>q_name = name, q_ceiling = ceiling, q_items = [], q_accounted = 0\<rparr>"

definition queue_len :: "bounded_queue \<Rightarrow> usize" where
  "queue_len q = length (q_items q)"

definition queue_front :: "bounded_queue \<Rightarrow> queued_record option" where
  "queue_front q = (case q_items q of [] \<Rightarrow> None | r # _ \<Rightarrow> Some r)"

definition offer :: "layout \<Rightarrow> queued_record \<Rightarrow> bounded_queue \<Rightarrow> bounded_queue \<times> (admission_signal + unit)" where
  "offer L r q =
     (let sz = stored_size L (qr_record r)
      in if q_ceiling q < q_accounted q + sz
         then (q, Inl (QueueSaturated (q_name q) (q_ceiling q) sz))
         else (q\<lparr>q_accounted := q_accounted q + sz, q_items := q_items q @ [r]\<rparr>, Inr ()))"

text \<open>\<open>None\<close> when the queue is empty: the consumer waits, or its deadline passes.\<close>

definition pop_front :: "layout \<Rightarrow> bounded_queue \<Rightarrow> (queued_record \<times> bounded_queue) option" where
  "pop_front L q =
     (case q_items q of
        [] \<Rightarrow> None
      | r # rest \<Rightarrow>
          Some (r, q\<lparr>q_items := rest, q_accounted := q_accounted q - stored_size L (qr_record r)\<rparr>))"

definition items_size :: "layout \<Rightarrow> queued_record list \<Rightarrow> nat" where
  "items_size L rs = sum_list (map (\<lambda>r. stored_size L (qr_record r)) rs)"

definition wf_queue :: "layout \<Rightarrow> bounded_queue \<Rightarrow> bool" where
  "wf_queue L q \<longleftrightarrow> q_accounted q = items_size L (q_items q) \<and> q_accounted q \<le> q_ceiling q"

lemma items_size_simps [simp]:
  "items_size L [] = 0"
  "items_size L (r # rs) = stored_size L (qr_record r) + items_size L rs"
  "items_size L (rs @ ss) = items_size L rs + items_size L ss"
  by (simp_all add: items_size_def)

lemma wf_queue_new: "wf_queue L (queue_new name ceiling)"
  by (simp add: wf_queue_def queue_new_def)

lemma wf_offer: "wf_queue L q \<Longrightarrow> wf_queue L (fst (offer L r q))"
  by (auto simp: wf_queue_def offer_def Let_def)

lemma wf_pop: "wf_queue L q \<Longrightarrow> pop_front L q = Some (r, q') \<Longrightarrow> wf_queue L q'"
  by (auto simp: wf_queue_def pop_front_def split: list.splits)

text \<open>
  What the pipeline relies on of its sink: an offer succeeds exactly when it fits under the
  ceiling, grows the occupancy by the record's size, and appends the record.
\<close>

locale record_sink =
  fixes occupancy :: "'q \<Rightarrow> nat" and ceiling :: "'q \<Rightarrow> nat" and contents :: "'q \<Rightarrow> 'r list"
    and sz :: "'r \<Rightarrow> nat" and put :: "'r \<Rightarrow> 'q \<Rightarrow> 'q \<times> ('e + unit)"
  assumes put_fits: "occupancy q + sz r \<le> ceiling q \<Longrightarrow>
      \<exists>q'. put r q = (q', Inr ()) \<and> occupancy q' = occupancy q + sz r \<and> ceiling q' = ceiling q \<and>
        contents q' = contents q @ [r]"
    and put_full: "ceiling q < occupancy q + sz r \<Longrightarrow> \<exists>e. put r q = (q, Inl e)"
begin

text \<open>An offer-set measured against the headroom beforehand is taken whole, in order.\<close>

lemma put_all:
  "occupancy q + sum_list (map sz rs) \<le> ceiling q \<Longrightarrow>
     contents (fold (\<lambda>r q. fst (put r q)) rs q) = contents q @ rs \<and>
     occupancy (fold (\<lambda>r q. fst (put r q)) rs q) = occupancy q + sum_list (map sz rs) \<and>
     ceiling (fold (\<lambda>r q. fst (put r q)) rs q) = ceiling q"
proof (induction rs arbitrary: q)
  case (Cons r rs)
  from Cons.prems have "occupancy q + sz r \<le> ceiling q" by simp
  then obtain q' where q': "put r q = (q', Inr ())" "occupancy q' = occupancy q + sz r"
    "ceiling q' = ceiling q" "contents q' = contents q @ [r]" using put_fits by blast
  with Cons.prems have "occupancy q' + sum_list (map sz rs) \<le> ceiling q'" by simp
  from Cons.IH [OF this] q' show ?case by simp
qed simp

lemma put_outcome: "(\<exists>q'. put r q = (q', Inr ())) \<longleftrightarrow> occupancy q + sz r \<le> ceiling q"
  using put_fits [of q r] put_full [of q r] by (cases "occupancy q + sz r \<le> ceiling q") auto

end

interpretation queue_sink: record_sink q_accounted q_ceiling q_items
    "\<lambda>r. stored_size L (qr_record r)" "offer L" for L
  by unfold_locales (auto simp: offer_def Let_def)

section \<open>What the queue promises\<close>

datatype queue_op = Offer queued_record | Pop

fun queue_step :: "layout \<Rightarrow> queue_op \<Rightarrow> bounded_queue \<Rightarrow> bounded_queue \<times> queued_record list \<times> queued_record list" where
  "queue_step L (Offer r) q =
     (case offer L r q of (q1, Inr _) \<Rightarrow> (q1, [r], []) | (q1, Inl _) \<Rightarrow> (q1, [], []))"
| "queue_step L Pop q =
     (case pop_front L q of None \<Rightarrow> (q, [], []) | Some (r, q1) \<Rightarrow> (q1, [], [r]))"

text \<open>A run: the queue after it, what it accepted, what it delivered.\<close>

fun queue_run :: "layout \<Rightarrow> queue_op list \<Rightarrow> bounded_queue \<Rightarrow> bounded_queue \<times> queued_record list \<times> queued_record list" where
  "queue_run L [] q = (q, [], [])"
| "queue_run L (x # xs) q =
     (case queue_step L x q of (q1, ins, outs) \<Rightarrow>
        (case queue_run L xs q1 of (q2, ins', outs') \<Rightarrow> (q2, ins @ ins', outs @ outs')))"

lemma queue_step_laws:
  assumes "wf_queue L q" "queue_step L x q = (q', ins, outs)"
  shows "wf_queue L q' \<and> q_ceiling q' = q_ceiling q \<and> q_items q @ ins = outs @ q_items q'"
proof (cases x)
  case (Offer r)
  with assms wf_offer [OF assms(1), of r] show ?thesis
    by (auto simp: offer_def Let_def split: if_splits)
next
  case Pop
  with assms show ?thesis
    by (auto simp: pop_front_def wf_queue_def split: list.splits)
qed

lemma queue_run_laws:
  "wf_queue L q \<Longrightarrow> queue_run L xs q = (q', ins, outs) \<Longrightarrow>
     wf_queue L q' \<and> q_ceiling q' = q_ceiling q \<and> q_items q @ ins = outs @ q_items q'"
proof (induction xs arbitrary: q ins outs)
  case (Cons x xs)
  obtain q1 a b where one: "queue_step L x q = (q1, a, b)" by (metis prod_cases3)
  obtain a' b' where rest: "queue_run L xs q1 = (q', a', b')" "ins = a @ a'" "outs = b @ b'"
    using Cons.prems(2) one by (auto split: prod.splits)
  note s = queue_step_laws [OF Cons.prems(1) one]
  then have "wf_queue L q1" by simp
  from Cons.IH [OF this rest(1)] s rest(2,3) show ?case by auto (metis append.assoc)
qed simp

text \<open>C33: The hand-off queue is bounded, lossless and first-in first-out: over any interleaving of
  offers and pops from an empty queue, the occupancy is exactly the accounted size of what is
  held and never above the ceiling, and what was delivered followed by what is held is exactly
  what was accepted, in order.\<close>

theorem queue_bounded_fifo:
  "case queue_run L ops (queue_new name ceiling) of (q, accepted, delivered) \<Rightarrow>
     accepted = delivered @ q_items q \<and> q_accounted q = items_size L (q_items q) \<and>
     q_accounted q \<le> ceiling"
proof -
  obtain q accepted delivered where run: "queue_run L ops (queue_new name ceiling) = (q, accepted, delivered)"
    by (metis prod_cases3)
  from queue_run_laws [OF wf_queue_new run] run show ?thesis
    by (auto simp: wf_queue_def queue_new_def)
qed

end
