(* ===== verification/Decode.thy ===== *)
theory Decode
  imports Wire Hand_Off
begin

text \<open>
  The translation from OTLP messages to model records:
  \<open>crates/telemetry-ingestion/src/decode.rs\<close>.

  One definition per function, with the source's order of refusals: fields are translated in
  the order they are written, and the first refusal ends the record. A field name is the
  source's string. \<open>str::trim\<close> acts on Unicode white space, written out as the UTF-8
  encodings of the \<open>White_Space\<close> characters.
\<close>

section \<open>Small conversions\<close>

definition unrepresentable :: "unrepresentable \<Rightarrow> record_rejection + 'a" where
  "unrepresentable u = Inl (Unrepresentable u)"

definition present_string :: "string \<Rightarrow> string option" where
  "present_string text = (if text = [] then None else Some text)"

definition present_u64 :: "u64 \<Rightarrow> u64 option" where
  "present_u64 n = (if n \<noteq> 0 then Some n else None)"

definition nested_fields :: "string list" where
  "nested_fields = [''span event attribute'', ''span link attribute'', ''exemplar filtered attribute'']"

definition attribute_count_budget :: "string \<Rightarrow> budget_limits \<Rightarrow> budget_name \<times> usize" where
  "attribute_count_budget field limits =
     (if field \<in> set nested_fields
      then (AttributesPerNestedSet, attributes_per_nested_set limits)
      else (AttributesPerSignal, attributes_per_signal limits))"

definition keyed_fields :: "string list" where
  "keyed_fields =
     [''resource attribute'', ''scope attribute'', ''span attribute'', ''span event attribute'',
      ''span link attribute'', ''log attribute'', ''metric metadata'', ''data point attribute'',
      ''exemplar filtered attribute'']"

definition key_field :: "string \<Rightarrow> string" where
  "key_field field = (if field \<in> set keyed_fields then field @ '' key'' else field)"

section \<open>Values and attributes\<close>

fun wire_any :: "string \<Rightarrow> any_value \<Rightarrow> record_rejection + model_value"
and key_value_entry :: "string \<Rightarrow> key_value \<Rightarrow> record_rejection + (string \<times> model_value)" where
  "wire_any field (WireString text) = Inr (StringV text)"
| "wire_any field (WireBool flag) = Inr (BoolV flag)"
| "wire_any field (WireInt integer) = Inr (IntV integer)"
| "wire_any field (WireDouble d) = Inr (DoubleV (Float d))"
| "wire_any field (WireBytes bs) = Inr (BytesV bs)"
| "wire_any field (WireArray vs) =
     and_then (collect_results (map (wire_any field) vs)) (\<lambda>items.
     map_err MixedArray (value_array items))"
| "wire_any field (WireKvlist kvs) =
     and_then (collect_results (map (key_value_entry field) kvs)) (\<lambda>entries.
     map_err RepeatedKey (value_kv_list entries))"
| "wire_any field (WireStringStrindex _) = unrepresentable (MissingValue field)"
| "wire_any field WireNone = unrepresentable (MissingValue field)"
| "key_value_entry field (KeyValue k v idx) =
     (if idx \<noteq> 0 then unrepresentable (MissingValue (key_field field))
      else case v of
             None \<Rightarrow> unrepresentable (MissingValue field)
           | Some av \<Rightarrow> and_then (wire_any field av) (\<lambda>x. Inr (k, x)))"

definition wire_value :: "any_value option \<Rightarrow> string \<Rightarrow> record_rejection + model_value" where
  "wire_value av field =
     (case av of None \<Rightarrow> unrepresentable (MissingValue field) | Some a \<Rightarrow> wire_any field a)"

definition attributes_of ::
  "key_value list \<Rightarrow> string \<Rightarrow> budget_limits \<Rightarrow> record_rejection + attributes" where
  "attributes_of pairs field limits =
     (let (budget, limit) = attribute_count_budget field limits; observed = length pairs
      in if limit < observed
         then Inl (Budget \<lparr>br_budget = budget, br_limit = limit, br_observed = observed\<rparr>)
         else and_then (collect_results (map (key_value_entry field) pairs)) (\<lambda>converted.
              map_err RepeatedKey (from_pairs converted)))"

definition decode_resource ::
  "wire_resource \<Rightarrow> string \<Rightarrow> budget_limits \<Rightarrow> record_rejection + resource" where
  "decode_resource r schema_url limits =
     (if wr_entity_refs r \<noteq> [] then unrepresentable UnsupportedEntityRefs
      else and_then (attributes_of (wr_attributes r) ''resource attribute'' limits) (\<lambda>a.
           Inr \<lparr>res_attributes = a, res_schema_url = present_string schema_url,
                res_dropped = wr_dropped r\<rparr>))"

definition decode_scope ::
  "wire_scope \<Rightarrow> string \<Rightarrow> budget_limits \<Rightarrow> record_rejection + instrumentation_scope" where
  "decode_scope s schema_url limits =
     and_then (attributes_of (ws_attributes s) ''scope attribute'' limits) (\<lambda>a.
     Inr \<lparr>sc_name = ws_name s, sc_version = present_string (ws_version s), sc_attributes = a,
          sc_schema_url = present_string schema_url, sc_dropped = ws_dropped s\<rparr>)"

section \<open>Ids and trace state\<close>

definition wire_trace_id :: "bytes \<Rightarrow> string \<Rightarrow> record_rejection + trace_id" where
  "wire_trace_id bs field =
     (if length bs = trace_id_length then Inr (TraceId bs)
      else unrepresentable (IdLength field trace_id_length (length bs)))"

definition wire_span_id :: "bytes \<Rightarrow> string \<Rightarrow> record_rejection + span_id" where
  "wire_span_id bs field =
     (if length bs = span_id_length then Inr (SpanId bs)
      else unrepresentable (IdLength field span_id_length (length bs)))"

definition span_trace_id :: "bytes \<Rightarrow> record_rejection + trace_id" where
  "span_trace_id bs =
     (if bs = [] then Inr (TraceId (replicate trace_id_length 0))
      else wire_trace_id bs ''span trace_id'')"

definition span_span_id :: "bytes \<Rightarrow> record_rejection + span_id" where
  "span_span_id bs =
     (if bs = [] then Inr (SpanId (replicate span_id_length 0))
      else wire_span_id bs ''span span_id'')"

definition optional_trace_id :: "bytes \<Rightarrow> record_rejection + trace_id option" where
  "optional_trace_id bs =
     (if bs = [] then Inr None
      else and_then (wire_trace_id bs ''log trace_id'') (\<lambda>t. Inr (Some t)))"

definition optional_span_id :: "bytes \<Rightarrow> record_rejection + span_id option" where
  "optional_span_id bs =
     (if bs = [] then Inr None
      else and_then (wire_span_id bs ''log span_id'') (\<lambda>s. Inr (Some s)))"

definition parent_span_id :: "bytes \<Rightarrow> record_rejection + span_id option" where
  "parent_span_id bs =
     (if bs = [] then Inr None
      else and_then (wire_span_id bs ''span parent_span_id'') (\<lambda>s. Inr (Some s)))"

fun split_on :: "char \<Rightarrow> string \<Rightarrow> string list" where
  "split_on c [] = [[]]"
| "split_on c (x # xs) =
     (if x = c then [] # split_on c xs
      else case split_on c xs of p # ps \<Rightarrow> (x # p) # ps | [] \<Rightarrow> [[x]])"

fun split_once :: "char \<Rightarrow> string \<Rightarrow> (string \<times> string) option" where
  "split_once c [] = None"
| "split_once c (x # xs) =
     (if x = c then Some ([], xs)
      else map_option (\<lambda>(a, b). (x # a, b)) (split_once c xs))"

definition white_space :: "string list" where
  "white_space =
     map (map (char_of :: nat \<Rightarrow> char))
       ([[0x09], [0x0A], [0x0B], [0x0C], [0x0D], [0x20], [0xC2, 0x85], [0xC2, 0xA0],
         [0xE1, 0x9A, 0x80]] @
        map (\<lambda>b. [0xE2, 0x80, b]) [0x80 ..< 0x8B] @
        [[0xE2, 0x80, 0xA8], [0xE2, 0x80, 0xA9], [0xE2, 0x80, 0xAF], [0xE2, 0x81, 0x9F],
         [0xE3, 0x80, 0x80]])"

definition starting_white :: "string list \<Rightarrow> string \<Rightarrow> string option" where
  "starting_white ws s = find (\<lambda>w. w \<noteq> [] \<and> take (length w) s = w) ws"

lemma starting_white_Some:
  assumes "starting_white ws s = Some w"
  shows "w \<noteq> []" "length w \<le> length s"
proof -
  have w: "w \<noteq> []" "take (length w) s = w" using assms by (auto simp: starting_white_def find_Some_iff)
  then show "w \<noteq> []" by simp
  from w(2) have "length (take (length w) s) = length w" by simp
  then show "length w \<le> length s" by simp
qed

function trim_with :: "string list \<Rightarrow> string \<Rightarrow> string" where
  "trim_with ws s =
     (case starting_white ws s of
        None \<Rightarrow> s
      | Some w \<Rightarrow> trim_with ws (drop (length w) s))"
  by pat_completeness auto

termination
proof (relation "measure (\<lambda>(ws, s). length s)", goal_cases)
  case (2 ws s w)
  then show ?case using starting_white_Some [of ws s w] by (cases w) auto
qed simp

declare trim_with.simps [simp del]

definition trim :: "string \<Rightarrow> string" where
  "trim s = rev (trim_with (map rev white_space) (rev (trim_with white_space s)))"

definition MAX_MEMBERS :: usize where
  "MAX_MEMBERS = 32"

definition MAX_BYTES :: usize where
  "MAX_BYTES = 512"

definition trace_state_member :: "string \<Rightarrow> record_rejection + trace_state_entry" where
  "trace_state_member member =
     (case split_once CHR ''='' member of
        None \<Rightarrow> unrepresentable (TraceStateMember member)
      | Some (v, x) \<Rightarrow> Inr \<lparr>vendor = trim v, entry_value = trim x\<rparr>)"

definition decode_trace_state :: "string \<Rightarrow> record_rejection + trace_state" where
  "decode_trace_state raw =
     (if raw = [] then Inr (TraceState [])
      else let nbytes = length raw; members = length (split_on CHR '','' raw)
           in if MAX_BYTES < nbytes then unrepresentable (TraceStateOverCap members nbytes)
              else if MAX_MEMBERS < members then unrepresentable (TraceStateOverCap members nbytes)
              else and_then (collect_results (map trace_state_member (split_on CHR '','' raw)))
                     (\<lambda>es. Inr (TraceState es)))"

section \<open>Enumerations\<close>

definition decode_span_kind :: "i32 \<Rightarrow> record_rejection + span_kind" where
  "decode_span_kind v =
     (if v = 0 then Inr SpanUnspecified else if v = 1 then Inr Internal else if v = 2 then Inr Server
      else if v = 3 then Inr Client else if v = 4 then Inr Producer else if v = 5 then Inr Consumer
      else unrepresentable (UnknownEnumValue ''span kind'' v))"

definition decode_status_code :: "i32 \<Rightarrow> record_rejection + span_status_code" where
  "decode_status_code v =
     (if v = 0 then Inr StatusUnset else if v = 1 then Inr StatusOk else if v = 2 then Inr StatusError
      else unrepresentable (UnknownEnumValue ''status code'' v))"

definition decode_temporality :: "i32 \<Rightarrow> record_rejection + temporality option" where
  "decode_temporality v =
     (if v = 0 then Inr None else if v = 1 then Inr (Some Delta) else if v = 2 then Inr (Some Cumulative)
      else unrepresentable (UnknownEnumValue ''aggregation_temporality'' v))"

definition decode_severity_number :: "i32 \<Rightarrow> record_rejection + severity_number option" where
  "decode_severity_number v =
     (if v = 0 then Inr None
      else if sint v < 0 \<or> 255 < sint v
      then unrepresentable (UnknownEnumValue ''severity_number'' v)
      else map_err Severity
             (and_then (severity_try_new (word_of_int (sint v))) (\<lambda>n. Inr (Some n))))"

section \<open>Spans and logs\<close>

record envelope =
  env_resource :: resource
  env_scope :: instrumentation_scope

definition decode_context ::
  "bytes \<Rightarrow> bytes \<Rightarrow> u32 \<Rightarrow> string \<Rightarrow> record_rejection + trace_context" where
  "decode_context tid sid flags state =
     and_then (span_trace_id tid) (\<lambda>t.
     and_then (span_span_id sid) (\<lambda>s.
     and_then (decode_trace_state state) (\<lambda>ts.
     Inr \<lparr>tc_trace_id = t, tc_span_id = s, tc_flags = TraceFlags flags, tc_tracestate = ts\<rparr>)))"

definition decode_event :: "budget_limits \<Rightarrow> wire_event \<Rightarrow> record_rejection + span_event" where
  "decode_event limits e =
     and_then (attributes_of (we_attributes e) ''span event attribute'' limits) (\<lambda>a.
     Inr \<lparr>ev_time = present_u64 (we_time e), ev_name = we_name e, ev_attributes = a,
          ev_dropped = we_dropped e\<rparr>)"

definition decode_link :: "budget_limits \<Rightarrow> wire_link \<Rightarrow> record_rejection + span_link" where
  "decode_link limits l =
     and_then (decode_context (wl_trace_id l) (wl_span_id l) (wl_flags l) (wl_trace_state l)) (\<lambda>c.
     and_then (attributes_of (wl_attributes l) ''span link attribute'' limits) (\<lambda>a.
     Inr \<lparr>ln_context = c, ln_attributes = a, ln_dropped = wl_dropped l\<rparr>))"

definition decode_span ::
  "wire_span \<Rightarrow> envelope \<Rightarrow> budget_limits \<Rightarrow> record_rejection + span" where
  "decode_span p env limits =
     (let status = or_default default_status (wsp_status p) in
     and_then (decode_context (wsp_trace_id p) (wsp_span_id p) (wsp_flags p) (wsp_trace_state p)) (\<lambda>c.
     and_then (parent_span_id (wsp_parent_span_id p)) (\<lambda>parent.
     and_then (decode_span_kind (wsp_kind p)) (\<lambda>k.
     and_then (attributes_of (wsp_attributes p) ''span attribute'' limits) (\<lambda>a.
     and_then (collect_results (map (decode_event limits) (wsp_events p))) (\<lambda>es.
     and_then (collect_results (map (decode_link limits) (wsp_links p))) (\<lambda>ls.
     and_then (decode_status_code (wst_code status)) (\<lambda>code.
     Inr \<lparr>sp_context = c, sp_parent_span_id = parent, sp_name = wsp_name p, sp_kind = k,
          sp_start_time = wsp_start p, sp_end_time = present_u64 (wsp_end p),
          sp_resource = env_resource env, sp_scope = env_scope env, sp_attributes = a,
          sp_emitter_dropped = \<lparr>ed_attributes = wsp_dropped_attributes p,
            ed_events = wsp_dropped_events p, ed_links = wsp_dropped_links p\<rparr>,
          sp_events = es, sp_links = ls,
          sp_status = \<lparr>st_code = code, st_message = wst_message status\<rparr>\<rparr>))))))))"

definition decode_body :: "any_value option \<Rightarrow> record_rejection + model_value option" where
  "decode_body body =
     (case body of
        None \<Rightarrow> Inr None
      | Some WireNone \<Rightarrow> Inr None
      | Some v \<Rightarrow> and_then (wire_value (Some v) ''log body'') (\<lambda>b. Inr (Some b)))"

definition decode_log_record ::
  "wire_log \<Rightarrow> envelope \<Rightarrow> budget_limits \<Rightarrow> record_rejection + log_record" where
  "decode_log_record p env limits =
     and_then (decode_severity_number (wlg_severity_number p)) (\<lambda>sev.
     and_then (decode_body (wlg_body p)) (\<lambda>body.
     and_then (attributes_of (wlg_attributes p) ''log attribute'' limits) (\<lambda>a.
     and_then (optional_trace_id (wlg_trace_id p)) (\<lambda>tid.
     and_then (optional_span_id (wlg_span_id p)) (\<lambda>sid.
     Inr \<lparr>lg_timestamp = present_u64 (wlg_time p),
          lg_observed_timestamp = present_u64 (wlg_observed p),
          lg_severity_number = sev, lg_severity_text = present_string (wlg_severity_text p),
          lg_body = body, lg_resource = env_resource env, lg_scope = env_scope env,
          lg_attributes = a, lg_dropped = wlg_dropped p, lg_trace_id = tid, lg_span_id = sid,
          lg_trace_flags = (if wlg_flags p \<noteq> 0 then Some (TraceFlags (wlg_flags p)) else None),
          lg_event_name = present_string (wlg_event_name p)\<rparr>)))))"

section \<open>Metrics\<close>

definition decode_stream_identity ::
  "wire_metric \<Rightarrow> envelope \<Rightarrow> budget_limits \<Rightarrow> record_rejection + stream_identity" where
  "decode_stream_identity p env limits =
     and_then
       (case wm_data p of
          Some (GaugeData _) \<Rightarrow> Inr (Gauge, None)
        | Some (SumData _ t is_mono) \<Rightarrow> and_then (decode_temporality t) (\<lambda>x. Inr (Sum is_mono, x))
        | Some (HistogramData _ t) \<Rightarrow> and_then (decode_temporality t) (\<lambda>x. Inr (Histogram, x))
        | Some (ExponentialData _ t) \<Rightarrow>
            and_then (decode_temporality t) (\<lambda>x. Inr (ExponentialHistogram, x))
        | Some (SummaryData _) \<Rightarrow> Inr (Summary, None)
        | None \<Rightarrow> unrepresentable EmptyMetric) (\<lambda>(k, t).
     and_then (attributes_of (wm_metadata p) ''metric metadata'' limits) (\<lambda>meta.
     Inr \<lparr>si_resource = env_resource env, si_scope = env_scope env, si_name = wm_name p,
          si_description = present_string (wm_description p), si_unit = present_string (wm_unit p),
          si_metadata = meta, si_kind = k, si_temporality = t\<rparr>))"

definition require_start_time :: "u64 \<Rightarrow> unit + u64" where
  "require_start_time t = (if t = 0 then Inl () else Inr t)"

definition required_start :: "string \<Rightarrow> u64 \<Rightarrow> record_rejection + u64" where
  "required_start field t =
     (case require_start_time t of Inl _ \<Rightarrow> unrepresentable (MissingValue field) | Inr s \<Rightarrow> Inr s)"

fun decode_number :: "string \<Rightarrow> wire_number option \<Rightarrow> record_rejection + metric_number" where
  "decode_number field (Some (AsDouble d)) = Inr (DoubleNumber (Float d))"
| "decode_number field (Some (AsInt i)) = Inr (IntNumber i)"
| "decode_number field None = unrepresentable (MissingValue field)"

definition decode_exemplar :: "budget_limits \<Rightarrow> wire_exemplar \<Rightarrow> record_rejection + exemplar" where
  "decode_exemplar limits e =
     and_then (decode_number ''exemplar value'' (wex_value e)) (\<lambda>v.
     and_then (attributes_of (wex_filtered e) ''exemplar filtered attribute'' limits) (\<lambda>a.
     and_then (optional_trace_id (wex_trace_id e)) (\<lambda>t.
     and_then (optional_span_id (wex_span_id e)) (\<lambda>s.
     Inr \<lparr>ex_value = v, ex_time = wex_time e, ex_filtered_attributes = a, ex_trace_id = t,
          ex_span_id = s\<rparr>))))"

definition decode_exemplars :: "wire_exemplar list \<Rightarrow> budget_limits \<Rightarrow> record_rejection + exemplar list" where
  "decode_exemplars es limits = collect_results (map (decode_exemplar limits) es)"

definition decode_number_point ::
  "budget_limits \<Rightarrow> number_data_point \<Rightarrow> record_rejection + metric_point" where
  "decode_number_point limits p =
     and_then (decode_number ''data point value'' (nd_value p)) (\<lambda>v.
     and_then (attributes_of (nd_attributes p) ''data point attribute'' limits) (\<lambda>a.
     and_then (decode_exemplars (nd_exemplars p) limits) (\<lambda>es.
     Inr (NumberP \<lparr>np_attributes = a, np_start_time = present_u64 (nd_start p), np_time = nd_time p,
       np_value = v, np_flags = nd_flags p, np_exemplars = es\<rparr>))))"

definition decode_histogram_point ::
  "budget_limits \<Rightarrow> histogram_data_point \<Rightarrow> record_rejection + metric_point" where
  "decode_histogram_point limits p =
     and_then (required_start ''histogram start_time_unix_nano'' (hd_start p)) (\<lambda>start.
     and_then (attributes_of (hd_attributes p) ''data point attribute'' limits) (\<lambda>a.
     and_then (decode_exemplars (hd_exemplars p) limits) (\<lambda>es.
     Inr (HistogramP \<lparr>hp_attributes = a, hp_start_time = start, hp_time = hd_time p,
       hp_count = hd_count p, hp_sum = map_option Float (hd_sum p),
       hp_bucket_counts = hd_bucket_counts p,
       hp_explicit_bounds = map Float (hd_explicit_bounds p),
       hp_min = map_option Float (hd_min p), hp_max = map_option Float (hd_max p),
       hp_flags = hd_flags p, hp_exemplars = es\<rparr>))))"

definition decode_buckets :: "wire_buckets option \<Rightarrow> exponential_buckets" where
  "decode_buckets b =
     (case b of
        None \<Rightarrow> \<lparr>eb_offset = 0, eb_bucket_counts = []\<rparr>
      | Some w \<Rightarrow> \<lparr>eb_offset = wb_offset w, eb_bucket_counts = wb_bucket_counts w\<rparr>)"

definition decode_exponential_point ::
  "budget_limits \<Rightarrow> exponential_data_point \<Rightarrow> record_rejection + metric_point" where
  "decode_exponential_point limits p =
     and_then (required_start ''exponential histogram start_time_unix_nano'' (xd_start p)) (\<lambda>start.
     and_then (attributes_of (xd_attributes p) ''data point attribute'' limits) (\<lambda>a.
     and_then (decode_exemplars (xd_exemplars p) limits) (\<lambda>es.
     Inr (ExponentialHistogramP \<lparr>xp_attributes = a, xp_start_time = start, xp_time = xd_time p,
       xp_count = xd_count p, xp_sum = map_option Float (xd_sum p), xp_scale = xd_scale p,
       xp_zero_count = xd_zero_count p, xp_zero_threshold = Float (xd_zero_threshold p),
       xp_positive = decode_buckets (xd_positive p), xp_negative = decode_buckets (xd_negative p),
       xp_min = map_option Float (xd_min p), xp_max = map_option Float (xd_max p),
       xp_flags = xd_flags p, xp_exemplars = es\<rparr>))))"

text \<open>\<open>sum != 0.0\<close> is false of the two zeros only; \<open>is_sign_negative\<close> reads the sign bit.\<close>

definition sign_bit :: f64 where
  "sign_bit = 0x8000000000000000"

definition float_nonzero :: "f64 \<Rightarrow> bool" where
  "float_nonzero f \<longleftrightarrow> f \<noteq> 0 \<and> f \<noteq> sign_bit"

definition float_sign_negative :: "f64 \<Rightarrow> bool" where
  "float_sign_negative f \<longleftrightarrow> f AND sign_bit \<noteq> 0"

definition decode_summary_point ::
  "budget_limits \<Rightarrow> summary_data_point \<Rightarrow> record_rejection + metric_point" where
  "decode_summary_point limits p =
     and_then (required_start ''summary start_time_unix_nano'' (sd_start p)) (\<lambda>start.
     and_then (attributes_of (sd_attributes p) ''data point attribute'' limits) (\<lambda>a.
     Inr (SummaryP \<lparr>sm_attributes = a, sm_start_time = start, sm_time = sd_time p,
       sm_count = sd_count p,
       sm_sum = (if float_nonzero (sd_sum p) \<or> float_sign_negative (sd_sum p)
                 then Some (Float (sd_sum p)) else None),
       sm_quantiles = map (\<lambda>q. \<lparr>qv_quantile = Float (vq_quantile q), qv_value = Float (vq_value q)\<rparr>)
                        (sd_quantiles p),
       sm_flags = sd_flags p, sm_exemplars = []\<rparr>)))"

definition into_points :: "wire_metric \<Rightarrow> budget_limits \<Rightarrow> (record_rejection + metric_point) list" where
  "into_points m limits =
     (case wm_data m of
        Some (GaugeData ps) \<Rightarrow> map (decode_number_point limits) ps
      | Some (SumData ps _ _) \<Rightarrow> map (decode_number_point limits) ps
      | Some (HistogramData ps _) \<Rightarrow> map (decode_histogram_point limits) ps
      | Some (ExponentialData ps _) \<Rightarrow> map (decode_exponential_point limits) ps
      | Some (SummaryData ps) \<Rightarrow> map (decode_summary_point limits) ps
      | None \<Rightarrow> [])"

definition point_count :: "wire_metric \<Rightarrow> usize" where
  "point_count m =
     (case wm_data m of
        Some (GaugeData ps) \<Rightarrow> length ps
      | Some (SumData ps _ _) \<Rightarrow> length ps
      | Some (HistogramData ps _) \<Rightarrow> length ps
      | Some (ExponentialData ps _) \<Rightarrow> length ps
      | Some (SummaryData ps) \<Rightarrow> length ps
      | None \<Rightarrow> 0)"

lemma length_into_points: "length (into_points m limits) = point_count m"
  by (auto simp: into_points_def point_count_def split: option.splits metric_data.splits)

end
