(* ===== verification/Decode_Laws.thy ===== *)
theory Decode_Laws
  imports Decode Samples "HOL-Library.Multiset"
begin

text \<open>
  What the translation promises: a value crosses verbatim or not at all, an attribute set is
  exactly the pairs sent, a trace state is read in order, and every record it builds satisfies
  the laws of the model's constructors (\<open>wf_span\<close>, \<open>wf_log_record\<close>, \<open>wf_point\<close>, \<open>wf_stream\<close>).

  \<open>to_wire\<close> is the reference: the one message that stands for a model value.
\<close>

section \<open>Values\<close>

fun to_wire :: "model_value \<Rightarrow> any_value" where
  "to_wire (StringV s) = WireString s"
| "to_wire (BoolV b) = WireBool b"
| "to_wire (IntV i) = WireInt i"
| "to_wire (DoubleV d) = WireDouble (float_bits_of d)"
| "to_wire (BytesV bs) = WireBytes bs"
| "to_wire (ArrayV vs) = WireArray (map to_wire vs)"
| "to_wire (KvListV es) = WireKvlist (map (\<lambda>e. KeyValue (fst e) (Some (to_wire (snd e))) 0) es)"

abbreviation wire_entry :: "string \<times> model_value \<Rightarrow> key_value" where
  "wire_entry e \<equiv> KeyValue (fst e) (Some (to_wire (snd e))) 0"

lemma collect_map_Inr_iff:
  assumes "\<And>x y. x \<in> set xs \<Longrightarrow> f x = Inr y \<longleftrightarrow> x = g y \<and> P y"
  shows "collect_results (map f xs) = Inr ys \<longleftrightarrow> xs = map g ys \<and> (\<forall>y \<in> set ys. P y)"
  using assms
proof (induction xs arbitrary: ys)
  case (Cons x xs)
  show ?case
  proof (cases ys)
    case (Cons y zs)
    with Cons.IH [of zs] Cons.prems show ?thesis
      by (auto simp: collect_results_Inr_iff)
  qed (auto simp: collect_results_Inr_iff)
qed (auto simp: collect_results_Inr_iff)

lemma unrepresentable_not_Inr [simp]: "unrepresentable u \<noteq> Inr x"
  by (simp add: unrepresentable_def)

lemma value_array_Inr: "value_array items = Inr v \<longleftrightarrow> v = ArrayV items \<and> homogeneous items"
  by (auto simp: value_array_def and_then_Inr_iff try_from_items_Inr)

lemma value_kv_list_Inr: "value_kv_list es = Inr v \<longleftrightarrow> v = KvListV es \<and> distinct (map fst es)"
  by (auto simp: value_kv_list_def and_then_Inr_iff key_value_list_new_Inr)

lemma double_to_wire: "WireDouble d = to_wire v \<longleftrightarrow> v = DoubleV (Float d)"
  by (cases v) auto

lemma wire_any_exact:
  shows "wire_any field a = Inr v \<longleftrightarrow> a = to_wire v \<and> wf_value v"
    and "key_value_entry field kv = Inr e \<longleftrightarrow> kv = wire_entry e \<and> wf_value (snd e)"
proof (induction a and kv arbitrary: v and e)
  case (WireArray vs)
  have "collect_results (map (wire_any field) vs) = Inr items \<longleftrightarrow>
      vs = map to_wire items \<and> (\<forall>y \<in> set items. wf_value y)" for items
    by (rule collect_map_Inr_iff) (rule WireArray)
  then have "wire_any field (WireArray vs) = Inr v \<longleftrightarrow>
      (\<exists>items. v = ArrayV items \<and> vs = map to_wire items \<and> wf_value (ArrayV items))"
    by (auto simp: and_then_Inr_iff value_array_Inr)
  then show ?case by (cases v) auto
next
  case (WireKvlist kvs)
  have "collect_results (map (key_value_entry field) kvs) = Inr es \<longleftrightarrow>
      kvs = map wire_entry es \<and> (\<forall>e \<in> set es. wf_value (snd e))" for es
    by (rule collect_map_Inr_iff) (rule WireKvlist)
  then have "wire_any field (WireKvlist kvs) = Inr v \<longleftrightarrow>
      (\<exists>es. v = KvListV es \<and> kvs = map wire_entry es \<and> wf_value (KvListV es))"
    by (auto simp: and_then_Inr_iff value_kv_list_Inr)
  then show ?case by (cases v) auto
next
  case (KeyValue k av idx)
  show ?case
  proof (cases av)
    case (Some a)
    have "wire_any field a = Inr x \<longleftrightarrow> a = to_wire x \<and> wf_value x" for x
      using KeyValue [of a x] Some by simp
    moreover have "key_value_entry field (KeyValue k av idx) = Inr e \<longleftrightarrow>
        idx = 0 \<and> (\<exists>x. wire_any field a = Inr x \<and> e = (k, x))"
      using Some by (auto simp: and_then_Inr_iff)
    ultimately show ?thesis using Some by (cases e) auto
  next
    case None
    then show ?thesis by simp
  qed
next
  case (WireDouble d)
  then show ?case by (cases v) (auto simp: double_to_wire)
next
  case WireNone show ?case by (cases v) auto
next
  case (WireString s) show ?case by (cases v) auto
next
  case (WireBool b) show ?case by (cases v) auto
next
  case (WireInt i) show ?case by (cases v) auto
next
  case (WireBytes bs) show ?case by (cases v) auto
next
  case (WireStringStrindex i) show ?case by (cases v) auto
qed

text \<open>C34: Values cross verbatim or not at all. A wire value is translated exactly when it is the
  encoding of a well-formed model value, and then into that value: every string, integer, byte
  and double bit pattern is kept, array and key-value order is kept, mixed-kind arrays, repeated
  keys, absent values and profiling references are refused at any depth.\<close>

theorem value_translation_exact:
  "wire_any field a = Inr v \<longleftrightarrow> a = to_wire v \<and> wf_value v"
  by (rule wire_any_exact(1))

section \<open>Attribute sets\<close>

lemma from_pairs_iff:
  "from_pairs ps = Inr a \<longleftrightarrow> wf_attributes a \<and> mset ps = mset a"
proof
  assume r: "from_pairs ps = Inr a"
  note f = from_pairs_Inr [OF r]
  then have "distinct (map fst a)" by (auto simp: wf_attributes_def dest: om_sorted_distinct)
  with f show "wf_attributes a \<and> mset ps = mset a"
    by (simp add: set_eq_iff_mset_eq_distinct [symmetric] distinct_map)
next
  assume a: "wf_attributes a \<and> mset ps = mset a"
  then have "distinct (map fst a)" by (auto simp: wf_attributes_def dest: om_sorted_distinct)
  moreover have "mset (map fst ps) = mset (map fst a)" using a by simp
  ultimately have d: "distinct (map fst ps)" by (metis mset_eq_imp_distinct_iff)
  then obtain b where b: "from_pairs ps = Inr b" using from_pairs_total by blast
  note f = from_pairs_Inr [OF b]
  have "set ps = set a" using a by (metis mset_eq_setD)
  with f a have "b = a" by (intro om_sorted_unique) (auto simp: wf_attributes_def)
  with b show "from_pairs ps = Inr a" by simp
qed

lemma mset_map_lift:
  "mset xs = image_mset f M \<Longrightarrow> \<exists>es. mset es = M \<and> xs = map f es"
proof (induction xs arbitrary: M)
  case (Cons x xs)
  from Cons.prems have "image_mset f M = add_mset x (mset xs)" by simp
  then obtain N y where "M = add_mset y N" "f y = x" "image_mset f N = mset xs"
    by (auto dest: msed_map_invR)
  moreover from Cons.IH [of N] this(3) obtain es where "mset es = N" "xs = map f es" by auto
  ultimately show ?case by (intro exI [of _ "y # es"]) simp
qed auto

definition attribute_cap :: "string \<Rightarrow> budget_limits \<Rightarrow> usize" where
  "attribute_cap field limits = snd (attribute_count_budget field limits)"

lemma attributes_of_Inr:
  "attributes_of pairs field limits = Inr a \<longleftrightarrow>
     length pairs \<le> attribute_cap field limits \<and>
     (\<exists>es. pairs = map wire_entry es \<and> mset es = mset a \<and> wf_attribute_set a)"
proof -
  have c: "collect_results (map (key_value_entry field) pairs) = Inr es \<longleftrightarrow>
      pairs = map wire_entry es \<and> (\<forall>e \<in> set es. wf_value (snd e))" for es
    by (rule collect_map_Inr_iff) (rule wire_any_exact(2))
  have "attributes_of pairs field limits = Inr a \<longleftrightarrow>
      length pairs \<le> attribute_cap field limits \<and>
      (\<exists>es. (pairs = map wire_entry es \<and> (\<forall>e \<in> set es. wf_value (snd e))) \<and>
         wf_attributes a \<and> mset es = mset a)"
    by (auto simp: attributes_of_def attribute_cap_def Let_def split_beta and_then_Inr_iff c
        from_pairs_iff)
  moreover have "mset es = mset a \<Longrightarrow> (\<forall>e \<in> set es. wf_value (snd e)) = (\<forall>e \<in> set a. wf_value (snd e))" for es
    by (drule mset_eq_setD) simp
  ultimately show ?thesis
    unfolding wf_attribute_set_def by blast
qed

text \<open>An attribute set is exactly the pairs sent. A list of key-value messages is accepted when
  its count is within the field's budget and it encodes, in some order, the entries of a map
  with distinct sorted keys and well-formed values; the accepted map then has those entries and
  no others. So nothing is dropped, merged or invented, whatever order the emitter chose.\<close>

theorem attribute_set_exact:
  "attributes_of pairs field limits = Inr a \<longleftrightarrow>
     length pairs \<le> snd (attribute_count_budget field limits) \<and> wf_attribute_set a \<and>
     mset pairs = mset (map wire_entry a)"
proof
  assume "attributes_of pairs field limits = Inr a"
  then obtain es where "length pairs \<le> attribute_cap field limits" "pairs = map wire_entry es"
    "mset es = mset a" "wf_attribute_set a" by (auto simp: attributes_of_Inr)
  then show "length pairs \<le> snd (attribute_count_budget field limits) \<and> wf_attribute_set a \<and>
      mset pairs = mset (map wire_entry a)"
    by (simp add: attribute_cap_def)
next
  assume a: "length pairs \<le> snd (attribute_count_budget field limits) \<and> wf_attribute_set a \<and>
      mset pairs = mset (map wire_entry a)"
  then have "\<exists>es. mset es = mset a \<and> pairs = map wire_entry es"
    by (intro mset_map_lift) simp
  with a show "attributes_of pairs field limits = Inr a"
    by (auto simp: attributes_of_Inr attribute_cap_def)
qed

section \<open>Trace state\<close>

fun join_members :: "string list \<Rightarrow> string" where
  "join_members [] = []"
| "join_members [m] = m"
| "join_members (m # ms) = m @ CHR '','' # join_members ms"

definition member_text :: "trace_state_entry \<Rightarrow> string" where
  "member_text e = vendor e @ CHR ''='' # entry_value e"

text \<open>An entry the W3C grammar can carry: no separator inside, no surrounding white space.\<close>

definition plain_entry :: "trace_state_entry \<Rightarrow> bool" where
  "plain_entry e \<longleftrightarrow>
     CHR ''='' \<notin> set (vendor e) \<and> CHR '','' \<notin> set (vendor e) \<and> CHR '','' \<notin> set (entry_value e) \<and>
     trim (vendor e) = vendor e \<and> trim (entry_value e) = entry_value e"

lemma split_on_no_sep: "c \<notin> set xs \<Longrightarrow> split_on c xs = [xs]"
  by (induction xs) auto

lemma split_on_append: "c \<notin> set xs \<Longrightarrow> split_on c (xs @ c # ys) = xs # split_on c ys"
  by (induction xs) auto

lemma split_join:
  "ms \<noteq> [] \<Longrightarrow> (\<forall>m \<in> set ms. CHR '','' \<notin> set m) \<Longrightarrow> split_on CHR '','' (join_members ms) = ms"
  by (induction ms rule: join_members.induct) (auto simp: split_on_no_sep split_on_append)

lemma split_once_append: "c \<notin> set xs \<Longrightarrow> split_once c (xs @ c # ys) = Some (xs, ys)"
  by (induction xs) auto

lemma white_space_bytes:
  "w \<in> set white_space \<Longrightarrow> c \<in> set w \<Longrightarrow> of_char c \<le> (0x20::nat) \<or> 0x80 \<le> (of_char c :: nat)"
  by (auto simp: white_space_def upt_rec of_char_of)

lemma trim_visible:
  assumes "\<forall>c \<in> set s. 0x20 < (of_char c :: nat) \<and> of_char c < (0x80::nat)"
  shows "trim s = s"
proof -
  have stop: "trim_with ws t = t" if t: "set t \<subseteq> set s" and ws: "\<forall>w \<in> set ws. \<forall>c \<in> set w. c \<notin> set s" for ws t
  proof -
    have "take (length w) t \<noteq> w" if "w \<in> set ws" "w \<noteq> []" for w
    proof
      assume "take (length w) t = w"
      then have "hd w \<in> set t" using that(2) by (metis hd_in_set in_set_takeD)
      with t ws that show False by auto
    qed
    then have "starting_white ws t = None" by (auto simp: starting_white_def find_None_iff)
    then show ?thesis by (simp add: trim_with.simps)
  qed
  have "\<forall>w \<in> set white_space. \<forall>c \<in> set w. c \<notin> set s"
    using assms white_space_bytes by (meson linorder_not_less)
  then show ?thesis by (simp add: trim_def stop)
qed

lemma member_round: "plain_entry e \<Longrightarrow> trace_state_member (member_text e) = Inr e"
  by (simp add: trace_state_member_def member_text_def plain_entry_def split_once_append)

lemma join_nonempty: "es \<noteq> [] \<Longrightarrow> join_members (map member_text es) \<noteq> []"
  by (cases es rule: list.exhaust; cases "tl es") (auto simp: member_text_def)

text \<open>A trace state is read back entry by entry, in the order sent, exactly up to the W3C caps:
  the text of a non-empty list of plain entries decodes to that list when it has at most 32
  members and 512 bytes, and is refused with its measured size otherwise.\<close>

theorem trace_state_round_trip:
  assumes "es \<noteq> []" and "\<forall>e \<in> set es. plain_entry e"
  defines "raw \<equiv> join_members (map member_text es)"
  shows "decode_trace_state raw =
    (if length raw \<le> 512 \<and> length es \<le> 32 then Inr (TraceState es)
     else Inl (Unrepresentable (TraceStateOverCap (length es) (length raw))))"
proof -
  have "\<forall>m \<in> set (map member_text es). CHR '','' \<notin> set m"
    using assms(2) by (auto simp: member_text_def plain_entry_def)
  then have split: "split_on CHR '','' raw = map member_text es"
    unfolding raw_def using assms(1) by (intro split_join) auto
  have "collect_results (map trace_state_member (map member_text es)) = Inr es"
    unfolding collect_results_Inr_iff using assms(2) by (auto simp: member_round)
  with split join_nonempty [OF assms(1)] show ?thesis
    by (auto simp: decode_trace_state_def Let_def raw_def MAX_BYTES_def MAX_MEMBERS_def
        unrepresentable_def)
qed

theorem trace_state_round_trip_witness:
  "decode_trace_state ''rojo=00f0,congo=t61r=x'' =
     Inr (TraceState [\<lparr>vendor = ''rojo'', entry_value = ''00f0''\<rparr>,
                      \<lparr>vendor = ''congo'', entry_value = ''t61r=x''\<rparr>])"
proof -
  let ?es = "[\<lparr>vendor = ''rojo'', entry_value = ''00f0''\<rparr>, \<lparr>vendor = ''congo'', entry_value = ''t61r=x''\<rparr>]"
  have "\<forall>e \<in> set ?es. plain_entry e"
    by (auto simp: plain_entry_def intro!: trim_visible)
  from trace_state_round_trip [OF _ this] show ?thesis
    by (simp add: member_text_def)
qed

section \<open>Records\<close>

lemma attributes_of_wf: "attributes_of pairs field limits = Inr a \<Longrightarrow> wf_attribute_set a"
  by (auto simp: attributes_of_Inr)

lemma decode_resource_wf: "decode_resource r url limits = Inr x \<Longrightarrow> wf_resource x"
  by (auto simp: decode_resource_def and_then_Inr_iff wf_resource_def attributes_of_wf split: if_splits)

lemma decode_scope_wf: "decode_scope s url limits = Inr x \<Longrightarrow> wf_scope x"
  by (auto simp: decode_scope_def and_then_Inr_iff wf_scope_def attributes_of_wf)

lemma id_conversions_wf:
  "span_trace_id bs = Inr t \<Longrightarrow> wf_trace_id t" "span_span_id bs = Inr s \<Longrightarrow> wf_span_id s"
  "optional_trace_id bs = Inr ot \<Longrightarrow> pred_option wf_trace_id ot"
  "optional_span_id bs = Inr os \<Longrightarrow> pred_option wf_span_id os"
  "parent_span_id bs = Inr os \<Longrightarrow> pred_option wf_span_id os"
  by (auto simp: span_trace_id_def span_span_id_def optional_trace_id_def optional_span_id_def
      parent_span_id_def wire_trace_id_def wire_span_id_def wf_trace_id_def wf_span_id_def
      and_then_Inr_iff split: if_splits)

lemma decode_context_wf: "decode_context t s f st = Inr c \<Longrightarrow> wf_context c"
  by (auto simp: decode_context_def and_then_Inr_iff wf_context_def id_conversions_wf)

lemma collect_map_all:
  "collect_results (map f xs) = Inr ys \<Longrightarrow> (\<And>x y. f x = Inr y \<Longrightarrow> P y) \<Longrightarrow> \<forall>y \<in> set ys. P y"
  by (auto simp: collect_results_Inr_iff map_eq_conv dest!: arg_cong [where f = set])
     (metis image_iff)

lemmas decoded_parts = and_then_Inr_iff attributes_of_wf decode_context_wf id_conversions_wf

lemma decode_event_wf: "decode_event limits e = Inr x \<Longrightarrow> wf_attribute_set (ev_attributes x)"
  by (auto simp: decode_event_def decoded_parts)

lemma decode_link_wf:
  "decode_link limits l = Inr x \<Longrightarrow> wf_context (ln_context x) \<and> wf_attribute_set (ln_attributes x)"
  by (auto simp: decode_link_def decoded_parts)

definition wf_envelope :: "envelope \<Rightarrow> bool" where
  "wf_envelope env \<longleftrightarrow> wf_resource (env_resource env) \<and> wf_scope (env_scope env)"

lemma decode_span_wf:
  assumes "wf_envelope env" "decode_span p env limits = Inr s"
  shows "wf_span s"
proof -
  have "\<forall>e \<in> set es. wf_attribute_set (ev_attributes e)"
    if "collect_results (map (decode_event limits) (wsp_events p)) = Inr es" for es
    by (rule collect_map_all [OF that decode_event_wf])
  moreover have "\<forall>l \<in> set ls. wf_context (ln_context l) \<and> wf_attribute_set (ln_attributes l)"
    if "collect_results (map (decode_link limits) (wsp_links p)) = Inr ls" for ls
    by (rule collect_map_all [OF that decode_link_wf])
  ultimately show ?thesis
    using assms by (auto simp: decode_span_def Let_def wf_span_def wf_envelope_def decoded_parts)
qed

lemma wire_any_wf: "wire_any field a = Inr v \<Longrightarrow> wf_value v"
  by (simp add: wire_any_exact)

lemma decode_body_wf: "decode_body b = Inr v \<Longrightarrow> pred_option wf_value v"
  by (auto simp: decode_body_def wire_value_def and_then_Inr_iff wire_any_wf
      split: option.splits any_value.splits simp del: wire_any.simps)

lemma decode_severity_wf: "decode_severity_number n = Inr v \<Longrightarrow> pred_option wf_severity v"
  by (auto simp: decode_severity_number_def and_then_Inr_iff severity_try_new_def wf_severity_def
      split: if_splits)

lemma decode_log_record_wf:
  "wf_envelope env \<Longrightarrow> decode_log_record p env limits = Inr r \<Longrightarrow> wf_log_record r"
  by (auto simp: decode_log_record_def wf_log_record_def wf_envelope_def decoded_parts
      decode_body_wf decode_severity_wf)

lemma decode_stream_identity_wf:
  "wf_envelope env \<Longrightarrow> decode_stream_identity m env limits = Inr s \<Longrightarrow> wf_stream s"
  by (auto simp: decode_stream_identity_def wf_stream_def wf_envelope_def decoded_parts)

lemma decode_exemplar_wf: "decode_exemplar limits e = Inr x \<Longrightarrow> wf_exemplar x"
  by (auto simp: decode_exemplar_def wf_exemplar_def decoded_parts)

lemma decode_exemplars_wf: "decode_exemplars es limits = Inr xs \<Longrightarrow> \<forall>x \<in> set xs. wf_exemplar x"
  unfolding decode_exemplars_def by (rule collect_map_all [OF _ decode_exemplar_wf])

lemmas decode_points = decode_number_point_def decode_histogram_point_def
  decode_exponential_point_def decode_summary_point_def

lemma decode_points_wf:
  "decode_number_point limits p1 = Inr x \<Longrightarrow> wf_point x"
  "decode_histogram_point limits p2 = Inr x \<Longrightarrow> wf_point x"
  "decode_exponential_point limits p3 = Inr x \<Longrightarrow> wf_point x"
  "decode_summary_point limits p4 = Inr x \<Longrightarrow> wf_point x"
  by (auto simp: decode_points wf_point_def decoded_parts decode_exemplars_wf)

lemma into_points_cases:
  assumes "Inr x \<in> set (into_points m limits)"
  obtains (number) ps p where "wm_data m = Some (GaugeData ps) \<or> (\<exists>t b. wm_data m = Some (SumData ps t b))"
      "decode_number_point limits p = Inr x"
  | (histogram) ps t p where "wm_data m = Some (HistogramData ps t)"
      "decode_histogram_point limits p = Inr x"
  | (exponential) ps t p where "wm_data m = Some (ExponentialData ps t)"
      "decode_exponential_point limits p = Inr x"
  | (summary) ps p where "wm_data m = Some (SummaryData ps)" "decode_summary_point limits p = Inr x"
proof (cases "wm_data m")
  case (Some d)
  have inv: "Inr x \<in> f ` A \<Longrightarrow> \<exists>p. f p = Inr x" for f :: "'z \<Rightarrow> record_rejection + metric_point" and A
    by (auto dest: sym)
  show thesis
  proof (cases d)
    case (GaugeData ps)
    with Some assms inv [of "decode_number_point limits" "set ps"] number show thesis
      by (auto simp: into_points_def)
  next
    case (SumData ps t b)
    with Some assms inv [of "decode_number_point limits" "set ps"] number show thesis
      by (auto simp: into_points_def)
  next
    case (HistogramData ps t)
    with Some assms inv [of "decode_histogram_point limits" "set ps"] histogram show thesis
      by (auto simp: into_points_def)
  next
    case (ExponentialData ps t)
    with Some assms inv [of "decode_exponential_point limits" "set ps"] exponential show thesis
      by (auto simp: into_points_def)
  next
    case (SummaryData ps)
    with Some assms inv [of "decode_summary_point limits" "set ps"] summary show thesis
      by (auto simp: into_points_def)
  qed
qed (use assms in \<open>simp add: into_points_def\<close>)

lemma into_points_wf:
  assumes "Inr x \<in> set (into_points m limits)"
  shows "wf_point x"
  using assms by (rule into_points_cases) (auto simp: decode_points_wf)

text \<open>
  The translated points agree with the stream the metric declares: the wire can only pair a kind
  with its own point shape and an interval kind with a start time.
\<close>

lemma decode_points_shape:
  "decode_number_point limits p1 = Inr x \<Longrightarrow> point_shape_of x = NumberShape"
  "decode_histogram_point limits p2 = Inr x \<Longrightarrow>
     point_shape_of x = HistogramShape \<and> point_start_time x \<noteq> None"
  "decode_exponential_point limits p3 = Inr x \<Longrightarrow>
     point_shape_of x = ExponentialHistogramShape \<and> point_start_time x \<noteq> None"
  "decode_summary_point limits p4 = Inr x \<Longrightarrow>
     point_shape_of x = SummaryShape \<and> point_start_time x \<noteq> None"
  by (auto simp: decode_points and_then_Inr_iff)

lemma decode_stream_kind:
  "decode_stream_identity m env limits = Inr s \<Longrightarrow>
     (case wm_data m of
        Some (GaugeData _) \<Rightarrow> si_kind s = Gauge
      | Some (SumData _ _ b) \<Rightarrow> si_kind s = Sum b
      | Some (HistogramData _ _) \<Rightarrow> si_kind s = Histogram
      | Some (ExponentialData _ _) \<Rightarrow> si_kind s = ExponentialHistogram
      | Some (SummaryData _) \<Rightarrow> si_kind s = Summary
      | None \<Rightarrow> False)"
  by (auto simp: decode_stream_identity_def and_then_Inr_iff
      split: option.splits metric_data.splits)

text \<open>Nothing decoded from one metric message can be paired with the wrong shape: the only way
  the shape law refuses a translated point of its own metric is a sum's point without a start
  time. A kind and shape mismatch cannot come from the wire.\<close>

theorem wire_points_fit_their_stream:
  assumes "decode_stream_identity m env limits = Inr s" and "Inr p \<in> set (into_points m limits)"
  shows "check_point_coherence s p i =
    (if (\<exists>b. si_kind s = Sum b) \<and> point_start_time p = None
     then Inl (IntervalKindMissingStartTime i) else Inr ())"
  using assms(2)
proof (cases rule: into_points_cases)
  case number
  with decode_stream_kind [OF assms(1)] show ?thesis
    by (auto simp: check_point_coherence_def Let_def decode_points_shape requires_start_time_def)
next
  case histogram
  with decode_stream_kind [OF assms(1)] decode_points_shape(2) [OF histogram(2)] show ?thesis
    by (auto simp: check_point_coherence_def Let_def requires_start_time_def)
next
  case exponential
  with decode_stream_kind [OF assms(1)] decode_points_shape(3) [OF exponential(2)] show ?thesis
    by (auto simp: check_point_coherence_def Let_def requires_start_time_def)
next
  case summary
  with decode_stream_kind [OF assms(1)] decode_points_shape(4) [OF summary(2)] show ?thesis
    by (auto simp: check_point_coherence_def Let_def requires_start_time_def)
qed

definition sample_wire_number :: "u64 \<Rightarrow> u64 \<Rightarrow> i64 \<Rightarrow> number_data_point" where
  "sample_wire_number start t v =
     \<lparr>nd_attributes = [KeyValue ''k'' (Some (WireInt 1)) 0], nd_start = start, nd_time = t,
      nd_exemplars = [], nd_flags = 0, nd_value = Some (AsInt v)\<rparr>"

definition sample_wire_metric :: "string \<Rightarrow> number_data_point list \<Rightarrow> wire_metric" where
  "sample_wire_metric name ps =
     \<lparr>wm_name = name, wm_description = [], wm_unit = ''1'', wm_metadata = [],
      wm_data = Some (SumData ps 2 True)\<rparr>"

definition sample_wire_span :: "u8 \<Rightarrow> string \<Rightarrow> wire_span" where
  "sample_wire_span b name =
     \<lparr>wsp_trace_id = b # replicate 15 0, wsp_span_id = b # replicate 7 0, wsp_trace_state = [],
      wsp_parent_span_id = [], wsp_flags = 1, wsp_name = name, wsp_kind = 2, wsp_start = 1,
      wsp_end = 2, wsp_attributes = [], wsp_dropped_attributes = 0, wsp_events = [],
      wsp_dropped_events = 0, wsp_links = [], wsp_dropped_links = 0, wsp_status = None\<rparr>"

definition sample_wire_log :: "any_value option \<Rightarrow> wire_log" where
  "sample_wire_log body =
     \<lparr>wlg_time = 1, wlg_observed = 0, wlg_severity_number = 9, wlg_severity_text = [],
      wlg_body = body, wlg_attributes = [], wlg_dropped = 0, wlg_flags = 0, wlg_trace_id = [],
      wlg_span_id = [], wlg_event_name = []\<rparr>"

definition sample_envelope :: envelope where
  "sample_envelope = \<lparr>env_resource = sample_resource None, env_scope = sample_scope\<rparr>"

lemmas sample_wire_defs = sample_wire_number_def sample_wire_metric_def sample_wire_span_def
  sample_wire_log_def sample_envelope_def

theorem wire_points_fit_their_stream_witness:
  "\<exists>s p.
     decode_stream_identity (sample_wire_metric ''m'' [sample_wire_number 0 5 7]) sample_envelope
       default_budget_limits = Inr s \<and>
     Inr p \<in> set (into_points (sample_wire_metric ''m'' [sample_wire_number 0 5 7]) default_budget_limits) \<and>
     check_point_coherence s p 3 = Inl (IntervalKindMissingStartTime 3)"
proof -
  let ?m = "sample_wire_metric ''m'' [sample_wire_number 0 5 7]"
  let ?a = "[(''k'', IntV 1)] :: attributes"
  have a: "attributes_of [KeyValue ''k'' (Some (WireInt 1)) 0] ''data point attribute'' default_budget_limits = Inr ?a"
    "attributes_of [] ''metric metadata'' default_budget_limits = Inr []"
    by (simp_all add: attributes_of_def attribute_count_budget_def nested_fields_def
        default_budget_limits_def from_pairs_def)
  obtain s where s: "decode_stream_identity ?m sample_envelope default_budget_limits = Inr s"
    using a(2) by (simp add: decode_stream_identity_def sample_wire_metric_def decode_temporality_def)
  obtain p where p: "Inr p \<in> set (into_points ?m default_budget_limits)" "point_start_time p = None"
    using a(1) by (simp add: into_points_def sample_wire_metric_def decode_number_point_def
        sample_wire_number_def decode_exemplars_def present_u64_def)
  from decode_stream_kind [OF s] have "si_kind s = Sum True"
    by (simp add: sample_wire_metric_def)
  with wire_points_fit_their_stream [OF s p(1), of 3] p(2)
  have "check_point_coherence s p 3 = Inl (IntervalKindMissingStartTime 3)"
    by (cases "\<exists>b::bool. b") auto
  with s p(1) show ?thesis by blast
qed

end
