(* ===== verification/Pipeline.thy ===== *)
theory Pipeline
  imports Ledger_Laws Decode_Laws
begin

text \<open>
  The admission pipeline: \<open>crates/telemetry-ingestion/src/pipeline.rs\<close>.

  A call is one OTLP export: gate, parse, count, then record by record translate and admit into
  the ledger, and at the end the export-atomic hand-off to the queue. The ledger lock makes a
  call one step from its first admission to the end of its hand-off; the gate and the parse read
  only the drain flag and the configuration. \<open>prost\<close>'s parser is the parameter \<open>parser\<close> of each
  call: a function from the payload to a request or to the text of its error.

  \<open>export_state\<close> is what the loops of a call carry: the ledger, the pending offers and the
  outcomes so far. An \<open>expect\<close> of the source is \<open>the\<close>; \<open>admitted_carries\<close> and \<open>offers_fit\<close> are
  the facts that none of them fires.
\<close>

section \<open>State\<close>

record export_outcome =
  eo_records :: "record_outcome list"

definition export_len :: "export_outcome \<Rightarrow> usize" where
  "export_len out = length (eo_records out)"

definition export_admitted :: "export_outcome \<Rightarrow> usize" where
  "export_admitted out =
     length (filter (\<lambda>r. case r of RecordAdmitted _ \<Rightarrow> True | _ \<Rightarrow> False) (eo_records out))"

definition export_rejected :: "export_outcome \<Rightarrow> usize" where
  "export_rejected out =
     length (filter (\<lambda>r. case r of RecordRejected _ \<Rightarrow> True | _ \<Rightarrow> False) (eo_records out))"

record pipeline_config_error =
  pce_ceiling_bytes :: usize
  pce_legal_record_bound_bytes :: usize

record pipeline =
  pl_limits :: budget_limits
  pl_payload_ceiling :: usize
  pl_ledger :: admission_ledger
  pl_sink :: bounded_queue
  pl_draining :: bool

record pending_offer =
  po_queued :: queued_record
  po_fresh_stream :: "stream_identity option"

definition legal_record_bound_bytes :: "layout \<Rightarrow> budget_limits \<Rightarrow> usize" where
  "legal_record_bound_bytes L lim =
     (let attribute_set = (\<lambda>count. ATTRIBUTE_MAP_NODE_BYTES + count * attribute_value_bytes lim);
          signal_sets = 3 * attribute_set (attributes_per_signal lim);
          span_bound = signal_sets
            + span_events_per_span lim * attribute_set (attributes_per_nested_set lim)
            + span_links_per_span lim * attribute_set (attributes_per_nested_set lim);
          quantile_charge = slot_bytes (quantile_size_of L) + STRUCTURE_FIXED_BYTES + 2 * 8;
          point_bound = signal_sets
            + attribute_set (attributes_per_signal lim)
            + exemplars_per_data_point lim * attribute_set (attributes_per_nested_set lim)
            + numeric_vector_entries_per_data_point lim * quantile_charge
      in max span_bound point_bound)"

definition with_config ::
  "layout \<Rightarrow> bounded_queue \<Rightarrow> budget_limits \<Rightarrow> usize \<Rightarrow> pipeline_config_error + pipeline" where
  "with_config L sink lim payload_ceiling =
     (let bound = legal_record_bound_bytes L lim; ceiling = q_ceiling sink
      in if ceiling < bound
         then Inl \<lparr>pce_ceiling_bytes = ceiling, pce_legal_record_bound_bytes = bound\<rparr>
         else Inr \<lparr>pl_limits = lim, pl_payload_ceiling = payload_ceiling,
                   pl_ledger = ledger_new lim, pl_sink = sink, pl_draining = False\<rparr>)"

definition begin_draining :: "pipeline \<Rightarrow> pipeline" where
  "begin_draining p = p\<lparr>pl_draining := True\<rparr>"

definition pipeline_anomalies :: "pipeline \<Rightarrow> admission_anomalies" where
  "pipeline_anomalies p = anomalies (pl_ledger p)"

section \<open>Export gates\<close>

definition gate :: "pipeline \<Rightarrow> bytes \<Rightarrow> admission_signal + unit" where
  "gate p payload =
     (if pl_draining p then Inl Draining
      else if pl_payload_ceiling p < length payload
      then Inl (PayloadOverCap (length payload) (pl_payload_ceiling p))
      else Inr ())"

definition parse_request :: "(bytes \<Rightarrow> string + 'm) \<Rightarrow> bytes \<Rightarrow> admission_signal + 'm" where
  "parse_request parser payload = map_err MalformedRequest (parser payload)"

definition pipeline_envelope ::
  "record_rejection + resource \<Rightarrow> wire_scope \<Rightarrow> string \<Rightarrow> budget_limits \<Rightarrow> record_rejection + envelope" where
  "pipeline_envelope res s scope_url lim =
     and_then (decode_scope s scope_url lim) (\<lambda>sc.
     and_then res (\<lambda>r. Inr \<lparr>env_resource = r, env_scope = sc\<rparr>))"

section \<open>The ledger arms\<close>

record export_state =
  es_ledger :: admission_ledger
  es_pending :: "pending_offer list"
  es_outcomes :: "record_outcome list"

definition push_outcome :: "record_outcome \<Rightarrow> export_state \<Rightarrow> export_state" where
  "push_outcome r st = st\<lparr>es_outcomes := es_outcomes st @ [r]\<rparr>"

fun outcome_of :: "admission_outcome \<Rightarrow> record_outcome" where
  "outcome_of (Admitted e) = RecordAdmitted e"
| "outcome_of (Collapsed e) = RecordCollapsed e"
| "outcome_of (Conflict e) = RecordConflict e"
| "outcome_of (Rejected r) = RecordRejected (Budget r)"
| "outcome_of (Invalid e) = RecordRejected (Shape e)"

definition pend :: "admission_time \<Rightarrow> entity_id \<Rightarrow> stored_record \<Rightarrow> stream_identity option \<Rightarrow> pending_offer" where
  "pend now e r fresh =
     \<lparr>po_queued = \<lparr>qr_entity = e, qr_at = now, qr_record = r\<rparr>, po_fresh_stream = fresh\<rparr>"

definition span_arm ::
  "layout \<Rightarrow> admission_time \<Rightarrow> record_rejection + span \<Rightarrow> export_state \<Rightarrow> export_state" where
  "span_arm L now translated st =
     (case translated of
        Inl reason \<Rightarrow> push_outcome (RecordRejected reason) st
      | Inr s \<Rightarrow>
          (let (l, admission) = admit_span L s (es_ledger st);
               st1 = push_outcome (outcome_of (sa_outcome admission)) (st\<lparr>es_ledger := l\<rparr>)
           in case sa_outcome admission of
                Admitted e \<Rightarrow> st1\<lparr>es_pending := es_pending st1 @
                  [pend now e (StoredSpan (the (sa_record admission))) None]\<rparr>
              | _ \<Rightarrow> st1))"

definition log_arm ::
  "layout \<Rightarrow> admission_time \<Rightarrow> record_rejection + log_record \<Rightarrow> export_state \<Rightarrow> export_state" where
  "log_arm L now translated st =
     (case translated of
        Inl reason \<Rightarrow> push_outcome (RecordRejected reason) st
      | Inr r \<Rightarrow>
          (let (l, out) = admit_log_record L r (es_ledger st);
               st1 = push_outcome (outcome_of out) (st\<lparr>es_ledger := l\<rparr>)
           in case out of
                Admitted e \<Rightarrow> st1\<lparr>es_pending := es_pending st1 @ [pend now e (StoredLog r) None]\<rparr>
              | _ \<Rightarrow> st1))"

definition point_arm ::
  "layout \<Rightarrow> admission_time \<Rightarrow> stream_identity \<Rightarrow> record_rejection + metric_point \<Rightarrow>
     export_state \<Rightarrow> export_state" where
  "point_arm L now s translated st =
     (case translated of
        Inl reason \<Rightarrow> push_outcome (RecordRejected reason) st
      | Inr p \<Rightarrow>
          (let (l, admission) = admit_metric_point L s p (es_ledger st);
               st1 = push_outcome (outcome_of (pa_outcome admission)) (st\<lparr>es_ledger := l\<rparr>)
           in case pa_outcome admission of
                Admitted e \<Rightarrow> st1\<lparr>es_pending := es_pending st1 @
                  [pend now e (StoredPoint (the (pa_stream admission)) (the (pa_record admission)))
                     (if pa_fresh_intern admission then pa_stream admission else None)]\<rparr>
              | _ \<Rightarrow> st1))"

section \<open>The hand-off\<close>

definition offer_bytes :: "layout \<Rightarrow> pending_offer list \<Rightarrow> usize" where
  "offer_bytes L ps = sum_list (map (\<lambda>po. stored_size L (qr_record (po_queued po))) ps)"

definition undo_offer :: "pending_offer \<Rightarrow> admission_ledger \<Rightarrow> admission_ledger" where
  "undo_offer po l =
     (let l1 = forget (qr_entity (po_queued po)) l
      in case po_fresh_stream po of None \<Rightarrow> l1 | Some s \<Rightarrow> release_stream s l1)"

definition offer_export ::
  "layout \<Rightarrow> pending_offer list \<Rightarrow> admission_ledger \<Rightarrow> bounded_queue \<Rightarrow>
     admission_ledger \<times> bounded_queue \<times> (admission_signal + unit)" where
  "offer_export L ps l q =
     (if q_ceiling q < offer_bytes L ps + q_accounted q
      then (fold undo_offer ps l, q, Inl (QueueSaturated (q_name q) (q_ceiling q) (offer_bytes L ps)))
      else (l, fold (\<lambda>po q. fst (offer L (po_queued po) q)) ps q, Inr ()))"

text \<open>A call from the end of its gates: the records, then the hand-off.\<close>

definition finish_export ::
  "layout \<Rightarrow> (export_state \<Rightarrow> export_state) \<Rightarrow> pipeline \<Rightarrow> pipeline \<times> (admission_signal + export_outcome)" where
  "finish_export L records p =
     (let st = records \<lparr>es_ledger = pl_ledger p, es_pending = [], es_outcomes = []\<rparr>;
          (l, q, r) = offer_export L (es_pending st) (es_ledger st) (pl_sink p)
      in (p\<lparr>pl_ledger := l, pl_sink := q\<rparr>,
          case r of Inl sig \<Rightarrow> Inl sig | Inr _ \<Rightarrow> Inr \<lparr>eo_records = es_outcomes st\<rparr>))"

section \<open>Spans\<close>

definition span_total :: "resource_spans list \<Rightarrow> usize" where
  "span_total req = sum_list (map (\<lambda>rs. sum_list (map (\<lambda>ss. length (ss_spans ss)) (rs_scope_spans rs))) req)"

definition take_span ::
  "layout \<Rightarrow> admission_time \<Rightarrow> budget_limits \<Rightarrow> record_rejection + envelope \<Rightarrow> wire_span \<Rightarrow>
     export_state \<Rightarrow> export_state" where
  "take_span L now lim env proto st =
     (case env of
        Inr envelope \<Rightarrow> span_arm L now (decode_span proto envelope lim) st
      | Inl reason \<Rightarrow> push_outcome (RecordRejected reason) st)"

definition take_scope_spans ::
  "layout \<Rightarrow> admission_time \<Rightarrow> budget_limits \<Rightarrow> record_rejection + resource \<Rightarrow> scope_spans \<Rightarrow>
     export_state \<Rightarrow> export_state" where
  "take_scope_spans L now lim res ss =
     fold (take_span L now lim
       (pipeline_envelope res (or_default default_scope (ss_scope ss)) (ss_schema_url ss) lim))
       (ss_spans ss)"

definition take_resource_spans ::
  "layout \<Rightarrow> admission_time \<Rightarrow> budget_limits \<Rightarrow> resource_spans \<Rightarrow> export_state \<Rightarrow> export_state" where
  "take_resource_spans L now lim rs =
     fold (take_scope_spans L now lim
       (decode_resource (or_default default_resource (rs_resource rs)) (rs_schema_url rs) lim))
       (rs_scope_spans rs)"

definition ingest_spans ::
  "layout \<Rightarrow> (bytes \<Rightarrow> string + resource_spans list) \<Rightarrow> admission_time \<Rightarrow> bytes \<Rightarrow> pipeline \<Rightarrow>
     pipeline \<times> (admission_signal + export_outcome)" where
  "ingest_spans L parser now payload p =
     (case and_then (gate p payload) (\<lambda>_.
           and_then (parse_request parser payload) (\<lambda>req.
           and_then (map_err ExportOverCap (check_export_record_count (span_total req) (pl_limits p))) (\<lambda>_.
           Inr req))) of
        Inl sig \<Rightarrow> (p, Inl sig)
      | Inr req \<Rightarrow> finish_export L (fold (take_resource_spans L now (pl_limits p)) req) p)"

section \<open>Logs\<close>

definition log_total :: "resource_logs list \<Rightarrow> usize" where
  "log_total req = sum_list (map (\<lambda>rl. sum_list (map (\<lambda>sl. length (sl_records sl)) (rl_scope_logs rl))) req)"

definition take_log ::
  "layout \<Rightarrow> admission_time \<Rightarrow> budget_limits \<Rightarrow> record_rejection + envelope \<Rightarrow> wire_log \<Rightarrow>
     export_state \<Rightarrow> export_state" where
  "take_log L now lim env proto st =
     (case env of
        Inr envelope \<Rightarrow> log_arm L now (decode_log_record proto envelope lim) st
      | Inl reason \<Rightarrow> push_outcome (RecordRejected reason) st)"

definition take_scope_logs ::
  "layout \<Rightarrow> admission_time \<Rightarrow> budget_limits \<Rightarrow> record_rejection + resource \<Rightarrow> scope_logs \<Rightarrow>
     export_state \<Rightarrow> export_state" where
  "take_scope_logs L now lim res sl =
     fold (take_log L now lim
       (pipeline_envelope res (or_default default_scope (sl_scope sl)) (sl_schema_url sl) lim))
       (sl_records sl)"

definition take_resource_logs ::
  "layout \<Rightarrow> admission_time \<Rightarrow> budget_limits \<Rightarrow> resource_logs \<Rightarrow> export_state \<Rightarrow> export_state" where
  "take_resource_logs L now lim rl =
     fold (take_scope_logs L now lim
       (decode_resource (or_default default_resource (rl_resource rl)) (rl_schema_url rl) lim))
       (rl_scope_logs rl)"

definition ingest_logs ::
  "layout \<Rightarrow> (bytes \<Rightarrow> string + resource_logs list) \<Rightarrow> admission_time \<Rightarrow> bytes \<Rightarrow> pipeline \<Rightarrow>
     pipeline \<times> (admission_signal + export_outcome)" where
  "ingest_logs L parser now payload p =
     (case and_then (gate p payload) (\<lambda>_.
           and_then (parse_request parser payload) (\<lambda>req.
           and_then (map_err ExportOverCap (check_export_record_count (log_total req) (pl_limits p))) (\<lambda>_.
           Inr req))) of
        Inl sig \<Rightarrow> (p, Inl sig)
      | Inr req \<Rightarrow> finish_export L (fold (take_resource_logs L now (pl_limits p)) req) p)"

section \<open>Metrics\<close>

definition point_total :: "resource_metrics list \<Rightarrow> usize" where
  "point_total req =
     sum_list (map (\<lambda>rm. sum_list (map (\<lambda>sm. sum_list (map point_count (sm_metrics sm)))
       (rm_scope_metrics rm))) req)"

text \<open>The resource's refusal is named before the scope's.\<close>

definition metric_identity ::
  "record_rejection + resource \<Rightarrow> record_rejection + instrumentation_scope \<Rightarrow> wire_metric \<Rightarrow>
     budget_limits \<Rightarrow> record_rejection + stream_identity" where
  "metric_identity res sc metric lim =
     and_then res (\<lambda>r. and_then sc (\<lambda>s.
     decode_stream_identity metric \<lparr>env_resource = r, env_scope = s\<rparr> lim))"

definition take_point ::
  "layout \<Rightarrow> admission_time \<Rightarrow> record_rejection + stream_identity \<Rightarrow> record_rejection + metric_point \<Rightarrow>
     export_state \<Rightarrow> export_state" where
  "take_point L now identity point st =
     (case identity of
        Inr s \<Rightarrow> point_arm L now s point st
      | Inl reason \<Rightarrow> push_outcome (RecordRejected reason) st)"

definition take_metric ::
  "layout \<Rightarrow> admission_time \<Rightarrow> budget_limits \<Rightarrow> record_rejection + resource \<Rightarrow>
     record_rejection + instrumentation_scope \<Rightarrow> wire_metric \<Rightarrow> export_state \<Rightarrow> export_state" where
  "take_metric L now lim res sc metric =
     fold (take_point L now (metric_identity res sc metric lim)) (into_points metric lim)"

definition take_scope_metrics ::
  "layout \<Rightarrow> admission_time \<Rightarrow> budget_limits \<Rightarrow> record_rejection + resource \<Rightarrow> scope_metrics \<Rightarrow>
     export_state \<Rightarrow> export_state" where
  "take_scope_metrics L now lim res sm =
     fold (take_metric L now lim res
       (decode_scope (or_default default_scope (sm_scope sm)) (sm_schema_url sm) lim))
       (sm_metrics sm)"

definition take_resource_metrics ::
  "layout \<Rightarrow> admission_time \<Rightarrow> budget_limits \<Rightarrow> resource_metrics \<Rightarrow> export_state \<Rightarrow> export_state" where
  "take_resource_metrics L now lim rm =
     fold (take_scope_metrics L now lim
       (decode_resource (or_default default_resource (rm_resource rm)) (rm_schema_url rm) lim))
       (rm_scope_metrics rm)"

definition ingest_metrics ::
  "layout \<Rightarrow> (bytes \<Rightarrow> string + resource_metrics list) \<Rightarrow> admission_time \<Rightarrow> bytes \<Rightarrow> pipeline \<Rightarrow>
     pipeline \<times> (admission_signal + export_outcome)" where
  "ingest_metrics L parser now payload p =
     (case and_then (gate p payload) (\<lambda>_.
           and_then (parse_request parser payload) (\<lambda>req.
           and_then (map_err ExportOverCap (check_export_point_count (point_total req) (pl_limits p))) (\<lambda>_.
           Inr req))) of
        Inl sig \<Rightarrow> (p, Inl sig)
      | Inr req \<Rightarrow> finish_export L (fold (take_resource_metrics L now (pl_limits p)) req) p)"

section \<open>The three doors as one\<close>

record parsers =
  parse_traces :: "bytes \<Rightarrow> string + resource_spans list"
  parse_logs :: "bytes \<Rightarrow> string + resource_logs list"
  parse_metrics :: "bytes \<Rightarrow> string + resource_metrics list"

datatype export_kind = Traces | Logs | Metrics

fun ingest ::
  "layout \<Rightarrow> parsers \<Rightarrow> export_kind \<Rightarrow> admission_time \<Rightarrow> bytes \<Rightarrow> pipeline \<Rightarrow>
     pipeline \<times> (admission_signal + export_outcome)" where
  "ingest L P Traces now payload p = ingest_spans L (parse_traces P) now payload p"
| "ingest L P Logs now payload p = ingest_logs L (parse_logs P) now payload p"
| "ingest L P Metrics now payload p = ingest_metrics L (parse_metrics P) now payload p"

end
