(* ===== verification/Pipeline_Laws.thy ===== *)
theory Pipeline_Laws
  imports Pipeline
begin

text \<open>
  What a call of the pipeline promises.

  The nested loops of the three calls are one loop over the export's flat list of deliveries
  (\<open>deliver\<close>), in document order, so each law is proved once for every signal. \<open>export_books\<close>
  is the invariant of that loop: what the hand-off would undo of the ledger is exactly what the
  export has created, provided every standing point's stream is interned (\<open>interned_points\<close>); without
  that, streams the export interned may be left over. What the loop spends of the ledger's serials and
  counts is not undone.
\<close>

section \<open>An export as a list of deliveries\<close>

datatype delivery =
    SpanD "record_rejection + span"
  | LogD "record_rejection + log_record"
  | PointD stream_identity "record_rejection + metric_point"
  | RefusedD record_rejection

fun deliver :: "layout \<Rightarrow> admission_time \<Rightarrow> delivery \<Rightarrow> export_state \<Rightarrow> export_state" where
  "deliver L now (SpanD t) st = span_arm L now t st"
| "deliver L now (LogD t) st = log_arm L now t st"
| "deliver L now (PointD s t) st = point_arm L now s t st"
| "deliver L now (RefusedD reason) st = push_outcome (RecordRejected reason) st"

definition span_deliveries :: "budget_limits \<Rightarrow> resource_spans list \<Rightarrow> delivery list" where
  "span_deliveries lim req =
     concat (map (\<lambda>rs. concat (map (\<lambda>ss. map (\<lambda>proto.
       case pipeline_envelope (decode_resource (or_default default_resource (rs_resource rs)) (rs_schema_url rs) lim)
              (or_default default_scope (ss_scope ss)) (ss_schema_url ss) lim of
         Inr env \<Rightarrow> SpanD (decode_span proto env lim) | Inl reason \<Rightarrow> RefusedD reason)
       (ss_spans ss)) (rs_scope_spans rs))) req)"

definition log_deliveries :: "budget_limits \<Rightarrow> resource_logs list \<Rightarrow> delivery list" where
  "log_deliveries lim req =
     concat (map (\<lambda>rl. concat (map (\<lambda>sl. map (\<lambda>proto.
       case pipeline_envelope (decode_resource (or_default default_resource (rl_resource rl)) (rl_schema_url rl) lim)
              (or_default default_scope (sl_scope sl)) (sl_schema_url sl) lim of
         Inr env \<Rightarrow> LogD (decode_log_record proto env lim) | Inl reason \<Rightarrow> RefusedD reason)
       (sl_records sl)) (rl_scope_logs rl))) req)"

definition point_deliveries :: "budget_limits \<Rightarrow> resource_metrics list \<Rightarrow> delivery list" where
  "point_deliveries lim req =
     concat (map (\<lambda>rm. concat (map (\<lambda>sm. concat (map (\<lambda>metric. map (\<lambda>point.
       case metric_identity (decode_resource (or_default default_resource (rm_resource rm)) (rm_schema_url rm) lim)
              (decode_scope (or_default default_scope (sm_scope sm)) (sm_schema_url sm) lim) metric lim of
         Inr s \<Rightarrow> PointD s point | Inl reason \<Rightarrow> RefusedD reason)
       (into_points metric lim)) (sm_metrics sm))) (rm_scope_metrics rm))) req)"

lemma fold_concat_map: "fold f (concat (map g xs)) = fold (\<lambda>x. fold f (g x)) xs"
  by (induction xs) (auto simp: fun_eq_iff)

lemma take_one:
  "take_span L now lim env =
     (\<lambda>proto. deliver L now (case env of Inr e \<Rightarrow> SpanD (decode_span proto e lim) | Inl r \<Rightarrow> RefusedD r))"
  "take_log L now lim env =
     (\<lambda>log. deliver L now (case env of Inr e \<Rightarrow> LogD (decode_log_record log e lim) | Inl r \<Rightarrow> RefusedD r))"
  "take_point L now identity =
     (\<lambda>point. deliver L now (case identity of Inr s \<Rightarrow> PointD s point | Inl r \<Rightarrow> RefusedD r))"
  by (auto simp: fun_eq_iff take_span_def take_log_def take_point_def split: sum.splits)

lemmas take_levels = take_resource_spans_def take_scope_spans_def take_resource_logs_def
  take_scope_logs_def take_resource_metrics_def take_scope_metrics_def take_metric_def

lemma fold_fun_cong: "(\<And>x. f x = g x) \<Longrightarrow> fold f xs = fold g xs"
  by (drule ext) simp

lemma take_spans: "fold (take_resource_spans L now lim) req = fold (deliver L now) (span_deliveries lim req)"
  unfolding span_deliveries_def fold_concat_map fold_map comp_def
  by (auto simp: take_levels take_one intro!: fold_fun_cong)

lemma take_logs: "fold (take_resource_logs L now lim) req = fold (deliver L now) (log_deliveries lim req)"
  unfolding log_deliveries_def fold_concat_map fold_map comp_def
  by (auto simp: take_levels take_one intro!: fold_fun_cong)

lemma take_points: "fold (take_resource_metrics L now lim) req = fold (deliver L now) (point_deliveries lim req)"
  unfolding point_deliveries_def fold_concat_map fold_map comp_def
  by (auto simp: take_levels take_one intro!: fold_fun_cong)

lemma length_span_deliveries: "length (span_deliveries lim req) = span_total req"
  by (simp add: span_deliveries_def span_total_def length_concat comp_def)

lemma length_log_deliveries: "length (log_deliveries lim req) = log_total req"
  by (simp add: log_deliveries_def log_total_def length_concat comp_def)

lemma length_point_deliveries: "length (point_deliveries lim req) = point_total req"
  by (simp add: point_deliveries_def point_total_def length_concat comp_def length_into_points)

text \<open>The deliveries of an export of any kind, or the signal its gates answer.\<close>

fun export_deliveries ::
  "parsers \<Rightarrow> export_kind \<Rightarrow> bytes \<Rightarrow> pipeline \<Rightarrow> admission_signal + delivery list" where
  "export_deliveries P Traces payload p =
     and_then (gate p payload) (\<lambda>_. and_then (parse_request (parse_traces P) payload) (\<lambda>req.
     and_then (map_err ExportOverCap (check_export_record_count (span_total req) (pl_limits p)))
       (\<lambda>_. Inr (span_deliveries (pl_limits p) req))))"
| "export_deliveries P Logs payload p =
     and_then (gate p payload) (\<lambda>_. and_then (parse_request (parse_logs P) payload) (\<lambda>req.
     and_then (map_err ExportOverCap (check_export_record_count (log_total req) (pl_limits p)))
       (\<lambda>_. Inr (log_deliveries (pl_limits p) req))))"
| "export_deliveries P Metrics payload p =
     and_then (gate p payload) (\<lambda>_. and_then (parse_request (parse_metrics P) payload) (\<lambda>req.
     and_then (map_err ExportOverCap (check_export_point_count (point_total req) (pl_limits p)))
       (\<lambda>_. Inr (point_deliveries (pl_limits p) req))))"

lemma case_and_then:
  "(case and_then r f of Inl e \<Rightarrow> g e | Inr x \<Rightarrow> h x) =
     (case r of Inl e \<Rightarrow> g e | Inr y \<Rightarrow> case f y of Inl e \<Rightarrow> g e | Inr x \<Rightarrow> h x)"
  by (cases r) auto

lemma ingest_deliveries:
  "ingest L P k now payload p =
     (case export_deliveries P k payload p of
        Inl sig \<Rightarrow> (p, Inl sig)
      | Inr ds \<Rightarrow> finish_export L (fold (deliver L now) ds) p)"
  by (cases k) (simp_all add: ingest_spans_def ingest_logs_def ingest_metrics_def case_and_then
      take_spans take_logs take_points cong: sum.case_cong)

section \<open>One delivery\<close>

fun admitted_entities :: "record_outcome list \<Rightarrow> entity_id list" where
  "admitted_entities [] = []"
| "admitted_entities (RecordAdmitted e # rs) = e # admitted_entities rs"
| "admitted_entities (_ # rs) = admitted_entities rs"

lemma admitted_entities_append [simp]:
  "admitted_entities (rs @ ss) = admitted_entities rs @ admitted_entities ss"
  by (induction rs rule: admitted_entities.induct) auto

text \<open>What one delivery adds: exactly one outcome, and a pending offer exactly when it is admitted.\<close>

definition delivered ::
  "admission_time \<Rightarrow> export_state \<Rightarrow> export_state \<Rightarrow> record_outcome list \<Rightarrow> pending_offer list \<Rightarrow> bool" where
  "delivered now st st' rs new \<longleftrightarrow>
     es_outcomes st' = es_outcomes st @ rs \<and> es_pending st' = es_pending st @ new \<and>
     map (\<lambda>po. qr_entity (po_queued po)) new = admitted_entities rs \<and>
     (\<forall>po \<in> set new. qr_at (po_queued po) = now)"

lemma delivered_trans:
  "delivered now st st1 rs new \<Longrightarrow> delivered now st1 st2 rs' new' \<Longrightarrow>
     delivered now st st2 (rs @ rs') (new @ new')"
  by (auto simp: delivered_def)

lemma push_outcome_simps [simp]:
  "es_ledger (push_outcome r st) = es_ledger st" "es_pending (push_outcome r st) = es_pending st"
  "es_outcomes (push_outcome r st) = es_outcomes st @ [r]"
  by (simp_all add: push_outcome_def)

lemma outcome_of_Admitted [simp]: "outcome_of out = RecordAdmitted e \<longleftrightarrow> out = Admitted e"
  by (cases out) auto

lemmas arms = span_arm_def log_arm_def point_arm_def

lemma deliver_delivered: "\<exists>r new. delivered now st (deliver L now d st) [r] new"
  by (cases d)
     (auto simp: delivered_def arms Let_def pend_def
       split: sum.splits prod.splits admission_outcome.splits)

lemma deliveries_delivered:
  "\<exists>rs new. delivered now st (fold (deliver L now) ds st) rs new \<and> length rs = length ds"
proof (induction ds arbitrary: st)
  case Nil
  have "delivered now st st [] []" by (simp add: delivered_def)
  then show ?case by auto
next
  case (Cons d ds)
  obtain r new where "delivered now st (deliver L now d st) [r] new"
    using deliver_delivered by blast
  moreover obtain rs new' where
    "delivered now (deliver L now d st) (fold (deliver L now) ds (deliver L now d st)) rs new'"
    "length rs = length ds" using Cons.IH by blast
  ultimately show ?case using delivered_trans by fastforce
qed

section \<open>Undoing an export\<close>

definition entities_of :: "pending_offer list \<Rightarrow> entity_id set" where
  "entities_of ps = (\<lambda>po. qr_entity (po_queued po)) ` set ps"

definition fresh_streams :: "pending_offer list \<Rightarrow> stream_identity set" where
  "fresh_streams ps = {s. \<exists>po \<in> set ps. po_fresh_stream po = Some s}"

lemma pending_sets [simp]:
  "entities_of [] = {}" "fresh_streams [] = {}"
  "entities_of (po # ps) = insert (qr_entity (po_queued po)) (entities_of ps)"
  "entities_of (ps @ qs) = entities_of ps \<union> entities_of qs"
  "fresh_streams (po # ps) = set_option (po_fresh_stream po) \<union> fresh_streams ps"
  "fresh_streams (ps @ qs) = fresh_streams ps \<union> fresh_streams qs"
  by (auto simp: entities_of_def fresh_streams_def)

lemma point_entry_index:
  assumes "wf_ledger L l" "(k, Assigned n) \<in> set (points l)"
  shows "assigned_points l n = Some k"
  using wf_point_entry [OF assms] by auto

lemma points_forget:
  assumes wf: "wf_ledger L l"
  shows "points (forget e l) = filter (\<lambda>p. snd p \<noteq> e) (points l)"
proof (cases e)
  case (Span t s)
  then have "\<forall>p \<in> set (points l). snd p \<noteq> e"
    using wf_point_entry [OF wf] by (metis entity_id.distinct(1) prod.collapse)
  with Span show ?thesis by (simp add: filter_id_conv)
next
  case (Assigned n)
  show ?thesis
  proof (cases "assigned_points l n")
    case None
    have "snd p \<noteq> e" if "p \<in> set (points l)" for p
      using point_entry_index [OF wf, of "fst p" n] that None Assigned by (cases p) auto
    with None Assigned show ?thesis by (simp add: filter_id_conv)
  next
    case (Some k)
    have "point_key_eq (fst p) k \<longleftrightarrow> snd p = e" if p: "p \<in> set (points l)" for p
    proof
      assume "point_key_eq (fst p) k"
      then have "p = (k, Assigned n)"
        using point_key.distinct_member_eq [OF wf_ledger_parts(2) [OF wf] p wf_assigned_entry [OF wf Some]]
        by simp
      with Assigned show "snd p = e" by simp
    next
      assume "snd p = e"
      then have "fst p = k"
        using point_entry_index [OF wf, of "fst p" n] p Some Assigned by (cases p) auto
      then show "point_key_eq (fst p) k" by (simp add: point_key.eq_refl)
    qed
    with Some Assigned show ?thesis by (simp add: remove_by_def cong: filter_cong)
  qed
qed

lemma streams_forget [simp]: "streams (forget e l) = streams l"
  by (cases e) (auto split: option.splits)

lemma forget_counts: "next_serial (forget e l) = next_serial l" "anomalies (forget e l) = anomalies l"
  by (cases e; auto split: option.splits)+

lemma wf_undo_offer: "wf_ledger L l \<Longrightarrow> wf_ledger L (undo_offer po l)"
  by (auto simp: undo_offer_def Let_def wf_forget wf_release_stream split: option.splits)

lemma undo_offer_effect:
  fixes po :: pending_offer
  assumes wf: "wf_ledger L l"
  defines "e \<equiv> qr_entity (po_queued po)"
  shows "spans (undo_offer po l) (t, s) = (if e = Span t s then None else spans l (t, s))"
    and "assigned_points (undo_offer po l) n = (if e = Assigned n then None else assigned_points l n)"
    and "points (undo_offer po l) = filter (\<lambda>p. snd p \<noteq> e) (points l)"
    and "streams (undo_offer po l) =
      filter (\<lambda>p. \<forall>s \<in> set_option (po_fresh_stream po). \<not> stream_eq (fst p) s) (streams l)"
    and "limits (undo_offer po l) = limits l" and "next_serial (undo_offer po l) = next_serial l"
    and "anomalies (undo_offer po l) = anomalies l"
  by (cases "po_fresh_stream po";
      simp add: undo_offer_def Let_def e_def release_stream_def remove_by_def
        spans_forget assigned_points_forget points_forget [OF wf] forget_counts del: forget.simps)+

lemma wf_undo: "wf_ledger L l \<Longrightarrow> wf_ledger L (fold undo_offer ps l)"
  by (induction ps arbitrary: l) (auto simp: wf_undo_offer)

lemma undo_effect:
  assumes "wf_ledger L l"
  shows "spans (fold undo_offer ps l) (t, s) = (if Span t s \<in> entities_of ps then None else spans l (t, s))
    \<and> assigned_points (fold undo_offer ps l) n =
        (if Assigned n \<in> entities_of ps then None else assigned_points l n)
    \<and> points (fold undo_offer ps l) = filter (\<lambda>p. snd p \<notin> entities_of ps) (points l)
    \<and> streams (fold undo_offer ps l) =
        filter (\<lambda>p. \<forall>s \<in> fresh_streams ps. \<not> stream_eq (fst p) s) (streams l)
    \<and> limits (fold undo_offer ps l) = limits l \<and> next_serial (fold undo_offer ps l) = next_serial l
    \<and> anomalies (fold undo_offer ps l) = anomalies l"
  using assms
proof (induction ps arbitrary: l)
  case (Cons po ps)
  note u = undo_offer_effect [OF Cons.prems, of po]
  from Cons.IH [OF wf_undo_offer [OF Cons.prems], of po] show ?case
    by (simp add: u) (auto intro!: filter_cong)
qed simp

section \<open>The books of an export\<close>

definition interned_points :: "admission_ledger \<Rightarrow> bool" where
  "interned_points l \<longleftrightarrow> (\<forall>p \<in> set (points l). get_by stream_eq (streams l) (pi_stream (fst p)) \<noteq> None)"

text \<open>
  Two ledgers that hold the same entries, the second perhaps more interned streams; the flag \<open>b\<close> says
  that it has none more. The exact law of the streams needs \<open>interned_points\<close>, the rest does not.
\<close>

definition same_books :: "bool \<Rightarrow> admission_ledger \<Rightarrow> admission_ledger \<Rightarrow> bool" where
  "same_books b l l' \<longleftrightarrow>
     spans l' = spans l \<and> points l' = points l \<and> assigned_points l' = assigned_points l \<and>
     (\<exists>more. streams l' = streams l @ more) \<and> (b \<longrightarrow> streams l' = streams l) \<and> limits l' = limits l"

definition kept_streams :: "pending_offer list \<Rightarrow> admission_ledger \<Rightarrow> (stream_identity \<times> unit) list" where
  "kept_streams ps l = filter (\<lambda>p. \<forall>s \<in> fresh_streams ps. \<not> stream_eq (fst p) s) (streams l)"

definition export_books ::
  "layout \<Rightarrow> bool \<Rightarrow> admission_ledger \<Rightarrow> admission_ledger \<Rightarrow> pending_offer list \<Rightarrow> bool" where
  "export_books L b l0 l ps \<longleftrightarrow>
     wf_ledger L l \<and> limits l = limits l0 \<and>
     (\<forall>t s. spans l0 (t, s) = (if Span t s \<in> entities_of ps then None else spans l (t, s))) \<and>
     (\<forall>n. assigned_points l0 n = (if Assigned n \<in> entities_of ps then None else assigned_points l n)) \<and>
     points l0 = filter (\<lambda>p. snd p \<notin> entities_of ps) (points l) \<and>
     (\<exists>more. kept_streams ps l = streams l0 @ more) \<and>
     (b \<longrightarrow> interned_points l \<and> kept_streams ps l = streams l0)"

lemma export_books_start: "wf_ledger L l \<Longrightarrow> (b \<Longrightarrow> interned_points l) \<Longrightarrow> export_books L b l l []"
  by (simp add: export_books_def kept_streams_def)

lemma export_books_undo:
  assumes "export_books L b l0 l ps"
  shows "same_books b l0 (fold undo_offer ps l)"
proof -
  have wf: "wf_ledger L l" using assms by (simp add: export_books_def)
  have "spans (fold undo_offer ps l) k = spans l0 k" for k
    using assms undo_effect [OF wf, of ps "fst k" "snd k"] by (cases k) (simp add: export_books_def)
  moreover have "assigned_points (fold undo_offer ps l) n = assigned_points l0 n" for n
    using assms undo_effect [OF wf, of ps _ _ n] by (simp add: export_books_def)
  ultimately show ?thesis
    using assms undo_effect [OF wf, of ps] by (simp add: same_books_def export_books_def kept_streams_def fun_eq_iff)
qed

lemma export_books_same:
  "export_books L b l0 l ps \<Longrightarrow> same_books b l l' \<Longrightarrow> wf_ledger L l' \<Longrightarrow> export_books L b l0 l' ps"
  by (auto simp: export_books_def same_books_def interned_points_def kept_streams_def)

lemma same_books_counters:
  "same_books b l (count_mismatch l)" "same_books b l (count_span_conflict l)"
  "same_books b l (count_point_conflict l)" "same_books b l l"
  by (simp_all add: same_books_def)

lemma export_books_add:
  assumes books: "export_books L b l0 l ps" and wf: "wf_ledger L l'" and int: "b \<Longrightarrow> interned_points l'"
    and lim: "limits l' = limits l" and e: "qr_entity (po_queued po) = e" "e \<notin> live_entities l"
    and sp: "\<And>t s. Span t s \<noteq> e \<Longrightarrow> spans l' (t, s) = spans l (t, s)"
    and ap: "\<And>n. Assigned n \<noteq> e \<Longrightarrow> assigned_points l' n = assigned_points l n"
    and pt: "filter (\<lambda>p. snd p \<noteq> e) (points l') = points l"
    and st: "filter (\<lambda>p. \<forall>s \<in> set_option (po_fresh_stream po). \<not> stream_eq (fst p) s) (streams l') = streams l"
  shows "export_books L b l0 l' (ps @ [po])"
proof -
  have wf0: "wf_ledger L l" using books by (simp add: export_books_def)
  have sp0: "spans l (t, s) = None" if "e = Span t s" for t s
    using e(2) that live_span_iff [OF wf0, of t s] by (cases "spans l (t, s)") simp_all
  have ap0: "assigned_points l n = None" if "e = Assigned n" for n
    using e(2) that live_assigned_iff [OF wf0, of n] by (cases "assigned_points l n") simp_all
  have "points l0 = filter (\<lambda>p. snd p \<notin> entities_of (ps @ [po])) (points l')"
    using books by (simp add: export_books_def pt [symmetric] e(1) conj_commute)
  moreover have "kept_streams (ps @ [po]) l' = kept_streams ps l"
    by (auto simp: kept_streams_def st [symmetric] ball_Un intro!: filter_cong)
  ultimately show ?thesis
    using books wf int lim sp ap sp0 ap0 by (auto simp: export_books_def e(1))
qed

lemma serial_step_live:
  assumes "wf_ledger L l"
  shows "Assigned (next_serial l + 1) \<notin> live_entities l"
  by (rule serial_unused [OF assms]) simp

lemma interned_points_cong:
  "points l' = points l \<Longrightarrow> streams l' = streams l \<Longrightarrow> interned_points l' = interned_points l"
  by (simp add: interned_points_def)

lemma points_not_live: "e \<notin> live_entities l \<Longrightarrow> filter (\<lambda>p. snd p \<noteq> e) (points l) = points l"
  by (force simp: filter_id_conv live_entities_def)

text \<open>An assigned entity that leaves no entry: a log record, a span without natural identity.\<close>

lemma export_books_serial:
  assumes "export_books L b l0 l ps" "qr_entity (po_queued po) = Assigned (next_serial l + 1)"
    "po_fresh_stream po = None"
  shows "export_books L b l0 (l\<lparr>next_serial := next_serial l + 1\<rparr>) (ps @ [po])"
proof (rule export_books_add [OF assms(1) _ _ _ assms(2)])
  have wf: "wf_ledger L l" and int: "b \<Longrightarrow> interned_points l" using assms(1) by (simp_all add: export_books_def)
  show "wf_ledger L (l\<lparr>next_serial := next_serial l + 1\<rparr>)" by (rule wf_ledger_serial [OF wf])
  show "b \<Longrightarrow> interned_points (l\<lparr>next_serial := next_serial l + 1\<rparr>)" using int by (simp add: interned_points_def)
  show "Assigned (next_serial l + 1) \<notin> live_entities l" by (rule serial_step_live [OF wf])
  then show "filter (\<lambda>p. snd p \<noteq> Assigned (next_serial l + 1)) (points (l\<lparr>next_serial := next_serial l + 1\<rparr>)) = points l"
    by (simp add: points_not_live)
qed (simp_all add: assms(3))

lemma books_span_arm:
  assumes books: "export_books L b l0 (es_ledger st) (es_pending st)"
  shows "export_books L b l0 (es_ledger (span_arm L now t st)) (es_pending (span_arm L now t st))"
proof (cases t)
  case (Inl reason)
  with books show ?thesis by (simp add: span_arm_def)
next
  case (Inr s)
  let ?l = "es_ledger st"
  have wf: "wf_ledger L ?l" and int: "b \<Longrightarrow> interned_points ?l"
    using books by (simp_all add: export_books_def)
  note wf' = wf_admit_span [OF wf, of s]
  show ?thesis
  proof (cases rule: admit_span_cases [of L s ?l])
    case (rejected r)
    with Inr books show ?thesis by (simp add: span_arm_def)
  next
    case nameless
    with Inr export_books_serial [OF books] show ?thesis by (simp add: span_arm_def pend_def)
  next
    case (collapsed k e held)
    with Inr wf' export_books_same [OF books] show ?thesis
      by (simp add: span_arm_def same_books_counters split: if_splits)
  next
    case (conflict k e held)
    with Inr wf' export_books_same [OF books] show ?thesis
      by (simp add: span_arm_def same_books_counters)
  next
    case (fresh k)
    have "Span (fst k) (snd k) \<notin> live_entities ?l"
      using fresh(3) live_span_iff [OF wf] by simp
    moreover note points_not_live [OF this]
    ultimately have "export_books L b l0 (?l\<lparr>spans := (spans ?l)(k \<mapsto> (Span (fst k) (snd k), s))\<rparr>)
        (es_pending st @ [pend now (Span (fst k) (snd k)) (StoredSpan s) None])"
      using wf' fresh(4) int
      by (intro export_books_add [OF books _ _ _ _ \<open>Span (fst k) (snd k) \<notin> live_entities ?l\<close>])
         (auto simp: pend_def interned_points_def)
    with Inr fresh(4) show ?thesis by (simp add: span_arm_def)
  qed
qed

lemma books_log_arm:
  assumes books: "export_books L b l0 (es_ledger st) (es_pending st)"
  shows "export_books L b l0 (es_ledger (log_arm L now t st)) (es_pending (log_arm L now t st))"
proof (cases t)
  case (Inr r)
  show ?thesis
  proof (cases "check_log_record L r (limits (es_ledger st))")
    case (Inl e)
    with \<open>t = Inr r\<close> books show ?thesis by (simp add: log_arm_def admit_log_record_def)
  next
    case (Inr u)
    with \<open>t = Inr r\<close> export_books_serial [OF books] show ?thesis
      by (simp add: log_arm_def admit_log_record_def assigned_entity_def pend_def)
  qed
qed (use books in \<open>simp add: log_arm_def\<close>)

lemma covered_intern:
  assumes "interned_points l" "get_by point_key_eq (points l) key = Some (k, e)"
    "stream_eq (pi_stream k) s'" "intern s l = (l1, s', fresh)"
  shows "\<not> fresh \<and> l1 = l"
proof -
  have "(k, e) \<in> set (points l)" using assms(2) by (auto dest: get_by_SomeD)
  with assms(1) have "get_by stream_eq (streams l) (pi_stream k) \<noteq> None"
    by (force simp: interned_points_def)
  moreover have "stream_eq (pi_stream k) s"
    using assms(3) intern_stream_eq [OF assms(4)] stream_key.eq_trans by blast
  ultimately have "get_by stream_eq (streams l) s \<noteq> None"
    using stream_key.get_cong by metis
  with assms(4) show ?thesis by (auto simp: intern_def split: option.splits)
qed

lemma intern_grows:
  assumes "intern s l = (l1, s', fresh)"
  shows "streams l1 = (if fresh then streams l @ [(s, ())] else streams l)"
    and "fresh \<Longrightarrow> s' = s \<and> get_by stream_eq (streams l) s = None"
    and "get_by stream_eq (streams l1) s' \<noteq> None"
    and "get_by stream_eq (streams l) x \<noteq> None \<Longrightarrow> get_by stream_eq (streams l1) x \<noteq> None"
proof -
  show "streams l1 = (if fresh then streams l @ [(s, ())] else streams l)"
    using assms by (auto simp: intern_def split: option.splits)
  note str = this
  show "s' = s \<and> get_by stream_eq (streams l) s = None" if fresh
    using assms that by (auto simp: intern_def split: option.splits)
  then show "get_by stream_eq (streams l1) s' \<noteq> None"
  proof (cases fresh)
    case True
    with \<open>fresh \<Longrightarrow> s' = s \<and> get_by stream_eq (streams l) s = None\<close> str show ?thesis
      by (simp add: stream_key.get_append_new stream_key.eq_refl)
  next
    case False
    with assms obtain u where "get_by stream_eq (streams l) s = Some (s', u)"
      by (auto simp: intern_def split: option.splits)
    then have "(s', u) \<in> set (streams l)" by (auto dest: get_by_SomeD)
    with False str have "(s', u) \<in> set (streams l1)" by simp
    then show ?thesis using stream_key.eq_refl [of s'] unfolding get_by_None_iff by force
  qed
  show "get_by stream_eq (streams l1) x \<noteq> None" if "get_by stream_eq (streams l) x \<noteq> None"
    using that by (auto simp: str stream_key.get_append_new)
qed

lemma undo_intern_streams:
  assumes "intern s l = (l1, s', fresh)"
  shows "filter (\<lambda>p. \<forall>x \<in> set_option (if fresh then Some s' else None). \<not> stream_eq (fst p) x) (streams l1)
    = streams l"
proof (cases fresh)
  case True
  with intern_grows [OF assms] show ?thesis
    by (auto simp: filter_id_conv get_by_None_iff stream_key.eq_refl)
qed (use intern_grows [OF assms] in simp)

lemma books_point_arm:
  assumes books: "export_books L b l0 (es_ledger st) (es_pending st)"
  shows "export_books L b l0 (es_ledger (point_arm L now s t st)) (es_pending (point_arm L now s t st))"
proof (cases t)
  case (Inl reason)
  with books show ?thesis by (simp add: point_arm_def)
next
  case (Inr p)
  let ?l = "es_ledger st"
  have wf: "wf_ledger L ?l" and int: "b \<Longrightarrow> interned_points ?l"
    using books by (simp_all add: export_books_def)
  note wf' = wf_admit_metric_point [OF wf, of s p]
  show ?thesis
  proof (cases "point_gates L s p (limits ?l)")
    case False
    then obtain out where "admit_metric_point L s p ?l = (?l, refused_point out)" "outcome_entity out = None"
      by (rule admit_metric_point_refused)
    with Inr books show ?thesis
      by (cases out) (simp_all add: point_arm_def refused_point_def)
  next
    case True
    obtain l1 s' fresh where i: "intern s ?l = (l1, s', fresh)" by (metis prod_cases3)
    note gates = admit_metric_point_gates [OF True]
    have more: "\<exists>more. streams l1 = streams ?l @ more" using intern_grows(1) [OF i] by auto
    note rest = intern_rest [OF i] more
    show ?thesis
    proof (cases rule: admit_interned_cases [where s = s and p = p and interned = s' and fresh = fresh and l = l1])
      case (collapsed k e)
      then have "same_books b ?l (fst (admit_interned s p s' fresh l1))"
        using covered_intern [OF int _ _ i] rest by (cases b) (auto simp: same_books_def)
      with Inr collapsed(4) gates i wf' export_books_same [OF books] show ?thesis
        by (simp add: point_arm_def split: if_splits)
    next
      case (conflict k e)
      then have "same_books b ?l (fst (admit_interned s p s' fresh l1))"
        using covered_intern [OF int _ _ i] rest by (cases b) (auto simp: same_books_def)
      with Inr conflict(4) gates i wf' export_books_same [OF books] show ?thesis
        by (simp add: point_arm_def)
    next
      case (descriptor k e)
      have "same_books b ?l (fst (admit_interned s p s' fresh l1))"
        using arg_cong [OF intern_undone [OF i], of streams] rest descriptor(3)
        by (cases fresh) (simp_all add: same_books_def release_stream_def)
      with Inr descriptor(3) gates i wf' export_books_same [OF books] show ?thesis
        by (simp add: point_arm_def refused_point_def)
    next
      case new: fresh
      let ?e = "Assigned (next_serial l1 + 1)" and ?k = "of_interned s' p"
      let ?l2 = "l1\<lparr>next_serial := next_serial l1 + 1, points := points l1 @ [(?k, ?e)],
        assigned_points := (assigned_points l1)(next_serial l1 + 1 \<mapsto> ?k)\<rparr>"
      have nl: "?e \<notin> live_entities ?l" using serial_step_live [OF wf] rest by simp
      have "interned_points ?l2" if b
        using int [OF that] rest intern_grows(3,4) [OF i] by (auto simp: interned_points_def)
      moreover have "wf_ledger L ?l2" using wf' gates i new(2) by simp
      ultimately have "export_books L b l0 ?l2
          (es_pending st @ [pend now ?e (StoredPoint s' p) (if fresh then Some s' else None)])"
        using rest undo_intern_streams [OF i] points_not_live [OF nl]
        by (intro export_books_add [OF books _ _ _ _ nl]) (auto simp: pend_def)
      with Inr gates i new(2) show ?thesis by (cases fresh) (simp_all add: point_arm_def)
    qed
  qed
qed

lemma books_deliver:
  "export_books L b l0 (es_ledger st) (es_pending st) \<Longrightarrow>
     export_books L b l0 (es_ledger (deliver L now d st)) (es_pending (deliver L now d st))"
  by (cases d) (simp_all add: books_span_arm books_log_arm books_point_arm)

lemma books_deliveries:
  "export_books L b l0 (es_ledger st) (es_pending st) \<Longrightarrow>
     export_books L b l0 (es_ledger (fold (deliver L now) ds st)) (es_pending (fold (deliver L now) ds st))"
  by (induction ds arbitrary: st) (simp_all add: books_deliver)

section \<open>What an export spends\<close>

text \<open>Serials and anomaly counts only grow, by at most one serial a delivery.\<close>

definition spends :: "nat \<Rightarrow> admission_ledger \<Rightarrow> admission_ledger \<Rightarrow> bool" where
  "spends n l l' \<longleftrightarrow>
     next_serial l \<le> next_serial l' \<and> next_serial l' \<le> next_serial l + n \<and>
     span_identity_conflicts (anomalies l) \<le> span_identity_conflicts (anomalies l') \<and>
     point_identity_conflicts (anomalies l) \<le> point_identity_conflicts (anomalies l') \<and>
     provenance_mismatches (anomalies l) \<le> provenance_mismatches (anomalies l')"

lemma spends_trans: "spends m l l1 \<Longrightarrow> spends n l1 l2 \<Longrightarrow> spends (m + n) l l2"
  by (auto simp: spends_def)

lemma spends_simps [simp]:
  "spends n l l" "spends (Suc 0) l (count_mismatch l)" "spends (Suc 0) l (count_span_conflict l)"
  "spends (Suc 0) l (count_point_conflict l)"
  by (simp_all add: spends_def ledger_counters)

lemma span_admission_spends: "spends (Suc 0) l (fst (admit_span L s l))"
  by (cases rule: admit_span_cases [of L s l]) (auto simp: spends_def ledger_counters)

lemma log_admission_spends: "spends (Suc 0) l (fst (admit_log_record L r l))"
  by (auto simp: admit_log_record_def assigned_entity_def spends_def split: sum.splits)

lemma point_admission_spends: "spends (Suc 0) l (fst (admit_metric_point L s p l))"
proof (cases "point_gates L s p (limits l)")
  case False
  then obtain out where "admit_metric_point L s p l = (l, refused_point out)"
    by (rule admit_metric_point_refused)
  then show ?thesis by simp
next
  case True
  obtain l1 s' fresh where i: "intern s l = (l1, s', fresh)" by (metis prod_cases3)
  show ?thesis
    by (cases rule: admit_interned_cases [where s = s and p = p and interned = s' and fresh = fresh and l = l1])
       (auto simp: admit_metric_point_gates [OF True] i intern_rest [OF i] spends_def ledger_counters
         release_stream_def)
qed

lemma arm_ledgers:
  "es_ledger (span_arm L now t st) = (case t of Inl _ \<Rightarrow> es_ledger st | Inr s \<Rightarrow> fst (admit_span L s (es_ledger st)))"
  "es_ledger (log_arm L now u st) = (case u of Inl _ \<Rightarrow> es_ledger st | Inr r \<Rightarrow> fst (admit_log_record L r (es_ledger st)))"
  "es_ledger (point_arm L now s v st) =
     (case v of Inl _ \<Rightarrow> es_ledger st | Inr p \<Rightarrow> fst (admit_metric_point L s p (es_ledger st)))"
  by (auto simp: arms Let_def split: sum.splits prod.splits admission_outcome.splits)

lemma deliver_spends: "spends (Suc 0) (es_ledger st) (es_ledger (deliver L now d st))"
  by (cases d)
     (auto simp: arm_ledgers span_admission_spends log_admission_spends point_admission_spends split: sum.splits)

lemma deliveries_spend: "spends (length ds) (es_ledger st) (es_ledger (fold (deliver L now) ds st))"
proof (induction ds arbitrary: st)
  case (Cons d ds)
  from spends_trans [OF deliver_spends Cons.IH] show ?case by simp
qed simp

section \<open>What is queued was gated\<close>

fun wf_stored :: "stored_record \<Rightarrow> bool" where
  "wf_stored (StoredSpan s) \<longleftrightarrow> wf_span s"
| "wf_stored (StoredLog r) \<longleftrightarrow> wf_log_record r"
| "wf_stored (StoredPoint s p) \<longleftrightarrow> wf_stream s \<and> wf_point p"

fun gated :: "layout \<Rightarrow> budget_limits \<Rightarrow> stored_record \<Rightarrow> bool" where
  "gated L lim (StoredSpan s) \<longleftrightarrow> span_within L lim s"
| "gated L lim (StoredLog r) \<longleftrightarrow> log_within L lim r"
| "gated L lim (StoredPoint s p) \<longleftrightarrow> point_gates L s p lim"

definition admissible :: "layout \<Rightarrow> budget_limits \<Rightarrow> queued_record \<Rightarrow> bool" where
  "admissible L lim q \<longleftrightarrow> wf_stored (qr_record q) \<and> gated L lim (qr_record q)"

fun wf_delivery :: "delivery \<Rightarrow> bool" where
  "wf_delivery (SpanD t) \<longleftrightarrow> (\<forall>s. t = Inr s \<longrightarrow> wf_span s)"
| "wf_delivery (LogD t) \<longleftrightarrow> (\<forall>r. t = Inr r \<longrightarrow> wf_log_record r)"
| "wf_delivery (PointD s t) \<longleftrightarrow> wf_stream s \<and> (\<forall>p. t = Inr p \<longrightarrow> wf_point p)"
| "wf_delivery (RefusedD _) \<longleftrightarrow> True"

lemma pipeline_envelope_wf:
  "pipeline_envelope (decode_resource r u lim) s v lim = Inr env \<Longrightarrow> wf_envelope env"
  by (auto simp: pipeline_envelope_def and_then_Inr_iff wf_envelope_def decode_resource_wf decode_scope_wf)

lemma metric_identity_wf:
  "metric_identity (decode_resource r u lim) (decode_scope s v lim) m lim = Inr x \<Longrightarrow> wf_stream x"
  by (auto simp: metric_identity_def and_then_Inr_iff wf_envelope_def
      intro!: decode_stream_identity_wf dest: decode_resource_wf decode_scope_wf)

lemma deliveries_wf:
  "d \<in> set (span_deliveries lim spans_req) \<Longrightarrow> wf_delivery d"
  "d \<in> set (log_deliveries lim logs_req) \<Longrightarrow> wf_delivery d"
  "d \<in> set (point_deliveries lim points_req) \<Longrightarrow> wf_delivery d"
  by (auto simp: span_deliveries_def log_deliveries_def point_deliveries_def into_points_wf
      split: sum.splits
      dest: metric_identity_wf decode_span_wf [OF pipeline_envelope_wf]
        decode_log_record_wf [OF pipeline_envelope_wf])

lemma export_deliveries_wf:
  "export_deliveries P k payload p = Inr ds \<Longrightarrow> d \<in> set ds \<Longrightarrow> wf_delivery d"
  by (cases k) (auto simp: and_then_Inr_iff deliveries_wf)

lemma wf_stream_cong: "stream_eq a b \<Longrightarrow> wf_stream a = wf_stream b"
  by (simp add: stream_eq_def resource_eq_def wf_stream_def wf_resource_def)

lemma admitted_span_record:
  assumes "admit_span L s l = (l', adm)" "sa_outcome adm = Admitted e"
  shows "sa_record adm = Some s \<and> span_within L (limits l) s"
  using assms by (cases rule: admit_span_cases [of L s l]) (auto simp: budget_span)

lemma admitted_log_gated:
  "admit_log_record L r l = (l', Admitted e) \<Longrightarrow> log_within L (limits l) r"
  by (auto simp: admit_log_record_def assigned_entity_def budget_log [symmetric] split: sum.splits)

lemma admitted_point_record:
  assumes "admit_metric_point L s p l = (l', adm)" "pa_outcome adm = Admitted e"
  shows "\<exists>s'. pa_record adm = Some p \<and> pa_stream adm = Some s' \<and> stream_eq s' s \<and>
    point_gates L s p (limits l)"
proof (cases "point_gates L s p (limits l)")
  case True
  obtain l1 s' fresh where i: "intern s l = (l1, s', fresh)" by (metis prod_cases3)
  with True assms have a: "admit_interned s p s' fresh l1 = (l', adm)"
    by (simp add: admit_metric_point_gates)
  have "pa_record adm = Some p \<and> pa_stream adm = Some s'"
    using a assms(2)
    by (cases rule: admit_interned_cases [where s = s and p = p and interned = s' and fresh = fresh and l = l1])
       (auto simp: refused_point_def)
  with True intern_stream_eq [OF i] show ?thesis by blast
next
  case False
  then obtain out where "admit_metric_point L s p l = (l, refused_point out)" "outcome_entity out = None"
    by (rule admit_metric_point_refused)
  with assms show ?thesis by (auto simp: refused_point_def)
qed

text \<open>The ledger and the pending offers after one arm.\<close>

lemma span_arm_effect:
  assumes "admit_span L s (es_ledger st) = (l', adm)"
  shows "es_ledger (span_arm L now (Inr s) st) = l'"
    and "es_pending (span_arm L now (Inr s) st) = es_pending st @
      (case sa_outcome adm of
         Admitted e \<Rightarrow> [pend now e (StoredSpan (the (sa_record adm))) None] | _ \<Rightarrow> [])"
  using assms by (auto simp: span_arm_def Let_def split: admission_outcome.splits)

lemma log_arm_effect:
  assumes "admit_log_record L r (es_ledger st) = (l', out)"
  shows "es_ledger (log_arm L now (Inr r) st) = l'"
    and "es_pending (log_arm L now (Inr r) st) = es_pending st @
      (case out of Admitted e \<Rightarrow> [pend now e (StoredLog r) None] | _ \<Rightarrow> [])"
  using assms by (auto simp: log_arm_def Let_def split: admission_outcome.splits)

lemma point_arm_effect:
  assumes "admit_metric_point L s p (es_ledger st) = (l', adm)"
  shows "es_ledger (point_arm L now s (Inr p) st) = l'"
    and "es_pending (point_arm L now s (Inr p) st) = es_pending st @
      (case pa_outcome adm of
         Admitted e \<Rightarrow> [pend now e (StoredPoint (the (pa_stream adm)) (the (pa_record adm)))
           (if pa_fresh_intern adm then pa_stream adm else None)]
       | _ \<Rightarrow> [])"
  using assms by (auto simp: point_arm_def Let_def split: admission_outcome.splits)

lemma arm_refused:
  "es_ledger (span_arm L now (Inl e) st) = es_ledger st" "es_pending (span_arm L now (Inl e) st) = es_pending st"
  "es_ledger (log_arm L now (Inl e) st) = es_ledger st" "es_pending (log_arm L now (Inl e) st) = es_pending st"
  "es_ledger (point_arm L now s (Inl e) st) = es_ledger st" "es_pending (point_arm L now s (Inl e) st) = es_pending st"
  by (simp_all add: arms)

lemma deliver_admissible:
  assumes "wf_delivery d" "limits (es_ledger st) = lim"
    "\<forall>po \<in> set (es_pending st). admissible L lim (po_queued po)"
  shows "limits (es_ledger (deliver L now d st)) = lim \<and>
    (\<forall>po \<in> set (es_pending (deliver L now d st)). admissible L lim (po_queued po))"
proof (cases d)
  case (SpanD t)
  show ?thesis
  proof (cases t)
    case (Inr s)
    obtain l' adm where a: "admit_span L s (es_ledger st) = (l', adm)" by (cases "admit_span L s (es_ledger st)")
    have "limits l' = lim" using admit_span_grows(3) [of L s "es_ledger st"] a assms(2) by simp
    with Inr SpanD assms admitted_span_record [OF a] show ?thesis
      by (cases "sa_outcome adm") (auto simp: span_arm_effect [OF a] pend_def admissible_def)
  qed (use SpanD assms in \<open>simp add: arm_refused\<close>)
next
  case (LogD t)
  show ?thesis
  proof (cases t)
    case (Inr r)
    obtain l' out where a: "admit_log_record L r (es_ledger st) = (l', out)"
      by (cases "admit_log_record L r (es_ledger st)")
    have "limits l' = lim" using admit_log_record_rest(3) [of L r "es_ledger st"] a assms(2) by simp
    with Inr LogD assms a admitted_log_gated [of L r "es_ledger st"] show ?thesis
      by (cases out) (auto simp: log_arm_effect [OF a] pend_def admissible_def)
  qed (use LogD assms in \<open>simp add: arm_refused\<close>)
next
  case (PointD s t)
  show ?thesis
  proof (cases t)
    case (Inr p)
    obtain l' adm where a: "admit_metric_point L s p (es_ledger st) = (l', adm)"
      by (cases "admit_metric_point L s p (es_ledger st)")
    have lim: "limits l' = lim" using admit_metric_point_grows(3) [of L s p "es_ledger st"] a assms(2) by simp
    show ?thesis
    proof (cases "\<exists>e. pa_outcome adm = Admitted e")
      case True
      then obtain e where e: "pa_outcome adm = Admitted e" by blast
      from admitted_point_record [OF a e] obtain s' where
        "pa_record adm = Some p" "pa_stream adm = Some s'" "stream_eq s' s" "point_gates L s p lim"
        using assms(2) by blast
      moreover from this wf_stream_cong [of s' s] point_gates_cong [of s' s L p lim] Inr PointD assms(1)
      have "admissible L lim (po_queued (pend now e (StoredPoint s' p) fr))" for fr
        by (simp add: pend_def admissible_def)
      ultimately show ?thesis
        using Inr PointD assms(2,3) lim e by (auto simp: point_arm_effect [OF a])
    next
      case False
      with Inr PointD assms lim show ?thesis
        by (cases "pa_outcome adm") (auto simp: point_arm_effect [OF a])
    qed
  qed (use PointD assms in \<open>simp add: arm_refused\<close>)
next
  case (RefusedD r)
  with assms show ?thesis by simp
qed

lemma deliveries_admissible:
  assumes "\<forall>d \<in> set ds. wf_delivery d" "limits (es_ledger st) = lim"
    "\<forall>po \<in> set (es_pending st). admissible L lim (po_queued po)"
  shows "\<forall>po \<in> set (es_pending (fold (deliver L now) ds st)). admissible L lim (po_queued po)"
  using assms
proof (induction ds arbitrary: st)
  case (Cons d ds)
  have "wf_delivery d" "\<forall>d \<in> set ds. wf_delivery d" using Cons.prems(1) by simp_all
  note one = deliver_admissible [OF this(1) Cons.prems(2,3), of now]
  show ?case
    using Cons.IH [OF \<open>\<forall>d \<in> set ds. wf_delivery d\<close>, of "deliver L now d st"] one by simp
qed simp

end
