(* ===== verification/Pipeline_Promises.thy ===== *)
theory Pipeline_Promises
  imports Pipeline_Laws
begin

text \<open>
  The properties of the pipeline: what a refused export leaves behind, what an accepted one
  queues, which records the queue can hold over a whole session, and what the startup bound
  covers.
\<close>

section \<open>The end of a call\<close>

definition start_state :: "pipeline \<Rightarrow> export_state" where
  "start_state p = \<lparr>es_ledger = pl_ledger p, es_pending = [], es_outcomes = []\<rparr>"

abbreviation end_state where
  "end_state L now ds p \<equiv> fold (deliver L now) ds (start_state p)"

lemma ingest_cases:
  obtains (gated_out) sig where "export_deliveries P k payload p = Inl sig"
      "ingest L P k now payload p = (p, Inl sig)"
  | (saturated) ds where "export_deliveries P k payload p = Inr ds"
      "q_ceiling (pl_sink p) < offer_bytes L (es_pending (end_state L now ds p)) + q_accounted (pl_sink p)"
      "ingest L P k now payload p =
         (p\<lparr>pl_ledger := fold undo_offer (es_pending (end_state L now ds p)) (es_ledger (end_state L now ds p))\<rparr>,
          Inl (QueueSaturated (q_name (pl_sink p)) (q_ceiling (pl_sink p))
                 (offer_bytes L (es_pending (end_state L now ds p)))))"
  | (accepted) ds where "export_deliveries P k payload p = Inr ds"
      "offer_bytes L (es_pending (end_state L now ds p)) + q_accounted (pl_sink p) \<le> q_ceiling (pl_sink p)"
      "ingest L P k now payload p =
         (p\<lparr>pl_ledger := es_ledger (end_state L now ds p),
            pl_sink := fold (\<lambda>q s. fst (offer L q s)) (map po_queued (es_pending (end_state L now ds p))) (pl_sink p)\<rparr>,
          Inr \<lparr>eo_records = es_outcomes (end_state L now ds p)\<rparr>)"
proof (cases "export_deliveries P k payload p")
  case (Inl sig)
  then show thesis by (intro gated_out [OF Inl]) (simp add: ingest_deliveries)
next
  case (Inr ds)
  note run = Inr ingest_deliveries finish_export_def offer_export_def start_state_def [symmetric] Let_def
  show thesis
  proof (cases "q_ceiling (pl_sink p) < offer_bytes L (es_pending (end_state L now ds p)) + q_accounted (pl_sink p)")
    case True
    then show thesis by (intro saturated [OF Inr True]) (simp add: run)
  next
    case False
    then show thesis by (intro accepted [OF Inr]) (simp_all add: run fold_map comp_def)
  qed
qed

text \<open>The offers of an accepted export all succeed: the interface of the sink, on the queue.\<close>

lemma offers_fit:
  assumes "offer_bytes L ps + q_accounted q \<le> q_ceiling q"
  defines "q' \<equiv> fold (\<lambda>r s. fst (offer L r s)) (map po_queued ps) q"
  shows "q_items q' = q_items q @ map po_queued ps"
    and "q_accounted q' = q_accounted q + offer_bytes L ps" and "q_ceiling q' = q_ceiling q"
proof -
  have "sum_list (map (\<lambda>r. stored_size L (qr_record r)) (map po_queued ps)) = offer_bytes L ps"
    by (simp add: offer_bytes_def comp_def)
  with assms queue_sink.put_all [of q L "map po_queued ps"]
  show "q_items q' = q_items q @ map po_queued ps"
    "q_accounted q' = q_accounted q + offer_bytes L ps" "q_ceiling q' = q_ceiling q"
    by (simp_all add: q'_def)
qed

lemma end_state_books:
  assumes "wf_ledger L (pl_ledger p)" "b \<Longrightarrow> interned_points (pl_ledger p)"
  shows "export_books L b (pl_ledger p) (es_ledger (end_state L now ds p)) (es_pending (end_state L now ds p))"
  using books_deliveries [of L b "pl_ledger p" "start_state p" now ds] export_books_start [OF assms]
  by (simp add: start_state_def)

section \<open>Refused exports\<close>



definition sample_pipeline :: "usize \<Rightarrow> pipeline" where
  "sample_pipeline ceiling = \<lparr>pl_limits = default_budget_limits, pl_payload_ceiling = OTLP_PAYLOAD_BYTES,
     pl_ledger = ledger_new default_budget_limits, pl_sink = queue_new PIPELINE_QUEUE_NAME ceiling,
     pl_draining = False\<rparr>"

definition sample_parsers :: parsers where
  "sample_parsers = \<lparr>parse_traces = (\<lambda>payload. Inr [\<lparr>rs_resource = None,
       rs_scope_spans = [\<lparr>ss_scope = None, ss_spans = map (\<lambda>b. sample_wire_span b ''op'') payload,
         ss_schema_url = []\<rparr>], rs_schema_url = []\<rparr>]),
     parse_logs = (\<lambda>_. Inl ''bad''), parse_metrics = (\<lambda>_. Inr [])\<rparr>"

definition sample_decoded :: "u8 \<Rightarrow> span" where
  "sample_decoded b = (sample_span b ''op'' None)
     \<lparr>sp_resource := \<lparr>res_attributes = [], res_schema_url = None, res_dropped = 0\<rparr>,
      sp_scope := \<lparr>sc_name = [], sc_version = None, sc_attributes = [], sc_schema_url = None, sc_dropped = 0\<rparr>,
      sp_status := \<lparr>st_code = StatusUnset, st_message = []\<rparr>\<rparr>"

lemma no_attributes: "attributes_of [] field lim = Inr []"
  by (auto simp: attributes_of_def from_pairs_def split_beta)

lemma sample_decode:
  "decode_span (sample_wire_span b ''op'')
     \<lparr>env_resource = \<lparr>res_attributes = [], res_schema_url = None, res_dropped = 0\<rparr>,
      env_scope = \<lparr>sc_name = [], sc_version = None, sc_attributes = [], sc_schema_url = None, sc_dropped = 0\<rparr>\<rparr>
     default_budget_limits = Inr (sample_decoded b)"
  by (simp add: decode_span_def sample_wire_span_def decode_context_def span_trace_id_def span_span_id_def
      wire_trace_id_def wire_span_id_def trace_id_length_def span_id_length_def decode_trace_state_def
      parent_span_id_def decode_span_kind_def no_attributes decode_status_code_def or_default_def
      default_status_def present_u64_def sample_decoded_def sample_span_def sample_trace_def sample_span_id_def)

lemma default_record_count: "records_per_export default_budget_limits = 10000"
  by (simp add: default_budget_limits_def)

lemma sample_export:
  "length payload \<le> 10000 \<Longrightarrow>
   export_deliveries sample_parsers Traces payload (sample_pipeline c) =
     Inr (map (\<lambda>b. SpanD (Inr (sample_decoded b))) payload)"
  by (simp add: gate_def sample_pipeline_def parse_request_def sample_parsers_def OTLP_PAYLOAD_BYTES_def
      check_export_record_count_def span_total_def default_record_count span_deliveries_def
      pipeline_envelope_def decode_resource_def decode_scope_def or_default_def default_resource_def
      default_scope_def no_attributes present_string_def
      sample_decode comp_def)

text \<open>The sample export's span passes its gate and is well formed.\<close>

lemma sample_decoded_gate: "check_span layout64 (sample_decoded b) default_budget_limits = Inr ()"
  by (simp add: budget_eval sample_decoded_def sample_defs)

lemma sample_decoded_identity:
  "b \<noteq> 0 \<Longrightarrow> natural_identity (sample_decoded b) = Some (sample_trace b, sample_span_id b)"
  using sample_natural_identity [of b "''op''" None]
  by (simp add: sample_decoded_def natural_identity_def split: if_splits)

lemma sample_end_state:
  "end_state layout64 now [SpanD (Inr (sample_decoded 1))] (sample_pipeline c) =
     \<lparr>es_ledger = (ledger_new default_budget_limits)
        \<lparr>spans := Map.empty((sample_trace 1, sample_span_id 1) \<mapsto>
           (Span (sample_trace 1) (sample_span_id 1), sample_decoded 1))\<rparr>,
      es_pending = [pend now (Span (sample_trace 1) (sample_span_id 1)) (StoredSpan (sample_decoded 1)) None],
      es_outcomes = [RecordAdmitted (Span (sample_trace 1) (sample_span_id 1))]\<rparr>"
  by (simp add: span_arm_def start_state_def sample_pipeline_def push_outcome_def
      admit_span_def ledger_new_def sample_decoded_gate sample_decoded_identity Let_def)



section \<open>Accepted exports\<close>

definition export_records :: "parsers \<Rightarrow> export_kind \<Rightarrow> bytes \<Rightarrow> usize option" where
  "export_records P k payload =
     (case k of
        Traces \<Rightarrow> (case parse_traces P payload of Inr req \<Rightarrow> Some (span_total req) | Inl _ \<Rightarrow> None)
      | Logs \<Rightarrow> (case parse_logs P payload of Inr req \<Rightarrow> Some (log_total req) | Inl _ \<Rightarrow> None)
      | Metrics \<Rightarrow> (case parse_metrics P payload of Inr req \<Rightarrow> Some (point_total req) | Inl _ \<Rightarrow> None))"

lemma export_deliveries_length:
  "export_deliveries P k payload p = Inr ds \<Longrightarrow> export_records P k payload = Some (length ds)"
  by (cases k)
     (auto simp: and_then_Inr_iff parse_request_def export_records_def length_span_deliveries
       length_log_deliveries length_point_deliveries)

lemma accepted_export_growth:
  assumes "ingest L P k now payload p = (p', Inr out)"
  obtains new where "export_records P k payload = Some (length (eo_records out))"
    "q_items (pl_sink p') = q_items (pl_sink p) @ new"
    "map qr_entity new = admitted_entities (eo_records out)" "list_all (\<lambda>r. qr_at r = now) new"
    "q_accounted (pl_sink p') = q_accounted (pl_sink p) + items_size L new"
    "q_accounted (pl_sink p') \<le> q_ceiling (pl_sink p')"
  using assms
proof (cases rule: ingest_cases [of P k payload p L now])
  case (accepted ds)
  let ?st = "end_state L now ds p"
  obtain rs new where d: "delivered now (start_state p) ?st rs new" "length rs = length ds"
    using deliveries_delivered by blast
  have p': "pl_sink p' = fold (\<lambda>r s. fst (offer L r s)) (map po_queued (es_pending ?st)) (pl_sink p)"
    and out: "eo_records out = es_outcomes ?st"
    using accepted(3) assms by auto
  note fit = offers_fit [OF accepted(2), folded p']
  have "offer_bytes L (es_pending ?st) = items_size L (map po_queued (es_pending ?st))"
    by (simp add: offer_bytes_def items_size_def comp_def)
  with fit accepted(2) d out export_deliveries_length [OF accepted(1)] show thesis
    by (intro that [of "map po_queued new"])
       (auto simp: delivered_def start_state_def list_all_iff comp_def)
qed auto

text \<open>C16: An accepted export is handed off whole, in order, once. Its outcome names one fate per
  record of the request; the queue has grown by exactly the records the outcome calls admitted, in
  document order and stamped with the call's admission time; collapses, conflicts and refusals
  queue nothing; and the occupancy stays within the ceiling. So no offer of the hand-off fails.\<close>

theorem accepted_export_queued_whole:
  assumes "ingest L P k now payload p = (p', Inr out)"
  shows "export_records P k payload = Some (length (eo_records out)) \<and>
    (\<exists>new. q_items (pl_sink p') = q_items (pl_sink p) @ new \<and>
       map qr_entity new = admitted_entities (eo_records out) \<and> list_all (\<lambda>r. qr_at r = now) new \<and>
       q_accounted (pl_sink p') = q_accounted (pl_sink p) + items_size L new \<and>
       q_accounted (pl_sink p') \<le> q_ceiling (pl_sink p'))"
proof -
  obtain new where new: "export_records P k payload = Some (length (eo_records out))"
    "q_items (pl_sink p') = q_items (pl_sink p) @ new"
    "map qr_entity new = admitted_entities (eo_records out)" "list_all (\<lambda>r. qr_at r = now) new"
    "q_accounted (pl_sink p') = q_accounted (pl_sink p) + items_size L new"
    "q_accounted (pl_sink p') \<le> q_ceiling (pl_sink p')"
    by (rule accepted_export_growth [OF assms])
  then show ?thesis by (intro conjI exI [of _ new])
qed

lemma sample_ingest:
  obtains p' out where
    "ingest layout64 sample_parsers Traces (AdmissionTime 5) [1] (sample_pipeline QUEUE_CEILING_BYTES) = (p', Inr out)"
    "eo_records out = [RecordAdmitted (Span (sample_trace 1) (sample_span_id 1))]"
proof -
  let ?p = "sample_pipeline QUEUE_CEILING_BYTES"
  have e: "export_deliveries sample_parsers Traces [1] ?p = Inr [SpanD (Inr (sample_decoded 1))]"
    using sample_export [of "[1]"] by (simp del: export_deliveries.simps)
  have size: "offer_bytes layout64 (es_pending
      (end_state layout64 (AdmissionTime 5) [SpanD (Inr (sample_decoded 1))] ?p)) \<le> 1000"
    unfolding sample_end_state
    by (simp add: offer_bytes_def pend_def span_size_def sample_decoded_def sample_defs
        context_size_def size_constants resource_size_def scope_size_def attributes_size_def
        status_size_def opt_bytes_def opt_string_bytes_def heap_string_bytes_def trace_state_size_def
        trace_id_size_def span_id_size_def trace_id_length_def span_id_length_def)
  show thesis
  proof (cases rule: ingest_cases [of sample_parsers Traces "[1]" ?p layout64 "AdmissionTime 5"])
    case (accepted ds)
    with e have "ds = [SpanD (Inr (sample_decoded 1))]" by (simp del: export_deliveries.simps)
    then have "es_outcomes (end_state layout64 (AdmissionTime 5) ds ?p) =
        [RecordAdmitted (Span (sample_trace 1) (sample_span_id 1))]"
      by (simp only: sample_end_state export_state.simps)
    then show thesis by (intro that [OF accepted(3)]) simp
  next
    case (saturated ds)
    with e have ds: "ds = [SpanD (Inr (sample_decoded 1))]" by (simp del: export_deliveries.simps)
    have "q_ceiling (pl_sink ?p) < 1000 + q_accounted (pl_sink ?p)"
      using saturated(2) size unfolding ds by linarith
    then show thesis by (simp add: sample_pipeline_def queue_new_def QUEUE_CEILING_BYTES_def)
  qed (use e in \<open>simp del: export_deliveries.simps\<close>)
qed

theorem accepted_export_queued_whole_witness:
  "\<exists>p' out. ingest layout64 sample_parsers Traces (AdmissionTime 5) [1] (sample_pipeline QUEUE_CEILING_BYTES) = (p', Inr out) \<and>
     eo_records out = [RecordAdmitted (Span (sample_trace 1) (sample_span_id 1))] \<and>
     map qr_entity (q_items (pl_sink p')) = [Span (sample_trace 1) (sample_span_id 1)]"
proof -
  let ?p = "sample_pipeline QUEUE_CEILING_BYTES"
  obtain p' out where run: "ingest layout64 sample_parsers Traces (AdmissionTime 5) [1] ?p = (p', Inr out)"
    "eo_records out = [RecordAdmitted (Span (sample_trace 1) (sample_span_id 1))]" by (rule sample_ingest)
  have "q_items (pl_sink ?p) = []" by (simp add: sample_pipeline_def queue_new_def)
  with accepted_export_queued_whole [OF run(1)] run show ?thesis by auto
qed

section \<open>Sessions\<close>

text \<open>What happens to a pipeline: exports, the consumer's pops, the drain, and the endings the
  composition root performs through the ledger releaser.\<close>

datatype pipeline_op =
    Export export_kind admission_time bytes
  | TakeOne
  | BeginDrain
  | EndIdentity entity_id
  | EndStream stream_identity

fun pipeline_step :: "layout \<Rightarrow> parsers \<Rightarrow> pipeline_op \<Rightarrow> pipeline \<Rightarrow> pipeline" where
  "pipeline_step L P (Export k now payload) p = fst (ingest L P k now payload p)"
| "pipeline_step L P TakeOne p =
     (case pop_front L (pl_sink p) of None \<Rightarrow> p | Some (_, q) \<Rightarrow> p\<lparr>pl_sink := q\<rparr>)"
| "pipeline_step L P BeginDrain p = begin_draining p"
| "pipeline_step L P (EndIdentity e) p = p\<lparr>pl_ledger := forget e (pl_ledger p)\<rparr>"
| "pipeline_step L P (EndStream s) p = p\<lparr>pl_ledger := release_stream s (pl_ledger p)\<rparr>"

definition pipeline_ok :: "layout \<Rightarrow> pipeline \<Rightarrow> bool" where
  "pipeline_ok L p \<longleftrightarrow>
     wf_ledger L (pl_ledger p) \<and> limits (pl_ledger p) = pl_limits p \<and> wf_queue L (pl_sink p) \<and>
     list_all (admissible L (pl_limits p)) (q_items (pl_sink p))"

lemma end_state_admissible:
  assumes "export_deliveries P k payload p = Inr ds" "limits (pl_ledger p) = pl_limits p"
  shows "list_all (admissible L (pl_limits p)) (map po_queued (es_pending (end_state L now ds p)))"
  using deliveries_admissible [of ds "start_state p" "pl_limits p" L now] assms export_deliveries_wf
  by (auto simp: start_state_def list_all_iff)

lemma ingest_ok:
  assumes ok: "pipeline_ok L p"
  shows "pipeline_ok L (fst (ingest L P k now payload p)) \<and>
    pl_limits (fst (ingest L P k now payload p)) = pl_limits p \<and>
    q_ceiling (pl_sink (fst (ingest L P k now payload p))) = q_ceiling (pl_sink p)"
proof -
  have wf: "wf_ledger L (pl_ledger p)" using ok by (simp add: pipeline_ok_def)
  show ?thesis
  proof (cases rule: ingest_cases [of P k payload p L now])
    case (saturated ds)
    note books = end_state_books [OF wf, of False now ds, simplified]
    have "wf_ledger L (fold undo_offer (es_pending (end_state L now ds p)) (es_ledger (end_state L now ds p)))"
      using books by (intro wf_undo) (simp add: export_books_def)
    with saturated(3) ok export_books_undo [OF books] show ?thesis
      by (auto simp: pipeline_ok_def same_books_def)
  next
    case (accepted ds)
    note books = end_state_books [OF wf, of False now ds, simplified]
    note fit = offers_fit [OF accepted(2)]
    have "items_size L (map po_queued (es_pending (end_state L now ds p))) =
        offer_bytes L (es_pending (end_state L now ds p))"
      by (simp add: offer_bytes_def items_size_def comp_def)
    with accepted(2,3) ok books fit end_state_admissible [OF accepted(1), of L now] show ?thesis
      by (auto simp: pipeline_ok_def export_books_def wf_queue_def)
  qed (use ok in simp)
qed

lemma pipeline_step_ok:
  assumes ok: "pipeline_ok L p"
  shows "pipeline_ok L (pipeline_step L P x p) \<and> pl_limits (pipeline_step L P x p) = pl_limits p \<and>
    q_ceiling (pl_sink (pipeline_step L P x p)) = q_ceiling (pl_sink p)"
proof (cases x)
  case (Export k now payload)
  then show ?thesis using ingest_ok [OF ok] by simp
next
  case TakeOne
  with ok show ?thesis
    by (auto simp: pipeline_ok_def pop_front_def wf_queue_def split: list.splits)
qed (use ok in \<open>simp_all add: pipeline_ok_def begin_draining_def wf_forget wf_release_stream,
      simp_all add: release_stream_def\<close>)

lemma pipeline_run_ok:
  "pipeline_ok L p \<Longrightarrow>
     pipeline_ok L (fold (pipeline_step L P) xs p) \<and>
     pl_limits (fold (pipeline_step L P) xs p) = pl_limits p \<and>
     q_ceiling (pl_sink (fold (pipeline_step L P) xs p)) = q_ceiling (pl_sink p)"
proof (induction xs arbitrary: p)
  case (Cons x xs)
  with pipeline_step_ok [OF Cons.prems, of P x] show ?case by simp
qed simp

lemma new_parts [simp]:
  "limits (ledger_new lim) = lim" "q_items (queue_new name c) = []" "q_ceiling (queue_new name c) = c"
  "q_accounted (queue_new name c) = 0"
  by (simp_all add: ledger_new_def queue_new_def)

lemma with_config_ok:
  assumes "with_config L (queue_new name ceiling) lim cap = Inr p"
  shows "pipeline_ok L p" "pl_limits p = lim" "q_ceiling (pl_sink p) = ceiling"
    "legal_record_bound_bytes L lim \<le> ceiling"
  using assms
  by (auto simp: with_config_def Let_def pipeline_ok_def wf_ledger_new wf_queue_new split: if_splits)

text \<open>Only gated records reach the consumer. In every session of a pipeline, whatever the
  payloads and whatever the parser made of them, each record waiting in the queue is well formed
  (ids of their width, sorted attribute maps, homogeneous arrays, unique keys, severities in
  range) and within every admission budget, points agree with their stream's shape; the ledger
  invariant holds and the occupancy is exact and within the configured ceiling.\<close>

theorem session_queue_is_gated:
  assumes "with_config L (queue_new name ceiling) lim cap = Inr p"
  shows "(let p' = fold (pipeline_step L P) ops p in
    list_all (\<lambda>r. wf_stored (qr_record r) \<and> gated L lim (qr_record r)) (q_items (pl_sink p')) \<and>
    wf_ledger L (pl_ledger p') \<and>
    q_accounted (pl_sink p') = items_size L (q_items (pl_sink p')) \<and>
    q_accounted (pl_sink p') \<le> ceiling)"
  using pipeline_run_ok [OF with_config_ok(1) [OF assms], of P ops] with_config_ok(2,3) [OF assms]
  by (auto simp: Let_def pipeline_ok_def wf_queue_def list_all_iff admissible_def)

definition tiny_limits :: budget_limits where
  "tiny_limits = \<lparr>attributes_per_signal = 1, attributes_per_nested_set = 1, attribute_value_bytes = 200,
     span_events_per_span = 1, span_links_per_span = 1, exemplars_per_data_point = 1,
     key_value_list_depth = 2, data_points_per_export = 4, records_per_export = 4,
     numeric_vector_entries_per_data_point = 4\<rparr>"

theorem session_queue_is_gated_witness:
  "\<exists>p. with_config layout64 (queue_new PIPELINE_QUEUE_NAME 10000) tiny_limits 100 = Inr p \<and>
     wf_ledger layout64 (pl_ledger (fold (pipeline_step layout64 sample_parsers)
       [Export Traces (AdmissionTime 5) [1], TakeOne, BeginDrain] p))"
proof -
  obtain p where p: "with_config layout64 (queue_new PIPELINE_QUEUE_NAME 10000) tiny_limits 100 = Inr p"
    by (simp add: with_config_def legal_record_bound_bytes_def tiny_limits_def size_constants
        layout64_def slot_bytes_def queue_new_def Let_def)
  from session_queue_is_gated [OF p, where P = sample_parsers
      and ops = "[Export Traces (AdmissionTime 5) [1], TakeOne, BeginDrain]"] p
  show ?thesis by (auto simp: Let_def simp del: fold_simps pipeline_step.simps)
qed

section \<open>What the startup bound covers\<close>

text \<open>The part of a record's size that the admission budgets shape: its attribute sets and the
  numeric vectors of a point, as \<open>span_size\<close>, \<open>log_record_size\<close>, \<open>point_size\<close> and
  \<open>stream_size\<close> charge them.\<close>

fun vector_spend :: "layout \<Rightarrow> metric_point \<Rightarrow> usize" where
  "vector_spend L (NumberP _) = 0"
| "vector_spend L (HistogramP p) =
     length (hp_bucket_counts p) * u64_slot + length (hp_explicit_bounds p) * u64_slot"
| "vector_spend L (ExponentialHistogramP p) =
     length (eb_bucket_counts (xp_positive p)) * u64_slot +
     length (eb_bucket_counts (xp_negative p)) * u64_slot"
| "vector_spend L (SummaryP p) =
     length (sm_quantiles p) * slot_bytes (quantile_size_of L) + sum_list (map quantile_size (sm_quantiles p))"

fun budget_spend :: "layout \<Rightarrow> stored_record \<Rightarrow> usize" where
  "budget_spend L (StoredSpan s) =
     attributes_size L (res_attributes (sp_resource s)) + attributes_size L (sc_attributes (sp_scope s)) +
     attributes_size L (sp_attributes s) +
     sum_list (map (\<lambda>e. attributes_size L (ev_attributes e)) (sp_events s)) +
     sum_list (map (\<lambda>l. attributes_size L (ln_attributes l)) (sp_links s))"
| "budget_spend L (StoredLog r) =
     attributes_size L (res_attributes (lg_resource r)) + attributes_size L (sc_attributes (lg_scope r)) +
     attributes_size L (lg_attributes r)"
| "budget_spend L (StoredPoint s p) =
     attributes_size L (res_attributes (si_resource s)) + attributes_size L (sc_attributes (si_scope s)) +
     attributes_size L (si_metadata s) + attributes_size L (point_attributes p) +
     sum_list (map (\<lambda>e. attributes_size L (ex_filtered_attributes e)) (point_exemplars p)) +
     vector_spend L p"

definition quantile_charge :: "layout \<Rightarrow> usize" where
  "quantile_charge L = slot_bytes (quantile_size_of L) + STRUCTURE_FIXED_BYTES + 2 * 8"

definition set_charge :: "budget_limits \<Rightarrow> usize \<Rightarrow> usize" where
  "set_charge lim n = ATTRIBUTE_MAP_NODE_BYTES + n * attribute_value_bytes lim"

lemma bound_parts:
  "3 * set_charge lim (attributes_per_signal lim) +
     span_events_per_span lim * set_charge lim (attributes_per_nested_set lim) +
     span_links_per_span lim * set_charge lim (attributes_per_nested_set lim)
     \<le> legal_record_bound_bytes L lim"
  "4 * set_charge lim (attributes_per_signal lim) +
     exemplars_per_data_point lim * set_charge lim (attributes_per_nested_set lim) +
     numeric_vector_entries_per_data_point lim * quantile_charge L
     \<le> legal_record_bound_bytes L lim"
  unfolding legal_record_bound_bytes_def Let_def set_charge_def quantile_charge_def
  by (simp_all add: algebra_simps)

lemma within_charge: "attributes_within L lim n a \<Longrightarrow> attributes_size L a \<le> set_charge lim n"
  by (simp add: within_size set_charge_def)

lemma sets_charge:
  assumes "\<forall>x \<in> set xs. attributes_within L lim n (f x)" "length xs \<le> m"
  shows "sum_list (map (\<lambda>x. attributes_size L (f x)) xs) \<le> m * set_charge lim n"
proof -
  have "sum_list (map (\<lambda>x. attributes_size L (f x)) xs) \<le> length xs * set_charge lim n"
    using assms(1) by (intro sum_list_le_count) (auto simp: within_charge)
  also have "\<dots> \<le> m * set_charge lim n" using assms(2) by simp
  finally show ?thesis .
qed

lemma vector_charge: "vector_spend L p \<le> numeric_vector_entries p * quantile_charge L"
proof (cases p)
  case (SummaryP q)
  have "sum_list (map quantile_size qs) = length qs * (STRUCTURE_FIXED_BYTES + 16)" for qs
    by (induction qs) (auto simp: quantile_size_def)
  with SummaryP show ?thesis by (simp add: quantile_charge_def algebra_simps)
qed (auto simp: quantile_charge_def u64_slot_def slot_bytes_def size_constants algebra_simps)

text \<open>The startup check is sound for what the budgets shape. A pipeline that starts has a queue
  whose ceiling covers, for every record of any signal that passes the admission gates, all of
  its attribute sets (own, resource, scope, events, links, metadata, exemplars) and all of its
  numeric vectors at their accounted size.\<close>

theorem startup_bound_covers_budgets:
  assumes "with_config L sink lim cap = Inr p" and "gated L lim r"
  shows "budget_spend L r \<le> q_ceiling (pl_sink p)"
proof -
  have "legal_record_bound_bytes L lim \<le> q_ceiling (pl_sink p)"
    using assms(1) by (auto simp: with_config_def Let_def split: if_splits)
  moreover have "budget_spend L r \<le> legal_record_bound_bytes L lim"
  proof (cases r)
    case (StoredSpan s)
    let ?A = "set_charge lim (attributes_per_signal lim)"
    have w: "span_within L lim s" using assms(2) StoredSpan by simp
    then have "attributes_size L (res_attributes (sp_resource s)) \<le> ?A"
      "attributes_size L (sc_attributes (sp_scope s)) \<le> ?A" "attributes_size L (sp_attributes s) \<le> ?A"
      by (auto simp: span_within_def within_charge)
    moreover note sets_charge [of "sp_events s" L lim "attributes_per_nested_set lim" ev_attributes "span_events_per_span lim"]
      sets_charge [of "sp_links s" L lim "attributes_per_nested_set lim" ln_attributes "span_links_per_span lim"]
    ultimately show ?thesis
      using StoredSpan w bound_parts(1) [of lim L] by (auto simp: span_within_def)
  next
    case (StoredLog g)
    let ?A = "set_charge lim (attributes_per_signal lim)"
    have "attributes_size L (res_attributes (lg_resource g)) \<le> ?A"
      "attributes_size L (sc_attributes (lg_scope g)) \<le> ?A" "attributes_size L (lg_attributes g) \<le> ?A"
      using assms(2) StoredLog by (auto simp: log_within_def within_charge)
    with StoredLog bound_parts(1) [of lim L] show ?thesis by simp
  next
    case (StoredPoint s q)
    let ?A = "set_charge lim (attributes_per_signal lim)"
    have w: "stream_within L lim s" "point_within L lim q"
      using assms(2) StoredPoint by (simp_all add: point_gates_def budget_stream budget_point)
    then have "attributes_size L (res_attributes (si_resource s)) \<le> ?A"
      "attributes_size L (sc_attributes (si_scope s)) \<le> ?A" "attributes_size L (si_metadata s) \<le> ?A"
      "attributes_size L (point_attributes q) \<le> ?A"
      by (auto simp: stream_within_def point_within_def within_charge)
    moreover have "vector_spend L q \<le> numeric_vector_entries_per_data_point lim * quantile_charge L"
      using w(2) vector_charge [of L q] by (meson le_trans mult_le_mono1 point_within_def)
    moreover note sets_charge [of "point_exemplars q" L lim "attributes_per_nested_set lim"
        ex_filtered_attributes "exemplars_per_data_point lim"]
    ultimately show ?thesis
      using StoredPoint w(2) bound_parts(2) [of lim L] by (auto simp: point_within_def)
  qed
  ultimately show ?thesis by linarith
qed

theorem startup_bound_covers_budgets_witness:
  "budget_spend layout64 (StoredSpan (sample_span 1 ''op'' None)) \<le> QUEUE_CEILING_BYTES"
proof -
  obtain p where p: "with_config layout64 (queue_new PIPELINE_QUEUE_NAME QUEUE_CEILING_BYTES)
      default_budget_limits OTLP_PAYLOAD_BYTES = Inr p"
    by (simp add: with_config_def legal_record_bound_bytes_def default_budget_limits_def size_constants
        layout64_def slot_bytes_def QUEUE_CEILING_BYTES_def Let_def)
  have "gated layout64 default_budget_limits (StoredSpan (sample_span 1 ''op'' None))"
    by (simp add: budget_span [symmetric])
  from startup_bound_covers_budgets [OF p this] with_config_ok(3) [OF p] show ?thesis by simp
qed

text \<open>C36: No budget bounds a log body. For every queue ceiling, even under the default budgets, there
  is a well-formed log record that passes the gate and whose accounted size exceeds the ceiling:
  the startup bound covers attribute sets and vectors only, so such a record is refused by every
  hand-off, whatever the queue holds, with the one signal that invites a retry.\<close>

theorem log_body_escapes_the_bound:
  "\<exists>r. wf_log_record r \<and> check_log_record L r default_budget_limits = Inr () \<and>
     ceiling < stored_size L (StoredLog r) \<and>
     signal_is_retryable (QueueSaturated name ceiling (stored_size L (StoredLog r))) \<and>
     (\<forall>q e now. snd (offer L \<lparr>qr_entity = e, qr_at = now, qr_record = StoredLog r\<rparr> (q\<lparr>q_ceiling := ceiling\<rparr>)) \<noteq> Inr ())"
proof -
  let ?v = "ArrayV (replicate (Suc ceiling) (BoolV True))"
  let ?r = "(sample_log (Some ?v))\<lparr>lg_resource := \<lparr>res_attributes = [], res_schema_url = None, res_dropped = 0\<rparr>\<rparr>"
  have "foldr max (replicate n (0::nat)) 0 = 0" for n by (induction n) auto
  then have d: "depth ?v \<le> 8" by simp
  have "Suc ceiling \<le> value_size L ?v"
    by (simp add: sum_list_replicate algebra_simps del: replicate.simps)
  then have big: "ceiling < stored_size L (StoredLog ?r)"
    by (simp add: log_record_size_def sample_log_def)
  have "wf_log_record ?r"
    by (simp add: wf_log_record_def sample_log_def wf_resource_def wf_scope_def sample_scope_def
        wf_attribute_set_def wf_attributes_def om_sorted_def homogeneous_def)
  moreover have "check_log_record L ?r default_budget_limits = Inr ()"
    using d unfolding budget_log
    by (simp add: log_within_def sample_log_def sample_scope_def attributes_within_def
        default_budget_limits_def del: depth.simps)
  moreover have "snd (offer L \<lparr>qr_entity = e, qr_at = now, qr_record = StoredLog ?r\<rparr> (q\<lparr>q_ceiling := ceiling\<rparr>)) \<noteq> Inr ()" for q e now
    using big by (simp add: offer_def Let_def del: stored_size.simps)
  ultimately show ?thesis using big by (intro exI [of _ ?r]) simp
qed

end
