(* ===== verification/Runtime.thy ===== *)
theory Runtime
  imports Pipeline_Promises Store_Laws
begin

text \<open>
  The composition root: \<open>crates/server/src/runtime.rs\<close>.

  One pipeline, its queue, one store and one ledger, shared by every door. The threads of the
  source are the steps of \<open>runtime_step\<close>, each one critical section:

  \<^item> an export: its gate, which takes no lock, and then, under the ledger's lock, everything from
    its first admission to the end of its hand-off; between the two it is in \<open>rt_entered\<close>, so a
    drain may begin after its gate;
  \<^item> the pump's read of the drain deadline, its pop under the queue's lock, and its counting; where
    it stands in its loop, and the record it holds, is \<open>rt_pump\<close>;
  \<^item> the pump's keep and the retention tick, under the store's lock up to the hook's calls
    (\<open>rt_calls\<close>), and each section of those calls, under the ledger's lock: a refused keep of a point
    forgets its identity and releases its stream in two of them. The store's lock is held until the
    last of them, so no other keep or tick starts while sections are pending, but an export may come
    between two of them. (The counting is not held back by them: it touches nothing they do.)
  \<^item> the two halves of the beginning of a drain: the pipeline's flag and the deadline.

  \<open>PumpCounters\<close> and the refused forwards are their numbers; logging is not modelled. The
  admission clock has its own step relation, because its compare-and-swap loop is lock-free.
\<close>

section \<open>Counters and configuration\<close>

record pump_counters =
  pc_kept :: nat
  pc_evicted_on_keep :: nat
  pc_duplicates :: nat
  pc_oversized :: nat
  pc_series_cap :: nat
  pc_identity_over_ceiling :: nat
  pc_unknown :: nat
  pc_dropped_on_drain :: nat

definition no_counts :: pump_counters where
  "no_counts = \<lparr>pc_kept = 0, pc_evicted_on_keep = 0, pc_duplicates = 0, pc_oversized = 0,
     pc_series_cap = 0, pc_identity_over_ceiling = 0, pc_unknown = 0, pc_dropped_on_drain = 0\<rparr>"

fun observe :: "keep_outcome \<Rightarrow> pump_counters \<Rightarrow> pump_counters" where
  "observe (Kept n) c = c\<lparr>pc_kept := pc_kept c + 1, pc_evicted_on_keep := pc_evicted_on_keep c + n\<rparr>"
| "observe Duplicate c = c\<lparr>pc_duplicates := pc_duplicates c + 1\<rparr>"
| "observe Oversized c = c\<lparr>pc_oversized := pc_oversized c + 1\<rparr>"
| "observe SeriesCapReached c = c\<lparr>pc_series_cap := pc_series_cap c + 1\<rparr>"
| "observe (IdentityOverCeiling _ _) c =
     c\<lparr>pc_identity_over_ceiling := pc_identity_over_ceiling c + 1\<rparr>"

record run_summary =
  rs_kept :: nat
  rs_evicted_on_keep :: nat
  rs_duplicates :: nat
  rs_oversized :: nat
  rs_series_cap :: nat
  rs_identity_over_ceiling :: nat
  rs_unknown :: nat
  rs_dropped_on_drain :: nat
  rs_refused_forwards :: nat

definition summary :: "pump_counters \<Rightarrow> nat \<Rightarrow> run_summary" where
  "summary c refused =
     \<lparr>rs_kept = pc_kept c, rs_evicted_on_keep = pc_evicted_on_keep c, rs_duplicates = pc_duplicates c,
      rs_oversized = pc_oversized c, rs_series_cap = pc_series_cap c,
      rs_identity_over_ceiling = pc_identity_over_ceiling c, rs_unknown = pc_unknown c,
      rs_dropped_on_drain = pc_dropped_on_drain c, rs_refused_forwards = refused\<rparr>"

text \<open>The part of \<open>RuntimeConfig\<close> the graph is built from; the rest configures the transports.\<close>

record runtime_config =
  rc_store :: memory_config
  rc_budgets :: budget_limits
  rc_payload_ceiling :: usize
  rc_queue_ceiling :: usize

definition default_runtime_config :: runtime_config where
  "default_runtime_config =
     \<lparr>rc_store = default_memory_config, rc_budgets = default_budget_limits,
      rc_payload_ceiling = OTLP_PAYLOAD_BYTES, rc_queue_ceiling = QUEUE_CEILING_BYTES\<rparr>"

text \<open>
  The pump: about to read the drain deadline, waiting at the queue with the deadline it read,
  holding a popped record, counting a keep's outcome, or returned. Deadlines are in nanoseconds.
\<close>

text \<open>A call of the hook takes the ledger's lock once for each of its sections; a refusal is then counted.\<close>

datatype hook_section = ForgetEntity entity_id | ReleaseStream stream_identity | CountRefusal

datatype pump_phase =
    Looking
  | Waiting "nat option"
  | Holding queued_record
  | Counting keep_outcome
  | Returned

record runtime =
  rt_pipeline :: pipeline
  rt_entered :: "(export_kind \<times> admission_time \<times> bytes) list"
  rt_store :: memory_store
  rt_drain :: "nat option"
  rt_pump :: pump_phase
  rt_calls :: "hook_section list"
  rt_counters :: pump_counters
  rt_refused_forwards :: nat

definition runtime_build :: "layout \<Rightarrow> runtime_config \<Rightarrow> pipeline_config_error + runtime" where
  "runtime_build L cfg =
     and_then (with_config L (queue_new PIPELINE_QUEUE_NAME (rc_queue_ceiling cfg)) (rc_budgets cfg)
                 (rc_payload_ceiling cfg)) (\<lambda>p.
     Inr \<lparr>rt_pipeline = p, rt_entered = [], rt_store = store_new (rc_store cfg) True, rt_drain = None,
          rt_pump = Looking, rt_calls = [], rt_counters = no_counts, rt_refused_forwards = 0\<rparr>)"

section \<open>The retention cadence\<close>

text \<open>In nanoseconds: half the window, at least a second, at most a minute.\<close>

definition RETENTION_TICK_PERIOD :: nat where
  "RETENTION_TICK_PERIOD = 60 * 1000000000"

definition retention_tick_period :: "nat \<Rightarrow> nat" where
  "retention_tick_period window = max 1000000000 (min (window div 2) RETENTION_TICK_PERIOD)"

section \<open>The hook\<close>

fun hook_sections :: "hook_call \<Rightarrow> hook_section list" where
  "hook_sections (Evicted e) = [ForgetEntity e]"
| "hook_sections (StreamReleased s) = [ReleaseStream s]"
| "hook_sections (KeepRefused e s) =
     ForgetEntity e # (case s of None \<Rightarrow> [] | Some i \<Rightarrow> [ReleaseStream i]) @ [CountRefusal]"

definition hook_work :: "hook_call list \<Rightarrow> hook_section list" where
  "hook_work calls = concat (map hook_sections calls)"

fun forward :: "hook_section \<Rightarrow> admission_ledger \<Rightarrow> admission_ledger" where
  "forward (ForgetEntity e) l = forget e l"
| "forward (ReleaseStream s) l = release_stream s l"
| "forward CountRefusal l = l"

fun refused_forward :: "hook_section \<Rightarrow> nat" where
  "refused_forward CountRefusal = 1"
| "refused_forward _ = 0"

section \<open>The pump\<close>

definition keep_queued ::
  "layout \<Rightarrow> queued_record \<Rightarrow> memory_store \<Rightarrow> memory_store \<times> keep_outcome \<times> hook_call list" where
  "keep_queued L r st =
     (case qr_record r of
        StoredSpan s \<Rightarrow> keep_span L \<lparr>ad_entity = qr_entity r, ad_at = qr_at r, ad_record = s\<rparr> st
      | StoredLog g \<Rightarrow> keep_log_record L \<lparr>ad_entity = qr_entity r, ad_at = qr_at r, ad_record = g\<rparr> st
      | StoredPoint s p \<Rightarrow>
          keep_metric_point L \<lparr>ad_entity = qr_entity r, ad_at = qr_at r, ad_record = p\<rparr> s st)"

definition keep_record :: "layout \<Rightarrow> queued_record \<Rightarrow> runtime \<Rightarrow> runtime" where
  "keep_record L r rt =
     (case keep_queued L r (rt_store rt) of
        (st, out, calls) \<Rightarrow> rt\<lparr>rt_store := st, rt_pump := Counting out, rt_calls := hook_work calls\<rparr>)"

text \<open>
  What one turn of the loop does after it has read the deadline \<open>drain\<close>, at time \<open>now\<close>: a spent
  deadline ends the pump, otherwise it pops. \<open>waited\<close> says that its bounded wait has passed.
\<close>

datatype turn_result = Popped_one queued_record bounded_queue | Idle_turn | Ends | Still_waiting

definition pump_turn :: "layout \<Rightarrow> nat option \<Rightarrow> nat \<Rightarrow> bool \<Rightarrow> bounded_queue \<Rightarrow> turn_result" where
  "pump_turn L drain now waited q =
     (if case drain of Some deadline \<Rightarrow> deadline < now | None \<Rightarrow> False then Ends
      else case pop_front L q of
          Some (r, q') \<Rightarrow> Popped_one r q'
        | None \<Rightarrow> if \<not> waited then Still_waiting else if drain = None then Idle_turn else Ends)"

definition retention_tick :: "layout \<Rightarrow> admission_time \<Rightarrow> memory_store \<Rightarrow> memory_store \<times> nat \<times> hook_call list" where
  "retention_tick L now st = enforce_retention L now st"

text \<open>A drain begins in two steps: the pipeline's flag, then the deadline, under its own lock.\<close>

definition gate_drain :: "runtime \<Rightarrow> runtime" where
  "gate_drain rt = rt\<lparr>rt_pipeline := begin_draining (rt_pipeline rt)\<rparr>"

definition anchor_drain :: "nat \<Rightarrow> runtime \<Rightarrow> runtime" where
  "anchor_drain deadline rt =
     rt\<lparr>rt_drain := (case rt_drain rt of None \<Rightarrow> Some deadline | Some d \<Rightarrow> Some d)\<rparr>"

text \<open>What \<open>shutdown\<close> does after the workers have ended: what is still queued is counted.\<close>

definition shutdown_count :: "runtime \<Rightarrow> runtime \<times> run_summary" where
  "shutdown_count rt =
     (let dropped = queue_len (pl_sink (rt_pipeline rt));
          c = (rt_counters rt)\<lparr>pc_dropped_on_drain := pc_dropped_on_drain (rt_counters rt) + dropped\<rparr>
      in (rt\<lparr>rt_counters := c\<rparr>, summary c (rt_refused_forwards rt)))"

section \<open>Steps\<close>

datatype runtime_event =
    Entered export_kind admission_time bytes
  | TurnedAway export_kind admission_time bytes admission_signal
  | Ingested export_kind admission_time bytes "admission_signal + export_outcome"
  | DrainGated
  | DeadlineAnchored nat
  | Looked
  | Popped nat
  | Idled nat
  | PumpEnded nat
  | Stored
  | Counted
  | Ticked admission_time
  | Forwarded

inductive runtime_step :: "layout \<Rightarrow> parsers \<Rightarrow> runtime \<Rightarrow> runtime_event \<Rightarrow> runtime \<Rightarrow> bool" for L P where
  entered: "gate (rt_pipeline rt) payload = Inr () \<Longrightarrow>
     runtime_step L P rt (Entered k now payload) (rt\<lparr>rt_entered := (k, now, payload) # rt_entered rt\<rparr>)"
| turned_away: "gate (rt_pipeline rt) payload = Inl sig \<Longrightarrow>
     runtime_step L P rt (TurnedAway k now payload sig) rt"
| ingested: "(k, now, payload) \<in> set (rt_entered rt) \<Longrightarrow>
     ingest L P k now payload ((rt_pipeline rt)\<lparr>pl_draining := False\<rparr>) = (p, result) \<Longrightarrow>
     runtime_step L P rt (Ingested k now payload result)
       (rt\<lparr>rt_pipeline := p\<lparr>pl_draining := pl_draining (rt_pipeline rt)\<rparr>,
           rt_entered := remove1 (k, now, payload) (rt_entered rt)\<rparr>)"
| drain_gated: "runtime_step L P rt DrainGated (gate_drain rt)"
| deadline_anchored: "pl_draining (rt_pipeline rt) \<Longrightarrow>
     runtime_step L P rt (DeadlineAnchored deadline) (anchor_drain deadline rt)"
| looked: "rt_pump rt = Looking \<Longrightarrow>
     runtime_step L P rt Looked (rt\<lparr>rt_pump := Waiting (rt_drain rt)\<rparr>)"
| popped: "rt_pump rt = Waiting drain \<Longrightarrow>
     pump_turn L drain now waited (pl_sink (rt_pipeline rt)) = Popped_one r q \<Longrightarrow>
     runtime_step L P rt (Popped now)
       (rt\<lparr>rt_pipeline := (rt_pipeline rt)\<lparr>pl_sink := q\<rparr>, rt_pump := Holding r\<rparr>)"
| idled: "rt_pump rt = Waiting drain \<Longrightarrow>
     pump_turn L drain now waited (pl_sink (rt_pipeline rt)) = Idle_turn \<Longrightarrow>
     runtime_step L P rt (Idled now) (rt\<lparr>rt_pump := Looking\<rparr>)"
| pump_ended: "rt_pump rt = Waiting drain \<Longrightarrow>
     pump_turn L drain now waited (pl_sink (rt_pipeline rt)) = Ends \<Longrightarrow>
     runtime_step L P rt (PumpEnded now) (rt\<lparr>rt_pump := Returned\<rparr>)"
| stored: "rt_pump rt = Holding r \<Longrightarrow> rt_calls rt = [] \<Longrightarrow>
     runtime_step L P rt Stored (keep_record L r rt)"
| counted: "rt_pump rt = Counting out \<Longrightarrow>
     runtime_step L P rt Counted (rt\<lparr>rt_pump := Looking, rt_counters := observe out (rt_counters rt)\<rparr>)"
| ticked: "rt_calls rt = [] \<Longrightarrow> retention_tick L now (rt_store rt) = (st, n, calls) \<Longrightarrow>
     runtime_step L P rt (Ticked now) (rt\<lparr>rt_store := st, rt_calls := hook_work calls\<rparr>)"
| forwarded: "rt_calls rt = c # rest \<Longrightarrow>
     runtime_step L P rt Forwarded
       (rt\<lparr>rt_pipeline := (rt_pipeline rt)\<lparr>pl_ledger := forward c (pl_ledger (rt_pipeline rt))\<rparr>,
           rt_calls := rest, rt_refused_forwards := rt_refused_forwards rt + refused_forward c\<rparr>)"

inductive_cases runtime_stepE: "runtime_step L P rt ev rt'"

text \<open>
  A deadline is anchored by a call that has set the flag before, and the flag is never taken back. In
  \<open>ingested\<close> the gate has been passed before, so the call goes on as if the drain flag were not
  set: the ceiling it also checked never changes. A run is the list of its events, first to last.\<close>

inductive runtime_run :: "layout \<Rightarrow> parsers \<Rightarrow> runtime \<Rightarrow> runtime_event list \<Rightarrow> runtime \<Rightarrow> bool" for L P where
  none: "runtime_run L P rt [] rt"
| more: "runtime_run L P rt evs rt1 \<Longrightarrow> runtime_step L P rt1 ev rt2 \<Longrightarrow>
     runtime_run L P rt (evs @ [ev]) rt2"

section \<open>The admission clock\<close>

text \<open>
  \<open>AdmissionClock::now\<close>: each call reads the source once, loads the last time handed out, and
  retries a compare-and-swap whose comparison is against the load or the value a failure
  observed. The orderings are relaxed, so a load or a failed exchange may observe any earlier
  value; a successful exchange compares with the newest. The weak exchange may fail without cause.
\<close>

definition next_time :: "nat \<Rightarrow> nat \<Rightarrow> nat" where
  "next_time reading observed = max reading (sat_add observed 1)"

record clock =
  ck_last :: nat
  ck_calls :: "nat \<rightharpoonup> nat \<times> nat"
  ck_handed :: "(nat \<times> nat) list"

definition clock_new :: clock where
  "clock_new = \<lparr>ck_last = 0, ck_calls = Map.empty, ck_handed = []\<rparr>"

text \<open>\<open>ck_calls\<close> maps a caller to its reading and the value it observed; \<open>ck_handed\<close> lists, in
  order, the readings and the times returned for them.\<close>

inductive clock_step :: "clock \<Rightarrow> clock \<Rightarrow> bool" where
  called: "ck_calls c i = None \<Longrightarrow> reading \<le> u64_max \<Longrightarrow> observed \<le> ck_last c \<Longrightarrow>
     clock_step c (c\<lparr>ck_calls := (ck_calls c)(i \<mapsto> (reading, observed))\<rparr>)"
| exchanged: "ck_calls c i = Some (reading, observed) \<Longrightarrow> ck_last c = observed \<Longrightarrow>
     clock_step c (c\<lparr>ck_last := next_time reading observed, ck_calls := (ck_calls c)(i := None),
                     ck_handed := ck_handed c @ [(reading, next_time reading observed)]\<rparr>)"
| retried: "ck_calls c i = Some (reading, observed) \<Longrightarrow> observed' \<le> ck_last c \<Longrightarrow>
     clock_step c (c\<lparr>ck_calls := (ck_calls c)(i \<mapsto> (reading, observed'))\<rparr>)"

end
