(* ===== verification/Runtime_Laws.thy ===== *)
theory Runtime_Laws
  imports Runtime
begin

text \<open>
  The invariant of the runtime: identity follows residency through the whole graph.

  The record's way is queue, pump, store, and out through the hook. \<open>held\<close> lists the entities of
  the first three, \<open>ending\<close> those the store has let go of and the hook has not yet reported. The
  invariant \<open>tracked\<close> says that no entity occurs twice among them, that the ledger remembers no
  identity outside them, and that a span's natural identity among them is remembered. The store's
  part is proved from the shelves' indexes alone, whatever the sizes and ceilings are.
\<close>

section \<open>The store's entities\<close>

definition keyed :: "'r shelf \<Rightarrow> bool" where
  "keyed sh \<longleftrightarrow> om_sorted (by_key sh) \<and> index_matches sh"

definition keyed_store :: "memory_store \<Rightarrow> bool" where
  "keyed_store st \<longleftrightarrow> keyed (spans_shelf st) \<and> keyed (logs_shelf st) \<and> keyed (points_shelf st)"

abbreviation shelf_entities :: "'r shelf \<Rightarrow> entity_id multiset" where
  "shelf_entities sh \<equiv> mset (map (key_entity \<circ> fst) (by_key sh))"

lemma keyed_contains:
  assumes "keyed sh"
  shows "shelf_contains e sh \<longleftrightarrow> e \<in># shelf_entities sh"
proof -
  have idx: "\<And>k. by_entity sh e = Some k \<longleftrightarrow> key_entity k = e \<and> k \<in> fst ` set (by_key sh)"
    using assms by (simp add: keyed_def index_matches_def)
  have "shelf_contains e sh \<longleftrightarrow> (\<exists>k. by_entity sh e = Some k)" by (auto simp: shelf_contains_def)
  also have "\<dots> \<longleftrightarrow> e \<in># shelf_entities sh" unfolding idx by (auto simp: image_iff)
  finally show ?thesis .
qed

lemma keyed_insert:
  assumes k: "keyed sh" and new: "\<not> shelf_contains (ad_entity a) sh"
  shows "keyed (shelf_insert sz a sh)"
    and "shelf_entities (shelf_insert sz a sh) = add_mset (ad_entity a) (shelf_entities sh)"
proof -
  let ?k = "AdmissionKey (ad_at a) (ad_entity a)"
  have idx: "\<And>e k. by_entity sh e = Some k \<longleftrightarrow> key_entity k = e \<and> k \<in> fst ` set (by_key sh)"
    using k by (simp add: keyed_def index_matches_def)
  have none: "by_entity sh (ad_entity a) = None" using new by (simp add: shelf_contains_def)
  have abs: "?k \<notin> fst ` set (by_key sh)" using idx [of "ad_entity a" ?k] none by simp
  have "index_matches (shelf_insert sz a sh)"
    unfolding index_matches_def
  proof (intro allI)
    fix e k
    show "by_entity (shelf_insert sz a sh) e = Some k \<longleftrightarrow>
      key_entity k = e \<and> k \<in> fst ` set (by_key (shelf_insert sz a sh))"
      using idx [of e k] none idx [of "ad_entity a" k]
      by (cases "e = ad_entity a"; cases k) (auto simp: shelf_insert_def Let_def)
  qed
  then show "keyed (shelf_insert sz a sh)"
    using k by (simp add: keyed_def shelf_insert_def Let_def om_sorted_insert)
  have "mset (map (key_entity \<circ> fst) (om_insert k r ps)) = add_mset (key_entity k) (mset (map (key_entity \<circ> fst) ps))"
    if "k \<notin> fst ` set ps" for k and r :: 'a and ps
    using that by (induction k r ps rule: om_insert.induct) auto
  from this [OF abs] show "shelf_entities (shelf_insert sz a sh) = add_mset (ad_entity a) (shelf_entities sh)"
    by (simp add: shelf_insert_def Let_def)
qed

lemma keyed_pop:
  assumes k: "keyed sh" and pop: "pop_smallest sz sh = Some ((key, r), sh')"
  shows "keyed sh'" and "shelf_entities sh = add_mset (key_entity key) (shelf_entities sh')"
proof -
  obtain ps where ps: "by_key sh = (key, r) # ps"
    and sh': "by_key sh' = om_remove key (by_key sh)" "by_entity sh' = (by_entity sh)(key_entity key := None)"
    using pop by (auto simp: pop_smallest_def split: list.splits)
  have sorted: "om_sorted ((key, r) # ps)" using k ps by (simp add: keyed_def)
  have rem: "om_remove key (by_key sh) = ps"
    unfolding ps by simp
  have idx: "\<And>e k. by_entity sh e = Some k \<longleftrightarrow> key_entity k = e \<and> k \<in> fst ` set ((key, r) # ps)"
    using k ps by (simp add: keyed_def index_matches_def)
  have fresh: "key \<notin> fst ` set ps" using om_sorted_distinct [OF sorted] by simp
  have other: "key_entity k \<noteq> key_entity key" if "k \<in> fst ` set ps" for k
    using idx [of "key_entity key" key] idx [of "key_entity key" k] that fresh by auto
  have "index_matches sh'"
    unfolding index_matches_def sh' rem
    using idx other by (auto simp: fun_upd_apply)
  moreover have "om_sorted ps" using sorted by (simp add: om_sorted_def)
  ultimately show "keyed sh'" by (simp add: keyed_def sh' rem)
  show "shelf_entities sh = add_mset (key_entity key) (shelf_entities sh')"
    by (simp add: ps sh' rem)
qed

lemma keyed_release:
  "keyed_store (fst (release_stream_ref L s st)) = keyed_store st"
  "entity_list (fst (release_stream_ref L s st)) = entity_list st"
  "hook (fst (release_stream_ref L s st)) = hook st"
  by (simp_all add: keyed_store_def entity_list_def release_stream_ref_rest)

lemma entity_list_mset:
  "mset (entity_list st) =
     shelf_entities (spans_shelf st) + shelf_entities (logs_shelf st) + shelf_entities (points_shelf st)"
  by (simp add: entity_list_def)

definition point_ids :: "memory_store \<Rightarrow> entity_id set" where
  "point_ids st = set_mset (shelf_entities (points_shelf st))"

lemma point_ids_rest [simp]:
  "point_ids (st\<lparr>counters := c\<rparr>) = point_ids st" "point_ids (st\<lparr>spans_shelf := sp\<rparr>) = point_ids st"
  "point_ids (st\<lparr>logs_shelf := lg\<rparr>) = point_ids st"
  "point_ids (fst (release_stream_ref L s st)) = point_ids st"
  by (simp_all add: point_ids_def release_stream_ref_rest)

lemma keyed_pop_oldest:
  assumes k: "keyed_store st" and pop: "pop_oldest L st = Some ((key, released), st')"
  shows "keyed_store st' \<and> mset (entity_list st) = add_mset (key_entity key) (mset (entity_list st')) \<and>
    hook st' = hook st \<and> point_ids st' \<subseteq> point_ids st"
  using pop
proof (cases rule: pop_oldest_cases)
  case (spans r sh)
  with k keyed_pop [OF _ spans(2)] show ?thesis by (simp add: keyed_store_def entity_list_mset)
next
  case (logs r sh)
  with k keyed_pop [OF _ logs(2)] show ?thesis by (simp add: keyed_store_def entity_list_mset)
next
  case (points slot sh retired)
  have "keyed (points_shelf st)" using k by (simp add: keyed_store_def)
  note p = keyed_pop [OF this points(2)]
  have st': "st' = fst (release_stream_ref L (ps_stream slot) (st\<lparr>points_shelf := sh\<rparr>))"
    using points(3) by simp
  show ?thesis
    unfolding st' keyed_release point_ids_rest
    using k p by (auto simp: keyed_store_def entity_list_mset point_ids_def)
qed

lemma keyed_counters [simp]:
  "keyed_store (st\<lparr>counters := c\<rparr>) = keyed_store st"
  "entity_list (st\<lparr>counters := c\<rparr>) = entity_list st"
  by (simp_all add: keyed_store_def entity_list_def)

text \<open>The entities whose identity a list of hook calls ends.\<close>

fun ended_entity :: "hook_call \<Rightarrow> entity_id list" where
  "ended_entity (Evicted e) = [e]"
| "ended_entity (StreamReleased _) = []"
| "ended_entity (KeepRefused e _) = [e]"

definition ended_entities :: "hook_call list \<Rightarrow> entity_id list" where
  "ended_entities cs = concat (map ended_entity cs)"

lemma ended_entities_simps [simp]:
  "ended_entities [] = []" "ended_entities (c # cs) = ended_entity c @ ended_entities cs"
  "ended_entities (cs @ ds) = ended_entities cs @ ended_entities ds"
  by (simp_all add: ended_entities_def)

text \<open>What a stretch of evictions does to the entities.\<close>

definition lets_go :: "memory_store \<Rightarrow> memory_store \<Rightarrow> hook_call list \<Rightarrow> bool" where
  "lets_go st st' calls \<longleftrightarrow>
     keyed_store st' \<and> hook st' = hook st \<and> point_ids st' \<subseteq> point_ids st \<and>
     (hook st \<longrightarrow> mset (entity_list st) = mset (entity_list st') + mset (ended_entities calls))"

lemma lets_go_trans:
  "lets_go st st1 as \<Longrightarrow> lets_go st1 st2 bs \<Longrightarrow> lets_go st st2 (as @ bs)"
  by (auto simp: lets_go_def)

lemma evict_one_lets_go:
  assumes "keyed_store st" "evict_one L now st = Some (st', calls)"
  shows "lets_go st st' calls"
proof -
  obtain cause k released st1 where pop: "pop_oldest L st = Some ((k, released), st1)"
    and st': "(st', calls) = report_eviction k released (st1\<lparr>counters := count_eviction cause (counters st1)\<rparr>)"
    using assms(2) by (auto simp: evict_one_def split: option.splits) metis
  from keyed_pop_oldest [OF assms(1) pop] st' show ?thesis
    by (auto simp: lets_go_def report_eviction_def split: if_splits option.splits)
qed

lemma enforce_lets_go:
  assumes "keyed_store st" "enforce_against L now st = (st', n, calls)"
  shows "lets_go st st' calls"
  using assms
proof (induction L now st arbitrary: st' n calls rule: enforce_against.induct)
  case (1 L now st)
  show ?case
  proof (cases "evict_one L now st")
    case None
    with 1 show ?thesis by (simp add: enforce_against.simps [of L now st] lets_go_def)
  next
    case (Some p)
    obtain st1 as where p: "p = (st1, as)" by (cases p)
    note one = evict_one_lets_go [OF 1(2) Some [unfolded p]]
    obtain m bs where rec: "enforce_against L now st1 = (st', m, bs)" "calls = as @ bs"
      using 1(3) Some p by (auto simp: enforce_against.simps [of L now st] split: prod.splits)
    have "keyed_store st1" using one by (simp add: lets_go_def)
    from 1(1) [OF Some p [symmetric] this rec(1)] one rec(2) show ?thesis
      by (simp add: lets_go_trans)
  qed
qed

text \<open>What a keep does: the record enters and older ones leave, or it is a duplicate, or it is
  refused and reported.\<close>

definition keep_entities ::
  "entity_id set \<Rightarrow> entity_id \<Rightarrow> memory_store \<Rightarrow> memory_store \<Rightarrow> keep_outcome \<Rightarrow> hook_call list \<Rightarrow> bool" where
  "keep_entities X e st st' out calls \<longleftrightarrow>
     (case out of
        Kept n \<Rightarrow> \<exists>st1. mset (entity_list st1) = add_mset e (mset (entity_list st)) \<and> hook st1 = hook st \<and>
          point_ids st1 \<subseteq> X \<union> point_ids st \<and> lets_go st1 st' calls
      | Duplicate \<Rightarrow> e \<in> set (entity_list st) \<and> entity_list st' = entity_list st \<and> calls = [] \<and>
          keyed_store st' \<and> hook st' = hook st \<and> point_ids st' = point_ids st
      | _ \<Rightarrow> entity_list st' = entity_list st \<and> keyed_store st' \<and> hook st' = hook st \<and>
          point_ids st' = point_ids st \<and>
          (hook st \<longrightarrow> (\<exists>s. calls = [KeepRefused e s])))"

lemma enforce_kept_entities:
  assumes "keyed_store st1" "mset (entity_list st1) = add_mset e (mset (entity_list st))" "hook st1 = hook st"
    "enforce_kept L now st1 = (st', out, calls)" "point_ids st1 \<subseteq> X \<union> point_ids st"
  shows "keep_entities X e st st' out calls"
proof -
  obtain n where n: "enforce_against L now st1 = (st', n, calls)" "out = Kept n"
    using assms(4) by (auto simp: enforce_kept_def split: prod.splits)
  have "lets_go st1 st' calls" by (rule enforce_lets_go [OF assms(1) n(1)])
  with n(2) assms(2,3,5) show ?thesis
    unfolding keep_entities_def n(2) keep_outcome.case by blast
qed

lemma report_refusal_entities:
  assumes "report_refusal e s st1 = (st', calls)" "keyed_store st1" "hook st1 = hook st"
    "entity_list st1 = entity_list st" "point_ids st1 = point_ids st"
  shows "entity_list st' = entity_list st \<and> keyed_store st' \<and> hook st' = hook st \<and>
    point_ids st' = point_ids st \<and> (hook st \<longrightarrow> calls = [KeepRefused e s])"
proof (cases "hook st1")
  case True
  then obtain c where "st' = st1\<lparr>counters := c\<rparr>" "calls = [KeepRefused e s]"
    using assms(1) unfolding report_refusal_def by (metis Pair_inject)
  with assms(2-5) show ?thesis by simp
next
  case False
  with assms show ?thesis by (simp add: report_refusal_def)
qed

lemma keep_refusal_entities:
  assumes "keep_refusal e s out st1 = (st', out', calls)" "keyed_store st1" "hook st1 = hook st"
    "entity_list st1 = entity_list st" "point_ids st1 = point_ids st"
    "out = Duplicate \<and> e \<in> set (entity_list st) \<or> out = Oversized"
  shows "keep_entities X e st st' out' calls"
proof (cases "out = Oversized")
  case False
  then have d: "out = Duplicate" "e \<in> set (entity_list st)" using assms(6) by simp_all
  then have "st1 = st'" "out' = Duplicate" "calls = []" using assms(1) by (simp_all add: keep_refusal_def)
  with d assms(2-5) show ?thesis by (simp add: keep_entities_def)
next
  case True
  obtain st2 cs where r: "report_refusal e s st1 = (st2, cs)" by (meson surj_pair)
  with True assms(1) have "st' = st2" "out' = Oversized" "calls = cs" by (simp_all add: keep_refusal_def)
  with report_refusal_entities [OF r assms(2-5)] show ?thesis by (simp add: keep_entities_def)
qed

lemma keep_on_shelf_cases:
  obtains (new) "\<not> shelf_contains (ad_entity a) sh"
      "keep_on_shelf sz sh a n m c = (shelf_insert sz a sh, c, Inr (ad_at a))"
  | (duplicate) c' where "shelf_contains (ad_entity a) sh" "keep_on_shelf sz sh a n m c = (sh, c', Inl Duplicate)"
  | (oversized) c' where "keep_on_shelf sz sh a n m c = (sh, c', Inl Oversized)"
  by (cases "shelf_contains (ad_entity a) sh"; cases "m < n")
     (auto simp: keep_on_shelf_def refuse_early_def)

lemma keyed_contains_listed:
  assumes "keyed_store st"
  shows "shelf_contains e (spans_shelf st) \<Longrightarrow> e \<in> set (entity_list st)"
    and "shelf_contains e (logs_shelf st) \<Longrightarrow> e \<in> set (entity_list st)"
    and "shelf_contains e (points_shelf st) \<Longrightarrow> e \<in> set (entity_list st)"
  using assms keyed_contains [of "spans_shelf st" e] keyed_contains [of "logs_shelf st" e]
    keyed_contains [of "points_shelf st" e]
  by (auto simp: keyed_store_def entity_list_def)

lemma keep_span_entities:
  assumes "keyed_store st" "keep_span L a st = (st', out, calls)"
  shows "keep_entities {} (ad_entity a) st st' out calls"
proof (cases rule: keep_on_shelf_cases [of a "spans_shelf st" "span_size L"
      "accounted_u64 (span_size L (ad_record a))" "max_accounted_bytes (config st)" "counters st"])
  case new
  have k: "keyed (spans_shelf st)" using assms(1) by (simp add: keyed_store_def)
  note ins = keyed_insert [OF k new(1)]
  show ?thesis
    using assms new(2) ins
    by (intro enforce_kept_entities [where L = L and now = "ad_at a"
          and ?st1.0 = "st\<lparr>spans_shelf := shelf_insert (span_size L) a (spans_shelf st)\<rparr>"])
       (auto simp: keep_span_def Let_def keyed_store_def entity_list_mset)
next
  case (duplicate c')
  from assms duplicate(2) show ?thesis
    by (intro keep_refusal_entities [where ?st1.0 = "st\<lparr>counters := c'\<rparr>" and s = None and out = Duplicate])
       (auto simp: keep_span_def Let_def keyed_contains_listed [OF assms(1)] duplicate(1))
next
  case (oversized c')
  from assms oversized show ?thesis
    by (intro keep_refusal_entities [where ?st1.0 = "st\<lparr>counters := c'\<rparr>" and s = None and out = Oversized])
       (auto simp: keep_span_def Let_def)
qed

lemma keep_log_entities:
  assumes "keyed_store st" "keep_log_record L a st = (st', out, calls)"
  shows "keep_entities {} (ad_entity a) st st' out calls"
proof (cases rule: keep_on_shelf_cases [of a "logs_shelf st" "log_record_size L"
      "accounted_u64 (log_record_size L (ad_record a))" "max_accounted_bytes (config st)" "counters st"])
  case new
  have k: "keyed (logs_shelf st)" using assms(1) by (simp add: keyed_store_def)
  note ins = keyed_insert [OF k new(1)]
  show ?thesis
    using assms new(2) ins
    by (intro enforce_kept_entities [where L = L and now = "ad_at a"
          and ?st1.0 = "st\<lparr>logs_shelf := shelf_insert (log_record_size L) a (logs_shelf st)\<rparr>"])
       (auto simp: keep_log_record_def Let_def keyed_store_def entity_list_mset)
next
  case (duplicate c')
  from assms duplicate(2) show ?thesis
    by (intro keep_refusal_entities [where ?st1.0 = "st\<lparr>counters := c'\<rparr>" and s = None and out = Duplicate])
       (auto simp: keep_log_record_def Let_def keyed_contains_listed [OF assms(1)] duplicate(1))
next
  case (oversized c')
  from assms oversized show ?thesis
    by (intro keep_refusal_entities [where ?st1.0 = "st\<lparr>counters := c'\<rparr>" and s = None and out = Oversized])
       (auto simp: keep_log_record_def Let_def)
qed

lemma refuse_early_cases:
  obtains (new) "\<not> shelf_contains e sh" "refuse_early sh e n m c = (c, Inr ())"
  | (duplicate) c' where "shelf_contains e sh" "refuse_early sh e n m c = (c', Inl Duplicate)"
  | (oversized) c' where "refuse_early sh e n m c = (c', Inl Oversized)"
  by (cases "shelf_contains e sh"; cases "m < n") (auto simp: refuse_early_def)

lemma keep_point_entities:
  assumes k: "keyed_store st" and keep: "keep_metric_point L a s st = (st', out, calls)"
  shows "keep_entities {ad_entity a} (ad_entity a) st st' out calls"
proof (cases rule: refuse_early_cases [of "ad_entity a" "points_shelf st"
      "accounted_u64 (point_size L (ad_record a))" "max_accounted_bytes (config st)" "counters st"])
  case (duplicate c')
  from assms duplicate(2) show ?thesis
    by (intro keep_refusal_entities [where ?st1.0 = "st\<lparr>counters := c'\<rparr>" and s = "Some s" and out = Duplicate])
       (auto simp: keep_metric_point_def keyed_contains_listed [OF k] duplicate(1))
next
  case (oversized c')
  from assms oversized show ?thesis
    by (intro keep_refusal_entities [where ?st1.0 = "st\<lparr>counters := c'\<rparr>" and s = "Some s" and out = Oversized])
       (auto simp: keep_metric_point_def)
next
  case new
  let ?ceiling = "max_accounted_bytes (config st)" and ?bytes = "accounted_u64 (stream_size L s)"
  let ?slot = "\<lparr>ad_entity = ad_entity a, ad_at = ad_at a, ad_record = \<lparr>ps_point = ad_record a, ps_stream = s\<rparr>\<rparr>"
  let ?sh = "shelf_insert (slot_size L) ?slot (points_shelf st)"
  let ?st2 = "st\<lparr>counters := counters st, points_shelf := ?sh\<rparr>"
  consider (over) "?ceiling < ?bytes"
    | (capped) "\<not> ?ceiling < ?bytes" "get_by stream_eq (series st) s = None \<and> series_cap (config st) \<le> store_resident_streams st"
    | (kept) "\<not> ?ceiling < ?bytes" "\<not> (get_by stream_eq (series st) s = None \<and> series_cap (config st) \<le> store_resident_streams st)"
    by blast
  then show ?thesis
  proof cases
    case over
    obtain st2 cs where r: "report_refusal (ad_entity a) (Some s) (st\<lparr>counters := (counters st)
        \<lparr>c_identity_over_ceiling := c_identity_over_ceiling (counters st) + 1\<rparr>\<rparr>) = (st2, cs)"
      by (meson surj_pair)
    with keep new over have "st' = st2" "calls = cs" "out = IdentityOverCeiling ?ceiling ?bytes"
      by (simp_all add: keep_metric_point_def Let_def)
    with report_refusal_entities [OF r, of st] k show ?thesis by (simp add: keep_entities_def)
  next
    case capped
    obtain st2 cs where r: "report_refusal (ad_entity a) (Some s) (st\<lparr>counters := (counters st)
        \<lparr>c_series_cap := c_series_cap (counters st) + 1\<rparr>\<rparr>) = (st2, cs)"
      by (meson surj_pair)
    with keep new capped have "st' = st2" "calls = cs" "out = SeriesCapReached"
      by (simp_all add: keep_metric_point_def Let_def)
    with report_refusal_entities [OF r, of st] k show ?thesis by (simp add: keep_entities_def)
  next
    case kept
    have "keyed (points_shelf st)" using k by (simp add: keyed_store_def)
    note ins = keyed_insert [of "points_shelf st" ?slot "slot_size L", OF this]
    from keep new(2) kept have "enforce_kept L (ad_at a) (charge_stream L s ?st2) = (st', out, calls)"
      unfolding keep_metric_point_def by (simp add: Let_def)
    with k ins new(1) show ?thesis
      by (intro enforce_kept_entities [where L = L and now = "ad_at a" and ?st1.0 = "charge_stream L s ?st2"])
         (simp_all add: keyed_store_def entity_list_mset charge_stream_rest point_ids_def)
  qed
qed

definition point_entities :: "queued_record list \<Rightarrow> entity_id set" where
  "point_entities rs = {qr_entity r | r s p. r \<in> set rs \<and> qr_record r = StoredPoint s p}"

lemma keep_queued_entities:
  "keyed_store st \<Longrightarrow> keep_queued L r st = (st', out, calls) \<Longrightarrow>
     keep_entities (point_entities [r]) (qr_entity r) st st' out calls"
  using keep_span_entities [of st L "\<lparr>ad_entity = qr_entity r, ad_at = qr_at r, ad_record = _\<rparr>" st' out calls]
    keep_log_entities [of st L "\<lparr>ad_entity = qr_entity r, ad_at = qr_at r, ad_record = _\<rparr>" st' out calls]
    keep_point_entities [of st L "\<lparr>ad_entity = qr_entity r, ad_at = qr_at r, ad_record = _\<rparr>" _ st' out calls]
  by (cases "qr_record r") (simp_all add: keep_queued_def point_entities_def)

lemma tick_lets_go:
  "keyed_store st \<Longrightarrow> retention_tick L now st = (st', n, calls) \<Longrightarrow> lets_go st st' calls"
  by (simp add: retention_tick_def enforce_retention_def enforce_lets_go)

section \<open>The ledger's entities\<close>

text \<open>What a stretch of admissions adds: a natural identity nothing stood under before and that
  stands afterwards, or a serial above every one given out before.\<close>

fun fresh_entity :: "admission_ledger \<Rightarrow> admission_ledger \<Rightarrow> entity_id \<Rightarrow> bool" where
  "fresh_entity l l' (Span t s) \<longleftrightarrow> spans l (t, s) = None \<and> spans l' (t, s) \<noteq> None"
| "fresh_entity l l' (Assigned n) \<longleftrightarrow> next_serial l < n \<and> n \<le> next_serial l'"

abbreviation offered_entities :: "pending_offer list \<Rightarrow> entity_id list" where
  "offered_entities ps \<equiv> map (\<lambda>po. qr_entity (po_queued po)) ps"

definition ledger_advances :: "admission_ledger \<Rightarrow> admission_ledger \<Rightarrow> entity_id list \<Rightarrow> bool" where
  "ledger_advances l l' es \<longleftrightarrow>
     next_serial l \<le> next_serial l' \<and> (\<forall>k. spans l k \<noteq> None \<longrightarrow> spans l' k \<noteq> None) \<and>
     distinct es \<and> (\<forall>e \<in> set es. fresh_entity l l' e)"

lemma ledger_advances_refl: "ledger_advances l l []"
  by (simp add: ledger_advances_def)

lemma ledger_advances_trans:
  assumes a: "ledger_advances l l1 es" and b: "ledger_advances l1 l2 fs"
  shows "ledger_advances l l2 (es @ fs)"
proof -
  have parts: "\<And>k. spans l k \<noteq> None \<Longrightarrow> spans l1 k \<noteq> None" "\<And>k. spans l1 k \<noteq> None \<Longrightarrow> spans l2 k \<noteq> None"
    "next_serial l \<le> next_serial l1" "next_serial l1 \<le> next_serial l2"
    using a b unfolding ledger_advances_def by blast+
  have left: "fresh_entity l l2 e" if "fresh_entity l l1 e" for e
    using parts that by (cases e) auto
  have right: "fresh_entity l l2 e" if "fresh_entity l1 l2 e" for e
    using parts that by (cases e) (fastforce, simp)
  have apart: "\<not> fresh_entity l1 l2 e" if "fresh_entity l l1 e" for e
    using that by (cases e) auto
  have "e \<notin> set fs" if "e \<in> set es" for e
    using a b apart that unfolding ledger_advances_def by blast
  then have "distinct (es @ fs)" using a b by (auto simp: ledger_advances_def)
  moreover have "next_serial l \<le> next_serial l2" using a b by (simp add: ledger_advances_def)
  moreover have "spans l2 k \<noteq> None" if "spans l k \<noteq> None" for k
    using parts that by blast
  moreover have "\<forall>e \<in> set (es @ fs). fresh_entity l l2 e"
    using a b left right unfolding ledger_advances_def set_append by blast
  ultimately show ?thesis
    unfolding ledger_advances_def by blast
qed

lemma one_admission_advances:
  assumes "wf_ledger L l" "op_outcome L x l = Some out"
    "\<And>k. spans l k \<noteq> None \<Longrightarrow> spans (ledger_step L x l) k \<noteq> None"
    "\<And>e. out = Admitted e \<Longrightarrow> e \<notin> live_entities l"
    "\<And>t s. out = Admitted (Span t s) \<Longrightarrow> spans (ledger_step L x l) (t, s) \<noteq> None"
  shows "ledger_advances l (ledger_step L x l) (case out of Admitted e \<Rightarrow> [e] | _ \<Rightarrow> [])"
proof (cases "\<exists>e. out = Admitted e")
  case True
  then obtain e where e: "out = Admitted e" ..
  have "fresh_entity l (ledger_step L x l) e"
  proof (cases e)
    case (Span t s)
    with e assms(4) [of e] live_span_iff [OF assms(1), of t s] have "spans l (t, s) = None" by blast
    with Span e assms(5) show ?thesis by simp
  next
    case (Assigned n)
    with e assms(2) admitted_serial_counted [of L x l n] show ?thesis by simp
  qed
  with e assms(3) ledger_step_serial [of l L x] show ?thesis by (simp add: ledger_advances_def)
next
  case False
  with assms(3) ledger_step_serial [of l L x] show ?thesis
    by (cases out) (simp_all add: ledger_advances_def)
qed

lemma span_admission_advances:
  assumes wf: "wf_ledger L l" and a: "admit_span L s l = (l', adm)"
  shows "ledger_advances l l' (case sa_outcome adm of Admitted e \<Rightarrow> [e] | _ \<Rightarrow> [])"
proof -
  have named: "spans l' (t, x) \<noteq> None" if "sa_outcome adm = Admitted (Span t x)" for t x
    using a that by (cases rule: admit_span_cases [of L s l]) (auto split: if_splits)
  have kept: "spans l' k \<noteq> None" if "spans l k \<noteq> None" for k
    using a that admit_span_grows(1) [of l k _ L s] by fastforce
  show ?thesis
    using one_admission_advances [OF wf, of "AdmitSpan s" "sa_outcome adm"] a named kept
      admitted_span_fresh [OF wf, of s] by simp
qed

lemma log_admission_advances:
  assumes wf: "wf_ledger L l" and a: "admit_log_record L r l = (l', out)"
  shows "ledger_advances l l' (case out of Admitted e \<Rightarrow> [e] | _ \<Rightarrow> [])"
proof -
  have "\<And>e. out = Admitted e \<Longrightarrow> e \<notin> live_entities l \<and> e = Assigned (next_serial l + 1)"
    using a admitted_log_fresh [OF wf, of r] by simp
  then show ?thesis
    using one_admission_advances [OF wf, of "AdmitLog r" out] a admit_log_record_rest(1) [of L r l] by auto
qed

lemma point_admission_advances:
  assumes wf: "wf_ledger L l" and a: "admit_metric_point L s p l = (l', adm)"
  shows "ledger_advances l l' (case pa_outcome adm of Admitted e \<Rightarrow> [e] | _ \<Rightarrow> [])"
proof -
  have "\<And>e. pa_outcome adm = Admitted e \<Longrightarrow> e \<notin> live_entities l \<and> e = Assigned (next_serial l + 1)"
    using a admitted_point_fresh [OF wf, of s p] by simp
  then show ?thesis
    using one_admission_advances [OF wf, of "AdmitPoint s p" "pa_outcome adm"] a
      admit_metric_point_grows(1) [of L s p l] by auto
qed

text \<open>One delivery, and then all of an export's.\<close>

lemma deliver_advances:
  assumes wf: "wf_ledger L (es_ledger st)"
  obtains new where "es_pending (deliver L now d st) = es_pending st @ new"
    "ledger_advances (es_ledger st) (es_ledger (deliver L now d st)) (offered_entities new)"
proof (cases d)
  case (SpanD t)
  show thesis
  proof (cases t)
    case (Inl r)
    with SpanD that [of "[]"] show thesis by (simp add: arm_refused ledger_advances_refl)
  next
    case (Inr s)
    obtain l' adm where a: "admit_span L s (es_ledger st) = (l', adm)" by (cases "admit_span L s (es_ledger st)")
    from span_admission_advances [OF wf a] SpanD Inr show thesis
      by (intro that) (auto simp: span_arm_effect [OF a] pend_def split: admission_outcome.splits)
  qed
next
  case (LogD t)
  show thesis
  proof (cases t)
    case (Inl r)
    with LogD that [of "[]"] show thesis by (simp add: arm_refused ledger_advances_refl)
  next
    case (Inr r)
    obtain l' out where a: "admit_log_record L r (es_ledger st) = (l', out)"
      by (cases "admit_log_record L r (es_ledger st)")
    from log_admission_advances [OF wf a] LogD Inr show thesis
      by (intro that) (auto simp: log_arm_effect [OF a] pend_def split: admission_outcome.splits)
  qed
next
  case (PointD s t)
  show thesis
  proof (cases t)
    case (Inl r)
    with PointD that [of "[]"] show thesis by (simp add: arm_refused ledger_advances_refl)
  next
    case (Inr p)
    obtain l' adm where a: "admit_metric_point L s p (es_ledger st) = (l', adm)"
      by (cases "admit_metric_point L s p (es_ledger st)")
    from point_admission_advances [OF wf a] PointD Inr show thesis
      by (intro that) (auto simp: point_arm_effect [OF a] pend_def split: admission_outcome.splits)
  qed
next
  case (RefusedD r)
  with that [of "[]"] show thesis by (simp add: ledger_advances_refl)
qed

lemma deliver_wf:
  assumes "wf_ledger L (es_ledger st)"
  shows "wf_ledger L (es_ledger (deliver L now d st))"
proof -
  let ?st = "st\<lparr>es_pending := []\<rparr>"
  have "es_ledger (deliver L now d st) = es_ledger (deliver L now d ?st)"
    by (cases d) (auto simp: arms Let_def push_outcome_def split: sum.splits prod.splits admission_outcome.splits)
  with books_deliver [of L False "es_ledger ?st" ?st now d] export_books_start [of L "es_ledger ?st" False] assms
  show ?thesis by (simp add: export_books_def)
qed

lemma deliveries_advance:
  assumes "wf_ledger L (es_ledger st)"
  shows "\<exists>new. es_pending (fold (deliver L now) ds st) = es_pending st @ new \<and>
    ledger_advances (es_ledger st) (es_ledger (fold (deliver L now) ds st)) (offered_entities new)"
  using assms
proof (induction ds arbitrary: st)
  case Nil
  then show ?case by (simp add: ledger_advances_refl)
next
  case (Cons d ds)
  obtain new where one: "es_pending (deliver L now d st) = es_pending st @ new"
    "ledger_advances (es_ledger st) (es_ledger (deliver L now d st)) (offered_entities new)"
    by (rule deliver_advances [OF Cons.prems])
  from Cons.IH [OF deliver_wf [OF Cons.prems]] obtain more where
    "es_pending (fold (deliver L now) ds (deliver L now d st)) = es_pending (deliver L now d st) @ more"
    "ledger_advances (es_ledger (deliver L now d st))
       (es_ledger (fold (deliver L now) ds (deliver L now d st))) (offered_entities more)" by blast
  with one ledger_advances_trans [OF one(2)] show ?case
    by (intro exI [of _ "new @ more"]) simp
qed

end
