(* ===== verification/Runtime_Tracking.thy ===== *)
theory Runtime_Tracking
  imports Runtime_Laws
begin

text \<open>
  The invariant of every run: identity follows residency through the whole graph.

  A record's way is queue, pump, store, and out through the hook. \<open>held\<close> lists the entities of the
  first three, \<open>ending\<close> those the store has let go of or refused and whom the hook has not made
  the ledger forget yet. \<open>tracked\<close> says that no entity occurs twice among them, that each of them was given out,
  that the ledger remembers no identity outside them, and that whatever is held by name or as a
  point still stands in the ledger.
\<close>

section \<open>The invariant\<close>

fun in_flight :: "pump_phase \<Rightarrow> queued_record list" where
  "in_flight (Holding r) = [r]"
| "in_flight _ = []"

definition on_the_way :: "runtime \<Rightarrow> queued_record list" where
  "on_the_way rt = q_items (pl_sink (rt_pipeline rt)) @ in_flight (rt_pump rt)"

definition held :: "runtime \<Rightarrow> entity_id list" where
  "held rt = map qr_entity (on_the_way rt) @ entity_list (rt_store rt)"

fun ended_section :: "hook_section \<Rightarrow> entity_id list" where
  "ended_section (ForgetEntity e) = [e]"
| "ended_section _ = []"

definition ended_sections :: "hook_section list \<Rightarrow> entity_id list" where
  "ended_sections cs = concat (map ended_section cs)"

lemma ended_sections_simps [simp]:
  "ended_sections [] = []" "ended_sections (c # cs) = ended_section c @ ended_sections cs"
  "ended_sections (cs @ ds) = ended_sections cs @ ended_sections ds"
  by (simp_all add: ended_sections_def)

lemma ended_hook_sections: "ended_sections (hook_sections c) = ended_entity c"
  by (cases c) (auto split: option.splits)

lemma ended_hook_work [simp]: "ended_sections (hook_work cs) = ended_entities cs"
  by (induction cs) (simp_all add: hook_work_def ended_hook_sections)

lemma hook_work_Nil [simp]: "hook_work [] = []"
  by (simp add: hook_work_def)

definition ending :: "runtime \<Rightarrow> entity_id list" where
  "ending rt = ended_sections (rt_calls rt)"

definition held_points :: "runtime \<Rightarrow> entity_id set" where
  "held_points rt = point_entities (on_the_way rt) \<union> point_ids (rt_store rt)"

abbreviation rt_ledger :: "runtime \<Rightarrow> admission_ledger" where
  "rt_ledger rt \<equiv> pl_ledger (rt_pipeline rt)"

text \<open>Given out by this ledger: a name that stands, or a serial already counted.\<close>

fun given :: "admission_ledger \<Rightarrow> entity_id \<Rightarrow> bool" where
  "given l (Span t s) \<longleftrightarrow> spans l (t, s) \<noteq> None"
| "given l (Assigned n) \<longleftrightarrow> n \<le> next_serial l"

definition books_match :: "admission_ledger \<Rightarrow> entity_id multiset \<Rightarrow> entity_id set \<Rightarrow> bool" where
  "books_match l es ps \<longleftrightarrow>
     (\<forall>e. count es e \<le> 1) \<and> (\<forall>e \<in># es. given l e) \<and> live_entities l \<subseteq> set_mset es \<and>
     ps \<subseteq> live_entities l"

definition tracked :: "layout \<Rightarrow> runtime \<Rightarrow> bool" where
  "tracked L rt \<longleftrightarrow>
     pipeline_ok L (rt_pipeline rt) \<and> keyed_store (rt_store rt) \<and> hook (rt_store rt) \<and>
     books_match (rt_ledger rt) (mset (held rt) + mset (ending rt)) (held_points rt)"

section \<open>The ledger's side\<close>

lemma books_match_weaken:
  "books_match l es ps \<Longrightarrow> qs \<subseteq> ps \<Longrightarrow> books_match l es qs"
  by (auto simp: books_match_def)

lemma books_match_admitted:
  assumes wf: "wf_ledger L l" and wf': "wf_ledger L l'" and old: "books_match l es ps"
    and adv: "ledger_advances l l' (map f new)"
    and grown: "live_entities l \<subseteq> live_entities l'" "live_entities l' \<subseteq> live_entities l \<union> set (map f new)"
    and pts: "qs \<subseteq> live_entities l'"
  shows "books_match l' (es + mset (map f new)) (ps \<union> qs)"
proof -
  have given: "given l' e" if "given l e" for e
    using that adv by (cases e) (auto simp: ledger_advances_def)
  have fresh: "given l' e \<and> \<not> given l e" if "e \<in> set (map f new)" for e
  proof -
    have "fresh_entity l l' e" using adv that unfolding ledger_advances_def by blast
    then show ?thesis by (cases e) auto
  qed
  have "count (es + mset (map f new)) e \<le> 1" for e
  proof (cases "e \<in> set (map f new)")
    case True
    then have "\<not> given l e" using fresh by blast
    then have "e \<notin># es" using old unfolding books_match_def by blast
    moreover have "count (mset (map f new)) e \<le> 1"
      using adv by (simp add: ledger_advances_def distinct_count_atmost_1)
    ultimately show ?thesis by (simp add: not_in_iff)
  next
    case False
    then have "count (mset (map f new)) e = 0" by (metis count_mset_0_iff)
    with old show ?thesis by (simp add: books_match_def)
  qed
  moreover have "given l' e" if "e \<in># es + mset (map f new)" for e
    using that given fresh old by (auto simp: books_match_def)
  moreover have "live_entities l' \<subseteq> set_mset (es + mset (map f new))"
    using grown(2) old by (auto simp: books_match_def)
  moreover have "ps \<union> qs \<subseteq> live_entities l'" using old grown(1) pts by (auto simp: books_match_def)
  ultimately show ?thesis unfolding books_match_def by blast
qed

lemma forget_serial [simp]: "next_serial (forget e l) = next_serial l"
  by (cases e) (auto split: option.splits)

lemma release_stream_books [simp]:
  "next_serial (release_stream s l) = next_serial l" "spans (release_stream s l) = spans l"
  "points (release_stream s l) = points l" "live_entities (release_stream s l) = live_entities l"
  by (simp_all add: release_stream_def live_entities_def)

lemma given_same: "spans l' = spans l \<Longrightarrow> next_serial l \<le> next_serial l' \<Longrightarrow> given l e \<Longrightarrow> given l' e"
  by (cases e) auto

lemma undo_serial [simp]: "next_serial (fold undo_offer ps l) = next_serial l"
  by (induction ps arbitrary: l) (auto simp: undo_offer_def Let_def split: option.splits)

lemma books_match_forget:
  assumes wf: "wf_ledger L l" and old: "books_match l (add_mset e es) ps" and apart: "ps \<subseteq> set_mset es"
  shows "books_match (forget e l) es ps"
proof -
  have c: "count es x \<le> 1" for x
    using old unfolding books_match_def by (metis count_add_mset le_Suc_eq le_trans nat_le_linear)
  have "count (add_mset e es) e \<le> 1" using old unfolding books_match_def by blast
  then have "e \<notin># es" by (simp add: not_in_iff)
  moreover have "given (forget e l) x" if "x \<in># es" for x
  proof (cases x)
    case (Span t s)
    with that \<open>e \<notin># es\<close> have "e \<noteq> Span t s" by blast
    with old that Span show ?thesis by (auto simp: books_match_def spans_forget simp del: forget.simps)
  next
    case (Assigned n)
    with old that show ?thesis by (auto simp: books_match_def simp del: forget.simps)
  qed
  ultimately show ?thesis
    using old c apart by (auto simp: books_match_def live_forget [OF wf] simp del: forget.simps)
qed

lemma books_match_cong:
  "spans l' = spans l \<Longrightarrow> next_serial l \<le> next_serial l' \<Longrightarrow> live_entities l' = live_entities l \<Longrightarrow>
     books_match l es ps \<Longrightarrow> books_match l' es ps"
  using given_same [of l' l] by (auto simp: books_match_def)

lemma export_books_live:
  assumes wf0: "wf_ledger L l0" and books: "export_books L b l0 l ps"
  shows "live_entities l0 \<subseteq> live_entities l" "live_entities l \<subseteq> live_entities l0 \<union> entities_of ps"
proof -
  have wf: "wf_ledger L l" using books by (simp add: export_books_def)
  have sp: "spans l0 (t, s) = (if Span t s \<in> entities_of ps then None else spans l (t, s))" for t s
    using books by (simp add: export_books_def)
  have ap: "assigned_points l0 n = (if Assigned n \<in> entities_of ps then None else assigned_points l n)" for n
    using books by (simp add: export_books_def)
  have "e \<in> live_entities l" if "e \<in> live_entities l0" for e
    using that by (cases e) (auto simp: live_iff [OF wf] live_iff [OF wf0] sp ap split: if_splits)
  then show "live_entities l0 \<subseteq> live_entities l" by blast
  have "e \<in> live_entities l0 \<union> entities_of ps" if "e \<in> live_entities l" for e
    using that by (cases e) (auto simp: live_iff [OF wf] live_iff [OF wf0] sp ap)
  then show "live_entities l \<subseteq> live_entities l0 \<union> entities_of ps" by blast
qed

lemma live_entities_mono:
  "(\<And>k v. spans l k = Some v \<Longrightarrow> spans l' k = Some v) \<Longrightarrow> \<exists>new. points l' = points l @ new \<Longrightarrow>
     live_entities l \<subseteq> live_entities l'"
  unfolding live_entities_def by fastforce

abbreviation pending_points :: "export_state \<Rightarrow> entity_id set" where
  "pending_points st \<equiv> point_entities (map po_queued (es_pending st))"

lemma point_entities_simps [simp]:
  "point_entities [] = {}" "point_entities (rs @ qs) = point_entities rs \<union> point_entities qs"
  "point_entities (r # rs) = point_entities [r] \<union> point_entities rs"
  by (auto simp: point_entities_def)

lemma point_entities_pend [simp]:
  "point_entities [po_queued (pend now e (StoredSpan s) fr)] = {}"
  "point_entities [po_queued (pend now e (StoredLog r) fr)] = {}"
  "point_entities [po_queued (pend now e (StoredPoint x p) fr)] = {e}"
  by (auto simp: point_entities_def pend_def)

declare point_entities_simps(3) [simp del]

lemma deliver_points:
  assumes "pending_points st \<subseteq> live_entities (es_ledger st)"
  shows "pending_points (deliver L now d st) \<subseteq> live_entities (es_ledger (deliver L now d st))"
proof (cases d)
  case (SpanD t)
  show ?thesis
  proof (cases t)
    case (Inr s)
    obtain l' adm where a: "admit_span L s (es_ledger st) = (l', adm)" by (cases "admit_span L s (es_ledger st)")
    have "live_entities (es_ledger st) \<subseteq> live_entities l'"
      using admit_span_grows(1) [of "es_ledger st" _ _ L s] admit_span_grows(2) [of L s "es_ledger st"] a
      by (intro live_entities_mono) auto
    with Inr SpanD assms show ?thesis by (auto simp: span_arm_effect [OF a] split: admission_outcome.splits)
  qed (use SpanD assms in \<open>simp add: arm_refused\<close>)
next
  case (LogD t)
  show ?thesis
  proof (cases t)
    case (Inr r)
    obtain l' out where a: "admit_log_record L r (es_ledger st) = (l', out)"
      by (cases "admit_log_record L r (es_ledger st)")
    have "live_entities (es_ledger st) \<subseteq> live_entities l'"
      using admit_log_record_rest [of L r "es_ledger st"] a by (intro live_entities_mono) auto
    with Inr LogD assms show ?thesis by (auto simp: log_arm_effect [OF a] split: admission_outcome.splits)
  qed (use LogD assms in \<open>simp add: arm_refused\<close>)
next
  case (PointD s t)
  show ?thesis
  proof (cases t)
    case (Inr p)
    obtain l' adm where a: "admit_metric_point L s p (es_ledger st) = (l', adm)"
      by (cases "admit_metric_point L s p (es_ledger st)")
    have grown: "live_entities (es_ledger st) \<subseteq> live_entities l'"
      using admit_metric_point_grows [of L s p "es_ledger st"] a by (intro live_entities_mono) auto
    have "e \<in> live_entities l'" if "pa_outcome adm = Admitted e" for e
    proof -
      have "pa_outcome (snd (admit_metric_point L s p (es_ledger st))) = Admitted e" using a that by simp
      then obtain x where "(x, e) \<in> set (points (fst (admit_metric_point L s p (es_ledger st))))"
        by (rule admitted_point_stands)
      then show ?thesis using a by (force simp: live_entities_def)
    qed
    with Inr PointD assms grown show ?thesis
      by (auto simp: point_arm_effect [OF a] split: admission_outcome.splits)
  qed (use PointD assms in \<open>simp add: arm_refused\<close>)
next
  case (RefusedD r)
  with assms show ?thesis by simp
qed

lemma deliveries_points:
  "pending_points st \<subseteq> live_entities (es_ledger st) \<Longrightarrow>
     pending_points (fold (deliver L now) ds st) \<subseteq> live_entities (es_ledger (fold (deliver L now) ds st))"
  by (induction ds arbitrary: st) (simp_all add: deliver_points)

section \<open>The steps\<close>

lemma start_state_simps [simp]:
  "es_ledger (start_state p) = pl_ledger p" "es_pending (start_state p) = []"
  by (simp_all add: start_state_def)

lemma ingest_books:
  assumes ok: "pipeline_ok L p" and books: "books_match (pl_ledger p) es ps"
    and step: "ingest L P k now payload p = (p', result)"
  obtains new where "q_items (pl_sink p') = q_items (pl_sink p) @ new"
    "books_match (pl_ledger p') (es + mset (map qr_entity new)) (ps \<union> point_entities new)"
proof -
  have wf: "wf_ledger L (pl_ledger p)" using ok by (simp add: pipeline_ok_def)
  show thesis
  proof (cases rule: ingest_cases [of P k payload p L now])
    case (gated_out sig)
    with step books show thesis by (intro that [of "[]"]) simp_all
  next
    case (saturated ds)
    let ?l = "fold undo_offer (es_pending (end_state L now ds p)) (es_ledger (end_state L now ds p))"
    note eb = end_state_books [OF wf, of False now ds, simplified]
    have same: "same_books False (pl_ledger p) ?l" by (rule export_books_undo [OF eb])
    have "next_serial (pl_ledger p) \<le> next_serial ?l"
      using deliveries_advance [of L "start_state p" now ds] wf by (auto simp: ledger_advances_def)
    then have "books_match ?l es ps"
      using same by (intro books_match_cong [OF _ _ _ books]) (auto simp: same_books_def live_entities_def)
    with saturated(3) step show thesis by (intro that [of "[]"]) auto
  next
    case (accepted ds)
    let ?st = "end_state L now ds p"
    note eb = end_state_books [OF wf, of False now ds, simplified]
    have wf': "wf_ledger L (es_ledger ?st)" using eb by (simp add: export_books_def)
    have adv: "ledger_advances (pl_ledger p) (es_ledger ?st) (map qr_entity (map po_queued (es_pending ?st)))"
      using deliveries_advance [of L "start_state p" now ds] wf by (auto simp: comp_def)
    have "live_entities (es_ledger ?st) \<subseteq> live_entities (pl_ledger p) \<union>
        set (map qr_entity (map po_queued (es_pending ?st)))"
      using export_books_live(2) [OF wf eb] by (simp add: entities_of_def image_image)
    moreover have "pending_points ?st \<subseteq> live_entities (es_ledger ?st)"
      by (intro deliveries_points) simp
    ultimately have "books_match (es_ledger ?st)
        (es + mset (map qr_entity (map po_queued (es_pending ?st)))) (ps \<union> pending_points ?st)"
      by (intro books_match_admitted [OF wf wf' books adv export_books_live(1) [OF wf eb]])
    with accepted(3) step offers_fit(1) [OF accepted(2)] show thesis
      by (intro that [of "map po_queued (es_pending ?st)"]) auto
  qed
qed

lemma pump_turn_popped:
  assumes "pump_turn L drain now waited q = Popped_one r q'"
  shows "q_items q = r # q_items q'" "pop_front L q = Some (r, q')"
  using assms by (auto simp: pump_turn_def pop_front_def split: if_splits option.splits list.splits)

lemma pop_pipeline_ok:
  assumes "pipeline_ok L p" "pop_front L (pl_sink p) = Some (r, q)"
  shows "pipeline_ok L (p\<lparr>pl_sink := q\<rparr>)"
  using pipeline_step_ok [OF assms(1), of undefined TakeOne] assms(2) by simp

lemma forward_pipeline_ok:
  assumes "pipeline_ok L p"
  shows "pipeline_ok L (p\<lparr>pl_ledger := forward c (pl_ledger p)\<rparr>)"
proof -
  have lim: "limits (forget e l) = limits l" "limits (release_stream s l) = limits l" for e s l
    by (cases e; auto simp: release_stream_def split: option.splits)+
  show ?thesis
    using assms by (cases c) (auto simp: pipeline_ok_def wf_forget wf_release_stream lim
        split: option.splits simp del: forget.simps)
qed

text \<open>What a keep and a tick do to the two lists, in one equation.\<close>

lemma keep_balance:
  assumes keep: "keep_entities X e st st' out calls" and hk: "hook st" and new: "e \<notin> set (entity_list st)"
  shows "mset (entity_list st') + mset (ended_entities calls) = add_mset e (mset (entity_list st))"
    and "out \<noteq> Duplicate" and "keyed_store st'" and "hook st'" and "point_ids st' \<subseteq> X \<union> point_ids st"
proof -
  have all: "mset (entity_list st') + mset (ended_entities calls) = add_mset e (mset (entity_list st)) \<and>
    out \<noteq> Duplicate \<and> keyed_store st' \<and> hook st' \<and> point_ids st' \<subseteq> X \<union> point_ids st"
  proof (cases out)
    case (Kept n)
    then obtain st1 where st1: "mset (entity_list st1) = add_mset e (mset (entity_list st))" "hook st1"
      "point_ids st1 \<subseteq> X \<union> point_ids st" "lets_go st1 st' calls"
      using keep hk unfolding keep_entities_def by auto
    then have "mset (entity_list st1) = mset (entity_list st') + mset (ended_entities calls)"
      "keyed_store st'" "hook st'" "point_ids st' \<subseteq> point_ids st1"
      by (simp_all add: lets_go_def)
    with st1 Kept show ?thesis by auto
  qed (use keep hk new in \<open>auto simp: keep_entities_def\<close>)
  then show "mset (entity_list st') + mset (ended_entities calls) = add_mset e (mset (entity_list st))"
    "out \<noteq> Duplicate" "keyed_store st'" "hook st'" "point_ids st' \<subseteq> X \<union> point_ids st" by blast+
qed

lemma held_simps [simp]:
  "held (rt\<lparr>rt_counters := c\<rparr>) = held rt" "held_points (rt\<lparr>rt_counters := c\<rparr>) = held_points rt"
  by (simp_all add: held_def on_the_way_def held_points_def)

lemma tracked_cong:
  "tracked L rt \<Longrightarrow> pipeline_ok L (rt_pipeline rt') \<Longrightarrow> rt_ledger rt' = rt_ledger rt \<Longrightarrow>
     rt_store rt' = rt_store rt \<Longrightarrow> rt_calls rt' = rt_calls rt \<Longrightarrow> on_the_way rt' = on_the_way rt \<Longrightarrow>
     tracked L rt'"
  by (simp add: tracked_def held_def ending_def held_points_def)

lemma tracked_kept:
  assumes t: "tracked L rt" and pump: "rt_pump rt = Holding r" and calls: "rt_calls rt = []"
    and keep: "keep_queued L r (rt_store rt) = (st, out, cs)"
  shows "out \<noteq> Duplicate" and "tracked L (rt\<lparr>rt_store := st, rt_pump := Counting out, rt_calls := hook_work cs\<rparr>)"
proof -
  let ?q = "q_items (pl_sink (rt_pipeline rt))" and ?e = "qr_entity r"
  have ok: "pipeline_ok L (rt_pipeline rt)" "keyed_store (rt_store rt)" "hook (rt_store rt)"
    and books: "books_match (rt_ledger rt) (mset (held rt) + mset (ending rt)) (held_points rt)"
    using t by (simp_all add: tracked_def)
  have held: "mset (held rt) + mset (ending rt) =
      mset (map qr_entity ?q) + add_mset ?e (mset (entity_list (rt_store rt)))"
    by (simp add: held_def on_the_way_def ending_def pump calls)
  have "count (mset (held rt) + mset (ending rt)) ?e \<le> 1" using books unfolding books_match_def by blast
  then have "?e \<notin> set (entity_list (rt_store rt))"
    unfolding held by (simp add: count_eq_zero_iff)
  note bal = keep_balance [OF keep_queued_entities [OF ok(2) keep] ok(3) this]
  show "out \<noteq> Duplicate" by (rule bal(2))
  have "point_entities ?q \<union> point_ids st \<subseteq> held_points rt"
    using bal(5) by (auto simp: held_points_def on_the_way_def pump)
  from books_match_weaken [OF books [unfolded held] this] ok(1) bal(1,3,4)
  show "tracked L (rt\<lparr>rt_store := st, rt_pump := Counting out, rt_calls := hook_work cs\<rparr>)"
    by (simp add: tracked_def held_def on_the_way_def ending_def held_points_def add.assoc)
qed

lemma tracked_ticked:
  assumes t: "tracked L rt" and calls: "rt_calls rt = []"
    and tick: "retention_tick L now (rt_store rt) = (st, n, cs)"
  shows "tracked L (rt\<lparr>rt_store := st, rt_calls := hook_work cs\<rparr>)"
proof -
  have ok: "pipeline_ok L (rt_pipeline rt)" "keyed_store (rt_store rt)" "hook (rt_store rt)"
    and books: "books_match (rt_ledger rt) (mset (held rt) + mset (ending rt)) (held_points rt)"
    using t by (simp_all add: tracked_def)
  have go: "mset (entity_list (rt_store rt)) = mset (entity_list st) + mset (ended_entities cs)"
    "keyed_store st" "hook st" "point_ids st \<subseteq> point_ids (rt_store rt)"
    using tick_lets_go [OF ok(2) tick] ok(3) by (simp_all add: lets_go_def)
  have "point_entities (on_the_way rt) \<union> point_ids st \<subseteq> held_points rt"
    using go(4) by (auto simp: held_points_def)
  from books_match_weaken [OF books this] ok(1) go(1-3) calls show ?thesis
    by (simp add: tracked_def held_def on_the_way_def ending_def held_points_def add.assoc)
qed

lemma ending_in_books:
  assumes t: "tracked L rt" and calls: "rt_calls rt = c # rest" and e: "e \<in> set (ended_section c)"
  shows "mset (held rt) + mset (ending rt) = add_mset e (mset (held rt) + mset (ended_sections rest))"
    and "held_points rt \<subseteq> set_mset (mset (held rt) + mset (ended_sections rest))"
proof -
  have one: "ended_section c = [e]" using e by (cases c) auto
  then show "mset (held rt) + mset (ending rt) = add_mset e (mset (held rt) + mset (ended_sections rest))"
    by (simp add: ending_def calls)
  show "held_points rt \<subseteq> set_mset (mset (held rt) + mset (ended_sections rest))"
    by (auto simp: held_points_def held_def point_entities_def point_ids_def entity_list_def)
qed

lemma tracked_forwarded:
  assumes t: "tracked L rt" and calls: "rt_calls rt = c # rest"
  shows "tracked L (rt\<lparr>rt_pipeline := (rt_pipeline rt)\<lparr>pl_ledger := forward c (rt_ledger rt)\<rparr>,
    rt_calls := rest, rt_refused_forwards := n\<rparr>)"
proof -
  let ?es = "mset (held rt) + mset (ended_sections rest)"
  have ok: "pipeline_ok L (rt_pipeline rt)" and wf: "wf_ledger L (rt_ledger rt)"
    and books: "books_match (rt_ledger rt) (mset (held rt) + mset (ending rt)) (held_points rt)"
    using t by (simp_all add: tracked_def pipeline_ok_def)
  have "books_match (forward c (rt_ledger rt)) ?es (held_points rt)"
  proof (cases "ended_section c")
    case Nil
    with books have "books_match (rt_ledger rt) ?es (held_points rt)" by (simp add: ending_def calls)
    with Nil show ?thesis by (cases c) (auto intro: books_match_cong [rotated 3])
  next
    case (Cons e es)
    note eq = ending_in_books [OF t calls, of e]
    have e: "e \<in> set (ended_section c)" using Cons by simp
    have f: "books_match (forget e (rt_ledger rt)) ?es (held_points rt)"
      by (rule books_match_forget [OF wf books [unfolded eq(1) [OF e]] eq(2) [OF e]])
    show ?thesis
      using Cons f
      by (cases c) (auto intro: books_match_cong [rotated 3, OF f] split: option.splits simp del: forget.simps)
  qed
  moreover have "mset (held rt') + mset (ending rt') = ?es \<and> held_points rt' = held_points rt"
    if "rt' = rt\<lparr>rt_pipeline := (rt_pipeline rt)\<lparr>pl_ledger := forward c (rt_ledger rt)\<rparr>,
      rt_calls := rest, rt_refused_forwards := n\<rparr>" for rt'
    by (simp add: that held_def ending_def on_the_way_def held_points_def)
  ultimately show ?thesis
    using t forward_pipeline_ok [OF ok, of c] by (simp add: tracked_def del: forward.simps)
qed

lemma tracked_ingested:
  assumes t: "tracked L rt"
    and step: "ingest L P k now payload ((rt_pipeline rt)\<lparr>pl_draining := False\<rparr>) = (p, result)"
  shows "tracked L (rt\<lparr>rt_pipeline := p\<lparr>pl_draining := b\<rparr>, rt_entered := es\<rparr>)"
proof -
  have ok: "pipeline_ok L ((rt_pipeline rt)\<lparr>pl_draining := False\<rparr>)"
    and books: "books_match (rt_ledger rt) (mset (held rt) + mset (ending rt)) (held_points rt)"
    using t by (simp_all add: tracked_def pipeline_ok_def)
  obtain new where new: "q_items (pl_sink p) = q_items (pl_sink (rt_pipeline rt)) @ new"
    "books_match (pl_ledger p) (mset (held rt) + mset (ending rt) + mset (map qr_entity new))
       (held_points rt \<union> point_entities new)"
    using ingest_books [OF ok _ step] books by auto
  let ?rt = "rt\<lparr>rt_pipeline := p\<lparr>pl_draining := b\<rparr>, rt_entered := es\<rparr>"
  have "mset (held ?rt) + mset (ending ?rt) = mset (held rt) + mset (ending rt) + mset (map qr_entity new)"
    by (simp add: held_def on_the_way_def ending_def new(1))
  moreover have "held_points ?rt = held_points rt \<union> point_entities new"
    by (auto simp: held_points_def on_the_way_def new(1))
  moreover have "pipeline_ok L p" using ingest_ok [OF ok, of P k now payload] step by simp
  then have "pipeline_ok L (p\<lparr>pl_draining := b\<rparr>)" by (simp add: pipeline_ok_def)
  ultimately show ?thesis using t new(2) by (simp add: tracked_def)
qed

lemma tracked_popped:
  assumes t: "tracked L rt" and pump: "rt_pump rt = Waiting drain"
    and turn: "pump_turn L drain now waited (pl_sink (rt_pipeline rt)) = Popped_one r q"
  shows "tracked L (rt\<lparr>rt_pipeline := (rt_pipeline rt)\<lparr>pl_sink := q\<rparr>, rt_pump := Holding r\<rparr>)"
proof -
  let ?rt = "rt\<lparr>rt_pipeline := (rt_pipeline rt)\<lparr>pl_sink := q\<rparr>, rt_pump := Holding r\<rparr>"
  note pop = pump_turn_popped [OF turn]
  have "mset (held ?rt) + mset (ending ?rt) = mset (held rt) + mset (ending rt)"
    by (simp add: held_def on_the_way_def ending_def pump pop(1))
  moreover have "held_points ?rt = held_points rt"
    by (auto simp: held_points_def on_the_way_def pump pop(1) point_entities_simps(3) [of r "q_items q"])
  ultimately show ?thesis
    using t pop_pipeline_ok [OF _ pop(2)] by (simp add: tracked_def)
qed

theorem tracked_step:
  assumes "runtime_step L P rt ev rt'" and t: "tracked L rt"
  shows "tracked L rt'"
  using assms(1)
proof cases
  case (ingested k now payload p result)
  with tracked_ingested [OF t] show ?thesis by simp
next
  case drain_gated
  with t show ?thesis
    by (auto simp: gate_drain_def begin_draining_def pipeline_ok_def tracked_def held_def ending_def
        held_points_def on_the_way_def)
next
  case (deadline_anchored deadline)
  with t show ?thesis
    by (intro tracked_cong [OF t]) (simp_all add: anchor_drain_def on_the_way_def tracked_def)
next
  case (popped drain now waited r q)
  with tracked_popped [OF t] show ?thesis by simp
next
  case (stored r)
  obtain st out cs where k: "keep_queued L r (rt_store rt) = (st, out, cs)" by (metis prod_cases3)
  with tracked_kept(2) [OF t stored(3,4) k] stored show ?thesis by (simp add: keep_record_def)
next
  case (ticked now st n calls)
  with tracked_ticked [OF t] show ?thesis by simp
next
  case (forwarded c rest)
  with tracked_forwarded [OF t] show ?thesis by simp
next
  case (entered payload k now)
  with t show ?thesis by (intro tracked_cong [OF t]) (simp_all add: on_the_way_def tracked_def)
next
  case (turned_away payload sig k now)
  with t show ?thesis by simp
next
  case looked
  with t show ?thesis by (intro tracked_cong [OF t]) (simp_all add: on_the_way_def tracked_def)
next
  case (idled drain now waited)
  with t show ?thesis by (intro tracked_cong [OF t]) (simp_all add: on_the_way_def tracked_def)
next
  case (pump_ended drain now waited)
  with t show ?thesis by (intro tracked_cong [OF t]) (simp_all add: on_the_way_def tracked_def)
next
  case (counted out)
  with t show ?thesis by (intro tracked_cong [OF t]) (simp_all add: on_the_way_def tracked_def)
qed

lemma tracked_build:
  assumes "runtime_build L cfg = Inr rt"
  shows "tracked L rt"
proof -
  obtain p where p: "with_config L (queue_new PIPELINE_QUEUE_NAME (rc_queue_ceiling cfg)) (rc_budgets cfg)
      (rc_payload_ceiling cfg) = Inr p"
    and rt: "rt = \<lparr>rt_pipeline = p, rt_entered = [], rt_store = store_new (rc_store cfg) True, rt_drain = None,
      rt_pump = Looking, rt_calls = [], rt_counters = no_counts, rt_refused_forwards = 0\<rparr>"
    using assms by (auto simp: runtime_build_def and_then_Inr_iff)
  have "q_items (pl_sink p) = []" "pl_ledger p = ledger_new (rc_budgets cfg)"
    using p by (auto simp: with_config_def Let_def split: if_splits)
  with with_config_ok(1) [OF p] show ?thesis
    by (simp add: rt tracked_def held_def on_the_way_def ending_def held_points_def store_new_def
        keyed_store_def keyed_def shelf_new_def om_sorted_def index_matches_def entity_list_def
        point_ids_def books_match_def live_entities_def ledger_new_def)
qed

lemma tracked_run:
  "runtime_run L P rt evs rt' \<Longrightarrow> tracked L rt \<Longrightarrow> tracked L rt'"
  by (induction rule: runtime_run.induct) (auto dest: tracked_step)

end
