(* ===== verification/Runtime_Promises.thy ===== *)
theory Runtime_Promises
  imports Runtime_Tracking Store_Promises
begin

text \<open>
  The properties of the runtime, over every run from a built graph: identity tracks residency,
  the pump never meets a duplicate, every admitted record is accounted for, a drain completes,
  the admission clock never repeats; and two places where the code does less than it says.
\<close>

definition reaches :: "layout \<Rightarrow> parsers \<Rightarrow> runtime_config \<Rightarrow> runtime_event list \<Rightarrow> runtime \<Rightarrow> bool" where
  "reaches L P cfg evs rt \<longleftrightarrow> (\<exists>rt0. runtime_build L cfg = Inr rt0 \<and> runtime_run L P rt0 evs rt)"

lemma reaches_tracked: "reaches L P cfg evs rt \<Longrightarrow> tracked L rt"
  by (auto simp: reaches_def intro: tracked_run tracked_build)

lemma reaches_step: "reaches L P cfg evs rt \<Longrightarrow> runtime_step L P rt ev rt' \<Longrightarrow> reaches L P cfg (evs @ [ev]) rt'"
  by (auto simp: reaches_def intro: runtime_run.more)

text \<open>An invariant of the reachable states is shown at the build and at each step.\<close>

lemma reaches_invariant [consumes 1, case_names build step]:
  assumes "reaches L P cfg evs rt"
    and "\<And>rt0. runtime_build L cfg = Inr rt0 \<Longrightarrow> Q [] rt0"
    and "\<And>evs rt ev rt'. reaches L P cfg evs rt \<Longrightarrow> Q evs rt \<Longrightarrow> runtime_step L P rt ev rt' \<Longrightarrow> Q (evs @ [ev]) rt'"
  shows "Q evs rt"
proof -
  obtain rt0 where b: "runtime_build L cfg = Inr rt0" and run: "runtime_run L P rt0 evs rt"
    using assms(1) by (auto simp: reaches_def)
  from run b show ?thesis
  proof (induction rule: runtime_run.induct)
    case (none rt)
    then show ?case by (rule assms(2))
  next
    case (more rt evs rt1 ev rt2)
    then have "reaches L P cfg evs rt1" by (auto simp: reaches_def)
    from assms(3) [OF this more.IH [OF more.prems] more.hyps(2)] show ?case .
  qed
qed

lemma build_parts:
  assumes "runtime_build L cfg = Inr rt"
  shows "rt_drain rt = None" "rt_pump rt = Looking" "rt_calls rt = []" "rt_counters rt = no_counts"
    "q_items (pl_sink (rt_pipeline rt)) = []" "rt_entered rt = []" "pl_draining (rt_pipeline rt) = False"
  using assms
  by (auto simp: runtime_build_def and_then_Inr_iff with_config_def Let_def queue_new_def split: if_splits)

lemma pl_limits_step:
  assumes "runtime_step L P rt ev rt'" "tracked L rt"
  shows "pl_limits (rt_pipeline rt') = pl_limits (rt_pipeline rt)"
  using assms(1)
proof cases
  case (ingested k now payload p result)
  have "pipeline_ok L ((rt_pipeline rt)\<lparr>pl_draining := False\<rparr>)"
    using assms(2) by (simp add: tracked_def pipeline_ok_def)
  from ingest_ok [OF this, of P k now payload] ingested show ?thesis by simp
next
  case (stored r)
  then show ?thesis by (simp add: keep_record_def split: prod.splits)
qed (simp_all add: gate_drain_def anchor_drain_def begin_draining_def)

lemma reaches_limits:
  assumes "reaches L P cfg evs rt"
  shows "limits (rt_ledger rt) = rc_budgets cfg"
proof -
  have "pl_limits (rt_pipeline rt) = rc_budgets cfg"
    using assms
  proof (induction rule: reaches_invariant)
    case (build rt0)
    then show ?case
      by (auto simp: runtime_build_def and_then_Inr_iff with_config_def Let_def split: if_splits)
  next
    case (step evs rt ev rt')
    with pl_limits_step [OF step(2) reaches_tracked [OF step(1)]] show ?case by simp
  qed
  with reaches_tracked [OF assms] show ?thesis by (simp add: tracked_def pipeline_ok_def)
qed

section \<open>A concrete run\<close>

lemma sample_build:
  obtains rt where "runtime_build layout64 default_runtime_config = Inr rt"
    "rt_pipeline rt = sample_pipeline QUEUE_CEILING_BYTES" "rt_entered rt = []"
    "rt_pump rt = Looking" "rt_calls rt = []" "rt_drain rt = None"
proof -
  have "with_config layout64 (queue_new PIPELINE_QUEUE_NAME QUEUE_CEILING_BYTES)
      default_budget_limits OTLP_PAYLOAD_BYTES = Inr (sample_pipeline QUEUE_CEILING_BYTES)"
    by (simp add: with_config_def legal_record_bound_bytes_def default_budget_limits_def size_constants
        layout64_def slot_bytes_def QUEUE_CEILING_BYTES_def Let_def sample_pipeline_def queue_new_def)
  then have "runtime_build layout64 default_runtime_config = Inr
      \<lparr>rt_pipeline = sample_pipeline QUEUE_CEILING_BYTES, rt_entered = [],
       rt_store = store_new default_memory_config True, rt_drain = None, rt_pump = Looking,
       rt_calls = [], rt_counters = no_counts, rt_refused_forwards = 0\<rparr>"
    by (simp add: runtime_build_def default_runtime_config_def)
  then show thesis by (rule that) simp_all
qed

text \<open>One export is admitted.\<close>

definition sample_events :: "export_outcome \<Rightarrow> runtime_event list" where
  "sample_events out =
     [Entered Traces (AdmissionTime 5) [1], Ingested Traces (AdmissionTime 5) [1] (Inr out)]"

lemma sample_reaches:
  obtains rt out where "reaches layout64 sample_parsers default_runtime_config (sample_events out) rt"
    "map qr_entity (q_items (pl_sink (rt_pipeline rt))) = [Span (sample_trace 1) (sample_span_id 1)]"
    "eo_records out = [RecordAdmitted (Span (sample_trace 1) (sample_span_id 1))]"
    "rt_calls rt = []" "rt_pump rt = Looking" "rt_drain rt = None"
proof -
  let ?p = "sample_pipeline QUEUE_CEILING_BYTES"
  obtain rt0 where b: "runtime_build layout64 default_runtime_config = Inr rt0" "rt_pipeline rt0 = ?p"
    "rt_entered rt0 = []" "rt_pump rt0 = Looking" "rt_calls rt0 = []" "rt_drain rt0 = None" by (rule sample_build)
  obtain p out where run: "ingest layout64 sample_parsers Traces (AdmissionTime 5) [1] ?p = (p, Inr out)"
    "eo_records out = [RecordAdmitted (Span (sample_trace 1) (sample_span_id 1))]" by (rule sample_ingest)
  have q: "q_items (pl_sink ?p) = []" and nd: "?p\<lparr>pl_draining := False\<rparr> = ?p"
    by (simp_all add: sample_pipeline_def queue_new_def)
  let ?rt1 = "rt0\<lparr>rt_entered := [(Traces, AdmissionTime 5, [1])]\<rparr>"
  let ?rt2 = "?rt1\<lparr>rt_pipeline := p\<lparr>pl_draining := pl_draining (rt_pipeline ?rt1)\<rparr>, rt_entered := []\<rparr>"
  have "gate ?p [1] = Inr ()" by (simp add: gate_def sample_pipeline_def OTLP_PAYLOAD_BYTES_def)
  then have "runtime_step layout64 sample_parsers rt0 (Entered Traces (AdmissionTime 5) [1]) ?rt1"
    using runtime_step.entered [of rt0 "[1]" layout64 sample_parsers Traces "AdmissionTime 5"] b by simp
  moreover have "runtime_step layout64 sample_parsers ?rt1 (Ingested Traces (AdmissionTime 5) [1] (Inr out)) ?rt2"
    using runtime_step.ingested [of Traces "AdmissionTime 5" "[1]" ?rt1 layout64 sample_parsers p "Inr out"]
      run(1) b nd by simp
  ultimately have "runtime_run layout64 sample_parsers rt0 (([] @ [Entered Traces (AdmissionTime 5) [1]]) @
      [Ingested Traces (AdmissionTime 5) [1] (Inr out)]) ?rt2"
    by (intro runtime_run.more [OF runtime_run.more [OF runtime_run.none]])
  then have "reaches layout64 sample_parsers default_runtime_config (sample_events out) ?rt2"
    using b(1) by (auto simp: reaches_def sample_events_def)
  moreover have "map qr_entity (q_items (pl_sink p)) = [Span (sample_trace 1) (sample_span_id 1)]"
  proof -
    obtain new where "q_items (pl_sink p) = q_items (pl_sink ?p) @ new"
      "map qr_entity new = admitted_entities (eo_records out)"
      by (rule accepted_export_growth [OF run(1)])
    with q run(2) show ?thesis by simp
  qed
  ultimately show thesis using run(2) b by (intro that [of out ?rt2]) simp_all
qed

section \<open>Identity tracks residency\<close>

text \<open>C1: Identity tracks residency, in every run of the whole graph: exports, the pump, the
  retention timer and the hook, interleaved in any way. No entity is in two places at once (queued,
  held by the pump, resident, on its way out); a span's natural identity stands in the ledger
  exactly while the span is in one of them; every queued or resident point stands; and the ledger
  remembers no identity of a record that is gone.\<close>

theorem identity_tracks_residency:
  assumes "reaches L P cfg evs rt"
  shows "distinct (held rt @ ending rt) \<and>
    (\<forall>t s. spans (rt_ledger rt) (t, s) \<noteq> None \<longleftrightarrow> Span t s \<in> set (held rt @ ending rt)) \<and>
    held_points rt \<subseteq> live_entities (rt_ledger rt) \<and>
    live_entities (rt_ledger rt) \<subseteq> set (held rt @ ending rt)"
proof -
  have t: "tracked L rt" by (rule reaches_tracked [OF assms])
  then have wf: "wf_ledger L (rt_ledger rt)"
    and b: "books_match (rt_ledger rt) (mset (held rt @ ending rt)) (held_points rt)"
    by (simp_all add: tracked_def pipeline_ok_def)
  have "distinct (held rt @ ending rt)"
  proof -
    have "count (mset (held rt @ ending rt)) e \<le> 1" for e using b unfolding books_match_def by blast
    moreover have "0 < count (mset (held rt @ ending rt)) e" if "e \<in> set (held rt @ ending rt)" for e
      using that unfolding count_mset_0_iff [symmetric] neq0_conv [symmetric] by (metis count_mset_0_iff)
    ultimately show ?thesis
      unfolding distinct_count_atmost_1 by (metis One_nat_def Suc_leI count_mset_0_iff le_antisym)
  qed
  moreover have "spans (rt_ledger rt) (t, s) \<noteq> None \<longleftrightarrow> Span t s \<in> set (held rt @ ending rt)" for t s
  proof
    assume "spans (rt_ledger rt) (t, s) \<noteq> None"
    with b live_span_iff [OF wf, of t s] show "Span t s \<in> set (held rt @ ending rt)"
      unfolding books_match_def set_mset_mset by blast
  next
    assume "Span t s \<in> set (held rt @ ending rt)"
    then have "given (rt_ledger rt) (Span t s)"
      using b unfolding books_match_def set_mset_mset by blast
    then show "spans (rt_ledger rt) (t, s) \<noteq> None" by simp
  qed
  ultimately show ?thesis
    using b unfolding books_match_def set_mset_mset by blast
qed

theorem identity_tracks_residency_witness:
  "\<exists>rt out. reaches layout64 sample_parsers default_runtime_config (sample_events out) rt \<and>
     spans (rt_ledger rt) (sample_trace 1, sample_span_id 1) \<noteq> None"
proof -
  obtain rt out where r: "reaches layout64 sample_parsers default_runtime_config (sample_events out) rt"
    "map qr_entity (q_items (pl_sink (rt_pipeline rt))) = [Span (sample_trace 1) (sample_span_id 1)]"
    by (rule sample_reaches)
  then have "Span (sample_trace 1) (sample_span_id 1) \<in> set (held rt @ ending rt)"
    by (simp add: held_def on_the_way_def)
  with identity_tracks_residency [OF r(1)] r(1) show ?thesis by blast
qed

section \<open>Re-delivery\<close>

text \<open>C12: A re-delivery's fate is decided by residency. In every reachable state a span with a natural
  identity that passes its gate is admitted fresh exactly when no record of that identity is
  queued, in flight, resident, or awaiting the hook's call; otherwise it collapses onto the
  standing record or is recorded as a conflict.\<close>

theorem redelivery_decided_by_residency:
  assumes "reaches L P cfg evs rt" and "natural_identity s = Some (t, i)"
    and "check_span L s (rc_budgets cfg) = Inr ()"
  shows "sa_outcome (snd (admit_span L s (rt_ledger rt))) \<in>
      (if Span t i \<in> set (held rt @ ending rt) then {Collapsed (Span t i), Conflict (Span t i)}
       else {Admitted (Span t i)})"
proof -
  have tr: "tracked L rt" by (rule reaches_tracked [OF assms(1)])
  then have wf: "wf_ledger L (rt_ledger rt)"
    and b: "books_match (rt_ledger rt) (mset (held rt @ ending rt)) (held_points rt)"
    by (simp_all add: tracked_def pipeline_ok_def)
  note lim = reaches_limits [OF assms(1)]
  have listed: "Span t i \<in> set (held rt @ ending rt) \<longleftrightarrow> spans (rt_ledger rt) (t, i) \<noteq> None"
    using b live_span_iff [OF wf, of t i] unfolding books_match_def set_mset_mset
    by (metis given.simps(1) subsetD)
  show ?thesis
  proof (cases rule: admit_span_cases [of L s "rt_ledger rt"])
    case (collapsed k e x)
    with assms(2) wf_span_entry [OF wf, of "(t, i)" e x] listed show ?thesis by auto
  next
    case (conflict k e x)
    with assms(2) wf_span_entry [OF wf, of "(t, i)" e x] listed show ?thesis by auto
  next
    case (fresh k)
    with assms(2) listed show ?thesis by auto
  qed (use assms lim in auto)
qed

theorem redelivery_decided_by_residency_witness:
  "\<exists>rt out. reaches layout64 sample_parsers default_runtime_config (sample_events out) rt \<and>
     sa_outcome (snd (admit_span layout64 (sample_decoded 1) (rt_ledger rt))) \<noteq>
       Admitted (Span (sample_trace 1) (sample_span_id 1))"
proof -
  obtain rt out where r: "reaches layout64 sample_parsers default_runtime_config (sample_events out) rt"
    "map qr_entity (q_items (pl_sink (rt_pipeline rt))) = [Span (sample_trace 1) (sample_span_id 1)]"
    by (rule sample_reaches)
  have lim: "rc_budgets default_runtime_config = default_budget_limits"
    by (simp add: default_runtime_config_def)
  have "Span (sample_trace 1) (sample_span_id 1) \<in> set (held rt @ ending rt)"
    using r(2) by (simp add: held_def on_the_way_def)
  with redelivery_decided_by_residency [OF r(1) sample_decoded_identity [of 1]] lim
    sample_decoded_gate [of 1] r(1) show ?thesis by auto
qed

section \<open>The pump\<close>

definition no_duplicate :: "runtime \<Rightarrow> bool" where
  "no_duplicate rt \<longleftrightarrow> pc_duplicates (rt_counters rt) = 0 \<and> rt_pump rt \<noteq> Counting Duplicate"

lemma observe_duplicates: "out \<noteq> Duplicate \<Longrightarrow> pc_duplicates (observe out c) = pc_duplicates c"
  by (cases out) auto

text \<open>The pump never hands the store an entity it already holds. In no run does a keep answer
  \<open>Duplicate\<close>, and the duplicate counter stays 0: the counter the source keeps for it is a guard,
  not a case.\<close>

theorem pump_never_meets_duplicate:
  assumes "reaches L P cfg evs rt"
  shows "pc_duplicates (rt_counters rt) = 0 \<and> rt_pump rt \<noteq> Counting Duplicate \<and>
    (\<forall>r st out calls. rt_pump rt = Holding r \<longrightarrow> rt_calls rt = [] \<longrightarrow>
       keep_queued L r (rt_store rt) = (st, out, calls) \<longrightarrow> out \<noteq> Duplicate)"
proof -
  have "no_duplicate rt"
    using assms
  proof (induction rule: reaches_invariant)
    case (build rt0)
    then show ?case by (simp add: no_duplicate_def build_parts no_counts_def)
  next
    case (step evs rt ev rt')
    from step(2) show ?case
    proof cases
      case (stored r)
      obtain st out cs where k: "keep_queued L r (rt_store rt) = (st, out, cs)" by (metis prod_cases3)
      from tracked_kept(1) [OF reaches_tracked [OF step(1)] stored(3,4) k] step(3) k stored show ?thesis
        by (simp add: keep_record_def no_duplicate_def)
    next
      case (counted out)
      with step(3) show ?thesis by (auto simp: no_duplicate_def observe_duplicates)
    qed (use step(3) in \<open>auto simp: no_duplicate_def gate_drain_def anchor_drain_def\<close>)
  qed
  with tracked_kept(1) [OF reaches_tracked [OF assms]] show ?thesis by (auto simp: no_duplicate_def)
qed

theorem pump_never_meets_duplicate_witness:
  "\<exists>rt out. reaches layout64 sample_parsers default_runtime_config (sample_events out) rt \<and>
     pc_duplicates (rt_counters rt) = 0"
proof -
  obtain rt out where r: "reaches layout64 sample_parsers default_runtime_config (sample_events out) rt"
    by (rule sample_reaches)
  with pump_never_meets_duplicate [OF r] show ?thesis by blast
qed

section \<open>Conservation\<close>

definition outcomes_counted :: "pump_counters \<Rightarrow> nat" where
  "outcomes_counted c = pc_kept c + pc_duplicates c + pc_oversized c + pc_series_cap c +
     pc_identity_over_ceiling c"

fun uncounted :: "pump_phase \<Rightarrow> nat" where
  "uncounted (Holding _) = 1"
| "uncounted (Counting _) = 1"
| "uncounted _ = 0"

definition accounted_records :: "runtime \<Rightarrow> nat" where
  "accounted_records rt =
     queue_len (pl_sink (rt_pipeline rt)) + uncounted (rt_pump rt) + outcomes_counted (rt_counters rt)"

fun admitted_by :: "runtime_event \<Rightarrow> nat" where
  "admitted_by (Ingested _ _ _ (Inr out)) = export_admitted out"
| "admitted_by _ = 0"

lemma outcomes_counted_observe: "outcomes_counted (observe out c) = outcomes_counted c + 1"
  by (cases out) (auto simp: outcomes_counted_def)

lemma length_admitted_entities: "length (admitted_entities (eo_records out)) = export_admitted out"
proof -
  have "length (admitted_entities rs) =
      length (filter (\<lambda>r. case r of RecordAdmitted _ \<Rightarrow> True | _ \<Rightarrow> False) rs)" for rs
    by (induction rs rule: admitted_entities.induct) auto
  then show ?thesis by (simp add: export_admitted_def)
qed

lemma ingest_queue_grows:
  assumes "ingest L P k now payload p = (p', result)"
  shows "length (q_items (pl_sink p')) = length (q_items (pl_sink p)) +
    (case result of Inr out \<Rightarrow> export_admitted out | Inl _ \<Rightarrow> 0)"
proof (cases result)
  case (Inl sig)
  then show ?thesis
    using assms by (cases rule: ingest_cases [of P k payload p L now]) auto
next
  case (Inr out)
  obtain new where new: "q_items (pl_sink p') = q_items (pl_sink p) @ new"
    "map qr_entity new = admitted_entities (eo_records out)"
    by (rule accepted_export_growth [OF assms [unfolded Inr]])
  have "length new = export_admitted out"
    using arg_cong [OF new(2), of length] by (simp add: length_admitted_entities)
  with new(1) Inr show ?thesis by simp
qed

lemma reaches_conserved:
  assumes "reaches L P cfg evs rt"
  shows "sum_list (map admitted_by evs) = accounted_records rt"
  using assms
proof (induction rule: reaches_invariant)
  case (build rt0)
  then show ?case
    by (simp add: build_parts accounted_records_def queue_len_def no_counts_def outcomes_counted_def)
next
  case (step evs rt ev rt')
  from step(2) have "accounted_records rt' = accounted_records rt + admitted_by ev"
  proof cases
    case (ingested k now payload p result)
    with ingest_queue_grows [OF ingested(4)] show ?thesis
      by (cases result) (auto simp: accounted_records_def queue_len_def)
  next
    case (popped drain now waited r q)
    with pump_turn_popped(1) [OF popped(4)] show ?thesis
      by (simp add: accounted_records_def queue_len_def)
  next
    case (stored r)
    then show ?thesis by (simp add: accounted_records_def keep_record_def split: prod.splits)
  next
    case (counted out)
    then show ?thesis by (simp add: accounted_records_def outcomes_counted_observe)
  qed (auto simp: accounted_records_def gate_drain_def anchor_drain_def begin_draining_def)
  with step(3) show ?case by simp
qed

text \<open>C11: Every admitted record is accounted for, once. At every moment of every run, the records the
  exports' answers called admitted are as many as those waiting in the queue, the one the pump
  holds or is counting, and those counted under exactly one outcome of a keep: nothing admitted
  is lost or counted twice, under any interleaving, drains included.\<close>

theorem admitted_records_conserved:
  assumes "reaches L P cfg evs rt"
  shows "sum_list (map admitted_by evs) = accounted_records rt"
  by (rule reaches_conserved [OF assms])

theorem admitted_records_conserved_witness:
  "\<exists>rt out. reaches layout64 sample_parsers default_runtime_config (sample_events out) rt \<and>
     accounted_records rt = 1"
proof -
  obtain rt out where r: "reaches layout64 sample_parsers default_runtime_config (sample_events out) rt"
    "eo_records out = [RecordAdmitted (Span (sample_trace 1) (sample_span_id 1))]"
    by (rule sample_reaches)
  from admitted_records_conserved [OF r(1)] r show ?thesis
    by (auto simp: sample_events_def export_admitted_def)
qed

section \<open>Draining\<close>

text \<open>The deadline a waiting pump has read is the one that stands: it is set once.\<close>

definition drain_anchored :: "runtime \<Rightarrow> bool" where
  "drain_anchored rt \<longleftrightarrow> (\<forall>d. rt_pump rt = Waiting (Some d) \<longrightarrow> rt_drain rt = Some d)"

lemma reaches_anchored:
  assumes "reaches L P cfg evs rt"
  shows "drain_anchored rt"
  using assms
proof (induction rule: reaches_invariant)
  case (build rt0)
  then show ?case by (simp add: drain_anchored_def build_parts)
next
  case (step evs rt ev rt')
  from step(2) show ?case
  proof cases
    case (stored r)
    then show ?thesis by (simp add: drain_anchored_def keep_record_def split: prod.splits)
  qed (use step(3) in \<open>auto simp: drain_anchored_def gate_drain_def anchor_drain_def split: option.splits\<close>)
qed

fun phase_rank :: "pump_phase \<Rightarrow> nat" where
  "phase_rank (Holding _) = 5"
| "phase_rank (Counting _) = 4"
| "phase_rank (Waiting None) = 3"
| "phase_rank Looking = 2"
| "phase_rank (Waiting (Some _)) = 1"
| "phase_rank Returned = 0"

definition drain_work :: "runtime \<Rightarrow> nat" where
  "drain_work rt = 6 * queue_len (pl_sink (rt_pipeline rt)) + phase_rank (rt_pump rt)"

text \<open>The pump's own events, and the hook's calls its keeps left, none later than \<open>now\<close>.\<close>

definition pump_event :: "nat \<Rightarrow> runtime_event \<Rightarrow> bool" where
  "pump_event now ev \<longleftrightarrow> ev \<in> {Looked, Popped now, Idled now, PumpEnded now, Stored, Counted, Forwarded}"

lemma drain_progress:
  assumes d: "rt_drain rt = Some d" and "now \<le> d" and a: "drain_anchored rt" and "rt_pump rt \<noteq> Returned"
  obtains ev rt' where "runtime_step L P rt ev rt'" "pump_event now ev" "rt_drain rt' = Some d" "drain_anchored rt'"
    "drain_work rt' < drain_work rt \<or> drain_work rt' = drain_work rt \<and> length (rt_calls rt') < length (rt_calls rt)"
    "rt_pump rt' = Returned \<longrightarrow> q_items (pl_sink (rt_pipeline rt')) = []"
proof (cases "rt_calls rt")
  case (Cons c rest)
  let ?rt = "rt\<lparr>rt_pipeline := (rt_pipeline rt)\<lparr>pl_ledger := forward c (pl_ledger (rt_pipeline rt))\<rparr>,
    rt_calls := rest, rt_refused_forwards := rt_refused_forwards rt + refused_forward c\<rparr>"
  show thesis
    by (rule that [OF runtime_step.forwarded [OF Cons]])
       (use assms Cons in \<open>simp_all add: pump_event_def drain_anchored_def drain_work_def\<close>)
next
  case Nil
  let ?q = "pl_sink (rt_pipeline rt)"
  show thesis
  proof (cases "rt_pump rt")
    case Looking
    show thesis
      by (rule that [OF runtime_step.looked [OF Looking]])
         (use assms Looking in \<open>simp_all add: pump_event_def drain_anchored_def drain_work_def\<close>)
  next
    case (Waiting dl)
    have dl: "dl = None \<or> dl = Some d" using a d Waiting by (cases dl) (auto simp: drain_anchored_def)
    then have early: "\<not> (case dl of Some x \<Rightarrow> x < now | None \<Rightarrow> False)" using \<open>now \<le> d\<close> by auto
    show thesis
    proof (cases "pop_front L ?q")
      case None
      then have empty: "q_items ?q = []" by (auto simp: pop_front_def split: list.splits)
      show thesis
      proof (cases dl)
        case (Some x)
        with early None have "pump_turn L dl now True ?q = Ends" by (simp add: pump_turn_def)
        from runtime_step.pump_ended [OF Waiting this] show thesis
          by (rule that) (use Waiting dl d empty in
            \<open>auto simp: pump_event_def drain_anchored_def drain_work_def\<close>)
      next
        case nodl: None
        with early None have "pump_turn L dl now True ?q = Idle_turn" by (simp add: pump_turn_def)
        from runtime_step.idled [OF Waiting this] show thesis
          by (rule that) (use Waiting nodl d in
            \<open>auto simp: pump_event_def drain_anchored_def drain_work_def\<close>)
      qed
    next
      case (Some rq)
      obtain r q where rq: "rq = (r, q)" by (cases rq)
      have "pump_turn L dl now True ?q = Popped_one r q" using early Some rq by (simp add: pump_turn_def)
      note turn = this pump_turn_popped(1) [OF this]
      from runtime_step.popped [OF Waiting turn(1)] show thesis
        by (rule that) (use Waiting turn(2) d in
          \<open>auto simp: pump_event_def drain_anchored_def drain_work_def queue_len_def\<close>)
    qed
  next
    case (Holding r)
    show thesis
      by (rule that [OF runtime_step.stored [OF Holding Nil]])
         (use assms Holding in \<open>auto simp: pump_event_def drain_anchored_def drain_work_def
            keep_record_def split: prod.splits\<close>)
  next
    case (Counting out)
    show thesis
      by (rule that [OF runtime_step.counted [OF Counting]])
         (use assms Counting in \<open>auto simp: pump_event_def drain_anchored_def drain_work_def\<close>)
  next
    case Returned
    with assms(4) show thesis by simp
  qed
qed

lemma runtime_run_first:
  "runtime_step L P rt ev rt1 \<Longrightarrow> runtime_run L P rt1 evs rt2 \<Longrightarrow> runtime_run L P rt (ev # evs) rt2"
proof (induction evs arbitrary: rt2 rule: rev_induct)
  case Nil
  then have "rt2 = rt1" by (auto elim: runtime_run.cases)
  with Nil show ?case using runtime_run.more [OF runtime_run.none Nil(1)] by simp
next
  case (snoc e evs)
  from snoc.prems(2) obtain rt' where "runtime_run L P rt1 evs rt'" "runtime_step L P rt' e rt2"
    by (auto elim: runtime_run.cases)
  from runtime_run.more [OF snoc.IH [OF snoc.prems(1) this(1)] this(2)] show ?case by simp
qed

lemma drain_runs:
  assumes "rt_drain rt = Some d" "now \<le> d" "drain_anchored rt" "rt_pump rt \<noteq> Returned"
  shows "\<exists>evs rt'. runtime_run L P rt evs rt' \<and> list_all (pump_event now) evs \<and>
    rt_pump rt' = Returned \<and> q_items (pl_sink (rt_pipeline rt')) = []"
  using assms
proof (induction rt rule: wf_induct_rule [OF wf_measures [of "[drain_work, length \<circ> rt_calls]"]])
  case (1 rt)
  obtain ev rt1 where step: "runtime_step L P rt ev rt1" "pump_event now ev" "rt_drain rt1 = Some d"
    "drain_anchored rt1"
    "drain_work rt1 < drain_work rt \<or> drain_work rt1 = drain_work rt \<and> length (rt_calls rt1) < length (rt_calls rt)"
    "rt_pump rt1 = Returned \<longrightarrow> q_items (pl_sink (rt_pipeline rt1)) = []"
    by (rule drain_progress [OF 1(2-5)])
  show ?case
  proof (cases "rt_pump rt1 = Returned")
    case True
    have "runtime_run L P rt [ev] rt1" using runtime_run_first [OF step(1) runtime_run.none] by simp
    with True step show ?thesis by (intro exI [of _ "[ev]"] exI [of _ rt1]) simp
  next
    case False
    have "(rt1, rt) \<in> measures [drain_work, length \<circ> rt_calls]" using step(5) by auto
    from 1(1) [OF this step(3) 1(3) step(4) False] obtain evs rt' where
      "runtime_run L P rt1 evs rt'" "list_all (pump_event now) evs" "rt_pump rt' = Returned"
      "q_items (pl_sink (rt_pipeline rt')) = []" by blast
    with runtime_run_first [OF step(1)] step(2) show ?thesis
      by (intro exI [of _ "ev # evs"] exI [of _ rt']) simp
  qed
qed

text \<open>C13: A drain completes. From every reachable state in which a drain has begun and the pump has
  not returned, wherever the pump is in its loop, its own steps and the hook's calls (nothing
  else, and nothing later than the deadline) bring it to return with the queue empty, every
  record it took counted; and the shutdown that follows drops nothing.\<close>

theorem drain_completes:
  assumes "reaches L P cfg evs rt" and "rt_drain rt = Some d" and "now \<le> d" and "rt_pump rt \<noteq> Returned"
  shows "\<exists>more rt'. runtime_run L P rt more rt' \<and> list_all (pump_event now) more \<and>
    rt_pump rt' = Returned \<and> outcomes_counted (rt_counters rt') = sum_list (map admitted_by evs) \<and>
    pc_dropped_on_drain (rt_counters (fst (shutdown_count rt'))) = pc_dropped_on_drain (rt_counters rt')"
proof -
  obtain more rt' where run: "runtime_run L P rt more rt'" "list_all (pump_event now) more"
    "rt_pump rt' = Returned" "q_items (pl_sink (rt_pipeline rt')) = []"
    using drain_runs [OF assms(2,3) reaches_anchored [OF assms(1)] assms(4)] by blast
  have none: "map admitted_by more = map (\<lambda>_. 0) more"
    using run(2) by (auto simp: list_all_iff pump_event_def)
  have "reaches L P cfg (evs @ more) rt'"
    using run(1) assms(1)
  proof (induction rule: runtime_run.induct)
    case (more rt evs1 rt1 ev rt2)
    from reaches_step [OF more.IH [OF more.prems] more.hyps(2)] show ?case by simp
  qed simp
  then have "sum_list (map admitted_by (evs @ more)) = accounted_records rt'"
    using reaches_conserved by blast
  then have "outcomes_counted (rt_counters rt') = sum_list (map admitted_by evs)"
    using none run(3,4) by (simp add: accounted_records_def queue_len_def map_replicate_const sum_list_replicate)
  with run show ?thesis
    by (intro exI [of _ more] exI [of _ rt']) (simp add: shutdown_count_def queue_len_def Let_def)
qed

theorem drain_completes_witness:
  "\<exists>rt out more rt'. reaches layout64 sample_parsers default_runtime_config (sample_events out @ [DrainGated, DeadlineAnchored 9]) rt \<and>
     runtime_run layout64 sample_parsers rt more rt' \<and> rt_pump rt' = Returned \<and>
     outcomes_counted (rt_counters rt') = 1"
proof -
  obtain rt out where r: "reaches layout64 sample_parsers default_runtime_config (sample_events out) rt"
    "eo_records out = [RecordAdmitted (Span (sample_trace 1) (sample_span_id 1))]" "rt_pump rt = Looking"
    "rt_drain rt = None"
    by (rule sample_reaches)
  let ?rt = "anchor_drain 9 (gate_drain rt)"
  have r': "reaches layout64 sample_parsers default_runtime_config (sample_events out @ [DrainGated, DeadlineAnchored 9]) ?rt"
    using reaches_step [OF reaches_step [OF r(1) runtime_step.drain_gated]
        runtime_step.deadline_anchored [where deadline = 9]]
    by (simp add: gate_drain_def begin_draining_def)
  have phase: "rt_drain ?rt = Some 9" "rt_pump ?rt \<noteq> Returned" using r by (simp_all add: gate_drain_def anchor_drain_def)
  have "sum_list (map admitted_by (sample_events out @ [DrainGated, DeadlineAnchored 9])) = 1"
    using r(2) by (simp add: sample_events_def export_admitted_def)
  with drain_completes [OF r' phase(1) _ phase(2), of 5] r' show ?thesis by auto
qed

section \<open>Shutdown\<close>

text \<open>A second shutdown counts the dropped records again. What is left in the queue after the pump
  has returned stays there, and each call of \<open>shutdown\<close> adds its length to the dropped counter: the
  second report is not the final counters the first one gave, but exceeds them by that length.\<close>

theorem second_shutdown_counts_again:
  "(let (rt1, first) = shutdown_count rt; (rt2, second) = shutdown_count rt1 in
     rs_dropped_on_drain second = rs_dropped_on_drain first + queue_len (pl_sink (rt_pipeline rt)) \<and>
     rs_kept second = rs_kept first \<and> rt_pipeline rt2 = rt_pipeline rt)"
  by (simp add: shutdown_count_def summary_def Let_def)

section \<open>The admission clock\<close>

lemma next_time_bounds:
  "observed \<le> u64_max \<Longrightarrow> reading \<le> u64_max \<Longrightarrow> reading \<le> next_time reading observed \<and>
     next_time reading observed \<le> u64_max \<and>
     (observed < next_time reading observed \<or> next_time reading observed = u64_max)"
  by (auto simp: next_time_def sat_add_def)

definition clock_ok :: "clock \<Rightarrow> bool" where
  "clock_ok c \<longleftrightarrow>
     ck_last c \<le> u64_max \<and>
     (\<forall>i r o1. ck_calls c i = Some (r, o1) \<longrightarrow> r \<le> u64_max \<and> o1 \<le> ck_last c) \<and>
     sorted_wrt (\<lambda>a b. snd a < snd b \<or> snd b = u64_max) (ck_handed c) \<and>
     (\<forall>p \<in> set (ck_handed c). fst p \<le> snd p \<and> snd p \<le> ck_last c)"

lemma clock_step_ok:
  assumes "clock_step c c'" "clock_ok c"
  shows "clock_ok c' \<and> ck_last c \<le> ck_last c'"
  using assms(1)
proof cases
  case (called i reading observed)
  with assms(2) show ?thesis by (auto simp: clock_ok_def)
next
  case (retried i reading observed observed')
  with assms(2) show ?thesis by (auto simp: clock_ok_def)
next
  case (exchanged i reading observed)
  let ?next = "next_time reading observed"
  have b: "reading \<le> ?next" "?next \<le> u64_max" "observed < ?next \<or> ?next = u64_max" "observed \<le> ?next"
    using next_time_bounds [of observed reading] exchanged(2,3) assms(2)
    by (auto simp: clock_ok_def)
  have old: "snd p < ?next \<or> ?next = u64_max" if "p \<in> set (ck_handed c)" for p
    using that b(3) exchanged(3) assms(2) by (auto simp: clock_ok_def)
  have below: "snd p \<le> ?next" if "p \<in> set (ck_handed c)" for p
    using that b(4) exchanged(3) assms(2) by (auto simp: clock_ok_def)
  have calls: "r \<le> u64_max \<and> o1 \<le> ?next" if "((ck_calls c)(i := None)) j = Some (r, o1)" for j r o1
  proof -
    have "ck_calls c j = Some (r, o1)" using that by (auto split: if_splits)
    with assms(2) have "r \<le> u64_max" "o1 \<le> ck_last c" unfolding clock_ok_def by blast+
    with b(4) exchanged(3) show ?thesis by simp
  qed
  have "clock_ok c'"
    using assms(2) b old below calls unfolding exchanged(1) clock_ok_def
    by (simp add: sorted_wrt_append)
  with exchanged b(4) show ?thesis by simp
qed

text \<open>The admission clock never repeats and never steps back. Whatever the wall clock reads and
  however concurrent callers interleave with spurious and genuine exchange failures and stale
  loads, the times handed out are strictly increasing in the order of the exchanges (up to the
  last representable nanosecond), and none is before its own caller's reading.\<close>

theorem clock_never_repeats:
  assumes "clock_step\<^sup>*\<^sup>* clock_new c"
  shows "sorted_wrt (\<lambda>a b. snd a < snd b \<or> snd b = u64_max) (ck_handed c) \<and>
    list_all (\<lambda>(reading, time). reading \<le> time \<and> time \<le> ck_last c) (ck_handed c)"
proof -
  have "clock_ok c"
    using assms
  proof (induction rule: rtranclp_induct)
    case base
    show ?case by (simp add: clock_ok_def clock_new_def)
  next
    case (step c c')
    with clock_step_ok show ?case by blast
  qed
  then show ?thesis by (auto simp: clock_ok_def list_all_iff)
qed

text \<open>Two callers read 7; the second one's exchange fails once against the first one's.\<close>

theorem clock_never_repeats_witness:
  "\<exists>c. clock_step\<^sup>*\<^sup>* clock_new c \<and> ck_handed c = [(7, 7), (7, 8)] \<and>
     sorted_wrt (\<lambda>a b. snd a < snd b \<or> snd b = u64_max) (ck_handed c)"
proof -
  let ?c1 = "clock_new\<lparr>ck_calls := [0 \<mapsto> (7, 0)]\<rparr>"
  let ?c2 = "?c1\<lparr>ck_calls := (ck_calls ?c1)(1 \<mapsto> (7, 0))\<rparr>"
  let ?c3 = "?c2\<lparr>ck_last := next_time 7 0, ck_calls := (ck_calls ?c2)(0 := None),
    ck_handed := ck_handed ?c2 @ [(7, next_time 7 0)]\<rparr>"
  let ?c4 = "?c3\<lparr>ck_calls := (ck_calls ?c3)(1 \<mapsto> (7, 7))\<rparr>"
  let ?c5 = "?c4\<lparr>ck_last := next_time 7 7, ck_calls := (ck_calls ?c4)(1 := None),
    ck_handed := ck_handed ?c4 @ [(7, next_time 7 7)]\<rparr>"
  have n: "next_time 7 0 = 7" "next_time 7 7 = 8" by (simp_all add: next_time_def sat_add_def u64_max_def)
  have "clock_step clock_new ?c1"
    using clock_step.called [of clock_new 0 7 0] by (simp add: clock_new_def u64_max_def)
  moreover have "clock_step ?c1 ?c2"
    using clock_step.called [of ?c1 1 7 0] by (simp add: clock_new_def u64_max_def)
  moreover have "clock_step ?c2 ?c3"
    by (rule clock_step.exchanged) (simp_all add: clock_new_def)
  moreover have "clock_step ?c3 ?c4"
    by (rule clock_step.retried [where observed = 0]) (simp_all add: n)
  moreover have "clock_step ?c4 ?c5"
    by (rule clock_step.exchanged) (simp_all add: n)
  ultimately have "clock_step\<^sup>*\<^sup>* clock_new ?c5"
    by (meson rtranclp.rtrancl_into_rtrancl rtranclp.rtrancl_refl)
  moreover have "ck_handed ?c5 = [(7, 7), (7, 8)]" by (simp add: n clock_new_def)
  ultimately show ?thesis using clock_never_repeats by blast
qed

section \<open>A refused point and its resident stream\<close>

lemma keep_point_oversized:
  assumes "keep_metric_point L a s st = (st', Oversized, calls)"
  obtains c where "report_refusal (ad_entity a) (Some s) (st\<lparr>counters := c\<rparr>) = (st', calls)"
proof (cases rule: refuse_early_cases [of "ad_entity a" "points_shelf st"
      "accounted_u64 (point_size L (ad_record a))" "max_accounted_bytes (config st)" "counters st"])
  case new
  with assms show thesis
    by (auto simp: keep_metric_point_def Let_def enforce_kept_def split: if_splits prod.splits)
next
  case (duplicate c')
  with assms show thesis by (simp add: keep_metric_point_def keep_refusal_def)
next
  case (oversized c')
  with assms show thesis
    by (intro that [of c']) (simp add: keep_metric_point_def keep_refusal_def split: prod.splits)
qed

text \<open>C37: An oversized point takes its resident stream's interning with it. When the store refuses a
  point as oversized while other points of the same stream are resident, the store keeps those
  points and the stream's charge, but the calls it makes release the stream in the ledger: it is
  no longer interned although its points stand. (The ledger's documentation promises that a stream
  whose points are resident is interned for exactly as long as they stand.)\<close>

theorem oversized_refusal_releases_resident_stream:
  assumes "hook st" and "keep_metric_point L a s st = (st', Oversized, calls)"
    and "0 < stream_count (by_key (points_shelf st)) s"
  shows "0 < stream_count (by_key (points_shelf st')) s \<and> series st' = series st \<and>
    get_by stream_eq (streams (fold forward (hook_work calls) l)) s = None"
proof -
  obtain c where r: "report_refusal (ad_entity a) (Some s) (st\<lparr>counters := c\<rparr>) = (st', calls)"
    by (rule keep_point_oversized [OF assms(2)])
  then obtain c' where "st' = st\<lparr>counters := c'\<rparr>" and calls: "calls = [KeepRefused (ad_entity a) (Some s)]"
    using assms(1) by (auto simp: report_refusal_def)
  moreover have "get_by stream_eq (streams (fold forward (hook_work calls) l)) s = None"
    unfolding calls hook_work_def by (auto simp: release_stream_def remove_by_def get_by_None_iff simp del: forget.simps)
  ultimately show ?thesis using assms(3) by simp
qed

definition wide_point :: metric_point where
  "wide_point = NumberP \<lparr>np_attributes = [(''k'', StringV (replicate 20000 CHR ''a''))], np_start_time = Some 0,
     np_time = 6, np_value = IntNumber 1, np_flags = 0, np_exemplars = []\<rparr>"

text \<open>One small point of the stream is resident, a wide one of the same stream arrives.\<close>

theorem oversized_refusal_releases_resident_stream_witness:
  "\<exists>st st' calls. stream_count (by_key (points_shelf st)) (sample_stream ''m'' None None) = 1 \<and>
     keep_metric_point layout64 \<lparr>ad_entity = Assigned 2, ad_at = AdmissionTime 6, ad_record = wide_point\<rparr>
       (sample_stream ''m'' None None) st = (st', Oversized, calls) \<and>
     get_by stream_eq (streams (fold forward (hook_work calls) (ledger_new default_budget_limits)
       )) (sample_stream ''m'' None None) = None \<and>
     0 < stream_count (by_key (points_shelf st')) (sample_stream ''m'' None None)"
proof -
  let ?s = "sample_stream ''m'' None None"
  let ?slot = "\<lparr>ad_entity = Assigned 1, ad_at = AdmissionTime 5,
    ad_record = \<lparr>ps_point = sample_point 5 1, ps_stream = ?s\<rparr>\<rparr>"
  let ?st = "(store_new tiny_config True)\<lparr>points_shelf := shelf_insert (slot_size layout64) ?slot shelf_new\<rparr>"
  let ?a = "\<lparr>ad_entity = Assigned 2, ad_at = AdmissionTime 6, ad_record = wide_point\<rparr>"
  have count: "stream_count (by_key (points_shelf ?st)) ?s = 1"
    by (simp add: shelf_insert_def shelf_new_def stream_key.eq_refl Let_def)
  have big: "10000 < accounted_u64 (point_size layout64 wide_point)"
    by (simp add: wide_point_def attributes_size_entries attribute_entry_size_def heap_string_bytes_def
        size_constants accounted_u64_def sat_u64_def u64_max_def)
  have fresh: "\<not> shelf_contains (Assigned 2) (points_shelf ?st)"
    by (simp add: shelf_contains_def shelf_insert_def shelf_new_def Let_def)
  have "refuse_early (points_shelf ?st) (ad_entity ?a) (accounted_u64 (point_size layout64 (ad_record ?a)))
      (max_accounted_bytes (config ?st)) (counters ?st) =
      ((counters ?st)\<lparr>c_oversized := c_oversized (counters ?st) + 1\<rparr>, Inl Oversized)"
    using big fresh by (simp add: refuse_early_def store_new_def tiny_config_def)
  moreover obtain st' calls where "report_refusal (Assigned 2) (Some ?s)
      (?st\<lparr>counters := (counters ?st)\<lparr>c_oversized := c_oversized (counters ?st) + 1\<rparr>\<rparr>) = (st', calls)"
    by (metis surj_pair)
  ultimately have k: "keep_metric_point layout64 ?a ?s ?st = (st', Oversized, calls)"
    by (simp add: keep_metric_point_def keep_refusal_def)
  have "hook ?st" by (simp add: store_new_def)
  from oversized_refusal_releases_resident_stream [OF this k, of "ledger_new default_budget_limits"] count k
  show ?thesis by (intro exI [of _ ?st] exI [of _ st'] exI [of _ calls]) simp
qed

end
