(* ===== verification/Cursor.thy ===== *)
theory Cursor
  imports Residency
begin

text \<open>
  Continuation cursors and snapshot leases: \<open>cursor.rs\<close>, \<open>lease.rs\<close> and \<open>order.rs\<close> of
  \<open>crates/query/src\<close>.

  A cursor is its canonical bytes. The codec is stated in both directions: a payload the engine
  can mint (\<open>wf_cursor\<close>: ids of their width, serials nonzero and within a \<open>u64\<close>) decodes from its
  own encoding, and nothing but an encoding decodes. Little-endian integers are digit lists in
  base 256.
\<close>

section \<open>Little-endian integers\<close>

fun nat_le :: "nat \<Rightarrow> nat \<Rightarrow> bytes" where
  "nat_le 0 n = []"
| "nat_le (Suc k) n = word_of_nat (n mod 256) # nat_le k (n div 256)"

fun le_nat :: "bytes \<Rightarrow> nat" where
  "le_nat [] = 0"
| "le_nat (b # bs) = unat b + 256 * le_nat bs"

definition u64_to_le_bytes :: "u64 \<Rightarrow> bytes" where
  "u64_to_le_bytes w = nat_le 8 (unat w)"

definition u64_from_le_bytes :: "bytes \<Rightarrow> u64" where
  "u64_from_le_bytes bs = word_of_nat (le_nat bs)"

lemma length_nat_le [simp]: "length (nat_le k n) = k"
  by (induction k arbitrary: n) auto

lemma unat_u8_lt: "unat (b :: u8) < 256"
  using unsigned_less [of b] by simp

lemma le_nat_bound: "le_nat bs < 256 ^ length bs"
proof (induction bs)
  case (Cons b bs)
  have "unat b + 256 * le_nat bs < 256 * (le_nat bs + 1)" using unat_u8_lt [of b] by simp
  also have "\<dots> \<le> 256 * 256 ^ length bs" using Cons by (intro mult_le_mono2) simp
  finally show ?case by simp
qed simp

lemma unat_u8_mod: "unat (word_of_nat (n mod 256) :: u8) = n mod 256"
  by (simp add: unat_of_nat)

lemma le_nat_le: "n < 256 ^ k \<Longrightarrow> le_nat (nat_le k n) = n"
proof (induction k arbitrary: n)
  case (Suc k)
  have "n div 256 < 256 ^ k" using Suc.prems by (simp add: div_less_iff_less_mult mult.commute)
  from Suc.IH [OF this] show ?case by (simp add: unat_u8_mod)
qed simp

lemma nat_le_nat: "nat_le (length bs) (le_nat bs) = bs"
proof (induction bs)
  case (Cons b bs)
  have "(unat b + 256 * le_nat bs) mod 256 = unat b" "(unat b + 256 * le_nat bs) div 256 = le_nat bs"
    using unat_u8_lt [of b] by simp_all
  with Cons show ?case by simp
qed simp

lemma u64_le_length [simp]: "length (u64_to_le_bytes w) = 8"
  by (simp add: u64_to_le_bytes_def)

lemma u64_le_round_trip [simp]: "u64_from_le_bytes (u64_to_le_bytes w) = w"
proof -
  have "unat w < 2 ^ 64" by (rule order.strict_trans2 [OF unsigned_less]) simp
  then have "unat w < 256 ^ 8" by simp
  then show ?thesis by (simp add: u64_to_le_bytes_def u64_from_le_bytes_def le_nat_le)
qed

lemma u64_le_exact: "length bs = 8 \<Longrightarrow> u64_to_le_bytes (u64_from_le_bytes bs) = bs"
  using le_nat_bound [of bs] nat_le_nat [of bs]
  by (simp add: u64_to_le_bytes_def u64_from_le_bytes_def unat_of_nat)

lemma u64_le_inject [simp]: "u64_to_le_bytes v = u64_to_le_bytes w \<longleftrightarrow> v = w"
  by (metis u64_le_round_trip)

section \<open>The fingerprint\<close>

definition FNV_OFFSET_BASIS :: u64 where
  "FNV_OFFSET_BASIS = 0xcbf29ce484222325"

definition FNV_PRIME :: u64 where
  "FNV_PRIME = 0x00000100000001b3"

definition fingerprint :: "bytes \<Rightarrow> u64" where
  "fingerprint input = fold (\<lambda>byte hash. (xor hash (ucast byte)) * FNV_PRIME) input FNV_OFFSET_BASIS"

section \<open>The codec\<close>

definition SPAN_TAG :: u8 where "SPAN_TAG = 0"

definition ASSIGNED_TAG :: u8 where "ASSIGNED_TAG = 1"

definition SERIAL_LEN :: nat where "SERIAL_LEN = 8"

definition SPAN_ID_REGION :: nat where "SPAN_ID_REGION = trace_id_length + span_id_length"

definition HEADER_LEN :: nat where "HEADER_LEN = 2 * 8"

definition SNAPSHOT_TIME_LEN :: nat where "SNAPSHOT_TIME_LEN = 8"

record cursor_payload =
  cp_position :: u64
  cp_last_entity :: entity_id
  cp_fingerprint :: u64
  cp_snapshot :: admission_key

datatype cursor_error = Malformed | FingerprintMismatch | LeaseMismatch

fun id_region_len :: "entity_id \<Rightarrow> nat" where
  "id_region_len (Span _ _) = SPAN_ID_REGION"
| "id_region_len (Assigned _) = SERIAL_LEN"

fun push_entity :: "entity_id \<Rightarrow> bytes" where
  "push_entity (Span t s) = SPAN_TAG # trace_bytes t @ span_bytes s"
| "push_entity (Assigned n) = ASSIGNED_TAG # nat_le SERIAL_LEN n"

definition push_boundary :: "admission_key \<Rightarrow> bytes" where
  "push_boundary k = u64_to_le_bytes (as_unix_nano (key_time k)) @ push_entity (key_entity k)"

definition boundary_bytes :: "admission_key \<Rightarrow> bytes" where
  "boundary_bytes k = push_boundary k"

text \<open>The entity, and how many bytes it took.\<close>

definition parse_entity :: "bytes \<Rightarrow> (entity_id \<times> nat) option" where
  "parse_entity bs =
     (case bs of
        [] \<Rightarrow> None
      | tag # rest \<Rightarrow>
          if tag = SPAN_TAG
          then (if length rest < SPAN_ID_REGION then None
                else Some (Span (TraceId (take trace_id_length rest))
                                (SpanId (drop trace_id_length (take SPAN_ID_REGION rest))),
                           1 + SPAN_ID_REGION))
          else if tag = ASSIGNED_TAG
          then (if length rest < SERIAL_LEN then None
                else let serial = le_nat (take SERIAL_LEN rest)
                     in if serial = 0 then None else Some (Assigned serial, 1 + SERIAL_LEN))
          else None)"

definition cursor_encode :: "cursor_payload \<Rightarrow> bytes" where
  "cursor_encode p =
     u64_to_le_bytes (cp_position p) @ u64_to_le_bytes (cp_fingerprint p) @
     push_entity (cp_last_entity p) @ push_boundary (cp_snapshot p)"

definition cursor_parse :: "bytes \<Rightarrow> cursor_payload option" where
  "cursor_parse bs =
     (if length bs \<le> HEADER_LEN then None
      else let header = take HEADER_LEN bs;
               position = u64_from_le_bytes (take SERIAL_LEN header);
               fingerp = u64_from_le_bytes (drop SERIAL_LEN header)
           in case parse_entity (drop HEADER_LEN bs) of
                None \<Rightarrow> None
              | Some (last_entity, used) \<Rightarrow>
                  (let at = HEADER_LEN + used
                   in if length bs - at < SNAPSHOT_TIME_LEN then None
                      else let nanos = u64_from_le_bytes (take SNAPSHOT_TIME_LEN (drop at bs));
                               at2 = at + SNAPSHOT_TIME_LEN
                           in case parse_entity (drop at2 bs) of
                                None \<Rightarrow> None
                              | Some (snapshot_entity, used2) \<Rightarrow>
                                  if at2 + used2 \<noteq> length bs then None
                                  else Some \<lparr>cp_position = position, cp_last_entity = last_entity,
                                             cp_fingerprint = fingerp,
                                             cp_snapshot = AdmissionKey (AdmissionTime nanos) snapshot_entity\<rparr>))"

definition cursor_decode :: "bytes \<Rightarrow> cursor_error + cursor_payload" where
  "cursor_decode bs = (case cursor_parse bs of None \<Rightarrow> Inl Malformed | Some p \<Rightarrow> Inr p)"

definition cursor_verify :: "u64 \<Rightarrow> cursor_payload \<Rightarrow> cursor_error + unit" where
  "cursor_verify expected p =
     (if cp_fingerprint p = expected then Inr () else Inl FingerprintMismatch)"

section \<open>Leases\<close>

datatype snapshot_fingerprint = SnapshotFingerprint u64

definition fingerprint_of :: "admission_key \<Rightarrow> snapshot_fingerprint" where
  "fingerprint_of boundary = SnapshotFingerprint (fingerprint (boundary_bytes boundary))"

record snapshot_lease =
  sl_investigation :: nat
  sl_snapshot :: snapshot_fingerprint

definition for_boundary :: "nat \<Rightarrow> admission_key \<Rightarrow> snapshot_lease" where
  "for_boundary investigation boundary =
     \<lparr>sl_investigation = investigation, sl_snapshot = fingerprint_of boundary\<rparr>"

definition governs :: "snapshot_lease \<Rightarrow> admission_key \<Rightarrow> bool" where
  "governs lease boundary \<longleftrightarrow> sl_snapshot lease = fingerprint_of boundary"

definition verify_lease :: "snapshot_lease \<Rightarrow> cursor_payload \<Rightarrow> cursor_error + unit" where
  "verify_lease lease p = (if governs lease (cp_snapshot p) then Inr () else Inl LeaseMismatch)"

section \<open>Exactness of the codec\<close>

fun wf_entity :: "entity_id \<Rightarrow> bool" where
  "wf_entity (Span t s) \<longleftrightarrow> wf_trace_id t \<and> wf_span_id s"
| "wf_entity (Assigned n) \<longleftrightarrow> 0 < n \<and> n \<le> u64_max"

definition wf_cursor :: "cursor_payload \<Rightarrow> bool" where
  "wf_cursor p \<longleftrightarrow> wf_entity (cp_last_entity p) \<and> wf_entity (key_entity (cp_snapshot p))"

lemmas codec_lengths = SERIAL_LEN_def SPAN_ID_REGION_def HEADER_LEN_def SNAPSHOT_TIME_LEN_def
  trace_id_length_def span_id_length_def

lemma length_push_entity: "wf_entity e \<Longrightarrow> length (push_entity e) = 1 + id_region_len e"
  by (cases e) (auto simp: codec_lengths wf_trace_id_def wf_span_id_def)

lemma parse_push_entity:
  assumes "wf_entity e"
  shows "parse_entity (push_entity e @ rest) = Some (e, 1 + id_region_len e)"
proof (cases e)
  case (Span t s)
  with assms show ?thesis
    by (cases t; cases s) (simp add: parse_entity_def codec_lengths wf_trace_id_def wf_span_id_def)
next
  case (Assigned n)
  with assms have "n < 256 ^ 8" by (simp add: u64_max_def)
  from le_nat_le [OF this] Assigned assms show ?thesis
    by (simp add: parse_entity_def codec_lengths SPAN_TAG_def ASSIGNED_TAG_def Let_def)
qed

lemma parse_entity_exact:
  assumes "parse_entity bs = Some (e, n)"
  shows "wf_entity e" "n = 1 + id_region_len e" "bs = push_entity e @ drop n bs" "n \<le> length bs"
proof -
  obtain tag rest where bs: "bs = tag # rest"
    using assms by (auto simp: parse_entity_def split: list.splits)
  have all: "wf_entity e \<and> n = 1 + id_region_len e \<and> bs = push_entity e @ drop n bs \<and> n \<le> length bs"
  proof (cases "tag = SPAN_TAG")
    case True
    with assms bs have len: "SPAN_ID_REGION \<le> length rest"
      and e: "e = Span (TraceId (take trace_id_length rest)) (SpanId (drop trace_id_length (take SPAN_ID_REGION rest)))"
      and n: "n = 1 + SPAN_ID_REGION"
      by (auto simp: parse_entity_def split: if_splits)
    have "take trace_id_length rest @ drop trace_id_length (take SPAN_ID_REGION rest) = take SPAN_ID_REGION rest"
      by (metis SPAN_ID_REGION_def add_diff_cancel_left' append_take_drop_id drop_take take_add)
    then have "push_entity e = SPAN_TAG # take SPAN_ID_REGION rest" by (simp add: e)
    with len n bs True e show ?thesis
      by (auto simp: wf_trace_id_def wf_span_id_def codec_lengths)
  next
    case False
    with assms bs have len: "SERIAL_LEN \<le> length rest" and tag: "tag = ASSIGNED_TAG"
      and e: "e = Assigned (le_nat (take SERIAL_LEN rest))" "le_nat (take SERIAL_LEN rest) \<noteq> 0"
      and n: "n = 1 + SERIAL_LEN"
      by (auto simp: parse_entity_def Let_def split: if_splits)
    have "nat_le SERIAL_LEN (le_nat (take SERIAL_LEN rest)) = take SERIAL_LEN rest"
      using nat_le_nat [of "take SERIAL_LEN rest"] len by simp
    moreover have "le_nat (take SERIAL_LEN rest) \<le> u64_max"
      using le_nat_bound [of "take SERIAL_LEN rest"] len by (simp add: u64_max_def codec_lengths)
    ultimately show ?thesis using len n bs tag e by simp
  qed
  then show "wf_entity e" "n = 1 + id_region_len e" "bs = push_entity e @ drop n bs" "n \<le> length bs"
    by blast+
qed

lemma cursor_parse_encode:
  assumes "wf_cursor p"
  shows "cursor_parse (cursor_encode p) = Some p"
proof -
  obtain t e where key: "cp_snapshot p = AdmissionKey t e" by (cases "cp_snapshot p")
  with assms have wf: "wf_entity (cp_last_entity p)" "wf_entity e" by (simp_all add: wf_cursor_def)
  define used where "used = 1 + id_region_len (cp_last_entity p)"
  have lens: "length (push_entity (cp_last_entity p)) = used" "length (push_entity e) = 1 + id_region_len e"
    using wf by (simp_all add: length_push_entity used_def)
  have encode: "cursor_encode p =
      u64_to_le_bytes (cp_position p) @ u64_to_le_bytes (cp_fingerprint p) @
      push_entity (cp_last_entity p) @ u64_to_le_bytes (as_unix_nano t) @ push_entity e"
    by (simp add: cursor_encode_def push_boundary_def key)
  have last: "parse_entity (drop HEADER_LEN (cursor_encode p)) = Some (cp_last_entity p, used)"
    using wf by (simp add: encode HEADER_LEN_def parse_push_entity used_def)
  have time: "drop (HEADER_LEN + used) (cursor_encode p) = u64_to_le_bytes (as_unix_nano t) @ push_entity e"
    by (simp add: encode HEADER_LEN_def lens)
  have tail: "drop (HEADER_LEN + used + SNAPSHOT_TIME_LEN) (cursor_encode p) = push_entity e"
    by (simp add: encode HEADER_LEN_def SNAPSHOT_TIME_LEN_def lens)
  have whole: "length (cursor_encode p) = HEADER_LEN + used + SNAPSHOT_TIME_LEN + (1 + id_region_len e)"
    by (simp add: encode HEADER_LEN_def SNAPSHOT_TIME_LEN_def lens)
  have header: "take HEADER_LEN (cursor_encode p) =
      u64_to_le_bytes (cp_position p) @ u64_to_le_bytes (cp_fingerprint p)"
    by (simp add: encode HEADER_LEN_def)
  have snapshot: "parse_entity (push_entity e) = Some (e, 1 + id_region_len e)"
    using parse_push_entity [OF wf(2), of "[]"] by simp
  have parts: "take SERIAL_LEN (take HEADER_LEN (cursor_encode p)) = u64_to_le_bytes (cp_position p)"
    "drop SERIAL_LEN (take HEADER_LEN (cursor_encode p)) = u64_to_le_bytes (cp_fingerprint p)"
    unfolding header by (simp_all add: SERIAL_LEN_def)
  have stamp: "take SNAPSHOT_TIME_LEN (u64_to_le_bytes (as_unix_nano t) @ push_entity e)
      = u64_to_le_bytes (as_unix_nano t)"
    by (simp add: SNAPSHOT_TIME_LEN_def)
  show ?thesis
    unfolding cursor_parse_def Let_def last option.case prod.case time tail snapshot stamp parts
    by (simp add: whole key HEADER_LEN_def SNAPSHOT_TIME_LEN_def)
qed

lemma cursor_parse_exact:
  assumes "cursor_parse bs = Some p"
  shows "wf_cursor p \<and> bs = cursor_encode p"
proof -
  from assms have long: "HEADER_LEN < length bs" by (simp add: cursor_parse_def split: if_splits)
  from assms long obtain le used where last: "parse_entity (drop HEADER_LEN bs) = Some (le, used)"
    by (auto simp: cursor_parse_def Let_def split: option.splits if_splits)
  define at where "at = HEADER_LEN + used"
  from assms long last have time: "SNAPSHOT_TIME_LEN \<le> length bs - at"
    by (simp add: cursor_parse_def Let_def at_def split: if_splits)
  from assms long last time obtain se used2 where
    snap: "parse_entity (drop (at + SNAPSHOT_TIME_LEN) bs) = Some (se, used2)"
    by (auto simp: cursor_parse_def Let_def at_def split: option.splits if_splits)
  from assms long last time snap have all: "at + SNAPSHOT_TIME_LEN + used2 = length bs"
    by (auto simp: cursor_parse_def Let_def at_def [symmetric] split: if_splits)
  from assms long last time snap all have
    p: "p = \<lparr>cp_position = u64_from_le_bytes (take SERIAL_LEN (take HEADER_LEN bs)), cp_last_entity = le,
         cp_fingerprint = u64_from_le_bytes (drop SERIAL_LEN (take HEADER_LEN bs)),
         cp_snapshot = AdmissionKey (AdmissionTime (u64_from_le_bytes (take SNAPSHOT_TIME_LEN (drop at bs)))) se\<rparr>"
    by (auto simp: cursor_parse_def Let_def at_def [symmetric] split: if_splits)
  note le = parse_entity_exact [OF last] and se = parse_entity_exact [OF snap]
  define hd_bs where "hd_bs = take HEADER_LEN bs"
  have "hd_bs = take SERIAL_LEN hd_bs @ drop SERIAL_LEN hd_bs" by simp
  moreover have "length (take SERIAL_LEN hd_bs) = 8" "length (drop SERIAL_LEN hd_bs) = 8"
    using long by (simp_all add: hd_bs_def SERIAL_LEN_def HEADER_LEN_def)
  ultimately have header: "take HEADER_LEN bs = u64_to_le_bytes (cp_position p) @ u64_to_le_bytes (cp_fingerprint p)"
    by (simp add: p hd_bs_def [symmetric] u64_le_exact)
  have stamp: "take SNAPSHOT_TIME_LEN (drop at bs) = u64_to_le_bytes (as_unix_nano (key_time (cp_snapshot p)))"
    using time by (simp add: p u64_le_exact SNAPSHOT_TIME_LEN_def)
  have tail: "drop (at + SNAPSHOT_TIME_LEN) bs = push_entity se"
    using se(3) all by simp
  have "bs = take HEADER_LEN bs @ drop HEADER_LEN bs" by simp
  also have "drop HEADER_LEN bs = push_entity le @ drop at bs"
    using le(3) by (simp add: at_def add.commute)
  also have "drop at bs = take SNAPSHOT_TIME_LEN (drop at bs) @ drop (at + SNAPSHOT_TIME_LEN) bs"
    by (metis append_take_drop_id drop_drop add.commute)
  finally have "bs = cursor_encode p"
    unfolding cursor_encode_def push_boundary_def header stamp tail by (simp add: p)
  with le(1) se(1) show ?thesis by (simp add: wf_cursor_def p)
qed

text \<open>C30: The cursor codec is exact in both directions: a byte string decodes to a payload
  precisely when the payload is one the engine can mint (ids of their wire width, serials
  nonzero) and the bytes are its encoding. Every accepted cursor is canonical, nothing truncated,
  over-long or wrong-tagged is read, and every minted cursor reads back.\<close>

theorem cursor_codec_exact:
  "cursor_decode bs = Inr p \<longleftrightarrow> wf_cursor p \<and> bs = cursor_encode p"
  by (auto simp: cursor_decode_def cursor_parse_encode dest: cursor_parse_exact split: option.splits)

end
