(* ===== verification/Query_Budget.thy ===== *)
theory Query_Budget
  imports Cursor
begin

text \<open>
  The budget of a query: \<open>result.rs\<close>, \<open>spend.rs\<close> and \<open>budget.rs\<close> of \<open>crates/query/src\<close>.

  A budget is consumed into a session: four ledger dimensions and the monotonic reading of
  admission. Durations and readings are nanoseconds (\<open>nat\<close>), so truncated subtraction is the
  source's \<open>saturating_sub\<close>. A charge returns its grant and the session after it. What the
  engine relies on is the locale \<open>traversal_charge\<close>, interpreted for results, bytes and scan.
\<close>

section \<open>The answer vocabulary\<close>

datatype dimension = Deadline | Results | Bytes | Scan | AggregationMemory

datatype magnitude = Duration nat | Units nat | ByteCount nat

record budget_refusal =
  br_dimension :: dimension
  br_limit :: magnitude
  br_observed :: magnitude

datatype truncation_point = CursorAt bytes | LastExamined entity_id

record truncation =
  tr_dimension :: dimension
  tr_position :: truncation_point
  tr_omitted :: nat

datatype part_outcome = Complete | Degraded truncation | Refused budget_refusal | Stalled

datatype coverage_entry =
    EvictionGap (gap_after: entity_id) (gap_before: entity_id)
  | SnapshotBoundary (boundary_of: admission_key)
  | UncountedTail entity_id dimension
  | DriverStall entity_id

record execution =
  ex_parts :: "part_outcome list"
  ex_coverage :: "coverage_entry list"

record 'r page =
  page_items :: "'r list"
  page_next_cursor :: "bytes option"
  page_execution :: execution

section \<open>The spend ledger\<close>

datatype traversal_allowance = Exact nat | Partial nat budget_refusal

record allowance =
  al_limit :: nat
  al_remaining :: nat

definition allowance_new :: "nat \<Rightarrow> allowance" where
  "allowance_new limit = \<lparr>al_limit = limit, al_remaining = limit\<rparr>"

definition degrade ::
  "dimension \<Rightarrow> nat \<Rightarrow> (nat \<Rightarrow> magnitude) \<Rightarrow> allowance \<Rightarrow> traversal_allowance \<times> allowance" where
  "degrade dim want magnitude a =
     (if want \<le> al_remaining a then (Exact want, a\<lparr>al_remaining := al_remaining a - want\<rparr>)
      else let granted = al_remaining a; a' = a\<lparr>al_remaining := 0\<rparr>
           in (Partial granted
                 \<lparr>br_dimension = dim, br_limit = magnitude (al_limit a'),
                  br_observed = magnitude (al_limit a' - al_remaining a')\<rparr>, a'))"

definition charge_strict ::
  "dimension \<Rightarrow> nat \<Rightarrow> (nat \<Rightarrow> magnitude) \<Rightarrow> allowance \<Rightarrow> (budget_refusal + unit) \<times> allowance" where
  "charge_strict dim charge magnitude a =
     (if al_remaining a = 0 \<or> al_remaining a < charge
      then (Inl \<lparr>br_dimension = dim, br_limit = magnitude (al_limit a),
                 br_observed = magnitude (al_limit a - al_remaining a)\<rparr>, a)
      else (Inr (), a\<lparr>al_remaining := al_remaining a - charge\<rparr>))"

record spend_ledger =
  sl_results :: allowance
  sl_bytes :: allowance
  sl_scan :: allowance
  sl_aggregation_memory :: allowance

definition spend_ledger_new :: "nat \<Rightarrow> nat \<Rightarrow> nat \<Rightarrow> nat \<Rightarrow> spend_ledger" where
  "spend_ledger_new max_results max_bytes max_scan max_aggregation_memory =
     \<lparr>sl_results = allowance_new max_results, sl_bytes = allowance_new max_bytes,
      sl_scan = allowance_new max_scan,
      sl_aggregation_memory = allowance_new max_aggregation_memory\<rparr>"

definition ledger_allow_results :: "nat \<Rightarrow> spend_ledger \<Rightarrow> traversal_allowance \<times> spend_ledger" where
  "ledger_allow_results want l =
     (case degrade Results want Units (sl_results l) of (t, a) \<Rightarrow> (t, l\<lparr>sl_results := a\<rparr>))"

definition ledger_allow_bytes :: "nat \<Rightarrow> spend_ledger \<Rightarrow> traversal_allowance \<times> spend_ledger" where
  "ledger_allow_bytes want l =
     (case degrade Bytes want ByteCount (sl_bytes l) of (t, a) \<Rightarrow> (t, l\<lparr>sl_bytes := a\<rparr>))"

definition ledger_allow_scan :: "nat \<Rightarrow> spend_ledger \<Rightarrow> traversal_allowance \<times> spend_ledger" where
  "ledger_allow_scan want l =
     (case degrade Scan want Units (sl_scan l) of (t, a) \<Rightarrow> (t, l\<lparr>sl_scan := a\<rparr>))"

definition ledger_settle_scan :: "nat \<Rightarrow> spend_ledger \<Rightarrow> spend_ledger" where
  "ledger_settle_scan units l =
     (let owed = min units (al_remaining (sl_scan l))
      in l\<lparr>sl_scan := (sl_scan l)\<lparr>al_remaining := al_remaining (sl_scan l) - owed\<rparr>\<rparr>)"

definition ledger_charge_aggregation_memory ::
  "nat \<Rightarrow> spend_ledger \<Rightarrow> (budget_refusal + unit) \<times> spend_ledger" where
  "ledger_charge_aggregation_memory charge l =
     (case charge_strict AggregationMemory charge ByteCount (sl_aggregation_memory l) of
        (r, a) \<Rightarrow> (r, l\<lparr>sl_aggregation_memory := a\<rparr>))"

definition ledger_charge_scan_strict ::
  "nat \<Rightarrow> spend_ledger \<Rightarrow> (budget_refusal + unit) \<times> spend_ledger" where
  "ledger_charge_scan_strict entities l =
     (case charge_strict Scan entities Units (sl_scan l) of (r, a) \<Rightarrow> (r, l\<lparr>sl_scan := a\<rparr>))"

definition remaining_results :: "spend_ledger \<Rightarrow> nat" where
  "remaining_results l = al_remaining (sl_results l)"

definition remaining_bytes :: "spend_ledger \<Rightarrow> nat" where
  "remaining_bytes l = al_remaining (sl_bytes l)"

definition remaining_scan :: "spend_ledger \<Rightarrow> nat" where
  "remaining_scan l = al_remaining (sl_scan l)"

definition remaining_aggregation_memory :: "spend_ledger \<Rightarrow> nat" where
  "remaining_aggregation_memory l = al_remaining (sl_aggregation_memory l)"

section \<open>The session\<close>

record query_budget =
  qb_deadline :: nat
  qb_max_results :: nat
  qb_max_bytes :: nat
  qb_max_scan :: nat
  qb_max_aggregation_memory :: nat

record budget_session =
  bs_budget :: query_budget
  bs_admitted_at :: nat
  bs_ledger :: spend_ledger

definition admit :: "query_budget \<Rightarrow> nat \<Rightarrow> budget_session" where
  "admit b at =
     \<lparr>bs_budget = b, bs_admitted_at = at,
      bs_ledger = spend_ledger_new (qb_max_results b) (qb_max_bytes b) (qb_max_scan b)
                    (qb_max_aggregation_memory b)\<rparr>"

definition deadline_remaining :: "budget_session \<Rightarrow> nat \<Rightarrow> nat" where
  "deadline_remaining s now = qb_deadline (bs_budget s) - (now - bs_admitted_at s)"

definition deadline_exhausted :: "budget_session \<Rightarrow> nat \<Rightarrow> bool" where
  "deadline_exhausted s now \<longleftrightarrow> deadline_remaining s now = 0"

definition deadline_refusal :: "budget_session \<Rightarrow> nat \<Rightarrow> budget_refusal" where
  "deadline_refusal s now =
     \<lparr>br_dimension = Deadline, br_limit = Duration (qb_deadline (bs_budget s)),
      br_observed = Duration (now - bs_admitted_at s)\<rparr>"

definition allow_results ::
  "nat \<Rightarrow> nat \<Rightarrow> budget_session \<Rightarrow> traversal_allowance \<times> budget_session" where
  "allow_results now want s =
     (if deadline_exhausted s now then (Partial 0 (deadline_refusal s now), s)
      else case ledger_allow_results want (bs_ledger s) of (t, l) \<Rightarrow> (t, s\<lparr>bs_ledger := l\<rparr>))"

definition allow_bytes ::
  "nat \<Rightarrow> nat \<Rightarrow> budget_session \<Rightarrow> traversal_allowance \<times> budget_session" where
  "allow_bytes now want s =
     (if deadline_exhausted s now then (Partial 0 (deadline_refusal s now), s)
      else case ledger_allow_bytes want (bs_ledger s) of (t, l) \<Rightarrow> (t, s\<lparr>bs_ledger := l\<rparr>))"

definition allow_scan ::
  "nat \<Rightarrow> nat \<Rightarrow> budget_session \<Rightarrow> traversal_allowance \<times> budget_session" where
  "allow_scan now want s =
     (if deadline_exhausted s now then (Partial 0 (deadline_refusal s now), s)
      else case ledger_allow_scan want (bs_ledger s) of (t, l) \<Rightarrow> (t, s\<lparr>bs_ledger := l\<rparr>))"

definition settle_abandoned_scan :: "nat \<Rightarrow> budget_session \<Rightarrow> budget_session" where
  "settle_abandoned_scan units s = s\<lparr>bs_ledger := ledger_settle_scan units (bs_ledger s)\<rparr>"

definition charge_aggregation_memory ::
  "nat \<Rightarrow> nat \<Rightarrow> budget_session \<Rightarrow> (budget_refusal + unit) \<times> budget_session" where
  "charge_aggregation_memory now charge s =
     (if deadline_exhausted s now then (Inl (deadline_refusal s now), s)
      else case ledger_charge_aggregation_memory charge (bs_ledger s) of
             (r, l) \<Rightarrow> (r, s\<lparr>bs_ledger := l\<rparr>))"

definition charge_scan_strict ::
  "nat \<Rightarrow> nat \<Rightarrow> budget_session \<Rightarrow> (budget_refusal + unit) \<times> budget_session" where
  "charge_scan_strict now entities s =
     (if deadline_exhausted s now then (Inl (deadline_refusal s now), s)
      else case ledger_charge_scan_strict entities (bs_ledger s) of
             (r, l) \<Rightarrow> (r, s\<lparr>bs_ledger := l\<rparr>))"

section \<open>What a traversal charge promises\<close>

text \<open>
  A charge in full takes exactly its ask; a charge in part takes what it granted, less than
  its ask, and any other dimension reads as before.
\<close>

locale traversal_charge =
  fixes charge :: "nat \<Rightarrow> nat \<Rightarrow> budget_session \<Rightarrow> traversal_allowance \<times> budget_session"
    and left :: "spend_ledger \<Rightarrow> nat"
    and others :: "spend_ledger \<Rightarrow> 'o"
  assumes in_full: "charge now want s = (Exact n, s') \<Longrightarrow>
      n = want \<and> left (bs_ledger s) = left (bs_ledger s') + want \<and> \<not> deadline_exhausted s now"
    and in_part: "charge now want s = (Partial n r, s') \<Longrightarrow>
      n < want + (if deadline_exhausted s now then 1 else 0) \<and>
      left (bs_ledger s) = left (bs_ledger s') + n"
    and untouched: "charge now want s = (t, s') \<Longrightarrow>
      others (bs_ledger s') = others (bs_ledger s) \<and> bs_budget s' = bs_budget s \<and>
      bs_admitted_at s' = bs_admitted_at s"
    and granted_when: "\<not> deadline_exhausted s now \<Longrightarrow> want \<le> left (bs_ledger s) \<Longrightarrow>
      \<exists>s'. charge now want s = (Exact want, s')"
begin

lemma never_grows: "charge now want s = (t, s') \<Longrightarrow> left (bs_ledger s') \<le> left (bs_ledger s)"
  by (cases t) (use in_full in_part in fastforce)+

lemma refused_short:
  assumes "charge now want s = (Partial n r, s')"
  shows "deadline_exhausted s now \<or> left (bs_ledger s) < want"
  using granted_when [of s now want] assms by (auto simp: not_less [symmetric])

end

lemmas budget_defs = degrade_def ledger_allow_results_def ledger_allow_bytes_def
  ledger_allow_scan_def remaining_results_def remaining_bytes_def remaining_scan_def
  remaining_aggregation_memory_def

interpretation results_charge: traversal_charge allow_results remaining_results
  "\<lambda>l. (sl_bytes l, sl_scan l, sl_aggregation_memory l)"
  by unfold_locales
    (auto simp: allow_results_def budget_defs Let_def split: if_splits prod.splits)

interpretation bytes_charge: traversal_charge allow_bytes remaining_bytes
  "\<lambda>l. (sl_results l, sl_scan l, sl_aggregation_memory l)"
  by unfold_locales
    (auto simp: allow_bytes_def budget_defs Let_def split: if_splits prod.splits)

interpretation scan_charge: traversal_charge allow_scan remaining_scan
  "\<lambda>l. (sl_results l, sl_bytes l, sl_aggregation_memory l)"
  by unfold_locales
    (auto simp: allow_scan_def budget_defs Let_def split: if_splits prod.splits)

lemma settle_simps [simp]:
  "remaining_results (bs_ledger (settle_abandoned_scan n s)) = remaining_results (bs_ledger s)"
  "remaining_bytes (bs_ledger (settle_abandoned_scan n s)) = remaining_bytes (bs_ledger s)"
  "remaining_scan (bs_ledger (settle_abandoned_scan n s)) = remaining_scan (bs_ledger s) - n"
  "bs_budget (settle_abandoned_scan n s) = bs_budget s"
  by (auto simp: settle_abandoned_scan_def ledger_settle_scan_def budget_defs Let_def)

lemma admit_simps [simp]:
  "remaining_results (bs_ledger (admit b at)) = qb_max_results b"
  "remaining_bytes (bs_ledger (admit b at)) = qb_max_bytes b"
  "remaining_scan (bs_ledger (admit b at)) = qb_max_scan b"
  "bs_budget (admit b at) = b"
  by (simp_all add: admit_def spend_ledger_new_def allowance_new_def budget_defs)

section \<open>Refusals\<close>

fun ceiling_of :: "dimension \<Rightarrow> budget_session \<Rightarrow> magnitude" where
  "ceiling_of Deadline s = Duration (qb_deadline (bs_budget s))"
| "ceiling_of Results s = Units (al_limit (sl_results (bs_ledger s)))"
| "ceiling_of Bytes s = ByteCount (al_limit (sl_bytes (bs_ledger s)))"
| "ceiling_of Scan s = Units (al_limit (sl_scan (bs_ledger s)))"
| "ceiling_of AggregationMemory s = ByteCount (al_limit (sl_aggregation_memory (bs_ledger s)))"

definition spent :: "allowance \<Rightarrow> nat" where
  "spent a = al_limit a - al_remaining a"

fun spend_of :: "dimension \<Rightarrow> nat \<Rightarrow> budget_session \<Rightarrow> magnitude" where
  "spend_of Deadline now s = Duration (now - bs_admitted_at s)"
| "spend_of Results now s = Units (spent (sl_results (bs_ledger s)))"
| "spend_of Bytes now s = ByteCount (spent (sl_bytes (bs_ledger s)))"
| "spend_of Scan now s = Units (spent (sl_scan (bs_ledger s)))"
| "spend_of AggregationMemory now s = ByteCount (spent (sl_aggregation_memory (bs_ledger s)))"

lemmas charge_defs = allow_results_def allow_bytes_def allow_scan_def
  charge_aggregation_memory_def charge_scan_strict_def degrade_def charge_strict_def
  ledger_allow_results_def ledger_allow_bytes_def ledger_allow_scan_def
  ledger_charge_aggregation_memory_def ledger_charge_scan_strict_def

lemma traversal_refusal:
  assumes "allow_results now want s = (Partial n r, s') \<or> allow_bytes now want s = (Partial n r, s') \<or>
    allow_scan now want s = (Partial n r, s')"
  shows "br_limit r = ceiling_of (br_dimension r) s \<and> br_observed r = spend_of (br_dimension r) now s' \<and>
    (deadline_exhausted s now \<longleftrightarrow> br_dimension r = Deadline)"
  using assms
  by (elim disjE) (auto simp: charge_defs Let_def spent_def deadline_refusal_def split: if_splits prod.splits)

lemma strict_refusal:
  assumes "charge_aggregation_memory now want s = (Inl r, s') \<or> charge_scan_strict now want s = (Inl r, s')"
  shows "br_limit r = ceiling_of (br_dimension r) s \<and> br_observed r = spend_of (br_dimension r) now s' \<and>
    (deadline_exhausted s now \<longleftrightarrow> br_dimension r = Deadline) \<and> s' = s"
  using assms
  by (elim disjE) (auto simp: charge_defs spent_def deadline_refusal_def split: if_splits prod.splits)

definition sample_budget :: query_budget where
  "sample_budget = \<lparr>qb_deadline = 100, qb_max_results = 2, qb_max_bytes = 10, qb_max_scan = 3,
     qb_max_aggregation_memory = 5\<rparr>"

text \<open>A refused charge, of a traversal or of an aggregation, tells the truth: it names the
  caller's own ceiling and the whole spend of that dimension at the moment it expired, an expired
  deadline is what it names whatever else has run out, and an aggregation's refusal leaves the
  session as it was.\<close>

theorem refusals_tell_the_spend:
  assumes "allow_results now want s = (Partial n r, s') \<or> allow_bytes now want s = (Partial n r, s') \<or>
    allow_scan now want s = (Partial n r, s') \<or> charge_aggregation_memory now want s = (Inl r, s') \<or>
    charge_scan_strict now want s = (Inl r, s')"
  shows "br_limit r = ceiling_of (br_dimension r) s \<and> br_observed r = spend_of (br_dimension r) now s' \<and>
    (deadline_exhausted s now \<longleftrightarrow> br_dimension r = Deadline) \<and>
    ((charge_aggregation_memory now want s = (Inl r, s') \<or> charge_scan_strict now want s = (Inl r, s')) \<longrightarrow>
       s' = s)"
  using assms traversal_refusal [of now want s n r s'] strict_refusal [of now want s r s'] by argo

text \<open>Four records asked of a scan ceiling of three.\<close>

lemma refusals_tell_the_spend_witness:
  "br_observed (case allow_scan 7 4 (admit sample_budget 5) of (Partial n r, s) \<Rightarrow> r) = Units 3"
proof -
  have charge: "allow_scan 7 4 (admit sample_budget 5) =
      (Partial 3 \<lparr>br_dimension = Scan, br_limit = Units 3, br_observed = Units 3\<rparr>,
       (admit sample_budget 5)\<lparr>bs_ledger := (bs_ledger (admit sample_budget 5))
          \<lparr>sl_scan := \<lparr>al_limit = 3, al_remaining = 0\<rparr>\<rparr>\<rparr>)"
    by (simp add: charge_defs admit_def spend_ledger_new_def allowance_new_def sample_budget_def
        deadline_exhausted_def deadline_remaining_def Let_def)
  from refusals_tell_the_spend [of 7 4 "admit sample_budget 5", OF disjI2 [OF disjI2 [OF disjI1 [OF charge]]]]
  show ?thesis by (simp add: charge spent_def)
qed

end
