(* ===== verification/Filters.thy ===== *)
theory Filters
  imports Query_Budget
begin

text \<open>
  Content filters and the query description: \<open>filters.rs\<close> and the query types of \<open>engine.rs\<close> in
  \<open>crates/query/src\<close>.

  A filter is a predicate on the record view. The canonical query description is what a cursor's
  fingerprint is taken over; that no two queries share one is the composition of prefix codes
  (locale \<open>prefix_code\<close>): every field's bytes say where they end.
\<close>

section \<open>The record view\<close>

datatype record_view =
    SpanView span
  | LogView log_record
  | PointView metric_point stream_identity

fun resource_of :: "record_view \<Rightarrow> resource" where
  "resource_of (SpanView s) = sp_resource s"
| "resource_of (LogView r) = lg_resource r"
| "resource_of (PointView _ stream) = si_resource stream"

fun scope_of :: "record_view \<Rightarrow> instrumentation_scope" where
  "scope_of (SpanView s) = sp_scope s"
| "scope_of (LogView r) = lg_scope r"
| "scope_of (PointView _ stream) = si_scope stream"

definition log_time_key :: "log_record \<Rightarrow> u64 option" where
  "log_time_key r =
     (case lg_timestamp r of Some t \<Rightarrow> Some t | None \<Rightarrow> lg_observed_timestamp r)"

fun time_key_of :: "record_view \<Rightarrow> u64 option" where
  "time_key_of (SpanView s) = Some (sp_start_time s)"
| "time_key_of (LogView r) = log_time_key r"
| "time_key_of (PointView p _) = Some (point_time p)"

section \<open>Filters\<close>

definition SERVICE_NAME_KEY :: string where "SERVICE_NAME_KEY = ''service.name''"

definition PRESENT :: u8 where "PRESENT = 1"

definition ABSENT :: u8 where "ABSENT = 0"

datatype service_filter = ServiceFilter (sf_name: string)

record time_range_filter =
  tf_from :: u64
  tf_to :: u64

datatype severity_filter = SeverityFilter (vf_minimum: severity_number)

record scope_filter =
  cf_name :: string
  cf_version :: "string option"

definition service_matches :: "service_filter \<Rightarrow> record_view \<Rightarrow> bool" where
  "service_matches f v =
     (case attributes_get (res_attributes (resource_of v)) SERVICE_NAME_KEY of
        Some (StringV name) \<Rightarrow> name = sf_name f
      | _ \<Rightarrow> False)"

definition time_range_matches :: "time_range_filter \<Rightarrow> record_view \<Rightarrow> bool" where
  "time_range_matches f v =
     (case time_key_of v of
        Some time \<Rightarrow> tf_from f \<le> time \<and> time < tf_to f
      | None \<Rightarrow> False)"

definition severity_matches :: "severity_filter \<Rightarrow> record_view \<Rightarrow> bool" where
  "severity_matches f v =
     (case v of
        LogView r \<Rightarrow>
          (case lg_severity_number r of
             Some severity \<Rightarrow> severity_of (vf_minimum f) \<le> severity_of severity
           | None \<Rightarrow> False)
      | _ \<Rightarrow> False)"

definition scope_matches :: "scope_filter \<Rightarrow> record_view \<Rightarrow> bool" where
  "scope_matches f v \<longleftrightarrow>
     sc_name (scope_of v) = cf_name f \<and> sc_version (scope_of v) = cf_version f"

definition is_none_or :: "('f \<Rightarrow> record_view \<Rightarrow> bool) \<Rightarrow> 'f option \<Rightarrow> record_view \<Rightarrow> bool" where
  "is_none_or matches f v = (case f of None \<Rightarrow> True | Some f \<Rightarrow> matches f v)"

record span_filters =
  sf_service :: "service_filter option"
  sf_time_range :: "time_range_filter option"
  sf_scope :: "scope_filter option"

record log_filters =
  lf_service :: "service_filter option"
  lf_time_range :: "time_range_filter option"
  lf_severity :: "severity_filter option"
  lf_scope :: "scope_filter option"

record metric_filters =
  mf_service :: "service_filter option"
  mf_time_range :: "time_range_filter option"
  mf_scope :: "scope_filter option"

definition span_all_none :: span_filters where
  "span_all_none = \<lparr>sf_service = None, sf_time_range = None, sf_scope = None\<rparr>"

definition log_all_none :: log_filters where
  "log_all_none = \<lparr>lf_service = None, lf_time_range = None, lf_severity = None, lf_scope = None\<rparr>"

definition metric_all_none :: metric_filters where
  "metric_all_none = \<lparr>mf_service = None, mf_time_range = None, mf_scope = None\<rparr>"

definition span_filters_match :: "span_filters \<Rightarrow> record_view \<Rightarrow> bool" where
  "span_filters_match fs v \<longleftrightarrow>
     is_none_or service_matches (sf_service fs) v \<and>
     is_none_or time_range_matches (sf_time_range fs) v \<and>
     is_none_or scope_matches (sf_scope fs) v"

definition log_filters_match :: "log_filters \<Rightarrow> record_view \<Rightarrow> bool" where
  "log_filters_match fs v \<longleftrightarrow>
     is_none_or service_matches (lf_service fs) v \<and>
     is_none_or time_range_matches (lf_time_range fs) v \<and>
     is_none_or severity_matches (lf_severity fs) v \<and>
     is_none_or scope_matches (lf_scope fs) v"

definition metric_filters_match :: "metric_filters \<Rightarrow> record_view \<Rightarrow> bool" where
  "metric_filters_match fs v \<longleftrightarrow>
     is_none_or service_matches (mf_service fs) v \<and>
     is_none_or time_range_matches (mf_time_range fs) v \<and>
     is_none_or scope_matches (mf_scope fs) v"

datatype records_filters =
    SpanFilters span_filters
  | LogFilters log_filters
  | MetricFilters metric_filters

text \<open>A filter set of another kind filters nothing (the release build's fallback).\<close>

fun records_match :: "records_filters \<Rightarrow> record_view \<Rightarrow> bool" where
  "records_match (SpanFilters fs) (SpanView s) = span_filters_match fs (SpanView s)"
| "records_match (LogFilters fs) (LogView r) = log_filters_match fs (LogView r)"
| "records_match (MetricFilters fs) (PointView p s) = metric_filters_match fs (PointView p s)"
| "records_match _ _ = True"

section \<open>The canonical bytes of a filter set\<close>

definition push_str :: "string \<Rightarrow> bytes" where
  "push_str s = u64_to_le_bytes (word_of_nat (sat_u64 (length s))) @ map of_char s"

definition push_service :: "service_filter \<Rightarrow> bytes" where
  "push_service f = PRESENT # push_str (sf_name f)"

definition push_time_range :: "time_range_filter \<Rightarrow> bytes" where
  "push_time_range f = PRESENT # u64_to_le_bytes (tf_from f) @ u64_to_le_bytes (tf_to f)"

definition push_severity :: "severity_filter \<Rightarrow> bytes" where
  "push_severity f = [PRESENT, severity_of (vf_minimum f)]"

definition push_scope :: "scope_filter \<Rightarrow> bytes" where
  "push_scope f =
     PRESENT # push_str (cf_name f) @
     (case cf_version f of Some version \<Rightarrow> PRESENT # push_str version | None \<Rightarrow> [ABSENT])"

definition push_slot :: "('f \<Rightarrow> bytes) \<Rightarrow> 'f option \<Rightarrow> bytes" where
  "push_slot push f = (case f of Some f \<Rightarrow> push f | None \<Rightarrow> [ABSENT])"

definition push_span_filters :: "span_filters \<Rightarrow> bytes" where
  "push_span_filters fs =
     push_slot push_service (sf_service fs) @ push_slot push_time_range (sf_time_range fs) @
     push_slot push_scope (sf_scope fs)"

definition push_log_filters :: "log_filters \<Rightarrow> bytes" where
  "push_log_filters fs =
     push_slot push_service (lf_service fs) @ push_slot push_time_range (lf_time_range fs) @
     push_slot push_severity (lf_severity fs) @ push_slot push_scope (lf_scope fs)"

definition push_metric_filters :: "metric_filters \<Rightarrow> bytes" where
  "push_metric_filters fs =
     push_slot push_service (mf_service fs) @ push_slot push_time_range (mf_time_range fs) @
     push_slot push_scope (mf_scope fs)"

fun push_filters :: "records_filters \<Rightarrow> bytes" where
  "push_filters (SpanFilters fs) = push_span_filters fs"
| "push_filters (LogFilters fs) = push_log_filters fs"
| "push_filters (MetricFilters fs) = push_metric_filters fs"

lemmas push_kind_defs = push_span_filters_def push_log_filters_def push_metric_filters_def

section \<open>The query\<close>

definition QUERY_TAG :: u8 where "QUERY_TAG = of_char (CHR ''Q'')"

definition QUERY_VERSION :: u8 where "QUERY_VERSION = 2"

datatype signal_kind = Spans | LogRecords | MetricPoints

fun kind_tag :: "signal_kind \<Rightarrow> u8" where
  "kind_tag Spans = 0"
| "kind_tag LogRecords = 1"
| "kind_tag MetricPoints = 2"

record records_query =
  rq_kind :: signal_kind
  rq_filters :: records_filters

fun query_new :: "signal_kind \<Rightarrow> records_query" where
  "query_new Spans = \<lparr>rq_kind = Spans, rq_filters = SpanFilters span_all_none\<rparr>"
| "query_new LogRecords = \<lparr>rq_kind = LogRecords, rq_filters = LogFilters log_all_none\<rparr>"
| "query_new MetricPoints = \<lparr>rq_kind = MetricPoints, rq_filters = MetricFilters metric_all_none\<rparr>"

definition query_spans :: "span_filters \<Rightarrow> records_query" where
  "query_spans fs = \<lparr>rq_kind = Spans, rq_filters = SpanFilters fs\<rparr>"

definition query_logs :: "log_filters \<Rightarrow> records_query" where
  "query_logs fs = \<lparr>rq_kind = LogRecords, rq_filters = LogFilters fs\<rparr>"

definition query_metric_points :: "metric_filters \<Rightarrow> records_query" where
  "query_metric_points fs = \<lparr>rq_kind = MetricPoints, rq_filters = MetricFilters fs\<rparr>"

definition canonical_bytes :: "records_query \<Rightarrow> bytes" where
  "canonical_bytes q = [QUERY_TAG, QUERY_VERSION, kind_tag (rq_kind q)] @ push_filters (rq_filters q)"

definition query_fingerprint :: "records_query \<Rightarrow> u64" where
  "query_fingerprint q = fingerprint (canonical_bytes q)"

text \<open>The queries the constructors build: the filter set is of the query's kind.\<close>

fun filters_kind :: "records_filters \<Rightarrow> signal_kind" where
  "filters_kind (SpanFilters _) = Spans"
| "filters_kind (LogFilters _) = LogRecords"
| "filters_kind (MetricFilters _) = MetricPoints"

fun view_kind :: "record_view \<Rightarrow> signal_kind" where
  "view_kind (SpanView _) = Spans"
| "view_kind (LogView _) = LogRecords"
| "view_kind (PointView _ _) = MetricPoints"

definition wf_query :: "records_query \<Rightarrow> bool" where
  "wf_query q \<longleftrightarrow> filters_kind (rq_filters q) = rq_kind q"

lemma constructed_queries:
  "wf_query (query_new k)" "wf_query (query_spans sf)" "wf_query (query_logs lf)"
  "wf_query (query_metric_points mf)"
  by (cases k) (simp_all add: wf_query_def query_spans_def query_logs_def query_metric_points_def)

section \<open>Prefix codes\<close>

locale prefix_code =
  fixes push :: "'f \<Rightarrow> bytes" and ok :: "'f \<Rightarrow> bool"
  assumes ends: "ok f \<Longrightarrow> ok g \<Longrightarrow> push f @ r = push g @ s \<Longrightarrow> f = g \<and> r = s"

locale present_code = prefix_code +
  assumes starts: "\<exists>bs. push f = PRESENT # bs"
begin

lemma slot_ends:
  assumes "pred_option ok f" "pred_option ok g" "push_slot push f @ r = push_slot push g @ s"
  shows "f = g \<and> r = s"
proof (cases f; cases g)
  fix f' g' assume "f = Some f'" "g = Some g'"
  with assms ends [of f' g' r s] show ?thesis by (simp add: push_slot_def)
next
  fix g' assume "f = None" "g = Some g'"
  with assms starts [of g'] show ?thesis by (auto simp: push_slot_def PRESENT_def ABSENT_def)
next
  fix f' assume "f = Some f'" "g = None"
  with assms starts [of f'] show ?thesis by (auto simp: push_slot_def PRESENT_def ABSENT_def)
qed (use assms in \<open>auto simp: push_slot_def\<close>)

end

definition wf_str :: "string \<Rightarrow> bool" where
  "wf_str s \<longleftrightarrow> length s \<le> u64_max"

lemma inj_of_char: "inj (of_char :: char \<Rightarrow> u8)"
proof (rule injI)
  fix c d :: char assume eq: "(of_char c :: u8) = of_char d"
  have bound: "of_char x < (256 :: nat)" for x :: char by simp
  have "unat (of_char x :: u8) = of_char x" for x :: char
    using bound [of x] by (simp add: of_char_def unat_of_nat) 
  with eq show "c = d" by (metis of_char_eq_iff)
qed

lemma u64_le_ends: "u64_to_le_bytes v @ r = u64_to_le_bytes w @ s \<longleftrightarrow> v = w \<and> r = s"
  by (simp add: append_eq_append_conv)

lemma length_word_inject:
  "m \<le> u64_max \<Longrightarrow> n \<le> u64_max \<Longrightarrow> (word_of_nat m :: u64) = word_of_nat n \<longleftrightarrow> m = n"
  by (simp add: word_of_nat_eq_iff take_bit_nat_eq_self u64_max_def)

interpretation str_code: prefix_code push_str wf_str
proof
  fix f g :: string and r s :: bytes
  assume wf: "wf_str f" "wf_str g" and eq: "push_str f @ r = push_str g @ s"
  from eq wf have len: "length f = length g" and rest: "map of_char f @ r = map (of_char :: char \<Rightarrow> u8) g @ s"
    by (simp_all add: push_str_def u64_le_ends sat_u64_def wf_str_def min_absorb1 length_word_inject)
  from rest len have "map of_char f = map (of_char :: char \<Rightarrow> u8) g \<and> r = s"
    by (simp add: append_eq_append_conv)
  then show "f = g \<and> r = s" by (simp add: inj_map_eq_map [OF inj_of_char])
qed

interpretation service_code: present_code push_service "\<lambda>f. wf_str (sf_name f)"
proof
  fix f g r s
  assume "wf_str (sf_name f)" "wf_str (sf_name g)" "push_service f @ r = push_service g @ s"
  with str_code.ends [of "sf_name f" "sf_name g" r s] show "f = g \<and> r = s"
    by (simp add: push_service_def service_filter.expand)
qed (simp add: push_service_def)

interpretation time_range_code: present_code push_time_range "\<lambda>_. True"
  by unfold_locales (simp_all add: push_time_range_def u64_le_ends)

interpretation severity_code: present_code push_severity "\<lambda>_. True"
  by unfold_locales
    (auto simp: push_severity_def intro: severity_filter.expand severity_number.expand)

definition wf_scope_filter :: "scope_filter \<Rightarrow> bool" where
  "wf_scope_filter f \<longleftrightarrow> wf_str (cf_name f) \<and> pred_option wf_str (cf_version f)"

interpretation scope_code: present_code push_scope wf_scope_filter
proof
  fix f g :: scope_filter and r s :: bytes
  let ?v = "\<lambda>h. case cf_version h of Some version \<Rightarrow> PRESENT # push_str version | None \<Rightarrow> [ABSENT]"
  assume wf: "wf_scope_filter f" "wf_scope_filter g" and eq: "push_scope f @ r = push_scope g @ s"
  from eq have "push_str (cf_name f) @ ?v f @ r = push_str (cf_name g) @ ?v g @ s"
    by (simp add: push_scope_def)
  with wf have name: "cf_name f = cf_name g" and v: "?v f @ r = ?v g @ s"
    using str_code.ends [of "cf_name f" "cf_name g" "?v f @ r" "?v g @ s"]
    by (auto simp: wf_scope_filter_def)
  have "cf_version f = cf_version g \<and> r = s"
  proof (cases "cf_version f"; cases "cf_version g")
    fix a b assume vs: "cf_version f = Some a" "cf_version g = Some b"
    with v wf str_code.ends [of a b r s] show ?thesis by (simp add: wf_scope_filter_def)
  qed (use v in \<open>auto simp: PRESENT_def ABSENT_def\<close>)
  with name show "f = g \<and> r = s" by (cases f; cases g) simp
qed (simp add: push_scope_def)

fun wf_filters :: "records_filters \<Rightarrow> bool" where
  "wf_filters (SpanFilters fs) \<longleftrightarrow>
     pred_option (\<lambda>f. wf_str (sf_name f)) (sf_service fs) \<and> pred_option wf_scope_filter (sf_scope fs)"
| "wf_filters (LogFilters fs) \<longleftrightarrow>
     pred_option (\<lambda>f. wf_str (sf_name f)) (lf_service fs) \<and> pred_option wf_scope_filter (lf_scope fs)"
| "wf_filters (MetricFilters fs) \<longleftrightarrow>
     pred_option (\<lambda>f. wf_str (sf_name f)) (mf_service fs) \<and> pred_option wf_scope_filter (mf_scope fs)"

lemma any_filter [simp]: "pred_option (\<lambda>_. True) f"
  by (cases f) simp_all

lemmas slot_ends = service_code.slot_ends time_range_code.slot_ends severity_code.slot_ends
  scope_code.slot_ends

lemma service_slot:
  assumes "pred_option (\<lambda>f. wf_str (sf_name f)) f" "pred_option (\<lambda>f. wf_str (sf_name f)) g"
  shows "push_slot push_service f @ r = push_slot push_service g @ s \<longleftrightarrow> f = g \<and> r = s"
  using service_code.slot_ends [OF assms] by blast

lemma time_range_slot:
  "push_slot push_time_range f @ r = push_slot push_time_range g @ s \<longleftrightarrow> f = g \<and> r = s"
  using time_range_code.slot_ends [of f g r s] by auto

lemma severity_slot:
  "push_slot push_severity f @ r = push_slot push_severity g @ s \<longleftrightarrow> f = g \<and> r = s"
  using severity_code.slot_ends [of f g r s] by auto

lemma scope_slot:
  assumes "pred_option wf_scope_filter f" "pred_option wf_scope_filter g"
  shows "push_slot push_scope f = push_slot push_scope g \<longleftrightarrow> f = g"
  using scope_code.slot_ends [OF assms, of "[]" "[]"] by auto

lemma push_filters_inject:
  assumes "wf_filters f" "wf_filters g" "filters_kind f = filters_kind g"
    "push_filters f = push_filters g"
  shows "f = g"
  using assms
  by (cases f; cases g) (auto simp: push_kind_defs service_slot time_range_slot severity_slot scope_slot
      intro: span_filters.equality log_filters.equality metric_filters.equality)

lemma kind_tag_inject [simp]: "kind_tag a = kind_tag b \<longleftrightarrow> a = b"
  by (cases a; cases b) simp_all

definition sample_span_query :: "string \<Rightarrow> records_query" where
  "sample_span_query name = query_spans
     \<lparr>sf_service = Some (ServiceFilter name), sf_time_range = None, sf_scope = None\<rparr>"

text \<open>The canonical query description is a faithful identity: two queries the constructors
  build, of names a string can hold, share their canonical bytes only when they are one query, of
  the same kind and with the same filters. So the only way a cursor is accepted under another
  query is a collision of the hash itself.\<close>

theorem query_description_injective:
  assumes "wf_query p" "wf_query q" "wf_filters (rq_filters p)" "wf_filters (rq_filters q)"
  shows "canonical_bytes p = canonical_bytes q \<longleftrightarrow> p = q"
  using assms push_filters_inject [of "rq_filters p" "rq_filters q"]
  by (auto simp: canonical_bytes_def wf_query_def intro: records_query.equality)

lemma query_description_injective_witness:
  "canonical_bytes (sample_span_query ''a'') \<noteq> canonical_bytes (sample_span_query ''ab'')"
proof -
  have "wf_query (sample_span_query s)" for s
    by (simp add: sample_span_query_def constructed_queries)
  moreover have "wf_filters (rq_filters (sample_span_query s))" if "length s \<le> 2" for s
    using that by (simp add: sample_span_query_def query_spans_def wf_str_def u64_max_def)
  ultimately have "canonical_bytes (sample_span_query ''a'') = canonical_bytes (sample_span_query ''ab'')
      \<longleftrightarrow> sample_span_query ''a'' = sample_span_query ''ab''"
    by (intro query_description_injective) simp_all
  then show ?thesis by (simp add: sample_span_query_def query_spans_def)
qed

end
