(* ===== verification/Store_Reader.thy ===== *)
theory Store_Reader
  imports Memory_Store
begin

text \<open>
  What a reader sees of a store: the six reads of the trait \<open>TelemetryStore\<close>
  (\<open>crates/storage/src/store.rs\<close>), any driver being a value of \<open>query_store\<close>, and the memory store
  (\<open>crates/storage-memory/src/store.rs\<close>) as such a driver. The query engine and the correlation
  engine read a store through nothing else.
\<close>

record query_store =
  qs_scan_spans :: "admission_key option \<Rightarrow> usize \<Rightarrow> span scan_page"
  qs_scan_log_records :: "admission_key option \<Rightarrow> usize \<Rightarrow> log_record scan_page"
  qs_scan_metric_points :: "admission_key option \<Rightarrow> usize \<Rightarrow> point_view scan_page"
  qs_span :: "entity_id \<Rightarrow> span option"
  qs_log_record :: "entity_id \<Rightarrow> log_record option"
  qs_metric_point :: "entity_id \<Rightarrow> point_view option"

definition memory_query_store :: "memory_store \<Rightarrow> query_store" where
  "memory_query_store st =
     \<lparr>qs_scan_spans = scan_spans st, qs_scan_log_records = scan_log_records st,
      qs_scan_metric_points = scan_metric_points st, qs_span = store_span st,
      qs_log_record = store_log_record st, qs_metric_point = store_metric_point st\<rparr>"

end
