(* ===== verification/Query_Engine.thy ===== *)
theory Query_Engine
  imports Filters Store_Reader
begin

text \<open>
  The records flow: \<open>crates/query/src/engine.rs\<close>.

  A page is one walk (\<open>page_walk\<close>) over a driver. The driver is a trait object in the source and
  a record of its operations here (\<open>query_store\<close>), so what is proved of the walk alone holds
  for every driver, a lawless one included; \<open>memory_query_store\<close> is the memory store as a
  driver. A reading of the monotonic clock is \<open>clk n\<close> for the n-th reading of the query, in the
  order the source takes them. The accounted sizes depend on the layout \<open>L\<close>.
\<close>

section \<open>The walk\<close>

definition SCAN_BATCH :: usize where "SCAN_BATCH = 64"

definition EMPTY_PAGE_STALL_LIMIT :: usize where "EMPTY_PAGE_STALL_LIMIT = 3"

datatype query_error = CursorRejected cursor_error

record counting =
  ct_omitted :: nat
  ct_last :: admission_key

record yielded =
  yl_key :: admission_key
  yl_record :: record_view

record page_walk =
  wk_kind :: signal_kind
  wk_fingerprint :: u64
  wk_filters :: records_filters
  wk_session :: budget_session
  wk_snapshot_bound :: "admission_key option"
  wk_presented :: "cursor_payload option"
  wk_items :: "record_view list"
  wk_coverage :: "coverage_entry list"
  wk_after :: "admission_key option"
  wk_frontier :: "admission_key option"
  wk_last_included :: "admission_key option"
  wk_last_examined :: "admission_key option"
  wk_counting :: "counting option"
  wk_pending_gap :: "entity_id option"
  wk_stopped :: "part_outcome option"
  wk_readings :: nat

fun evidence_of :: "layout \<Rightarrow> record_view \<Rightarrow> nat" where
  "evidence_of L (SpanView s) = sat_u64 (span_size L s)"
| "evidence_of L (LogView r) = sat_u64 (log_record_size L r)"
| "evidence_of L (PointView p _) = sat_u64 (point_size L p)"

definition yields_of :: "('r \<Rightarrow> record_view) \<Rightarrow> 'r scan_page \<Rightarrow> yielded list \<times> admission_key option" where
  "yields_of view page =
     (map (\<lambda>i. \<lparr>yl_key = it_key i, yl_record = view (it_record i)\<rparr>) (pg_items page), pg_cursor page)"

definition point_record_view :: "point_view \<Rightarrow> record_view" where
  "point_record_view v = PointView (pv_point v) (pv_stream v)"

fun pull_kind ::
  "query_store \<Rightarrow> signal_kind \<Rightarrow> admission_key option \<Rightarrow> yielded list \<times> admission_key option" where
  "pull_kind S Spans after = yields_of SpanView (qs_scan_spans S after SCAN_BATCH)"
| "pull_kind S LogRecords after = yields_of LogView (qs_scan_log_records S after SCAN_BATCH)"
| "pull_kind S MetricPoints after =
     yields_of point_record_view (qs_scan_metric_points S after SCAN_BATCH)"

definition pull :: "query_store \<Rightarrow> page_walk \<Rightarrow> yielded list \<times> admission_key option" where
  "pull S w = pull_kind S (wk_kind w) (wk_after w)"

definition or_else :: "'a option \<Rightarrow> 'a option \<Rightarrow> 'a option" where
  "or_else a b = (case a of Some x \<Rightarrow> Some x | None \<Rightarrow> b)"

definition cursor_bytes :: "page_walk \<Rightarrow> admission_key \<Rightarrow> bytes" where
  "cursor_bytes w anchor =
     (let snapshot = (case or_else (wk_snapshot_bound w) (wk_frontier w) of
                        Some k \<Rightarrow> k | None \<Rightarrow> anchor)
      in cursor_encode
           \<lparr>cp_position = as_unix_nano (key_time anchor), cp_last_entity = key_entity anchor,
            cp_fingerprint = wk_fingerprint w, cp_snapshot = snapshot\<rparr>)"

definition presented_echo :: "page_walk \<Rightarrow> truncation_point option" where
  "presented_echo w = map_option (\<lambda>p. CursorAt (cursor_encode p)) (wk_presented w)"

definition include_anchored_degrade ::
  "page_walk \<Rightarrow> dimension \<Rightarrow> nat \<Rightarrow> entity_id \<Rightarrow> part_outcome" where
  "include_anchored_degrade w dim omitted last_examined =
     (let position =
            (case wk_last_included w of
               Some anchor \<Rightarrow> CursorAt (cursor_bytes w anchor)
             | None \<Rightarrow> (case presented_echo w of
                          Some echo \<Rightarrow> echo
                        | None \<Rightarrow> LastExamined last_examined))
      in Degraded \<lparr>tr_dimension = dim, tr_position = position, tr_omitted = omitted\<rparr>)"

definition counting_degrade :: "page_walk \<Rightarrow> nat \<Rightarrow> admission_key \<Rightarrow> part_outcome" where
  "counting_degrade w omitted last_counted =
     Degraded \<lparr>tr_dimension = Bytes, tr_position = CursorAt (cursor_bytes w last_counted),
               tr_omitted = omitted\<rparr>"

definition stop_before_examining :: "budget_refusal \<Rightarrow> page_walk \<Rightarrow> page_walk" where
  "stop_before_examining refusal w =
     (case wk_counting w of
        Some c \<Rightarrow>
          (let w1 = w\<lparr>wk_counting := None,
                      wk_coverage := wk_coverage w @
                        [UncountedTail (key_entity (ct_last c)) (br_dimension refusal)]\<rparr>
           in w1\<lparr>wk_stopped := Some (counting_degrade w1 (ct_omitted c) (ct_last c))\<rparr>)
      | None \<Rightarrow>
          (case wk_last_examined w of
             Some anchor \<Rightarrow>
               w\<lparr>wk_stopped := Some (Degraded
                    \<lparr>tr_dimension = br_dimension refusal,
                     tr_position = CursorAt (cursor_bytes w anchor), tr_omitted = 0\<rparr>)\<rparr>
           | None \<Rightarrow> w\<lparr>wk_stopped := Some (Refused refusal)\<rparr>))"

definition finish_counting_or_complete :: "page_walk \<Rightarrow> page_walk" where
  "finish_counting_or_complete w =
     (case wk_counting w of
        Some c \<Rightarrow>
          (let w1 = w\<lparr>wk_counting := None\<rparr>
           in w1\<lparr>wk_stopped := Some (counting_degrade w1 (ct_omitted c) (ct_last c))\<rparr>)
      | None \<Rightarrow> w\<lparr>wk_stopped := Some Complete\<rparr>)"

definition settle :: "nat \<Rightarrow> page_walk \<Rightarrow> page_walk" where
  "settle unexamined w = w\<lparr>wk_session := settle_abandoned_scan unexamined (wk_session w)\<rparr>"

definition past_bound :: "page_walk \<Rightarrow> admission_key \<Rightarrow> bool" where
  "past_bound w key = (case wk_snapshot_bound w of Some bound \<Rightarrow> bound < key | None \<Rightarrow> False)"

text \<open>A clock reading: the charge at the next reading, and the walk after it.\<close>

definition charge_walk ::
  "(nat \<Rightarrow> nat \<Rightarrow> budget_session \<Rightarrow> traversal_allowance \<times> budget_session) \<Rightarrow> (nat \<Rightarrow> nat) \<Rightarrow> nat \<Rightarrow>
     page_walk \<Rightarrow> traversal_allowance \<times> page_walk" where
  "charge_walk allow clk want w =
     (case allow (clk (wk_readings w)) want (wk_session w) of
        (t, s) \<Rightarrow> (t, w\<lparr>wk_session := s, wk_readings := wk_readings w + 1\<rparr>))"

definition resolve_gap :: "admission_key \<Rightarrow> page_walk \<Rightarrow> page_walk" where
  "resolve_gap key w =
     (case wk_pending_gap w of
        Some anchor \<Rightarrow>
          w\<lparr>wk_pending_gap := None,
            wk_coverage := wk_coverage w @ [EvictionGap anchor (key_entity key)]\<rparr>
      | None \<Rightarrow> w)"

text \<open>The results and bytes gates of a matching record, and its include.\<close>

definition include_record ::
  "layout \<Rightarrow> (nat \<Rightarrow> nat) \<Rightarrow> yielded \<Rightarrow> nat \<Rightarrow> page_walk \<Rightarrow> page_walk" where
  "include_record L clk y unexamined_after w =
     (if remaining_results (bs_ledger (wk_session w)) = 0
      then (let w1 = settle unexamined_after w
            in w1\<lparr>wk_stopped := Some (include_anchored_degrade w1 Results 0 (key_entity (yl_key y)))\<rparr>)
      else case charge_walk allow_results clk 1 w of
        (Partial _ refusal, w1) \<Rightarrow>
          (let w2 = settle unexamined_after w1
           in w2\<lparr>wk_stopped := Some (include_anchored_degrade w2 (br_dimension refusal) 0
                                        (key_entity (yl_key y)))\<rparr>)
      | (Exact _, w1) \<Rightarrow>
          (let evidence = evidence_of L (yl_record y)
           in if remaining_bytes (bs_ledger (wk_session w1)) < evidence
              then w1\<lparr>wk_counting := Some \<lparr>ct_omitted = 1, ct_last = yl_key y\<rparr>\<rparr>
              else case charge_walk allow_bytes clk evidence w1 of
                (Partial _ refusal, w2) \<Rightarrow>
                  (let w3 = settle unexamined_after w2
                   in w3\<lparr>wk_stopped := Some (include_anchored_degrade w3 (br_dimension refusal) 0
                                                (key_entity (yl_key y)))\<rparr>)
              | (Exact _, w2) \<Rightarrow>
                  w2\<lparr>wk_items := wk_items w2 @ [yl_record y], wk_last_included := Some (yl_key y)\<rparr>))"

definition examine ::
  "layout \<Rightarrow> (nat \<Rightarrow> nat) \<Rightarrow> yielded \<Rightarrow> nat \<Rightarrow> page_walk \<Rightarrow> page_walk" where
  "examine L clk y unexamined_after w =
     (if past_bound w (yl_key y)
      then finish_counting_or_complete (settle (unexamined_after + 1) w)
      else case charge_walk allow_scan clk 1 w of
        (Partial _ refusal, w1) \<Rightarrow>
          stop_before_examining refusal (settle (unexamined_after + 1) w1)
      | (Exact _, w1) \<Rightarrow>
          (let w2 = resolve_gap (yl_key y) (w1\<lparr>wk_last_examined := Some (yl_key y)\<rparr>)
           in if \<not> records_match (wk_filters w2) (yl_record y) then w2
              else case wk_counting w2 of
                Some c \<Rightarrow>
                  w2\<lparr>wk_counting := Some \<lparr>ct_omitted = ct_omitted c + 1, ct_last = yl_key y\<rparr>\<rparr>
              | None \<Rightarrow> include_record L clk y unexamined_after w2))"

fun examine_batch ::
  "layout \<Rightarrow> (nat \<Rightarrow> nat) \<Rightarrow> yielded list \<Rightarrow> page_walk \<Rightarrow> page_walk" where
  "examine_batch L clk [] w = w"
| "examine_batch L clk (y # ys) w =
     (let w1 = examine L clk y (sat_u64 (length ys)) w
      in if wk_stopped w1 \<noteq> None then w1 else examine_batch L clk ys w1)"

definition assemble :: "page_walk \<Rightarrow> record_view page" where
  "assemble w =
     (let coverage = (case wk_pending_gap w of
            Some after \<Rightarrow>
              wk_coverage w @ [EvictionGap after
                (case wk_snapshot_bound w of Some bound \<Rightarrow> key_entity bound | None \<Rightarrow> after)]
          | None \<Rightarrow> wk_coverage w);
          part = (case wk_stopped w of Some p \<Rightarrow> p | None \<Rightarrow> Complete)
      in \<lparr>page_items = wk_items w,
          page_next_cursor =
            (case part of
               Degraded t \<Rightarrow> (case tr_position t of CursorAt bytes \<Rightarrow> Some bytes | LastExamined _ \<Rightarrow> None)
             | _ \<Rightarrow> None),
          page_execution = \<lparr>ex_parts = [part], ex_coverage = coverage\<rparr>\<rparr>)"

section \<open>The loop of a page\<close>

text \<open>One iteration of \<open>run\<close>: the walk and the count of consecutive empty pages.\<close>

definition loop_step ::
  "layout \<Rightarrow> (nat \<Rightarrow> nat) \<Rightarrow> query_store \<Rightarrow> page_walk \<times> nat \<Rightarrow> page_walk \<times> nat" where
  "loop_step L clk S = (\<lambda>(w, empty_pages).
     (case pull S w of (batch, batch_cursor) \<Rightarrow>
       (let w1 = w\<lparr>wk_frontier := or_else batch_cursor
                      (if batch = [] then None else Some (yl_key (List.last batch)))\<rparr>
        in if batch = []
           then (case batch_cursor of
                   Some cursor \<Rightarrow>
                     (if EMPTY_PAGE_STALL_LIMIT \<le> empty_pages + 1
                      then (let after = (case wk_last_examined w1 of
                                           Some key \<Rightarrow> key_entity key
                                         | None \<Rightarrow> key_entity cursor)
                            in (w1\<lparr>wk_coverage := wk_coverage w1 @ [DriverStall after],
                                   wk_stopped := Some Stalled\<rparr>, empty_pages + 1))
                      else (w1\<lparr>wk_after := Some cursor\<rparr>, empty_pages + 1))
                 | None \<Rightarrow> (finish_counting_or_complete w1, empty_pages))
           else (let w2 = examine_batch L clk batch w1
                 in if wk_stopped w2 = None
                    then (case batch_cursor of
                            Some next \<Rightarrow> (w2\<lparr>wk_after := Some next\<rparr>, 0)
                          | None \<Rightarrow> (finish_counting_or_complete w2, 0))
                    else (w2, 0)))))"

section \<open>Every driver is paged a bounded number of times\<close>

lemma finish_stops [simp]: "wk_stopped (finish_counting_or_complete w) \<noteq> None"
  by (auto simp: finish_counting_or_complete_def Let_def split: option.splits)

lemma stop_before_stops [simp]: "wk_stopped (stop_before_examining r w) \<noteq> None"
  by (auto simp: stop_before_examining_def Let_def split: option.splits)

abbreviation scan_left :: "page_walk \<Rightarrow> nat" where
  "scan_left w \<equiv> remaining_scan (bs_ledger (wk_session w))"

lemma charge_walk_cases:
  assumes "charge_walk allow clk want w = (t, w')"
  obtains s where "allow (clk (wk_readings w)) want (wk_session w) = (t, s)"
    "w' = w\<lparr>wk_session := s, wk_readings := wk_readings w + 1\<rparr>"
  using assms by (auto simp: charge_walk_def split: prod.splits)

lemma resolve_gap_session [simp]:
  "wk_session (resolve_gap key w) = wk_session w" "wk_stopped (resolve_gap key w) = wk_stopped w"
  "wk_counting (resolve_gap key w) = wk_counting w" "wk_filters (resolve_gap key w) = wk_filters w"
  by (auto simp: resolve_gap_def split: option.splits)

lemma results_charge_scan:
  "charge_walk allow_results clk n w = (t, w') \<Longrightarrow> scan_left w' = scan_left w"
  by (elim charge_walk_cases) (auto simp: remaining_scan_def dest!: results_charge.untouched)

lemma bytes_charge_scan:
  "charge_walk allow_bytes clk n w = (t, w') \<Longrightarrow> scan_left w' = scan_left w"
  by (elim charge_walk_cases) (auto simp: remaining_scan_def dest!: bytes_charge.untouched)

lemma settle_scan [simp]: "scan_left (settle n w) = scan_left w - n"
  by (simp add: settle_def)

lemma include_record_scan: "scan_left (include_record L clk y n w) \<le> scan_left w"
  by (auto simp: include_record_def Let_def results_charge_scan bytes_charge_scan
      split: prod.splits traversal_allowance.splits)

lemma scan_charge_scan:
  "charge_walk allow_scan clk 1 w = (Exact m, w') \<Longrightarrow> scan_left w = Suc (scan_left w')"
  "charge_walk allow_scan clk 1 w = (Partial m r, w') \<Longrightarrow> scan_left w' \<le> scan_left w"
  by (elim charge_walk_cases, auto dest!: scan_charge.in_full)
    (elim charge_walk_cases, auto dest!: scan_charge.never_grows)

lemma finish_scan [simp]: "scan_left (finish_counting_or_complete w) = scan_left w"
  by (auto simp: finish_counting_or_complete_def Let_def split: option.splits)

lemma stop_before_scan [simp]: "scan_left (stop_before_examining r w) = scan_left w"
  by (auto simp: stop_before_examining_def Let_def split: option.splits)

lemma examine_scan:
  "scan_left (examine L clk y n w) \<le> scan_left w \<and>
   (wk_stopped (examine L clk y n w) = None \<longrightarrow> scan_left (examine L clk y n w) < scan_left w)"
proof (cases "past_bound w (yl_key y)")
  case True
  then show ?thesis using finish_stops [of "settle (n + 1) w"] by (auto simp: examine_def)
next
  case False
  obtain t w1 where charge: "charge_walk allow_scan clk 1 w = (t, w1)" by fastforce
  show ?thesis
  proof (cases t)
    case (Partial m r)
    then show ?thesis
      using False charge scan_charge_scan(2) [of clk w m r w1] stop_before_stops [of r "settle (n + 1) w1"]
      by (auto simp: examine_def)
  next
    case (Exact m)
    let ?w2 = "resolve_gap (yl_key y) (w1\<lparr>wk_last_examined := Some (yl_key y)\<rparr>)"
    have less: "scan_left ?w2 < scan_left w" using charge Exact scan_charge_scan(1) [of clk w m w1] by simp
    have "examine L clk y n w \<in> {?w2} \<union> range (\<lambda>c. ?w2\<lparr>wk_counting := c\<rparr>) \<union> {include_record L clk y n ?w2}"
      using False charge Exact by (auto simp: examine_def Let_def split: option.splits)
    then show ?thesis using less include_record_scan [of L clk y n ?w2] by auto
  qed
qed

lemma examine_batch_scan:
  "scan_left (examine_batch L clk ys w) \<le> scan_left w \<and>
   (ys \<noteq> [] \<longrightarrow> wk_stopped (examine_batch L clk ys w) = None \<longrightarrow>
      scan_left (examine_batch L clk ys w) < scan_left w)"
proof (induction ys arbitrary: w)
  case (Cons y ys)
  let ?w1 = "examine L clk y (sat_u64 (length ys)) w"
  show ?case using examine_scan [of L clk y "sat_u64 (length ys)" w] Cons.IH [of ?w1]
    by (auto simp: Let_def)
qed simp

text \<open>What an iteration of \<open>run\<close> uses up: an examined record, or one of the empty pages left.\<close>

definition page_fuel :: "page_walk \<times> nat \<Rightarrow> nat" where
  "page_fuel we =
     (if wk_stopped (fst we) \<noteq> None then 0
      else 1 + (1 + EMPTY_PAGE_STALL_LIMIT) * scan_left (fst we) + (EMPTY_PAGE_STALL_LIMIT - snd we))"

lemma loop_step_fuel:
  assumes "wk_stopped w = None"
  shows "page_fuel (loop_step L clk S (w, e)) < page_fuel (w, e)"
proof -
  obtain batch cur where pull: "pull S w = (batch, cur)" by fastforce
  show ?thesis
  proof (cases "batch = []")
    case True
    with pull assms show ?thesis
      by (auto simp: loop_step_def Let_def page_fuel_def EMPTY_PAGE_STALL_LIMIT_def split: option.splits)
  next
    case False
    let ?w2 = "examine_batch L clk batch (w\<lparr>wk_frontier := or_else cur (Some (yl_key (List.last batch)))\<rparr>)"
    have "wk_stopped ?w2 = None \<Longrightarrow> scan_left ?w2 < scan_left w"
      using examine_batch_scan [of L clk batch "w\<lparr>wk_frontier := or_else cur (Some (yl_key (List.last batch)))\<rparr>"]
        False by simp
    with pull assms False show ?thesis
      by (auto simp: loop_step_def Let_def page_fuel_def EMPTY_PAGE_STALL_LIMIT_def split: option.splits)
  qed
qed

function run_loop ::
  "layout \<Rightarrow> (nat \<Rightarrow> nat) \<Rightarrow> query_store \<Rightarrow> page_walk \<times> nat \<Rightarrow> page_walk" where
  "run_loop L clk S we =
     (if wk_stopped (fst we) \<noteq> None then fst we else run_loop L clk S (loop_step L clk S we))"
  by pat_completeness auto

termination
  by (relation "measure (\<lambda>(L, clk, S, we). page_fuel we)") (auto intro: loop_step_fuel)

declare run_loop.simps [simp del]

definition run :: "layout \<Rightarrow> (nat \<Rightarrow> nat) \<Rightarrow> query_store \<Rightarrow> page_walk \<Rightarrow> page_walk" where
  "run L clk S w = run_loop L clk S (w, 0)"

lemma run_loop_iterates:
  "\<exists>n \<le> page_fuel we. wk_stopped (fst ((loop_step L clk S ^^ n) we)) \<noteq> None \<and>
     run_loop L clk S we = fst ((loop_step L clk S ^^ n) we)"
proof (induction L clk S we rule: run_loop.induct)
  case (1 L clk S we)
  show ?case
  proof (cases "wk_stopped (fst we) = None")
    case True
    obtain w e where we: "we = (w, e)" by fastforce
    obtain n where n: "n \<le> page_fuel (loop_step L clk S we)"
      "wk_stopped (fst ((loop_step L clk S ^^ n) (loop_step L clk S we))) \<noteq> None"
      "run_loop L clk S (loop_step L clk S we) = fst ((loop_step L clk S ^^ n) (loop_step L clk S we))"
      using 1 [OF ] True by auto
    have "Suc n \<le> page_fuel we" using n(1) loop_step_fuel [of w L clk S e] True we by simp
    moreover have "(loop_step L clk S ^^ Suc n) we = (loop_step L clk S ^^ n) (loop_step L clk S we)"
      by (simp add: funpow_swap1)
    ultimately show ?thesis using n True run_loop.simps [of L clk S we] by (intro exI [of _ "Suc n"]) simp
  next
    case False
    then show ?thesis using run_loop.simps [of L clk S we] by (intro exI [of _ 0]) simp
  qed
qed

lemma run_stopped: "wk_stopped (run L clk S w) \<noteq> None"
  using run_loop_iterates [of "(w, 0)" L clk S] by (auto simp: run_def)

section \<open>The entries\<close>

definition anchor_is_resident :: "query_store \<Rightarrow> signal_kind \<Rightarrow> entity_id \<Rightarrow> bool" where
  "anchor_is_resident S k anchor =
     (case k of
        Spans \<Rightarrow> qs_span S anchor \<noteq> None
      | LogRecords \<Rightarrow> qs_log_record S anchor \<noteq> None
      | MetricPoints \<Rightarrow> qs_metric_point S anchor \<noteq> None)"

text \<open>The key a presented cursor's anchor reconstructs to.\<close>

definition resume_key :: "cursor_payload \<Rightarrow> admission_key" where
  "resume_key p = AdmissionKey (AdmissionTime (cp_position p)) (cp_last_entity p)"

definition start_walk ::
  "query_store \<Rightarrow> records_query \<Rightarrow> budget_session \<Rightarrow> cursor_payload option \<Rightarrow> nat \<Rightarrow> page_walk" where
  "start_walk S q session presented readings =
     \<lparr>wk_kind = rq_kind q, wk_fingerprint = query_fingerprint q, wk_filters = rq_filters q,
      wk_session = session, wk_snapshot_bound = map_option cp_snapshot presented,
      wk_presented = presented, wk_items = [],
      wk_coverage = (case presented of Some p \<Rightarrow> [SnapshotBoundary (cp_snapshot p)] | None \<Rightarrow> []),
      wk_after = map_option resume_key presented, wk_frontier = None,
      wk_last_included = None, wk_last_examined = None, wk_counting = None,
      wk_pending_gap =
        (case presented of
           Some p \<Rightarrow> (if anchor_is_resident S (rq_kind q) (cp_last_entity p) then None
                      else Some (cp_last_entity p))
         | None \<Rightarrow> None),
      wk_stopped = None, wk_readings = readings\<rparr>"

text \<open>The page, and the session after it.\<close>

definition walk_records ::
  "layout \<Rightarrow> (nat \<Rightarrow> nat) \<Rightarrow> query_store \<Rightarrow> records_query \<Rightarrow> budget_session \<Rightarrow>
     cursor_payload option \<Rightarrow> nat \<Rightarrow> record_view page \<times> budget_session" where
  "walk_records L clk S q session presented readings =
     (let w = run L clk S (start_walk S q session presented readings)
      in (assemble w, wk_session w))"

definition present ::
  "records_query \<Rightarrow> bytes option \<Rightarrow> snapshot_lease option \<Rightarrow> cursor_error + cursor_payload option" where
  "present q continuation lease =
     (case continuation of
        None \<Rightarrow> Inr None
      | Some bs \<Rightarrow>
          and_then (cursor_decode bs) (\<lambda>payload.
            and_then (cursor_verify (query_fingerprint q) payload) (\<lambda>_.
              and_then (case lease of Some l \<Rightarrow> verify_lease l payload | None \<Rightarrow> Inr ()) (\<lambda>_.
                Inr (Some payload)))))"

text \<open>A zero results ceiling is answered without a walk.\<close>

definition empty_answer ::
  "query_store \<Rightarrow> records_query \<Rightarrow> cursor_payload option \<Rightarrow> record_view page" where
  "empty_answer S q presented =
     \<lparr>page_items = [], page_next_cursor = None,
      page_execution = \<lparr>ex_parts = [Complete],
        ex_coverage =
          (case presented of
             Some p \<Rightarrow> SnapshotBoundary (cp_snapshot p) #
               (if anchor_is_resident S (rq_kind q) (cp_last_entity p) then []
                else [EvictionGap (cp_last_entity p) (key_entity (cp_snapshot p))])
           | None \<Rightarrow> [])\<rparr>\<rparr>"

definition records_inner ::
  "layout \<Rightarrow> (nat \<Rightarrow> nat) \<Rightarrow> query_store \<Rightarrow> records_query \<Rightarrow> query_budget \<Rightarrow> bytes option \<Rightarrow>
     snapshot_lease option \<Rightarrow> query_error + record_view page" where
  "records_inner L clk S q budget continuation lease =
     and_then (map_err CursorRejected (present q continuation lease)) (\<lambda>presented.
       let session = admit budget (clk 0)
       in if remaining_results (bs_ledger session) = 0 then Inr (empty_answer S q presented)
          else Inr (fst (walk_records L clk S q session presented 1)))"

definition records ::
  "layout \<Rightarrow> (nat \<Rightarrow> nat) \<Rightarrow> query_store \<Rightarrow> records_query \<Rightarrow> query_budget \<Rightarrow> bytes option \<Rightarrow>
     query_error + record_view page" where
  "records L clk S q budget continuation = records_inner L clk S q budget continuation None"

definition records_leased ::
  "layout \<Rightarrow> (nat \<Rightarrow> nat) \<Rightarrow> query_store \<Rightarrow> records_query \<Rightarrow> query_budget \<Rightarrow> bytes \<Rightarrow>
     snapshot_lease \<Rightarrow> query_error + record_view page" where
  "records_leased L clk S q budget continuation lease =
     records_inner L clk S q budget (Some continuation) (Some lease)"

end
