(* ===== verification/Query_Laws.thy ===== *)
theory Query_Laws
  imports Query_Engine
begin

text \<open>
  What every page keeps, for every driver: the locale \<open>walk_invariant\<close> carries a predicate
  through a walk once its examination, its stops and its page boundaries keep it. Two
  interpretations: the budget's ceilings, and the validity of the cursors a walk mints.
\<close>

section \<open>Invariants of a walk\<close>

definition pulled_frontier :: "yielded list \<times> admission_key option \<Rightarrow> admission_key option" where
  "pulled_frontier p = or_else (snd p) (if fst p = [] then None else Some (yl_key (List.last (fst p))))"

lemma loop_step_alt:
  "loop_step L clk S (w, e) =
     (let p = pull S w; w1 = w\<lparr>wk_frontier := pulled_frontier p\<rparr>
      in if fst p = []
         then (case snd p of
                 Some cursor \<Rightarrow>
                   (if EMPTY_PAGE_STALL_LIMIT \<le> e + 1
                    then (w1\<lparr>wk_coverage := wk_coverage w1 @
                              [DriverStall (case wk_last_examined w1 of
                                 Some key \<Rightarrow> key_entity key | None \<Rightarrow> key_entity cursor)],
                             wk_stopped := Some Stalled\<rparr>, e + 1)
                    else (w1\<lparr>wk_after := Some cursor\<rparr>, e + 1))
               | None \<Rightarrow> (finish_counting_or_complete w1, e))
         else (let w2 = examine_batch L clk (fst p) w1
               in if wk_stopped w2 = None
                  then (case snd p of
                          Some next \<Rightarrow> (w2\<lparr>wk_after := Some next\<rparr>, 0)
                        | None \<Rightarrow> (finish_counting_or_complete w2, 0))
                  else (w2, 0)))"
  by (cases "pull S w") (simp add: loop_step_def pulled_frontier_def Let_def split: option.split)

locale walk_invariant =
  fixes L :: layout and clk :: "nat \<Rightarrow> nat" and S :: query_store
    and holds :: "page_walk \<Rightarrow> bool" and fit :: "yielded \<Rightarrow> bool"
  assumes driver: "y \<in> set (fst (pull_kind S k after)) \<Longrightarrow> fit y"
    and examined: "holds w \<Longrightarrow> fit y \<Longrightarrow> wk_stopped w = None \<Longrightarrow> holds (examine L clk y n w)"
    and finished: "holds w \<Longrightarrow> wk_stopped w = None \<Longrightarrow> holds (finish_counting_or_complete w)"
    and fetched: "holds w \<Longrightarrow> holds (w\<lparr>wk_frontier := pulled_frontier (pull S w)\<rparr>)"
    and advanced: "holds w \<Longrightarrow> holds (w\<lparr>wk_after := a\<rparr>)"
    and stalled: "holds w \<Longrightarrow> holds (w\<lparr>wk_coverage := wk_coverage w @ [c], wk_stopped := Some Stalled\<rparr>)"
begin

lemma examined_batch:
  "holds w \<Longrightarrow> wk_stopped w = None \<Longrightarrow> (\<And>y. y \<in> set ys \<Longrightarrow> fit y) \<Longrightarrow>
     holds (examine_batch L clk ys w)"
  by (induction ys arbitrary: w) (auto simp: Let_def examined)

lemma stepped:
  assumes "holds w" "wk_stopped w = None"
  shows "holds (fst (loop_step L clk S (w, e)))"
proof -
  let ?w1 = "w\<lparr>wk_frontier := pulled_frontier (pull S w)\<rparr>"
  have w1: "holds ?w1" "wk_stopped ?w1 = None" using assms fetched by simp_all
  have batch: "holds (examine_batch L clk (fst (pull S w)) ?w1)"
    using examined_batch [OF w1] driver by (simp add: pull_def)
  have "holds (?w1\<lparr>wk_coverage := wk_coverage w @ [c], wk_stopped := Some Stalled\<rparr>)" for c
    using stalled [OF w1(1), of c] by simp
  then show ?thesis
    using w1 batch advanced finished
    by (simp add: loop_step_alt Let_def split: option.splits)
qed

lemma run_loop_holds: "holds (fst we) \<Longrightarrow> holds (run_loop L clk S we)"
proof (induction "page_fuel we" arbitrary: we rule: less_induct)
  case less
  show ?case
  proof (cases "wk_stopped (fst we) = None")
    case True
    obtain w e where we: "we = (w, e)" by fastforce
    have "page_fuel (loop_step L clk S we) < page_fuel we" using loop_step_fuel True we by simp
    moreover have "holds (fst (loop_step L clk S we))" using stepped less.prems True we by simp
    ultimately show ?thesis using less.hyps True by (subst run_loop.simps) simp
  next
    case False
    with less.prems show ?thesis by (subst run_loop.simps) simp
  qed
qed

lemma run_holds: "holds w \<Longrightarrow> holds (run L clk S w)"
  by (simp add: run_def run_loop_holds)

end

section \<open>The ceilings\<close>

abbreviation results_left :: "page_walk \<Rightarrow> nat" where
  "results_left w \<equiv> remaining_results (bs_ledger (wk_session w))"

abbreviation bytes_left :: "page_walk \<Rightarrow> nat" where
  "bytes_left w \<equiv> remaining_bytes (bs_ledger (wk_session w))"

definition evidence_total :: "layout \<Rightarrow> record_view list \<Rightarrow> nat" where
  "evidence_total L vs = sum_list (map (evidence_of L) vs)"

text \<open>The items of a page against a budget: counted, weighed, scanned, and of the query.\<close>

definition within_ceilings ::
  "layout \<Rightarrow> nat \<Rightarrow> nat \<Rightarrow> nat \<Rightarrow> records_filters \<Rightarrow> page_walk \<Rightarrow> bool" where
  "within_ceilings L R B C fs w \<longleftrightarrow>
     wk_filters w = fs \<and> list_all (records_match fs) (wk_items w) \<and>
     length (wk_items w) + results_left w \<le> R \<and>
     evidence_total L (wk_items w) + bytes_left w \<le> B \<and>
     length (wk_items w) + scan_left w \<le> C"

lemma stop_fields [simp]:
  "wk_items (finish_counting_or_complete w) = wk_items w"
  "wk_filters (finish_counting_or_complete w) = wk_filters w"
  "wk_session (finish_counting_or_complete w) = wk_session w"
  "wk_items (stop_before_examining r w) = wk_items w"
  "wk_filters (stop_before_examining r w) = wk_filters w"
  "wk_session (stop_before_examining r w) = wk_session w"
  "wk_items (settle n w) = wk_items w" "wk_filters (settle n w) = wk_filters w"
  "results_left (settle n w) = results_left w" "bytes_left (settle n w) = bytes_left w"
  "wk_items (resolve_gap k w) = wk_items w"
  by (auto simp: finish_counting_or_complete_def stop_before_examining_def settle_def resolve_gap_def
      Let_def split: option.splits)

text \<open>The ways an examination can end, each with what it charged.\<close>

definition spent_to :: "page_walk \<Rightarrow> budget_session \<Rightarrow> bool" where
  "spent_to w s \<longleftrightarrow>
     remaining_results (bs_ledger s) \<le> results_left w \<and> remaining_bytes (bs_ledger s) \<le> bytes_left w \<and>
     remaining_scan (bs_ledger s) \<le> scan_left w"

lemma results_charge_spent:
  assumes "allow_results now n (wk_session w) = (t, s)"
  shows "spent_to w s" "remaining_bytes (bs_ledger s) = bytes_left w" "remaining_scan (bs_ledger s) = scan_left w"
  using results_charge.never_grows [OF assms] results_charge.untouched [OF assms]
  by (simp_all add: spent_to_def remaining_bytes_def remaining_scan_def)

lemma bytes_charge_spent:
  assumes "allow_bytes now n s0 = (t, s)"
  shows "remaining_bytes (bs_ledger s) \<le> remaining_bytes (bs_ledger s0)"
    "remaining_results (bs_ledger s) = remaining_results (bs_ledger s0)"
    "remaining_scan (bs_ledger s) = remaining_scan (bs_ledger s0)"
  using bytes_charge.never_grows [OF assms] bytes_charge.untouched [OF assms]
  by (simp_all add: remaining_results_def remaining_scan_def)

lemma scan_charge_spent:
  assumes "allow_scan now n s0 = (t, s)"
  shows "remaining_scan (bs_ledger s) \<le> remaining_scan (bs_ledger s0)"
    "remaining_results (bs_ledger s) = remaining_results (bs_ledger s0)"
    "remaining_bytes (bs_ledger s) = remaining_bytes (bs_ledger s0)"
  using scan_charge.never_grows [OF assms] scan_charge.untouched [OF assms]
  by (simp_all add: remaining_results_def remaining_bytes_def)

lemma degrade_reads:
  "include_anchored_degrade (w\<lparr>wk_session := s\<rparr>) d k e = include_anchored_degrade w d k e"
  "include_anchored_degrade (w\<lparr>wk_readings := n\<rparr>) d k e = include_anchored_degrade w d k e"
  by (simp_all add: include_anchored_degrade_def cursor_bytes_def presented_echo_def split: option.split)

lemma include_record_cases:
  obtains (stop) s n d where "spent_to w s"
      "include_record L clk y m w =
         w\<lparr>wk_session := s, wk_readings := n,
           wk_stopped := Some (include_anchored_degrade w d 0 (key_entity (yl_key y)))\<rparr>"
  | (wall) s n where "spent_to w s"
      "include_record L clk y m w =
         w\<lparr>wk_session := s, wk_readings := n,
           wk_counting := Some \<lparr>ct_omitted = 1, ct_last = yl_key y\<rparr>\<rparr>"
  | (kept) s n where
      "results_left w = remaining_results (bs_ledger s) + 1"
      "bytes_left w = remaining_bytes (bs_ledger s) + evidence_of L (yl_record y)"
      "scan_left w = remaining_scan (bs_ledger s)"
      "include_record L clk y m w =
         w\<lparr>wk_session := s, wk_readings := n, wk_items := wk_items w @ [yl_record y],
           wk_last_included := Some (yl_key y)\<rparr>"
proof (cases "results_left w = 0")
  case True
  show thesis
    by (rule stop [where s = "settle_abandoned_scan m (wk_session w)" and n = "wk_readings w" and d = Results])
      (simp_all add: spent_to_def include_record_def True settle_def Let_def degrade_reads)
next
  case False
  note results = False
  obtain t s1 where r: "allow_results (clk (wk_readings w)) 1 (wk_session w) = (t, s1)" by fastforce
  note sp = results_charge_spent [OF r]
  show thesis
  proof (cases t)
    case (Partial x refusal)
    show thesis
      by (rule stop [where s = "settle_abandoned_scan m s1" and n = "wk_readings w + 1" and d = "br_dimension refusal"])
        (use sp results r Partial in \<open>simp_all add: spent_to_def include_record_def charge_walk_def
            settle_def Let_def degrade_reads\<close>)
  next
    case (Exact x)
    note ex = results_charge.in_full [OF r [unfolded Exact]]
    define ev where "ev = evidence_of L (yl_record y)"
    show thesis
    proof (cases "remaining_bytes (bs_ledger s1) < ev")
      case True
      show thesis
        by (rule wall [where s = s1 and n = "wk_readings w + 1"])
          (use sp results r Exact True in \<open>simp_all add: include_record_def charge_walk_def Let_def ev_def\<close>)
    next
      case False
      obtain u s2 where b: "allow_bytes (clk (wk_readings w + 1)) ev s1 = (u, s2)" by fastforce
      note bp = bytes_charge_spent [OF b]
      show thesis
      proof (cases u)
        case (Partial x' refusal)
        show thesis
          by (rule stop [where s = "settle_abandoned_scan m s2" and n = "wk_readings w + 2" and d = "br_dimension refusal"])
            (use sp bp results r Exact False b Partial ex in \<open>simp_all add: spent_to_def include_record_def
              charge_walk_def settle_def Let_def degrade_reads ev_def\<close>)
      next
        case (Exact x')
        note ex2 = bytes_charge.in_full [OF b [unfolded Exact]]
        show thesis
          by (rule kept [where s = s2 and n = "wk_readings w + 2"])
            (use sp bp results r \<open>t = Exact x\<close> False b Exact ex ex2 in \<open>simp_all add: include_record_def
              charge_walk_def Let_def ev_def\<close>)
      qed
    qed
  qed
qed

text \<open>The walk of a record the scan charge admitted.\<close>

definition seen :: "admission_key \<Rightarrow> budget_session \<Rightarrow> nat \<Rightarrow> page_walk \<Rightarrow> page_walk" where
  "seen key s n w =
     resolve_gap key (w\<lparr>wk_session := s, wk_readings := n, wk_last_examined := Some key\<rparr>)"

lemma seen_fields [simp]:
  "wk_kind (seen key s n w) = wk_kind w" "wk_fingerprint (seen key s n w) = wk_fingerprint w"
  "wk_filters (seen key s n w) = wk_filters w" "wk_session (seen key s n w) = s"
  "wk_snapshot_bound (seen key s n w) = wk_snapshot_bound w"
  "wk_presented (seen key s n w) = wk_presented w" "wk_items (seen key s n w) = wk_items w"
  "wk_after (seen key s n w) = wk_after w" "wk_frontier (seen key s n w) = wk_frontier w"
  "wk_last_included (seen key s n w) = wk_last_included w"
  "wk_last_examined (seen key s n w) = Some key" "wk_counting (seen key s n w) = wk_counting w"
  "wk_pending_gap (seen key s n w) = None" "wk_stopped (seen key s n w) = wk_stopped w"
  "wk_coverage (seen key s n w) = wk_coverage w @
     (case wk_pending_gap w of Some a \<Rightarrow> [EvictionGap a (key_entity key)] | None \<Rightarrow> [])"
  by (auto simp: seen_def resolve_gap_def split: option.splits)

lemma examine_cases:
  obtains (past) s where "past_bound w (yl_key y)" "spent_to w s"
      "examine L clk y m w = finish_counting_or_complete (w\<lparr>wk_session := s\<rparr>)"
  | (refused) s n r where "\<not> past_bound w (yl_key y)" "spent_to w s"
      "examine L clk y m w = stop_before_examining r (w\<lparr>wk_readings := n, wk_session := s\<rparr>)"
  | (skipped) s n where "\<not> past_bound w (yl_key y)" "spent_to w s" "scan_left w = remaining_scan (bs_ledger s) + 1"
      "\<not> records_match (wk_filters w) (yl_record y)"
      "examine L clk y m w = seen (yl_key y) s n w"
  | (counted) s n c where "\<not> past_bound w (yl_key y)" "spent_to w s" "scan_left w = remaining_scan (bs_ledger s) + 1"
      "records_match (wk_filters w) (yl_record y)" "wk_counting w = Some c"
      "examine L clk y m w =
         (seen (yl_key y) s n w)\<lparr>wk_counting := Some \<lparr>ct_omitted = ct_omitted c + 1, ct_last = yl_key y\<rparr>\<rparr>"
  | (offered) s n where "\<not> past_bound w (yl_key y)" "spent_to w s" "scan_left w = remaining_scan (bs_ledger s) + 1"
      "records_match (wk_filters w) (yl_record y)" "wk_counting w = None"
      "remaining_results (bs_ledger s) = results_left w" "remaining_bytes (bs_ledger s) = bytes_left w"
      "examine L clk y m w = include_record L clk y m (seen (yl_key y) s n w)"
proof (cases "past_bound w (yl_key y)")
  case True
  then show thesis
    by (intro past [where s = "settle_abandoned_scan (m + 1) (wk_session w)"])
      (simp_all add: spent_to_def examine_def settle_def)
next
  case False
  obtain t s1 where c: "allow_scan (clk (wk_readings w)) 1 (wk_session w) = (t, s1)" by fastforce
  note sp = scan_charge_spent [OF c]
  show thesis
  proof (cases t)
    case (Partial x refusal)
    show thesis
      by (rule refused [where s = "settle_abandoned_scan (m + 1) s1" and n = "wk_readings w + 1" and r = refusal])
        (use False sp c Partial in \<open>simp_all add: spent_to_def examine_def charge_walk_def settle_def\<close>)
  next
    case (Exact x)
    note ex = scan_charge.in_full [OF c [unfolded Exact]]
    have s1: "spent_to w s1" using sp by (simp add: spent_to_def)
    have step: "examine L clk y m w =
      (let w2 = seen (yl_key y) s1 (wk_readings w + 1) w
       in if \<not> records_match (wk_filters w) (yl_record y) then w2
          else case wk_counting w of
            Some c \<Rightarrow> w2\<lparr>wk_counting := Some \<lparr>ct_omitted = ct_omitted c + 1, ct_last = yl_key y\<rparr>\<rparr>
          | None \<Rightarrow> include_record L clk y m w2)"
      using False c Exact by (simp add: examine_def charge_walk_def seen_def Let_def)
    show thesis
    proof (cases "records_match (wk_filters w) (yl_record y)")
      case False
      with step s1 ex \<open>\<not> past_bound w (yl_key y)\<close> show thesis by (intro skipped) (simp_all add: Let_def)
    next
      case True
      show thesis
      proof (cases "wk_counting w")
        case None
        with step s1 ex sp True \<open>\<not> past_bound w (yl_key y)\<close> show thesis
          by (intro offered [where s = s1]) (simp_all add: Let_def)
      next
        case (Some a)
        with step s1 ex True \<open>\<not> past_bound w (yl_key y)\<close> show thesis
          by (intro counted [where s = s1]) (simp_all add: Let_def)
      qed
    qed
  qed
qed

lemma within_examine:
  assumes "within_ceilings L R B C fs w"
  shows "within_ceilings L R B C fs (examine L clk y m w)"
proof (cases rule: examine_cases [of w y L clk m])
  case (offered s n)
  let ?w = "seen (yl_key y) s n w"
  show ?thesis
  proof (cases rule: include_record_cases [of ?w L clk y m])
    case (kept s' n')
    with offered assms show ?thesis
      by (simp add: within_ceilings_def evidence_total_def spent_to_def)
  qed (use assms offered in \<open>simp_all add: within_ceilings_def spent_to_def\<close>)
qed (use assms in \<open>simp_all add: within_ceilings_def spent_to_def\<close>)

interpretation ceilings: walk_invariant L clk S "within_ceilings L R B C fs" "\<lambda>_. True"
  for L clk S R B C fs
  by unfold_locales (simp_all add: within_examine, simp_all add: within_ceilings_def)

lemma walk_within_ceilings:
  assumes "remaining_results (bs_ledger s) \<le> R" "remaining_bytes (bs_ledger s) \<le> B"
    "remaining_scan (bs_ledger s) \<le> C"
  shows "within_ceilings L R B C (rq_filters q) (run L clk S (start_walk S q s p n))"
  using assms by (intro ceilings.run_holds) (simp add: start_walk_def within_ceilings_def evidence_total_def)

lemma records_inner_Inr:
  "records_inner L clk S q budget continuation lease = Inr page \<longleftrightarrow>
     (\<exists>presented. present q continuation lease = Inr presented \<and>
        page = (if qb_max_results budget = 0 then empty_answer S q presented
                else assemble (run L clk S (start_walk S q (admit budget (clk 0)) presented 1))))"
  by (auto simp: records_inner_def and_then_Inr_iff walk_records_def Let_def)

section \<open>What a page's coverage names\<close>

definition names_gap :: "admission_key \<Rightarrow> entity_id \<Rightarrow> page_walk \<Rightarrow> bool" where
  "names_gap snap a w \<longleftrightarrow>
     SnapshotBoundary snap \<in> set (wk_coverage w) \<and>
     (wk_pending_gap w = Some a \<or> (\<exists>b. EvictionGap a b \<in> set (wk_coverage w)))"

lemma names_gap_stops:
  assumes "names_gap snap a w"
  shows "names_gap snap a (finish_counting_or_complete w)" "names_gap snap a (stop_before_examining r w)"
  using assms by (auto simp: names_gap_def finish_counting_or_complete_def stop_before_examining_def
      Let_def split: option.splits)

lemma names_gap_update [simp]:
  "names_gap snap a (w\<lparr>wk_session := s\<rparr>) = names_gap snap a w"
  "names_gap snap a (w\<lparr>wk_readings := n\<rparr>) = names_gap snap a w"
  "names_gap snap a (w\<lparr>wk_counting := c\<rparr>) = names_gap snap a w"
  "names_gap snap a (w\<lparr>wk_items := vs\<rparr>) = names_gap snap a w"
  "names_gap snap a (w\<lparr>wk_last_included := k\<rparr>) = names_gap snap a w"
  "names_gap snap a (w\<lparr>wk_stopped := p\<rparr>) = names_gap snap a w"
  "names_gap snap a (w\<lparr>wk_after := k\<rparr>) = names_gap snap a w"
  "names_gap snap a (w\<lparr>wk_frontier := k\<rparr>) = names_gap snap a w"
  by (simp_all add: names_gap_def)

lemma names_gap_seen: "names_gap snap a w \<Longrightarrow> names_gap snap a (seen k s n w)"
  by (auto simp: names_gap_def split: option.splits)

lemma names_gap_examine:
  assumes "names_gap snap a w"
  shows "names_gap snap a (examine L clk y m w)"
proof (cases rule: examine_cases [of w y L clk m])
  case (offered s n)
  let ?w = "seen (yl_key y) s n w"
  show ?thesis
    unfolding offered
    by (cases rule: include_record_cases [of ?w L clk y m]) (use assms in \<open>simp_all add: names_gap_seen\<close>)
qed (use assms in \<open>simp_all add: names_gap_stops names_gap_seen\<close>)

interpretation gaps: walk_invariant L clk S "names_gap snap a" "\<lambda>_. True" for L clk S snap a
proof
  fix w c assume "names_gap snap a w"
  then show "names_gap snap a (w\<lparr>wk_coverage := wk_coverage w @ [c], wk_stopped := Some Stalled\<rparr>)"
    by (auto simp: names_gap_def)
qed (simp_all add: names_gap_examine names_gap_stops)

section \<open>The cursors a walk mints\<close>

definition wf_key :: "admission_key \<Rightarrow> bool" where
  "wf_key k \<longleftrightarrow> wf_entity (key_entity k)"

text \<open>A driver whose keys carry ids of their width and nonzero serials.\<close>

definition keys_fit :: "query_store \<Rightarrow> bool" where
  "keys_fit S \<longleftrightarrow>
     (\<forall>k after. list_all (\<lambda>y. wf_key (yl_key y)) (fst (pull_kind S k after)) \<and>
        pred_option wf_key (snd (pull_kind S k after)))"

definition continues :: "u64 \<Rightarrow> cursor_payload option \<Rightarrow> bytes \<Rightarrow> bool" where
  "continues fp presented bs \<longleftrightarrow>
     (\<exists>p. cursor_decode bs = Inr p \<and> cp_fingerprint p = fp \<and>
        pred_option (\<lambda>p0. cp_snapshot p = cp_snapshot p0) presented)"

fun valid_position :: "u64 \<Rightarrow> cursor_payload option \<Rightarrow> truncation_point \<Rightarrow> bool" where
  "valid_position fp presented (CursorAt bs) \<longleftrightarrow> continues fp presented bs"
| "valid_position fp presented (LastExamined e) \<longleftrightarrow> True"

fun valid_stop :: "u64 \<Rightarrow> cursor_payload option \<Rightarrow> part_outcome \<Rightarrow> bool" where
  "valid_stop fp presented (Degraded t) \<longleftrightarrow> valid_position fp presented (tr_position t)"
| "valid_stop fp presented _ \<longleftrightarrow> True"

definition mints :: "u64 \<Rightarrow> cursor_payload option \<Rightarrow> page_walk \<Rightarrow> bool" where
  "mints fp presented w \<longleftrightarrow>
     wk_fingerprint w = fp \<and> wk_presented w = presented \<and>
     wk_snapshot_bound w = map_option cp_snapshot presented \<and>
     pred_option (\<lambda>p. wf_cursor p \<and> cp_fingerprint p = fp) presented \<and>
     pred_option wf_key (wk_frontier w) \<and> pred_option wf_key (wk_last_included w) \<and>
     pred_option wf_key (wk_last_examined w) \<and>
     pred_option (\<lambda>c. wf_key (ct_last c)) (wk_counting w) \<and>
     pred_option (valid_stop fp presented) (wk_stopped w)"

lemma cursor_decode_encode: "wf_cursor p \<Longrightarrow> cursor_decode (cursor_encode p) = Inr p"
  by (simp add: cursor_decode_def cursor_parse_encode)

lemma minted_continues:
  assumes "mints fp presented w" "wf_key anchor"
  shows "continues fp presented (cursor_bytes w anchor)"
proof -
  let ?snap = "case or_else (wk_snapshot_bound w) (wk_frontier w) of Some k \<Rightarrow> k | None \<Rightarrow> anchor"
  have snap: "wf_key ?snap" "pred_option (\<lambda>p0. ?snap = cp_snapshot p0) presented"
    using assms by (auto simp: mints_def or_else_def wf_cursor_def wf_key_def
        split: option.splits)
  let ?p = "\<lparr>cp_position = as_unix_nano (key_time anchor), cp_last_entity = key_entity anchor,
    cp_fingerprint = fp, cp_snapshot = ?snap\<rparr>"
  have "cursor_bytes w anchor = cursor_encode ?p"
    using assms by (simp add: cursor_bytes_def mints_def Let_def)
  moreover have "wf_cursor ?p" using assms snap by (simp add: wf_cursor_def wf_key_def)
  ultimately show ?thesis using snap by (auto simp: continues_def cursor_decode_encode)
qed

lemma mints_degrade:
  assumes "mints fp presented w"
  shows "valid_stop fp presented (include_anchored_degrade w d n e)"
    "wf_key k \<Longrightarrow> valid_stop fp presented (counting_degrade w n k)"
    "wf_key k \<Longrightarrow> valid_position fp presented (CursorAt (cursor_bytes w k))"
proof -
  have "continues fp presented (cursor_encode p)" if "presented = Some p" for p
    using assms that by (auto simp: mints_def continues_def cursor_decode_encode)
  moreover have "wk_presented w = presented" "pred_option wf_key (wk_last_included w)"
    using assms by (simp_all add: mints_def)
  ultimately show "valid_stop fp presented (include_anchored_degrade w d n e)"
    using minted_continues [OF assms]
    by (auto simp: include_anchored_degrade_def presented_echo_def Let_def split: option.splits)
qed (use minted_continues [OF assms] in \<open>simp_all add: counting_degrade_def\<close>)

lemma mints_update:
  assumes "mints fp presented w"
  shows "mints fp presented (w\<lparr>wk_session := s\<rparr>)" "mints fp presented (w\<lparr>wk_readings := n\<rparr>)"
    "mints fp presented (w\<lparr>wk_after := a\<rparr>)" "mints fp presented (w\<lparr>wk_coverage := c\<rparr>)"
    "mints fp presented (w\<lparr>wk_items := vs\<rparr>)" "mints fp presented (w\<lparr>wk_counting := None\<rparr>)"
    "valid_stop fp presented p \<Longrightarrow> mints fp presented (w\<lparr>wk_stopped := Some p\<rparr>)"
    "wf_key k \<Longrightarrow> mints fp presented (w\<lparr>wk_last_included := Some k\<rparr>)"
    "wf_key (ct_last d) \<Longrightarrow> mints fp presented (w\<lparr>wk_counting := Some d\<rparr>)"
    "wf_key k \<Longrightarrow> mints fp presented (seen k s n w)"
    "pred_option wf_key f \<Longrightarrow> mints fp presented (w\<lparr>wk_frontier := f\<rparr>)"
  using assms by (simp_all add: mints_def)

lemma mints_finish:
  assumes "mints fp presented w"
  shows "mints fp presented (finish_counting_or_complete w)"
proof (cases "wk_counting w")
  case (Some c)
  with assms have "wf_key (ct_last c)" by (simp add: mints_def)
  with Some assms show ?thesis
    by (simp add: finish_counting_or_complete_def Let_def mints_update mints_degrade)
qed (use assms in \<open>simp add: finish_counting_or_complete_def mints_update\<close>)

lemma mints_stop_before:
  assumes "mints fp presented w"
  shows "mints fp presented (stop_before_examining r w)"
proof (cases "wk_counting w")
  case (Some c)
  with assms have "wf_key (ct_last c)" by (simp add: mints_def)
  moreover have "mints fp presented (w\<lparr>wk_counting := None, wk_coverage := cov\<rparr>)" for cov
    using assms by (simp add: mints_update)
  ultimately show ?thesis using Some
    by (simp add: stop_before_examining_def Let_def mints_update mints_degrade)
next
  case None
  have "pred_option wf_key (wk_last_examined w)" using assms by (simp add: mints_def)
  with None assms show ?thesis
    by (auto simp: stop_before_examining_def minted_continues intro!: mints_update split: option.splits)
qed

lemma mints_examine:
  assumes "mints fp presented w" "wf_key (yl_key y)"
  shows "mints fp presented (examine L clk y m w)"
proof (cases rule: examine_cases [of w y L clk m])
  case (offered s n)
  let ?w = "seen (yl_key y) s n w"
  have w: "mints fp presented ?w" using assms by (simp add: mints_update)
  show ?thesis
    unfolding offered
    by (cases rule: include_record_cases [of ?w L clk y m])
      (use w assms in \<open>simp_all add: mints_update mints_degrade\<close>)
qed (use assms in \<open>simp_all add: mints_update mints_finish mints_stop_before\<close>)

interpretation cursors: walk_invariant L clk S
  "\<lambda>w. keys_fit S \<longrightarrow> mints fp presented w" "\<lambda>y. keys_fit S \<longrightarrow> wf_key (yl_key y)"
  for L clk S fp presented
proof
  fix w assume w: "keys_fit S \<longrightarrow> mints fp presented w"
  show "keys_fit S \<longrightarrow> mints fp presented (w\<lparr>wk_frontier := pulled_frontier (pull S w)\<rparr>)"
  proof
    assume fit: "keys_fit S"
    then have "list_all (\<lambda>y. wf_key (yl_key y)) (fst (pull S w))" "pred_option wf_key (snd (pull S w))"
      by (simp_all add: keys_fit_def pull_def)
    then have "pred_option wf_key (pulled_frontier (pull S w))"
      by (auto simp: pulled_frontier_def or_else_def list_all_iff split: option.splits)
    with w fit show "mints fp presented (w\<lparr>wk_frontier := pulled_frontier (pull S w)\<rparr>)"
      by (simp add: mints_update)
  qed
next
  fix y :: yielded and k after assume "y \<in> set (fst (pull_kind S k after))"
  then show "keys_fit S \<longrightarrow> wf_key (yl_key y)" by (auto simp: keys_fit_def list_all_iff)
qed (simp_all add: mints_examine mints_finish mints_update)

lemma present_Inr:
  "present q continuation lease = Inr presented \<longleftrightarrow>
     (case continuation of
        None \<Rightarrow> presented = None
      | Some bs \<Rightarrow> (\<exists>p. presented = Some p \<and> cursor_decode bs = Inr p \<and>
          cp_fingerprint p = query_fingerprint q \<and>
          pred_option (\<lambda>l. governs l (cp_snapshot p)) lease))"
proof (cases continuation)
  case (Some bs)
  show ?thesis
  proof (cases "cursor_decode bs")
    case (Inr p)
    with Some show ?thesis
      by (cases lease) (auto simp: present_def cursor_verify_def verify_lease_def)
  qed (simp add: Some present_def)
qed (auto simp: present_def)

lemma decode_wf: "cursor_decode bs = Inr p \<Longrightarrow> wf_cursor p"
  using cursor_parse_exact by (auto simp: cursor_decode_def split: option.splits)

lemma walk_mints:
  assumes "keys_fit S" "present q continuation lease = Inr presented"
  shows "mints (query_fingerprint q) presented (run L clk S (start_walk S q s presented n))"
proof -
  have "pred_option (\<lambda>p. wf_cursor p \<and> cp_fingerprint p = query_fingerprint q) presented"
    using assms(2) by (auto simp: present_Inr dest: decode_wf split: option.splits)
  then show ?thesis
    using assms(1) by (intro cursors.run_holds [THEN mp]) (simp_all add: mints_def start_walk_def)
qed

lemma assemble_names_gap:
  assumes "names_gap snap a w"
  shows "SnapshotBoundary snap \<in> set (ex_coverage (page_execution (assemble w))) \<and>
    (\<exists>b. EvictionGap a b \<in> set (ex_coverage (page_execution (assemble w))))"
  using assms by (auto simp: names_gap_def assemble_def Let_def split: option.splits)

lemma evicted_anchor_named:
  assumes "records_inner L clk S q b continuation lease = Inr page"
    "present q continuation lease = Inr (Some p)" "\<not> anchor_is_resident S (rq_kind q) (cp_last_entity p)"
  shows "SnapshotBoundary (cp_snapshot p) \<in> set (ex_coverage (page_execution page)) \<and>
    (\<exists>e. EvictionGap (cp_last_entity p) e \<in> set (ex_coverage (page_execution page)))"
proof (cases "qb_max_results b = 0")
  case True
  with assms show ?thesis by (auto simp: records_inner_Inr empty_answer_def)
next
  case False
  have "names_gap (cp_snapshot p) (cp_last_entity p) (start_walk S q (admit b (clk 0)) (Some p) 1)"
    using assms(3) by (simp add: names_gap_def start_walk_def)
  then have "names_gap (cp_snapshot p) (cp_last_entity p)
      (run L clk S (start_walk S q (admit b (clk 0)) (Some p) 1))"
    by (rule gaps.run_holds)
  with False assms(1,2) show ?thesis
    by (auto simp: records_inner_Inr dest!: assemble_names_gap)
qed

end
