(* ===== verification/Query_Pages.thy ===== *)
theory Query_Pages
  imports Query_Laws
begin

text \<open>
  What a page contains, over a driver that keeps the scan contract.

  The resident records past the page's start are a sorted list. \<open>accounts\<close> says that a running
  walk has looked at a prefix of it and what it made of that prefix; \<open>judged\<close> says what a
  stopped walk's outcome means in terms of the whole list. The locale \<open>engine_driver\<close> extends
  the scan contract by what the engine asks of a driver, and carries \<open>judged\<close> through the loop.
\<close>

section \<open>Answer sets\<close>

type_synonym resident_views = "(admission_key \<times> record_view) list"

definition hits :: "records_filters \<Rightarrow> resident_views \<Rightarrow> resident_views" where
  "hits fs rs = filter (\<lambda>p. records_match fs (snd p)) rs"

definition up_to :: "admission_key \<Rightarrow> resident_views \<Rightarrow> resident_views" where
  "up_to k rs = filter (\<lambda>p. fst p \<le> k) rs"

definition bounded :: "admission_key option \<Rightarrow> resident_views \<Rightarrow> resident_views" where
  "bounded b rs = (case b of None \<Rightarrow> rs | Some k \<Rightarrow> up_to k rs)"

definition last_key :: "resident_views \<Rightarrow> admission_key option" where
  "last_key rs = (if rs = [] then None else Some (fst (List.last rs)))"

lemma hits_simps [simp]:
  "hits fs [] = []" "hits fs (rs @ qs) = hits fs rs @ hits fs qs"
  "hits fs [p] = (if records_match fs (snd p) then [p] else [])"
  by (simp_all add: hits_def)

lemma last_key_simps [simp]:
  "last_key [] = None" "last_key (rs @ [p]) = Some (fst p)" "last_key rs = None \<longleftrightarrow> rs = []"
  "None = last_key rs \<longleftrightarrow> rs = []"
  by (simp_all add: last_key_def)

lemma last_key_in: "last_key rs = Some k \<Longrightarrow> \<exists>p \<in> set rs. fst p = k"
  by (auto simp: last_key_def split: if_splits intro: last_in_set)

lemma sorted_split:
  assumes "om_sorted (ds @ es)" "p \<in> set ds" "q \<in> set es"
  shows "fst p < fst q"
  using assms by (auto simp: om_sorted_def sorted_wrt_append)

lemma om_sorted_front: "om_sorted (ds @ es) \<Longrightarrow> om_sorted ds"
  by (simp add: om_sorted_def sorted_wrt_append)

lemma sorted_last:
  assumes "om_sorted ds" "p \<in> set ds" "last_key ds = Some k"
  shows "fst p \<le> k"
proof -
  from assms obtain xs x where ds: "ds = xs @ [x]" "k = fst x"
    by (metis append_butlast_last_id last_key_def option.discI option.inject)
  show ?thesis
  proof (cases "p \<in> set xs")
    case True
    with assms(1) ds sorted_split [of xs "[x]" p x] show ?thesis by simp
  qed (use assms(2) ds in simp)
qed

lemma up_to_prefix:
  assumes "om_sorted (ds @ es)" "\<forall>p \<in> set ds. fst p \<le> k" "\<forall>q \<in> set es. k < fst q"
  shows "up_to k (ds @ es) = ds"
  using assms by (auto simp: up_to_def filter_empty_conv filter_id_conv not_le)

lemma up_to_last:
  assumes "om_sorted (ds @ es)" "last_key ds = Some k"
  shows "up_to k (ds @ es) = ds"
proof (rule up_to_prefix [OF assms(1)])
  have "om_sorted ds" using assms(1) by (simp add: om_sorted_def sorted_wrt_append)
  then show "\<forall>p \<in> set ds. fst p \<le> k" using sorted_last assms(2) by blast
  show "\<forall>q \<in> set es. k < fst q" using last_key_in [OF assms(2)] sorted_split [OF assms(1)] by blast
qed

text \<open>The hits of a prefix are the hits up to the last of them.\<close>

lemma hits_up_to_last:
  assumes sorted: "om_sorted (ds @ es)" and k: "last_key (hits fs ds) = Some k"
  shows "hits fs (up_to k (ds @ es)) = hits fs ds"
proof -
  have ds: "om_sorted (hits fs ds)"
    using sorted by (auto simp: om_sorted_def hits_def sorted_wrt_append sorted_wrt_map sorted_wrt_filter)
  obtain p where p: "p \<in> set (hits fs ds)" "fst p = k" using last_key_in [OF k] by blast
  then have "p \<in> set ds" by (simp add: hits_def)
  then have "\<forall>q \<in> set es. k < fst q" using sorted_split [OF sorted] p(2) by blast
  then have "up_to k (ds @ es) = up_to k ds" by (auto simp: up_to_def filter_empty_conv not_le)
  also have "hits fs (up_to k ds) = filter (\<lambda>p. fst p \<le> k) (hits fs ds)"
    by (simp add: hits_def up_to_def conj_commute)
  also have "\<dots> = hits fs ds" using sorted_last [OF ds _ k] by (simp add: filter_id_conv)
  finally show ?thesis .
qed

section \<open>A running walk\<close>

definition accounts ::
  "records_filters \<Rightarrow> cursor_payload option \<Rightarrow> resident_views \<Rightarrow> page_walk \<Rightarrow> bool" where
  "accounts fs presented ds w \<longleftrightarrow>
     wk_stopped w = None \<and> wk_filters w = fs \<and> wk_presented w = presented \<and>
     wk_snapshot_bound w = map_option cp_snapshot presented \<and>
     list_all (\<lambda>p. \<not> past_bound w (fst p)) ds \<and> wk_last_examined w = last_key ds \<and>
     (case wk_counting w of
        None \<Rightarrow> wk_items w = map snd (hits fs ds) \<and> wk_last_included w = last_key (hits fs ds)
      | Some c \<Rightarrow> wk_items w = map snd (take (length (wk_items w)) (hits fs ds)) \<and>
          ct_omitted c + length (wk_items w) = length (hits fs ds) \<and>
          last_key (hits fs ds) = Some (ct_last c))"

lemma accounts_fields:
  assumes "accounts fs presented ds w"
  shows "wk_stopped w = None" "wk_filters w = fs" "wk_presented w = presented"
    "wk_snapshot_bound w = map_option cp_snapshot presented"
    "p \<in> set ds \<Longrightarrow> \<not> past_bound w (fst p)" "wk_last_examined w = last_key ds"
    "wk_counting w = None \<Longrightarrow> wk_items w = map snd (hits fs ds)"
    "wk_counting w = None \<Longrightarrow> wk_last_included w = last_key (hits fs ds)"
  using assms by (simp_all add: accounts_def list_all_iff)

section \<open>A stopped walk\<close>

text \<open>The payload of a cursor a page may carry: the presented one again, or one of a record the
  page looked at, within the snapshot the continuation is bound to.\<close>

definition follows :: "cursor_payload option \<Rightarrow> resident_views \<Rightarrow> cursor_payload \<Rightarrow> bool" where
  "follows presented rs p \<longleftrightarrow>
     presented = Some p \<or>
     resume_key p \<in> fst ` set rs \<and> resume_key p \<le> cp_snapshot p \<and>
     (case presented of
        None \<Rightarrow> cp_snapshot p \<in> fst ` set rs
      | Some p0 \<Rightarrow> cp_snapshot p = cp_snapshot p0)"

text \<open>The position a cursor stands for: what is counted up to it is returned or omitted.\<close>

definition anchored ::
  "records_filters \<Rightarrow> cursor_payload option \<Rightarrow> resident_views \<Rightarrow> record_view list \<Rightarrow> nat \<Rightarrow> bytes \<Rightarrow> bool" where
  "anchored fs presented rs items omitted bs \<longleftrightarrow>
     (\<exists>p. bs = cursor_encode p \<and> follows presented rs p \<and>
        items = map snd (take (length items) (hits fs (up_to (resume_key p) rs))) \<and>
        length items + omitted = length (hits fs (up_to (resume_key p) rs)))"

fun outcome_means ::
  "records_filters \<Rightarrow> cursor_payload option \<Rightarrow> resident_views \<Rightarrow> record_view list \<Rightarrow> part_outcome \<Rightarrow> bool" where
  "outcome_means fs presented rs items Complete \<longleftrightarrow>
     items = map snd (hits fs (bounded (map_option cp_snapshot presented) rs))"
| "outcome_means fs presented rs items (Degraded t) \<longleftrightarrow>
     (case tr_position t of
        CursorAt bs \<Rightarrow> anchored fs presented rs items (tr_omitted t) bs
      | LastExamined e \<Rightarrow> items = [] \<and> presented = None)"
| "outcome_means fs presented rs items (Refused r) \<longleftrightarrow> items = []"
| "outcome_means fs presented rs items Stalled \<longleftrightarrow> False"

definition judged ::
  "records_filters \<Rightarrow> cursor_payload option \<Rightarrow> resident_views \<Rightarrow> page_walk \<Rightarrow> bool" where
  "judged fs presented rs w \<longleftrightarrow>
     (\<exists>out. wk_stopped w = Some out \<and> outcome_means fs presented rs (wk_items w) out)"

text \<open>Where a stop can be named: the batch at hand ends at a resident record and reaches every
  record looked at.\<close>

definition reached :: "resident_views \<Rightarrow> resident_views \<Rightarrow> page_walk \<Rightarrow> bool" where
  "reached ds rs w \<longleftrightarrow>
     (\<forall>p \<in> set ds. \<exists>f. wk_frontier w = Some f \<and> fst p \<le> f \<and> f \<in> fst ` set rs)"

definition resumed :: "cursor_payload option \<Rightarrow> resident_views \<Rightarrow> bool" where
  "resumed presented rs \<longleftrightarrow> (\<forall>p q. presented = Some p \<longrightarrow> q \<in> set rs \<longrightarrow> resume_key p < fst q)"

lemma cursor_anchored:
  assumes acc: "accounts fs presented ds w" and q: "q \<in> set ds" "fst q = a"
    and reach: "reached ds (ds @ es) w"
    and count: "items = map snd (take (length items) (hits fs (up_to a (ds @ es))))"
      "length items + n = length (hits fs (up_to a (ds @ es)))"
  shows "anchored fs presented (ds @ es) items n (cursor_bytes w a)"
proof -
  let ?snap = "case or_else (wk_snapshot_bound w) (wk_frontier w) of Some k \<Rightarrow> k | None \<Rightarrow> a"
  let ?p = "\<lparr>cp_position = as_unix_nano (key_time a), cp_last_entity = key_entity a,
    cp_fingerprint = wk_fingerprint w, cp_snapshot = ?snap\<rparr>"
  have "cursor_bytes w a = cursor_encode ?p" by (simp add: cursor_bytes_def Let_def)
  moreover have key: "resume_key ?p = a" by (simp add: resume_key_def)
  have "a \<in> fst ` set (ds @ es)" using q by auto
  moreover obtain f where f: "wk_frontier w = Some f" "a \<le> f" "f \<in> fst ` set (ds @ es)"
    using reach q unfolding reached_def by blast
  ultimately have "follows presented (ds @ es) ?p"
    using accounts_fields(4) [OF acc] accounts_fields(5) [OF acc q(1)] q(2) key
    by (cases presented) (simp_all add: follows_def or_else_def past_bound_def not_less)
  with key count show ?thesis
    unfolding anchored_def by (intro exI [of _ ?p]) (simp add: cursor_bytes_def Let_def)
qed

text \<open>The three stops of a walk over \<open>ds\<close>, the prefix of the records it has looked at.\<close>

lemma counting_stop:
  assumes "accounts fs presented ds w" "om_sorted (ds @ es)" "wk_counting w = Some c"
    "reached ds (ds @ es) w"
  shows "anchored fs presented (ds @ es) (wk_items w) (ct_omitted c) (cursor_bytes w (ct_last c))"
proof -
  have acc: "wk_items w = map snd (take (length (wk_items w)) (hits fs ds))"
    "ct_omitted c + length (wk_items w) = length (hits fs ds)" "last_key (hits fs ds) = Some (ct_last c)"
    "wk_snapshot_bound w = map_option cp_snapshot presented" "list_all (\<lambda>p. \<not> past_bound w (fst p)) ds"
    using assms by (simp_all add: accounts_def)
  obtain p where p: "p \<in> set ds" "fst p = ct_last c"
    using last_key_in [OF acc(3)] by (auto simp: hits_def)
  note h = hits_up_to_last [OF assms(2) acc(3)]
  show ?thesis
    by (rule cursor_anchored [OF assms(1) p assms(4)]) (use acc h in simp_all)
qed

lemma examined_stop:
  assumes "accounts fs presented ds w" "om_sorted (ds @ es)" "wk_counting w = None"
    "reached ds (ds @ es) w" "wk_last_examined w = Some a"
  shows "anchored fs presented (ds @ es) (wk_items w) 0 (cursor_bytes w a)"
proof -
  have acc: "wk_items w = map snd (hits fs ds)" "last_key ds = Some a"
    "wk_snapshot_bound w = map_option cp_snapshot presented" "list_all (\<lambda>p. \<not> past_bound w (fst p)) ds"
    using assms by (simp_all add: accounts_def)
  obtain p where p: "p \<in> set ds" "fst p = a" using last_key_in [OF acc(2)] by blast
  note u = up_to_last [OF assms(2) acc(2)]
  show ?thesis
    by (rule cursor_anchored [OF assms(1) p assms(4)]) (use acc u in simp_all)
qed

lemma included_stop:
  assumes "accounts fs presented ds w" "om_sorted (ds @ es)" "wk_counting w = None"
    "reached ds (ds @ es) w"
    "resumed presented (ds @ es)"
  shows "outcome_means fs presented (ds @ es) (wk_items w) (include_anchored_degrade w d 0 e)"
proof -
  have acc: "wk_items w = map snd (hits fs ds)" "wk_last_included w = last_key (hits fs ds)"
    "wk_snapshot_bound w = map_option cp_snapshot presented" "list_all (\<lambda>p. \<not> past_bound w (fst p)) ds"
    "wk_presented w = presented"
    using assms by (simp_all add: accounts_def)
  show ?thesis
  proof (cases "last_key (hits fs ds)")
    case (Some a)
    obtain p where p: "p \<in> set ds" "fst p = a" using last_key_in [OF Some] by (auto simp: hits_def)
    note h = hits_up_to_last [OF assms(2) Some]
    have "anchored fs presented (ds @ es) (wk_items w) 0 (cursor_bytes w a)"
      by (rule cursor_anchored [OF assms(1) p assms(4)]) (use acc h in simp_all)
    with Some acc show ?thesis by (simp add: include_anchored_degrade_def)
  next
    case None
    then have none: "hits fs ds = []" by simp
    show ?thesis
    proof (cases presented)
      case (Some p)
      have "up_to (resume_key p) (ds @ es) = []"
        using assms(5) Some by (auto simp: resumed_def up_to_def filter_empty_conv not_le)
      then have "anchored fs presented (ds @ es) (wk_items w) 0 (cursor_encode p)"
        using acc none Some unfolding anchored_def by (intro exI [of _ p]) (simp add: follows_def)
      with None acc Some show ?thesis by (simp add: include_anchored_degrade_def presented_echo_def)
    qed (use None acc none in \<open>simp add: include_anchored_degrade_def presented_echo_def\<close>)
  qed
qed

lemma past_bound_update [simp]:
  "past_bound (w\<lparr>wk_session := x0\<rparr>) k = past_bound w k"
  "past_bound (w\<lparr>wk_readings := x1\<rparr>) k = past_bound w k"
  "past_bound (w\<lparr>wk_after := x2\<rparr>) k = past_bound w k"
  "past_bound (w\<lparr>wk_frontier := x3\<rparr>) k = past_bound w k"
  "past_bound (w\<lparr>wk_coverage := x4\<rparr>) k = past_bound w k"
  "past_bound (w\<lparr>wk_counting := x5\<rparr>) k = past_bound w k"
  "past_bound (w\<lparr>wk_items := x6\<rparr>) k = past_bound w k"
  "past_bound (w\<lparr>wk_last_included := x7\<rparr>) k = past_bound w k"
  "past_bound (w\<lparr>wk_last_examined := x8\<rparr>) k = past_bound w k"
  "past_bound (w\<lparr>wk_stopped := x9\<rparr>) k = past_bound w k"
  "past_bound (seen key s n w) k = past_bound w k"
  by (simp_all add: past_bound_def)

lemma accounts_update [simp]:
  "accounts fs presented ds (w\<lparr>wk_session := s\<rparr>) = accounts fs presented ds w"
  "accounts fs presented ds (w\<lparr>wk_readings := n\<rparr>) = accounts fs presented ds w"
  "accounts fs presented ds (w\<lparr>wk_after := a\<rparr>) = accounts fs presented ds w"
  "accounts fs presented ds (w\<lparr>wk_frontier := f\<rparr>) = accounts fs presented ds w"
  "accounts fs presented ds (w\<lparr>wk_coverage := c\<rparr>) = accounts fs presented ds w"
  by (simp_all add: accounts_def cong: option.case_cong)

lemma reached_update [simp]:
  "reached ds rs (w\<lparr>wk_session := s\<rparr>) = reached ds rs w"
  "reached ds rs (w\<lparr>wk_readings := n\<rparr>) = reached ds rs w"
  "reached ds rs (w\<lparr>wk_coverage := c\<rparr>) = reached ds rs w"
  by (simp_all add: reached_def)

lemma cursor_bytes_update [simp]:
  "cursor_bytes (w\<lparr>wk_counting := c\<rparr>) a = cursor_bytes w a"
  "cursor_bytes (w\<lparr>wk_coverage := v\<rparr>) a = cursor_bytes w a"
  "cursor_bytes (w\<lparr>wk_session := s\<rparr>) a = cursor_bytes w a"
  "cursor_bytes (w\<lparr>wk_readings := n\<rparr>) a = cursor_bytes w a"
  by (simp_all add: cursor_bytes_def)

lemma judged_counting:
  assumes "accounts fs presented ds w" "om_sorted (ds @ es)" "wk_counting w = Some c" "reached ds (ds @ es) w"
    "wk_stopped w' = Some (counting_degrade w (ct_omitted c) (ct_last c))" "wk_items w' = wk_items w"
  shows "judged fs presented (ds @ es) w'"
  using counting_stop [OF assms(1-3)] assms(4-6) by (simp add: judged_def counting_degrade_def reached_def)

lemma judged_finish:
  assumes "accounts fs presented ds w" "om_sorted (ds @ es)" "reached ds (ds @ es) w"
    "\<forall>p \<in> set es. past_bound w (fst p)"
  shows "judged fs presented (ds @ es) (finish_counting_or_complete w)"
proof (cases "wk_counting w")
  case (Some c)
  then show ?thesis
    by (intro judged_counting [OF assms(1,2) Some assms(3)])
      (simp_all add: finish_counting_or_complete_def Let_def counting_degrade_def)
next
  case None
  have "bounded (map_option cp_snapshot presented) (ds @ es) = ds"
  proof (cases presented)
    case None
    with accounts_fields(4) [OF assms(1)] have "\<not> past_bound w k" for k by (simp add: past_bound_def)
    with assms(4) have "es = []" by (metis list.set_intros(1) neq_Nil_conv)
    with None show ?thesis by (simp add: bounded_def)
  next
    case (Some p)
    with accounts_fields(4) [OF assms(1)] have past: "past_bound w k \<longleftrightarrow> cp_snapshot p < k" for k
      by (simp add: past_bound_def)
    have "\<forall>q \<in> set ds. fst q \<le> cp_snapshot p" "\<forall>q \<in> set es. cp_snapshot p < fst q"
      using accounts_fields(5) [OF assms(1)] assms(4) by (auto simp: past not_less [symmetric])
    then show ?thesis using up_to_prefix [OF assms(2)] Some by (simp add: bounded_def)
  qed
  with None assms(1) show ?thesis
    by (simp add: judged_def finish_counting_or_complete_def accounts_def)
qed

lemma judged_stop_before:
  assumes "accounts fs presented ds w" "om_sorted (ds @ es)" "reached ds (ds @ es) w"
  shows "judged fs presented (ds @ es) (stop_before_examining r w)"
proof (cases "wk_counting w")
  case (Some c)
  then show ?thesis
    by (intro judged_counting [OF assms(1,2) Some assms(3)])
      (simp_all add: stop_before_examining_def Let_def counting_degrade_def)
next
  case None
  show ?thesis
  proof (cases "wk_last_examined w")
    case (Some a)
    from examined_stop [OF assms(1,2) None _ Some] assms(3) None Some show ?thesis
      by (simp add: judged_def stop_before_examining_def reached_def)
  next
    case ex: None
    with assms(1) have "ds = []" by (simp add: accounts_def)
    with assms(1) None ex show ?thesis
      by (simp add: judged_def stop_before_examining_def accounts_def)
  qed
qed

lemma sorted_below:
  assumes "om_sorted (ds @ p # es)" "past_bound w (fst p)" "q \<in> set (p # es)"
  shows "past_bound w (fst q)"
proof (cases "q = p")
  case False
  with assms sorted_split [of "ds @ [p]" es p q] show ?thesis
    by (auto simp: past_bound_def split: option.splits)
qed (use assms in simp)

lemma accounts_seen:
  assumes "accounts fs presented ds w" "\<not> past_bound w (fst p)" "\<not> records_match fs (snd p)"
  shows "accounts fs presented (ds @ [p]) (seen (fst p) s n w)"
  using assms by (auto simp: accounts_def split: option.splits)

definition as_yield :: "admission_key \<times> record_view \<Rightarrow> yielded" where
  "as_yield p = \<lparr>yl_key = fst p, yl_record = snd p\<rparr>"

lemma as_yield_sel [simp]: "yl_key (as_yield p) = fst p" "yl_record (as_yield p) = snd p"
  by (simp_all add: as_yield_def)

lemma examine_accounts:
  assumes acc: "accounts fs presented ds w" and sorted: "om_sorted (ds @ p # es)"
    and reach: "reached (ds @ [p]) (ds @ p # es) w" and res: "resumed presented (ds @ p # es)"
  shows "accounts fs presented (ds @ [p]) (examine L clk (as_yield p) m w) \<and>
      wk_frontier (examine L clk (as_yield p) m w) = wk_frontier w \<and>
      wk_kind (examine L clk (as_yield p) m w) = wk_kind w \<or>
    judged fs presented (ds @ p # es) (examine L clk (as_yield p) m w)"
proof (cases rule: examine_cases [of w "as_yield p" L clk m])
  case (past s)
  have "\<forall>q \<in> set (p # es). past_bound (w\<lparr>wk_session := s\<rparr>) (fst q)"
    using sorted_below [OF sorted] past(1) by (simp add: past_bound_def)
  then show ?thesis
    using past(3) judged_finish [of fs presented ds "w\<lparr>wk_session := s\<rparr>" "p # es"] acc sorted reach
    by (simp add: reached_def)
next
  case (refused s n r)
  then show ?thesis
    using judged_stop_before [of fs presented ds "w\<lparr>wk_readings := n, wk_session := s\<rparr>" "p # es" r]
      acc sorted reach by (simp add: reached_def)
next
  case (skipped s n)
  with acc accounts_seen [OF acc, of p s n] show ?thesis by (simp add: accounts_def)
next
  case (counted s n c)
  with acc show ?thesis by (auto simp: accounts_def)
next
  case (offered s n)
  let ?w = "seen (fst p) s n w"
  have items: "wk_items w = map snd (hits fs ds)" "wk_last_included w = last_key (hits fs ds)"
    and match: "records_match fs (snd p)"
    using acc offered by (simp_all add: accounts_def)
  show ?thesis
  proof (cases rule: include_record_cases [of ?w L clk "as_yield p" m])
    case (stop s' n' d)
    have same: "include_anchored_degrade ?w d 0 (key_entity (fst p)) =
        include_anchored_degrade w d 0 (key_entity (fst p))"
      by (simp add: include_anchored_degrade_def cursor_bytes_def presented_echo_def split: option.split)
    have "outcome_means fs presented (ds @ p # es) (wk_items w)
        (include_anchored_degrade w d 0 (key_entity (fst p)))"
      using included_stop [OF acc sorted offered(5)] reach res
      by (simp add: reached_def resumed_def)
    with stop(2) offered(8) same show ?thesis by (simp add: judged_def)
  next
    case (wall s' n')
    with offered acc items match show ?thesis by (simp add: accounts_def)
  next
    case (kept s' n')
    with offered acc items match show ?thesis by (simp add: accounts_def)
  qed
qed

section \<open>The loop over a driver that keeps the contract\<close>

lemma examine_batch_accounts:
  assumes "accounts fs presented ds w" "om_sorted (ds @ bs @ es)" "reached (ds @ bs) (ds @ bs @ es) w"
    "resumed presented (ds @ bs @ es)"
  shows "accounts fs presented (ds @ bs) (examine_batch L clk (map as_yield bs) w) \<and>
      wk_frontier (examine_batch L clk (map as_yield bs) w) = wk_frontier w \<and>
      wk_kind (examine_batch L clk (map as_yield bs) w) = wk_kind w \<or>
    judged fs presented (ds @ bs @ es) (examine_batch L clk (map as_yield bs) w)"
  using assms
proof (induction bs arbitrary: ds w)
  case (Cons p bs)
  let ?w = "examine L clk (as_yield p) (sat_u64 (length bs)) w"
  have "accounts fs presented (ds @ [p]) ?w \<and> wk_frontier ?w = wk_frontier w \<and> wk_kind ?w = wk_kind w \<or>
      judged fs presented (ds @ p # bs @ es) ?w"
    using Cons.prems by (intro examine_accounts) (simp_all add: reached_def)
  then show ?case
  proof
    assume acc: "accounts fs presented (ds @ [p]) ?w \<and> wk_frontier ?w = wk_frontier w \<and> wk_kind ?w = wk_kind w"
    then have "wk_stopped ?w = None" using accounts_fields(1) by blast
    then have batch: "examine_batch L clk (map as_yield (p # bs)) w = examine_batch L clk (map as_yield bs) ?w"
      by (simp add: Let_def)
    have "reached ((ds @ [p]) @ bs) ((ds @ [p]) @ bs @ es) ?w" using acc Cons.prems(3) by (simp add: reached_def)
    with Cons.IH [of "ds @ [p]" ?w] acc Cons.prems show ?thesis unfolding batch by simp
  next
    assume stop: "judged fs presented (ds @ p # bs @ es) ?w"
    then have "wk_stopped ?w \<noteq> None" by (auto simp: judged_def)
    then have "examine_batch L clk (map as_yield (p # bs)) w = ?w" by (simp add: Let_def)
    with stop show ?thesis by simp
  qed
qed simp

lemma judged_stopped: "judged fs presented rs w \<Longrightarrow> wk_stopped w \<noteq> None"
  by (auto simp: judged_def)

lemma run_loop_stopped: "wk_stopped w \<noteq> None \<Longrightarrow> run_loop L clk S (w, e) = w"
  by (subst run_loop.simps) simp

lemma run_loop_step:
  "wk_stopped w = None \<Longrightarrow> run_loop L clk S (w, e) = run_loop L clk S (loop_step L clk S (w, e))"
  by (subst run_loop.simps) simp

locale engine_driver = ordered_scan resident scan ok
  for resident :: "'s \<Rightarrow> (admission_key \<times> record_view) list"
    and scan :: "'s \<Rightarrow> admission_key option \<Rightarrow> usize \<Rightarrow> record_view scan_page"
    and ok :: "'s \<Rightarrow> bool" +
  fixes driver :: "'s \<Rightarrow> query_store" and k :: signal_kind
  assumes pulls: "pull_kind (driver s) k after = yields_of (\<lambda>v. v) (scan s after SCAN_BATCH)"
begin

lemma pulled:
  assumes "ok s" "past after (resident s) = es"
  shows "pull_kind (driver s) k after =
    (map as_yield (take SCAN_BATCH es),
     if length es \<le> SCAN_BATCH then None else last_key (take SCAN_BATCH es))"
proof -
  have "last_key (take SCAN_BATCH es) = Some (fst (es ! (SCAN_BATCH - 1)))" if "\<not> length es \<le> SCAN_BATCH"
    using that by (cases "es = []") (simp_all add: last_key_def last_conv_nth SCAN_BATCH_def)
  then show ?thesis
    using assms scan_items [of s after SCAN_BATCH] scan_cursor [of s SCAN_BATCH after]
    by (auto simp: pulls yields_of_def as_item_def as_yield_def SCAN_BATCH_def)
qed

text \<open>A walk that stops is judged; what else is kept from batch to batch (\<open>Q\<close>, of the records ahead)
  and holds at the stop (\<open>P\<close>) is a parameter.\<close>

lemma loop_judged_with:
  assumes "ok s"
    and batch: "\<And>ds bs es w. accounts fs presented ds w \<Longrightarrow> Q (bs @ es) w \<Longrightarrow> om_sorted (ds @ bs @ es) \<Longrightarrow>
      reached (ds @ bs) (ds @ bs @ es) w \<Longrightarrow> resumed presented (ds @ bs @ es) \<Longrightarrow> ds @ bs @ es = rs \<Longrightarrow>
      (wk_stopped (examine_batch L clk (map as_yield bs) w) = None \<longrightarrow>
         Q es (examine_batch L clk (map as_yield bs) w)) \<and>
      (wk_stopped (examine_batch L clk (map as_yield bs) w) \<noteq> None \<longrightarrow>
         P (examine_batch L clk (map as_yield bs) w))"
    and finish: "\<And>w. Q [] w \<Longrightarrow> P (finish_counting_or_complete w)"
    and update: "\<And>es w f. Q es w \<Longrightarrow> Q es (w\<lparr>wk_frontier := f\<rparr>)" "\<And>es w a. Q es w \<Longrightarrow> Q es (w\<lparr>wk_after := a\<rparr>)"
  shows "accounts fs presented ds w \<Longrightarrow> Q es w \<Longrightarrow> past (wk_after w) (resident s) = es \<Longrightarrow> wk_kind w = k \<Longrightarrow>
    om_sorted (ds @ es) \<Longrightarrow> resumed presented (ds @ es) \<Longrightarrow> ds = [] \<or> es \<noteq> [] \<Longrightarrow> ds @ es = rs \<Longrightarrow>
    judged fs presented (ds @ es) (run_loop L clk (driver s) (w, e)) \<and>
    P (run_loop L clk (driver s) (w, e))"
proof (induction "length es" arbitrary: ds w es e rule: less_induct)
  case less
  define bs where "bs = take SCAN_BATCH es"
  define cur where "cur = (if length es \<le> SCAN_BATCH then None else last_key bs)"
  have pull: "pull (driver s) w = (map as_yield bs, cur)"
    using pulled [OF assms(1) less.prems(3)] less.prems(4) by (simp add: pull_def bs_def cur_def)
  have run: "run_loop L clk (driver s) (w, e) = run_loop L clk (driver s) (loop_step L clk (driver s) (w, e))"
    using run_loop_step accounts_fields(1) [OF less.prems(1)] by blast
  show ?case
  proof (cases "es = []")
    case True
    let ?w1 = "w\<lparr>wk_frontier := None\<rparr>"
    have "judged fs presented ([] @ []) (finish_counting_or_complete ?w1)"
      using less.prems(1,7) True by (intro judged_finish) (simp_all add: reached_def)
    moreover have "loop_step L clk (driver s) (w, e) = (finish_counting_or_complete ?w1, e)"
      using pull True by (simp add: loop_step_alt Let_def bs_def cur_def pulled_frontier_def or_else_def)
    moreover have "P (finish_counting_or_complete ?w1)"
      using finish update(1) less.prems(2) True by simp
    ultimately show ?thesis using True run less.prems(7) by (simp add: run_loop_stopped)
  next
    case False
    then have bs: "bs \<noteq> []" by (simp add: bs_def SCAN_BATCH_def)
    have front: "pulled_frontier (map as_yield bs, cur) = last_key bs"
      using bs by (auto simp: pulled_frontier_def or_else_def last_key_def last_map cur_def)
    have es: "es = bs @ drop SCAN_BATCH es" by (simp add: bs_def)
    have sorted: "om_sorted ((ds @ bs) @ drop SCAN_BATCH es)" using less.prems(5) es by simp
    then have sorted': "om_sorted (ds @ bs)" by (rule om_sorted_front)
    define w1 where "w1 = w\<lparr>wk_frontier := last_key bs\<rparr>"
    define w2 where "w2 = examine_batch L clk (map as_yield bs) w1"
    have step: "loop_step L clk (driver s) (w, e) =
      (if wk_stopped w2 = None
       then (case cur of Some next \<Rightarrow> (w2\<lparr>wk_after := Some next\<rparr>, 0)
                       | None \<Rightarrow> (finish_counting_or_complete w2, 0))
       else (w2, 0))"
      using bs unfolding loop_step_alt Let_def pull front w2_def w1_def fst_conv snd_conv by simp
    have "fst (List.last bs) \<in> fst ` set (ds @ es)" using bs es by (metis UnCI image_eqI last_in_set set_append)
    then have reach: "reached (ds @ bs) (ds @ es) w'" if "wk_frontier w' = last_key bs" for w'
      using that sorted_last [OF sorted'] bs by (simp add: reached_def last_key_def)
    have "accounts fs presented (ds @ bs) w2 \<and> wk_frontier w2 = wk_frontier w1 \<and> wk_kind w2 = wk_kind w1 \<or>
        judged fs presented (ds @ bs @ drop SCAN_BATCH es) w2"
      unfolding w2_def using less.prems(1,6) sorted es reach [of w1]
      by (intro examine_batch_accounts) (simp_all add: w1_def)
    moreover have side: "(wk_stopped w2 = None \<longrightarrow> Q (drop SCAN_BATCH es) w2) \<and> (wk_stopped w2 \<noteq> None \<longrightarrow> P w2)"
      unfolding w2_def using less.prems(1,2,6,8) sorted es reach [of w1] update(1)
      by (intro batch [of ds]) (simp_all add: w1_def)
    ultimately consider
      (stop) "judged fs presented (ds @ es) w2" "P w2"
    | (on) "accounts fs presented (ds @ bs) w2" "wk_frontier w2 = last_key bs" "wk_kind w2 = k"
      using es less.prems(4) judged_stopped by (auto simp: w1_def)
    then show ?thesis
    proof cases
      case stop
      with step run judged_stopped [OF stop(1)] show ?thesis by (simp add: run_loop_stopped)
    next
      case on
      then have go: "wk_stopped w2 = None" using accounts_fields(1) by blast
      show ?thesis
      proof (cases "length es \<le> SCAN_BATCH")
        case True
        then have "bs = es" by (simp add: bs_def)
        moreover have "judged fs presented ((ds @ bs) @ []) (finish_counting_or_complete w2)"
          using on sorted' reach [of w2] \<open>bs = es\<close> by (intro judged_finish) simp_all
        moreover have "P (finish_counting_or_complete w2)" using side go True by (intro finish) simp
        ultimately show ?thesis using True run step go by (simp add: run_loop_stopped cur_def)
      next
        case False
        let ?next = "fst (es ! (SCAN_BATCH - 1))"
        have "cur = Some ?next"
          using False bs by (simp add: cur_def last_key_def last_conv_nth SCAN_BATCH_def bs_def)
        moreover have "past (Some ?next) (resident s) = drop SCAN_BATCH es"
          using past_cursor [OF assms(1), of SCAN_BATCH "wk_after w"] less.prems(3) False
          by (simp add: SCAN_BATCH_def)
        then have "judged fs presented ((ds @ bs) @ drop SCAN_BATCH es)
            (run_loop L clk (driver s) (w2\<lparr>wk_after := Some ?next\<rparr>, 0)) \<and>
            P (run_loop L clk (driver s) (w2\<lparr>wk_after := Some ?next\<rparr>, 0))"
          using on sorted less.prems(6,8) es False side go update(2)
          by (intro less.hyps) (simp_all add: SCAN_BATCH_def)
        ultimately show ?thesis using run step go es by simp
      qed
    qed
  qed
qed

lemma past_sorted: "ok s \<Longrightarrow> om_sorted (past after (resident s))"
  using resident_sorted [of s]
  by (cases after) (auto simp: past_def om_sorted_def sorted_wrt_map sorted_wrt_filter)

lemma page_judged_with:
  assumes "ok s" "rq_kind q = k"
    and "\<And>ds bs es w. accounts (rq_filters q) presented ds w \<Longrightarrow> Q (bs @ es) w \<Longrightarrow> om_sorted (ds @ bs @ es) \<Longrightarrow>
      reached (ds @ bs) (ds @ bs @ es) w \<Longrightarrow> resumed presented (ds @ bs @ es) \<Longrightarrow>
      ds @ bs @ es = past (map_option resume_key presented) (resident s) \<Longrightarrow>
      (wk_stopped (examine_batch L clk (map as_yield bs) w) = None \<longrightarrow>
         Q es (examine_batch L clk (map as_yield bs) w)) \<and>
      (wk_stopped (examine_batch L clk (map as_yield bs) w) \<noteq> None \<longrightarrow>
         P (examine_batch L clk (map as_yield bs) w))"
    and "\<And>w. Q [] w \<Longrightarrow> P (finish_counting_or_complete w)"
    and "\<And>es w f. Q es w \<Longrightarrow> Q es (w\<lparr>wk_frontier := f\<rparr>)" "\<And>es w a. Q es w \<Longrightarrow> Q es (w\<lparr>wk_after := a\<rparr>)"
    and start: "Q (past (map_option resume_key presented) (resident s))
      (start_walk (driver s) q session presented n)"
  shows "judged (rq_filters q) presented (past (map_option resume_key presented) (resident s))
      (run L clk (driver s) (start_walk (driver s) q session presented n)) \<and>
    P (run L clk (driver s) (start_walk (driver s) q session presented n))"
proof -
  let ?w = "start_walk (driver s) q session presented n"
  have "accounts (rq_filters q) presented [] ?w"
    by (simp add: accounts_def start_walk_def)
  moreover have "resumed presented (past (map_option resume_key presented) (resident s))"
    by (auto simp: resumed_def past_def)
  ultimately show ?thesis
    using loop_judged_with [of s "rq_filters q" presented Q
        "past (map_option resume_key presented) (resident s)" L clk P "[]" ?w
        "past (map_option resume_key presented) (resident s)" 0] past_sorted [OF assms(1)] assms
    by (simp add: run_def start_walk_def)
qed

lemma page_judged:
  assumes "ok s" "rq_kind q = k"
  shows "judged (rq_filters q) presented (past (map_option resume_key presented) (resident s))
    (run L clk (driver s) (start_walk (driver s) q session presented n))"
  by (rule page_judged_with [where Q = "\<lambda>_ _. True" and P = "\<lambda>_. True", THEN conjunct1]) (simp_all add: assms)

end

end
