(* ===== verification/Query_Ceilings.thy ===== *)
theory Query_Ceilings
  imports Query_Pages
begin

text \<open>
  The page of a query whose scan, byte and time ceilings have room: the results ceiling alone
  decides it. \<open>roomy\<close> says what room is left for the records still ahead of the walk.
\<close>

definition live :: "(nat \<Rightarrow> nat) \<Rightarrow> budget_session \<Rightarrow> bool" where
  "live clk s \<longleftrightarrow> (\<forall>n. \<not> deadline_exhausted s (clk n))"

lemma live_cong: "bs_budget s' = bs_budget s \<Longrightarrow> bs_admitted_at s' = bs_admitted_at s \<Longrightarrow> live clk s' = live clk s"
  by (simp add: live_def deadline_exhausted_def deadline_remaining_def)

definition roomy ::
  "layout \<Rightarrow> (nat \<Rightarrow> nat) \<Rightarrow> nat \<Rightarrow> resident_views \<Rightarrow> page_walk \<Rightarrow> bool" where
  "roomy L clk R es w \<longleftrightarrow>
     live clk (wk_session w) \<and> wk_counting w = None \<and> length es \<le> scan_left w \<and>
     evidence_total L (map snd (hits (wk_filters w) es)) \<le> bytes_left w \<and>
     length (wk_items w) + results_left w = R"

lemma roomy_update [simp]:
  "roomy L clk R es (w\<lparr>wk_after := a\<rparr>) = roomy L clk R es w"
  "roomy L clk R es (w\<lparr>wk_frontier := f\<rparr>) = roomy L clk R es w"
  by (simp_all add: roomy_def)

text \<open>The stops of a roomy walk.\<close>

definition ceiling_stop ::
  "records_filters \<Rightarrow> cursor_payload option \<Rightarrow> resident_views \<Rightarrow> nat \<Rightarrow> page_walk \<Rightarrow> bool" where
  "ceiling_stop fs presented rs R w \<longleftrightarrow>
     wk_stopped w = Some Complete \<or>
     length (wk_items w) = R \<and> R < length (hits fs (bounded (map_option cp_snapshot presented) rs)) \<and>
     (\<exists>bs. wk_stopped w = Some (Degraded \<lparr>tr_dimension = Results, tr_position = CursorAt bs, tr_omitted = 0\<rparr>))"

lemma scan_granted:
  assumes "live clk (wk_session w)" "1 \<le> scan_left w"
  obtains s where "charge_walk allow_scan clk 1 w = (Exact 1, w\<lparr>wk_session := s, wk_readings := wk_readings w + 1\<rparr>)"
    "live clk s" "scan_left w = remaining_scan (bs_ledger s) + 1"
    "remaining_results (bs_ledger s) = results_left w" "remaining_bytes (bs_ledger s) = bytes_left w"
proof -
  obtain s where s: "allow_scan (clk (wk_readings w)) 1 (wk_session w) = (Exact 1, s)"
    using scan_charge.granted_when assms by (fastforce simp: live_def)
  have "live clk s" using assms(1) live_cong [of s "wk_session w" clk] scan_charge.untouched [OF s] by simp
  then show thesis
    by (rule that [of s, rotated])
      (use s scan_charge.in_full [OF s] scan_charge_spent [OF s] in \<open>simp_all add: charge_walk_def\<close>)
qed

lemma include_roomy:
  assumes live: "live clk (wk_session w)" and bytes: "evidence_of L (yl_record y) \<le> bytes_left w"
    and results: "0 < results_left w"
  obtains s n where "live clk s" "bytes_left w = remaining_bytes (bs_ledger s) + evidence_of L (yl_record y)"
    "results_left w = remaining_results (bs_ledger s) + 1" "remaining_scan (bs_ledger s) = scan_left w"
    "include_record L clk y m w =
       w\<lparr>wk_session := s, wk_readings := n, wk_items := wk_items w @ [yl_record y],
         wk_last_included := Some (yl_key y)\<rparr>"
proof -
  obtain s1 where r: "allow_results (clk (wk_readings w)) 1 (wk_session w) = (Exact 1, s1)"
    using results_charge.granted_when [of "wk_session w" "clk (wk_readings w)" 1] assms by (auto simp: live_def)
  note r1 = results_charge_spent [OF r] results_charge.in_full [OF r] results_charge.untouched [OF r]
  define ev where "ev = evidence_of L (yl_record y)"
  have live1: "live clk s1" using live live_cong [of s1 "wk_session w" clk] r1 by simp
  have bytes1: "ev \<le> remaining_bytes (bs_ledger s1)" using bytes r1 by (simp add: ev_def)
  obtain s2 where b: "allow_bytes (clk (wk_readings w + 1)) ev s1 = (Exact ev, s2)"
    using bytes_charge.granted_when [of s1 "clk (wk_readings w + 1)" ev] live1 bytes1
    by (auto simp: live_def)
  note b1 = bytes_charge_spent [OF b] bytes_charge.in_full [OF b] bytes_charge.untouched [OF b]
  have "live clk s2" using live1 live_cong [of s2 s1 clk] b1 by simp
  then show thesis
    by (rule that [of s2 "wk_readings w + 2"])
      (use b1 r1 results bytes1 b r in \<open>simp_all add: include_record_def charge_walk_def ev_def Let_def\<close>)
qed

lemma bounded_append: "bounded b (xs @ ys) = bounded b xs @ bounded b ys"
  by (simp add: bounded_def up_to_def split: option.split)

lemma bounded_examined:
  assumes "accounts fs presented ds w" "\<not> past_bound w (fst p)"
  shows "bounded (map_option cp_snapshot presented) (ds @ [p]) = ds @ [p]"
proof -
  have "\<not> past_bound w (fst q)" if "q \<in> set (ds @ [p])" for q
    using that assms(2) accounts_fields(5) [OF assms(1), of q] by auto
  then show ?thesis
    using accounts_fields(4) [OF assms(1)]
    by (cases presented) (simp_all add: bounded_def up_to_def past_bound_def filter_id_conv not_less)
qed

lemma examine_roomy:
  assumes roomy: "roomy L clk R (p # es) w" and acc: "accounts fs presented ds w" and R: "0 < R"
  shows "wk_stopped (examine L clk (as_yield p) m w) = None \<and> roomy L clk R es (examine L clk (as_yield p) m w) \<or>
    ceiling_stop fs presented (ds @ p # es) R (examine L clk (as_yield p) m w)"
proof (cases "past_bound w (fst p)")
  case True
  then show ?thesis
    using roomy by (simp add: examine_def finish_counting_or_complete_def settle_def roomy_def ceiling_stop_def)
next
  case False
  from roomy have room: "live clk (wk_session w)" "1 \<le> scan_left w" "wk_counting w = None"
    "length (wk_items w) + results_left w = R" by (simp_all add: roomy_def)
  from scan_granted [OF room(1,2)] obtain s where
    c: "charge_walk allow_scan clk 1 w = (Exact 1, w\<lparr>wk_session := s, wk_readings := wk_readings w + 1\<rparr>)"
    and s: "live clk s" "scan_left w = remaining_scan (bs_ledger s) + 1"
      "remaining_results (bs_ledger s) = results_left w" "remaining_bytes (bs_ledger s) = bytes_left w"
    by blast
  let ?w = "seen (fst p) s (wk_readings w + 1) w"
  have step: "examine L clk (as_yield p) m w =
    (if \<not> records_match (wk_filters w) (snd p) then ?w else include_record L clk (as_yield p) m ?w)"
    using False c room(3) by (simp add: examine_def seen_def Let_def)
  show ?thesis
  proof (cases "records_match (wk_filters w) (snd p)")
    case False
    with step s roomy accounts_fields(1) [OF acc] show ?thesis by (simp add: roomy_def hits_def)
  next
    case match: True
    show ?thesis
    proof (cases "results_left w = 0")
      case True
      then have "length (wk_items w) = R" using room by simp
      moreover have "bounded (map_option cp_snapshot presented) (ds @ [p]) = ds @ [p]"
        using acc \<open>\<not> past_bound w (fst p)\<close> by (rule bounded_examined)
      then have "length (hits fs (ds @ [p])) \<le> length (hits fs (bounded (map_option cp_snapshot presented) (ds @ p # es)))"
        using bounded_append [of "map_option cp_snapshot presented" "ds @ [p]" es] by (simp add: hits_def)
      ultimately have more: "R < length (hits fs (bounded (map_option cp_snapshot presented) (ds @ p # es)))"
        using acc match by (simp add: accounts_fields room(3))
      from R acc \<open>length (wk_items w) = R\<close> have "wk_last_included w \<noteq> None" by (auto simp: accounts_fields room(3))
      then obtain a where a: "wk_last_included w = Some a" by blast
      have "include_record L clk (as_yield p) m ?w =
          (settle m ?w)\<lparr>wk_stopped := Some (include_anchored_degrade (settle m ?w) Results 0 (key_entity (fst p)))\<rparr>"
        using True s by (simp add: include_record_def Let_def)
      with step match a more \<open>length (wk_items w) = R\<close> show ?thesis
        by (simp add: ceiling_stop_def include_anchored_degrade_def settle_def)
    next
      case False
      have ev: "evidence_of L (snd p) + evidence_total L (map snd (hits (wk_filters w) es)) \<le> bytes_left w"
        using roomy match by (simp add: roomy_def hits_def evidence_total_def)
      have "live clk (wk_session ?w)" "evidence_of L (yl_record (as_yield p)) \<le> bytes_left ?w" "0 < results_left ?w"
        using s False ev by simp_all
      from include_roomy [where m = m, OF this] obtain s2 n where inc: "live clk s2"
        "bytes_left ?w = remaining_bytes (bs_ledger s2) + evidence_of L (snd p)"
        "results_left ?w = remaining_results (bs_ledger s2) + 1" "remaining_scan (bs_ledger s2) = scan_left ?w"
        "include_record L clk (as_yield p) m ?w = ?w\<lparr>wk_session := s2, wk_readings := n,
           wk_items := wk_items w @ [snd p], wk_last_included := Some (fst p)\<rparr>"
        by auto
      with step match s roomy ev accounts_fields(1) [OF acc] show ?thesis by (auto simp: roomy_def)
    qed
  qed
qed

lemma examine_batch_roomy:
  assumes "roomy L clk R (bs @ es) w" "accounts fs presented ds w" "om_sorted (ds @ bs @ es)"
    "reached (ds @ bs) (ds @ bs @ es) w" "resumed presented (ds @ bs @ es)" "0 < R"
  shows "(wk_stopped (examine_batch L clk (map as_yield bs) w) = None \<longrightarrow>
      roomy L clk R es (examine_batch L clk (map as_yield bs) w)) \<and>
    (wk_stopped (examine_batch L clk (map as_yield bs) w) \<noteq> None \<longrightarrow>
      ceiling_stop fs presented (ds @ bs @ es) R (examine_batch L clk (map as_yield bs) w))"
  using assms
proof (induction bs arbitrary: ds w)
    case (Cons p bs)
    let ?w = "examine L clk (as_yield p) (sat_u64 (length bs)) w"
    have room: "wk_stopped ?w = None \<and> roomy L clk R (bs @ es) ?w \<or> ceiling_stop fs presented (ds @ p # bs @ es) R ?w"
      using Cons.prems by (intro examine_roomy) simp_all
    have acc: "accounts fs presented (ds @ [p]) ?w \<and> wk_frontier ?w = wk_frontier w \<and> wk_kind ?w = wk_kind w \<or>
        judged fs presented (ds @ p # bs @ es) ?w"
      using Cons.prems by (intro examine_accounts) (simp_all add: reached_def)
    show ?case
    proof (cases "wk_stopped ?w = None")
      case True
      then have batch: "examine_batch L clk (map as_yield (p # bs)) w = examine_batch L clk (map as_yield bs) ?w"
        by (simp add: Let_def)
      have a: "accounts fs presented (ds @ [p]) ?w" "wk_frontier ?w = wk_frontier w"
        using acc True judged_stopped by blast+
      moreover have "roomy L clk R (bs @ es) ?w" using room True by (auto simp: ceiling_stop_def)
      moreover have "reached ((ds @ [p]) @ bs) ((ds @ [p]) @ bs @ es) ?w"
        using a Cons.prems(4) by (simp add: reached_def)
      ultimately show ?thesis using Cons.IH [of ?w "ds @ [p]"] Cons.prems unfolding batch by simp
    next
      case False
      then have batch: "examine_batch L clk (map as_yield (p # bs)) w = ?w" by (simp add: Let_def)
      with room False have "ceiling_stop fs presented (ds @ p # bs @ es) R ?w" by blast
      with False show ?thesis unfolding batch by auto
    qed
  qed (simp add: accounts_fields)

section \<open>The cursor of a batch\<close>

text \<open>Within a batch of a first page, a cursor carries the batch's own end as its snapshot.\<close>

definition minted_in :: "page_walk \<Rightarrow> page_walk \<Rightarrow> bool" where
  "minted_in w w' \<longleftrightarrow>
     (\<forall>t bs. wk_stopped w' = Some (Degraded t) \<longrightarrow> tr_position t = CursorAt bs \<longrightarrow>
        (\<exists>a. wf_key a \<and> bs = cursor_bytes w a))"

lemma minted_stops:
  assumes "mints fp None w"
  shows "minted_in w (finish_counting_or_complete w)" "minted_in w (stop_before_examining r w)"
    "minted_in w (w\<lparr>wk_stopped := Some (include_anchored_degrade w d n e)\<rparr>)"
  using assms
  by (auto simp: minted_in_def finish_counting_or_complete_def stop_before_examining_def Let_def mints_def
      counting_degrade_def include_anchored_degrade_def presented_echo_def split: option.splits)

lemma cursor_bytes_reads:
  "wk_snapshot_bound w' = wk_snapshot_bound w \<Longrightarrow> wk_frontier w' = wk_frontier w \<Longrightarrow>
   wk_fingerprint w' = wk_fingerprint w \<Longrightarrow> cursor_bytes w' a = cursor_bytes w a"
  by (simp add: cursor_bytes_def)

definition same_source :: "page_walk \<Rightarrow> page_walk \<Rightarrow> bool" where
  "same_source w w' \<longleftrightarrow>
     wk_snapshot_bound w' = wk_snapshot_bound w \<and> wk_frontier w' = wk_frontier w \<and>
     wk_fingerprint w' = wk_fingerprint w \<and> wk_presented w' = wk_presented w"

lemma minted_source: "same_source w w' \<Longrightarrow> minted_in w' v = minted_in w v"
  by (simp add: minted_in_def same_source_def cursor_bytes_reads [of w' w])

lemma source_stops:
  "same_source w (finish_counting_or_complete w)" "same_source w (stop_before_examining r w)"
  by (auto simp: same_source_def finish_counting_or_complete_def stop_before_examining_def Let_def
      split: option.splits)

lemma source_trans: "same_source u v \<Longrightarrow> same_source v w \<Longrightarrow> same_source u w"
  by (simp add: same_source_def)

lemma examine_minted:
  assumes "mints fp None w" "wk_stopped w = None" "wf_key (yl_key y)"
  shows "minted_in w (examine L clk y m w) \<and> same_source w (examine L clk y m w)"
proof (cases rule: examine_cases [of w y L clk m])
  case (past s)
  let ?v = "w\<lparr>wk_session := s\<rparr>"
  have "same_source w ?v" by (simp add: same_source_def)
  with past assms minted_stops(1) [of fp ?v] mints_update(1) [OF assms(1)] source_stops(1) [of ?v] show ?thesis
    by (simp add: minted_source) (blast intro: source_trans)
next
  case (refused s n r)
  let ?v = "w\<lparr>wk_readings := n, wk_session := s\<rparr>"
  have "same_source w ?v" by (simp add: same_source_def)
  with refused assms minted_stops(2) [of fp ?v r] mints_update(1,2) [OF mints_update(2) [OF assms(1)]] source_stops(2) [of ?v r] show ?thesis
    by (simp add: minted_source) (blast intro: source_trans)
next
  case (offered s n)
  let ?w = "seen (yl_key y) s n w"
  have src: "same_source w ?w" by (simp add: same_source_def)
  show ?thesis
  proof (cases rule: include_record_cases [of ?w L clk y m])
    case (stop s' n' d)
    have "minted_in ?w (?w\<lparr>wk_stopped := Some (include_anchored_degrade ?w d 0 (key_entity (yl_key y)))\<rparr>)"
      using assms by (intro minted_stops(3) mints_update)
    then have "minted_in ?w (include_record L clk y m ?w)"
      by (simp add: stop minted_in_def)
    moreover have "same_source w (include_record L clk y m ?w)" by (simp add: stop same_source_def)
    ultimately show ?thesis using offered minted_source [OF src] by simp
  qed (use assms offered in \<open>simp_all add: minted_in_def same_source_def\<close>)
qed (use assms in \<open>simp_all add: minted_in_def same_source_def\<close>)

lemma examine_batch_minted:
  "mints fp None w \<Longrightarrow> wk_stopped w = None \<Longrightarrow> list_all (\<lambda>y. wf_key (yl_key y)) ys \<Longrightarrow>
     minted_in w (examine_batch L clk ys w)"
proof (induction ys arbitrary: w)
  case (Cons y ys)
  let ?w = "examine L clk y (sat_u64 (length ys)) w"
  have one: "minted_in w ?w \<and> same_source w ?w" using Cons.prems by (intro examine_minted) simp_all
  have mints: "mints fp None ?w" using Cons.prems by (intro mints_examine) simp_all
  show ?case
  proof (cases "wk_stopped ?w = None")
    case True
    with one mints Cons.prems Cons.IH [of ?w] minted_source [of w ?w] show ?thesis
      by (simp add: Let_def)
  qed (use one in \<open>simp add: Let_def\<close>)
qed (simp add: minted_in_def)

context engine_driver
begin

lemma ceilings_judged:
  assumes "ok s" "rq_kind q = k" "0 < remaining_results (bs_ledger session)" "live clk session"
    "length (past (map_option resume_key presented) (resident s)) \<le> remaining_scan (bs_ledger session)"
    "evidence_total L (map snd (hits (rq_filters q) (past (map_option resume_key presented) (resident s))))
       \<le> remaining_bytes (bs_ledger session)"
  shows "ceiling_stop (rq_filters q) presented (past (map_option resume_key presented) (resident s)) (remaining_results (bs_ledger session))
    (run L clk (driver s) (start_walk (driver s) q session presented n))"
proof -
  let ?R = "remaining_results (bs_ledger session)"
  let ?rs = "past (map_option resume_key presented) (resident s)"
  have "roomy L clk ?R (past (map_option resume_key presented) (resident s))
      (start_walk (driver s) q session presented n)"
    using assms by (simp add: roomy_def start_walk_def)
  then show ?thesis
  proof (rule page_judged_with [OF assms(1,2), where Q = "roomy L clk ?R" and P = "ceiling_stop (rq_filters q) presented ?rs ?R",
        THEN conjunct2, rotated 4])
    fix ds bs es w
    assume "accounts (rq_filters q) presented ds w" "roomy L clk ?R (bs @ es) w" "om_sorted (ds @ bs @ es)"
      "reached (ds @ bs) (ds @ bs @ es) w" "resumed presented (ds @ bs @ es)"
      and rs: "ds @ bs @ es = ?rs"
    then show "(wk_stopped (examine_batch L clk (map as_yield bs) w) = None \<longrightarrow>
         roomy L clk ?R es (examine_batch L clk (map as_yield bs) w)) \<and>
      (wk_stopped (examine_batch L clk (map as_yield bs) w) \<noteq> None \<longrightarrow>
         ceiling_stop (rq_filters q) presented ?rs ?R (examine_batch L clk (map as_yield bs) w))"
      unfolding rs [symmetric] using assms(3) by (intro examine_batch_roomy)
  next
    fix w assume "roomy L clk ?R [] w"
    then show "ceiling_stop (rq_filters q) presented ?rs ?R (finish_counting_or_complete w)"
      by (simp add: roomy_def ceiling_stop_def finish_counting_or_complete_def)
  qed simp_all
qed

text \<open>A first page that stops for its results inside its first batch.\<close>

lemma first_batch_pins:
  assumes ok: "ok s" and kind: "rq_kind q = k"
    and R: "0 < remaining_results (bs_ledger session)"
      "remaining_results (bs_ledger session) < length (hits (rq_filters q) (take SCAN_BATCH (resident s)))"
    and live: "live clk session" and more: "SCAN_BATCH < length (resident s)"
    and room: "length (resident s) \<le> remaining_scan (bs_ledger session)"
      "evidence_total L (map snd (hits (rq_filters q) (resident s))) \<le> remaining_bytes (bs_ledger session)"
    and fit: "list_all (\<lambda>p. wf_key (fst p)) (resident s)"
  shows "\<exists>p. wf_cursor p \<and> wk_stopped (run L clk (driver s) (start_walk (driver s) q session None n)) =
      Some (Degraded \<lparr>tr_dimension = Results, tr_position = CursorAt (cursor_encode p), tr_omitted = 0\<rparr>) \<and>
    cp_snapshot p = fst (resident s ! (SCAN_BATCH - 1))"
proof -
  define R where "R = remaining_results (bs_ledger session)"
  define bs where "bs = take SCAN_BATCH (resident s)"
  define w0 where "w0 = start_walk (driver s) q session None n"
  define w1 where "w1 = w0\<lparr>wk_frontier := last_key bs\<rparr>"
  define w2 where "w2 = examine_batch L clk (map as_yield bs) w1"
  have key: "last_key bs = Some (fst (resident s ! (SCAN_BATCH - 1)))"
    using more by (cases "resident s = []") (simp_all add: bs_def last_key_def last_conv_nth SCAN_BATCH_def)
  have nonempty: "bs \<noteq> []" using more by (auto simp: bs_def SCAN_BATCH_def)
  have pull: "pull (driver s) w0 = (map as_yield bs, last_key bs)"
    using pulled [OF ok refl, of None] more kind by (simp add: pull_def w0_def start_walk_def past_def bs_def)
  have front: "pulled_frontier (map as_yield bs, last_key bs) = last_key bs"
    by (simp add: pulled_frontier_def or_else_def key)
  have split: "resident s = [] @ bs @ drop SCAN_BATCH (resident s)" by (simp add: bs_def)
  have sorted: "om_sorted ([] @ bs @ drop SCAN_BATCH (resident s))" using resident_sorted [OF ok] split by simp
  have acc: "accounts (rq_filters q) None [] w1" by (simp add: accounts_def w1_def w0_def start_walk_def)
  have reach: "reached ([] @ bs) ([] @ bs @ drop SCAN_BATCH (resident s)) w1"
    using sorted_last [OF om_sorted_front [of bs], of "drop SCAN_BATCH (resident s)"] sorted nonempty
    by (auto simp: reached_def w1_def last_key_def)
  have roomy: "roomy L clk R (bs @ drop SCAN_BATCH (resident s)) w1"
    using live room split by (simp add: roomy_def w1_def w0_def start_walk_def R_def)
  have batch: "(wk_stopped w2 = None \<longrightarrow> roomy L clk R (drop SCAN_BATCH (resident s)) w2) \<and>
      (wk_stopped w2 \<noteq> None \<longrightarrow>
        ceiling_stop (rq_filters q) None ([] @ bs @ drop SCAN_BATCH (resident s)) R w2)"
    unfolding w2_def using roomy acc sorted reach R(1)
    by (intro examine_batch_roomy) (simp_all add: resumed_def R_def)
  have judged: "accounts (rq_filters q) None ([] @ bs) w2 \<and> wk_frontier w2 = wk_frontier w1 \<and>
      wk_kind w2 = wk_kind w1 \<or> judged (rq_filters q) None ([] @ bs @ drop SCAN_BATCH (resident s)) w2"
    unfolding w2_def using acc sorted reach by (intro examine_batch_accounts) (simp_all add: resumed_def)
  have stopped: "wk_stopped w2 \<noteq> None"
  proof
    assume go: "wk_stopped w2 = None"
    with judged have "accounts (rq_filters q) None bs w2" using judged_stopped by force
    moreover have "roomy L clk R (drop SCAN_BATCH (resident s)) w2" using batch go by simp
    ultimately have "length (hits (rq_filters q) bs) \<le> R"
      by (auto simp: roomy_def accounts_fields(7))
    with R(2) show False by (simp add: R_def bs_def)
  qed
  have "loop_step L clk (driver s) (w0, 0) = (w2, 0)"
    using nonempty stopped
    unfolding loop_step_alt Let_def pull front w2_def w1_def fst_conv snd_conv by auto
  then have run: "run L clk (driver s) w0 = w2"
    using stopped by (simp add: run_def run_loop_step run_loop_stopped w0_def start_walk_def)
  have stop: "ceiling_stop (rq_filters q) None ([] @ bs @ drop SCAN_BATCH (resident s)) R w2"
    using batch stopped by blast
  have not_all: "wk_stopped w2 \<noteq> Some Complete"
  proof
    assume "wk_stopped w2 = Some Complete"
    moreover have "judged (rq_filters q) None (past (map_option resume_key None) (resident s)) w2"
      using page_judged [OF ok kind, of None L clk session n] run by (simp add: w0_def)
    ultimately have items: "wk_items w2 = map snd (hits (rq_filters q) (resident s))"
      by (auto simp: judged_def bounded_def past_def)
    have "within_ceilings L R (remaining_bytes (bs_ledger session)) (remaining_scan (bs_ledger session))
        (rq_filters q) (run L clk (driver s) w0)"
      unfolding w0_def by (rule walk_within_ceilings) (simp_all add: R_def)
    then have "length (wk_items w2) \<le> R" by (simp add: within_ceilings_def run)
    moreover have "length (hits (rq_filters q) bs) \<le> length (hits (rq_filters q) (resident s))"
      by (subst split) (simp add: hits_def)
    ultimately show False using R(2) items by (simp add: R_def bs_def)
  qed
  then obtain bytes where deg: "wk_stopped w2 =
      Some (Degraded \<lparr>tr_dimension = Results, tr_position = CursorAt bytes, tr_omitted = 0\<rparr>)"
    using stop by (auto simp: ceiling_stop_def)
  have snap: "wf_key (fst (resident s ! (SCAN_BATCH - 1)))"
    using fit more by (auto simp: list_all_length SCAN_BATCH_def)
  have "list_all (\<lambda>y. wf_key (yl_key y)) (map as_yield bs)"
    using fit in_set_takeD by (fastforce simp: list_all_iff bs_def)
  moreover have "mints (query_fingerprint q) None w1" "wk_stopped w1 = None"
    using snap by (simp_all add: mints_def w1_def w0_def start_walk_def key)
  ultimately have "minted_in w1 w2" unfolding w2_def by (intro examine_batch_minted)
  then obtain a where "wf_key a" "bytes = cursor_bytes w1 a" using deg by (auto simp: minted_in_def)
  then have "\<exists>p. wf_cursor p \<and> bytes = cursor_encode p \<and> cp_snapshot p = fst (resident s ! (SCAN_BATCH - 1))"
    using snap
    by (intro exI [of _ "\<lparr>cp_position = as_unix_nano (key_time a), cp_last_entity = key_entity a,
        cp_fingerprint = query_fingerprint q, cp_snapshot = fst (resident s ! (SCAN_BATCH - 1))\<rparr>"])
      (simp add: cursor_bytes_def Let_def w1_def w0_def start_walk_def or_else_def key wf_cursor_def wf_key_def)
  then show ?thesis using deg run by (auto simp: w0_def)
qed

end

end
