(* ===== verification/Query_Promises.thy ===== *)
theory Query_Promises
  imports Query_Ceilings Store_Laws Samples
begin

text \<open>
  The promises of the records flow: every driver is paged a bounded number of times and every
  page stays within its budget; over the memory store a page accounts for every resident record,
  and a chain of pages returns its snapshot once, in order. The last section states where the
  snapshot of a continuation really lies.
\<close>

section \<open>The memory store as a driver\<close>

definition keyed :: "('r \<Rightarrow> record_view) \<Rightarrow> (admission_key \<times> 'r) list \<Rightarrow> resident_views" where
  "keyed f ps = map (\<lambda>p. (fst p, f (snd p))) ps"

fun resident_views :: "signal_kind \<Rightarrow> memory_store \<Rightarrow> resident_views" where
  "resident_views Spans st = keyed SpanView (by_key (spans_shelf st))"
| "resident_views LogRecords st = keyed LogView (by_key (logs_shelf st))"
| "resident_views MetricPoints st =
     keyed (\<lambda>v. point_record_view (view_of v)) (by_key (points_shelf st))"

definition map_page :: "('a \<Rightarrow> 'b) \<Rightarrow> 'a scan_page \<Rightarrow> 'b scan_page" where
  "map_page f page =
     \<lparr>pg_items = map (\<lambda>i. \<lparr>it_key = it_key i, it_record = f (it_record i)\<rparr>) (pg_items page),
      pg_cursor = pg_cursor page\<rparr>"

fun view_scan :: "signal_kind \<Rightarrow> memory_store \<Rightarrow> admission_key option \<Rightarrow> usize \<Rightarrow> record_view scan_page" where
  "view_scan Spans st after limit = map_page SpanView (scan_spans st after limit)"
| "view_scan LogRecords st after limit = map_page LogView (scan_log_records st after limit)"
| "view_scan MetricPoints st after limit = map_page point_record_view (scan_metric_points st after limit)"

definition scannable :: "memory_store \<Rightarrow> bool" where
  "scannable st \<longleftrightarrow>
     om_sorted (by_key (spans_shelf st)) \<and> om_sorted (by_key (logs_shelf st)) \<and>
     om_sorted (by_key (points_shelf st))"

lemma wf_store_scannable: "wf_store L U st \<Longrightarrow> scannable st"
  by (simp add: wf_store_def scannable_def wf_shelf_def)

lemma past_map:
  "past after (keyed f ps) = keyed f (past after ps)"
  by (cases after) (simp_all add: past_def keyed_def filter_map comp_def)

lemma om_sorted_map: "om_sorted (keyed f ps) = om_sorted ps"
  by (simp add: om_sorted_def keyed_def comp_def)

lemma map_page_after:
  "pg_items (map_page f (scan_after sh after limit)) =
     map as_item (take limit (past after (keyed f (by_key sh))))"
  "0 < limit \<Longrightarrow> pg_cursor (map_page f (scan_after sh after limit)) =
     (let ps = past after (keyed f (by_key sh))
      in if length ps \<le> limit then None else Some (fst (ps ! (limit - 1))))"
  unfolding past_map
  by (auto simp: map_page_def scan_after_def past_def page_from_items page_from_cursor as_item_def
      keyed_def take_map Let_def nth_map split: option.splits)

lemma view_scan_shelves:
  "view_scan Spans st after limit = map_page SpanView (scan_after (spans_shelf st) after limit)"
  "view_scan LogRecords st after limit = map_page LogView (scan_after (logs_shelf st) after limit)"
  "view_scan MetricPoints st after limit =
     map_page (\<lambda>v. point_record_view (view_of v)) (scan_after (points_shelf st) after limit)"
  by (simp_all add: scan_spans_def scan_log_records_def scan_metric_points_def map_page_def Let_def)

interpretation memory_engine: engine_driver "resident_views k" "view_scan k" scannable
  memory_query_store k for k
proof
  fix st :: memory_store and after :: "admission_key option" and limit :: usize
  show "om_sorted (resident_views k st)" if "scannable st"
    using that by (cases k) (simp_all add: scannable_def om_sorted_map)
  show "pg_items (view_scan k st after limit) = map as_item (take limit (past after (resident_views k st)))"
    by (cases k) (simp_all add: view_scan_shelves map_page_after del: view_scan.simps)
  show "pg_cursor (view_scan k st after limit) =
      (if length (past after (resident_views k st)) \<le> limit then None
       else Some (fst (past after (resident_views k st) ! (limit - 1))))" if "0 < limit"
    using that by (cases k) (simp_all add: view_scan_shelves map_page_after Let_def del: view_scan.simps)
  show "pull_kind (memory_query_store st) k after = yields_of (\<lambda>v. v) (view_scan k st after SCAN_BATCH)"
    by (cases k) (simp_all add: memory_query_store_def yields_of_def map_page_def)
qed

text \<open>The keys resident in the store carry ids of their width and nonzero serials.\<close>

definition resident_keys_fit :: "memory_store \<Rightarrow> bool" where
  "resident_keys_fit st \<longleftrightarrow> (\<forall>k. list_all (\<lambda>p. wf_key (fst p)) (resident_views k st))"

lemma past_subset: "set (past after ps) \<subseteq> set ps"
  by (auto simp: past_def split: option.splits)

lemma memory_keys_fit:
  assumes "scannable st" "resident_keys_fit st"
  shows "keys_fit (memory_query_store st)"
  unfolding keys_fit_def
proof (intro allI)
  fix k after
  let ?es = "past after (resident_views k st)"
  have fit: "\<forall>p \<in> set (take SCAN_BATCH ?es). wf_key (fst p)"
    using assms(2) past_subset [of after "resident_views k st"] in_set_takeD
    by (fastforce simp: resident_keys_fit_def list_all_iff)
  then have "pred_option wf_key (last_key (take SCAN_BATCH ?es))"
    by (auto simp: last_key_def last_in_set simp del: set_take_subset)
  with fit show "list_all (\<lambda>y. wf_key (yl_key y)) (fst (pull_kind (memory_query_store st) k after)) \<and>
      pred_option wf_key (snd (pull_kind (memory_query_store st) k after))"
    by (auto simp: memory_engine.pulled [OF assms(1) refl] list_all_iff)
qed

section \<open>Concrete queries\<close>

text \<open>A store of \<open>n\<close> spans, admitted one nanosecond apart.\<close>

definition spans_store :: "nat \<Rightarrow> memory_store" where
  "spans_store n =
     (store_new default_memory_config True)
       \<lparr>spans_shelf :=
          \<lparr>by_key = map (\<lambda>i. (AdmissionKey (AdmissionTime (word_of_nat i)) (Assigned (i + 1)),
                            sample_span 1 ''s'' None)) [0..<n],
           by_entity = Map.empty, shelf_bytes = 0\<rparr>\<rparr>"

definition paging_budget :: query_budget where
  "paging_budget = \<lparr>qb_deadline = 10, qb_max_results = 1, qb_max_bytes = 10 ^ 6, qb_max_scan = 10 ^ 6,
     qb_max_aggregation_memory = 0\<rparr>"

definition sample_page :: "nat \<Rightarrow> bytes option \<Rightarrow> query_error + record_view page" where
  "sample_page n continuation =
     records layout64 (\<lambda>_. 0) (memory_query_store (spans_store n)) (query_new Spans) paging_budget continuation"

lemma spans_store_views:
  "resident_views Spans (spans_store n) =
     map (\<lambda>i. (AdmissionKey (AdmissionTime (word_of_nat i)) (Assigned (i + 1)),
              SpanView (sample_span 1 ''s'' None))) [0..<n]"
  "resident_views LogRecords (spans_store n) = []" "resident_views MetricPoints (spans_store n) = []"
  by (simp_all add: spans_store_def keyed_def store_new_def shelf_new_def)

lemma spans_store_scannable: "n \<le> 1000 \<Longrightarrow> scannable (spans_store n)"
  by (auto simp: scannable_def spans_store_def store_new_def shelf_new_def om_sorted_def comp_def
      sorted_wrt_iff_nth_less key_less_iff word_less_nat_alt unat_of_nat)

lemma spans_store_keys_fit: "n \<le> 1000 \<Longrightarrow> resident_keys_fit (spans_store n)"
  unfolding resident_keys_fit_def
proof
  fix k assume "n \<le> 1000"
  then show "list_all (\<lambda>p. wf_key (fst p)) (resident_views k (spans_store n))"
    by (cases k) (auto simp: spans_store_views list_all_iff wf_key_def u64_max_def simp del: resident_views.simps)
qed

lemma first_page_exists: "\<exists>page. records L clk S q b None = Inr page"
  by (simp add: records_def records_inner_def present_def Let_def)

section \<open>Every driver\<close>

text \<open>C26: A page ends, for every driver and every clock: the loop asks the driver for at most
  four pages per unit of the scan ceiling and four more, however many empty pages with a successor
  cursor the driver answers, and then has an outcome.\<close>

theorem driver_calls_bounded:
  "\<exists>n \<le> 4 * (qb_max_scan b + 1).
     let w = fst ((loop_step L clk S ^^ n) (start_walk S q (admit b (clk 0)) presented 1, 0))
     in wk_stopped w \<noteq> None \<and> run L clk S (start_walk S q (admit b (clk 0)) presented 1) = w"
proof -
  let ?w = "start_walk S q (admit b (clk 0)) presented 1"
  have "page_fuel (?w, 0) \<le> 4 * (qb_max_scan b + 1)"
    by (simp add: page_fuel_def start_walk_def EMPTY_PAGE_STALL_LIMIT_def)
  with run_loop_iterates [of "(?w, 0)" L clk S] show ?thesis
    unfolding run_def Let_def by (meson le_trans)
qed

lemma empty_answer_items [simp]: "page_items (empty_answer S q presented) = []"
  by (simp add: empty_answer_def)

lemma assemble_items [simp]: "page_items (assemble w) = wk_items w"
  by (simp add: assemble_def Let_def)

lemma page_within_its_budget_walk:
  "within_ceilings L (qb_max_results b) (qb_max_bytes b) (qb_max_scan b) (rq_filters q)
     (run L clk S (start_walk S q (admit b (clk 0)) presented 1)) \<and>
   length (wk_items (run L clk S (start_walk S q (admit b (clk 0)) presented 1))) \<le> qb_max_results b"
proof -
  have "within_ceilings L (qb_max_results b) (qb_max_bytes b) (qb_max_scan b) (rq_filters q)
     (run L clk S (start_walk S q (admit b (clk 0)) presented 1))"
    by (rule walk_within_ceilings) simp_all
  then show ?thesis by (simp add: within_ceilings_def)
qed

text \<open>C25: A page never exceeds its budget, whatever the driver yields and the clock reads: it
  returns at most as many records as the results ceiling and the scan ceiling allow, their
  evidence fits the byte ceiling, and every one of them matches the query's filters.\<close>

theorem page_within_its_budget:
  assumes "records_inner L clk S q b continuation lease = Inr page"
  shows "length (page_items page) \<le> qb_max_results b \<and> length (page_items page) \<le> qb_max_scan b \<and>
    evidence_total L (page_items page) \<le> qb_max_bytes b \<and>
    list_all (records_match (rq_filters q)) (page_items page)"
proof -
  let ?w = "\<lambda>presented. run L clk S (start_walk S q (admit b (clk 0)) presented 1)"
  obtain presented where page: "page_items page = (if qb_max_results b = 0 then [] else wk_items (?w presented))"
    using assms unfolding records_inner_Inr
    by (metis assemble_items empty_answer_items)
  have "within_ceilings L (qb_max_results b) (qb_max_bytes b) (qb_max_scan b) (rq_filters q) (?w presented)"
    by (rule walk_within_ceilings) simp_all
  then show ?thesis
    by (auto simp: page within_ceilings_def evidence_total_def)
qed

text \<open>A page of a store of three spans, under a results ceiling of one.\<close>

lemma page_within_its_budget_witness: "\<exists>page. sample_page 3 None = Inr page \<and> length (page_items page) \<le> 1"
proof -
  obtain page where page: "sample_page 3 None = Inr page"
    using first_page_exists unfolding sample_page_def by blast
  from page_within_its_budget [OF page [unfolded sample_page_def records_def]] page show ?thesis
    by (auto simp: paging_budget_def)
qed

text \<open>A query fails only on its continuation cursor: it is refused exactly when the bytes are
  no canonical cursor, or the cursor belongs to another query, or the lease presented with it pins
  another snapshot, in that order and whatever the budget, the clock and the store are.\<close>

theorem query_fails_only_on_its_cursor:
  "records_inner L clk S q b continuation lease = Inl e \<longleftrightarrow>
     (\<exists>bs. continuation = Some bs \<and>
       (cursor_decode bs = Inl Malformed \<and> e = CursorRejected Malformed \<or>
        (\<exists>p. cursor_decode bs = Inr p \<and>
          (cp_fingerprint p \<noteq> query_fingerprint q \<and> e = CursorRejected FingerprintMismatch \<or>
           cp_fingerprint p = query_fingerprint q \<and>
           (\<exists>l. lease = Some l \<and> \<not> governs l (cp_snapshot p)) \<and> e = CursorRejected LeaseMismatch))))"
proof -
  have inl: "records_inner L clk S q b continuation lease = Inl e \<longleftrightarrow>
      (\<exists>c. present q continuation lease = Inl c \<and> e = CursorRejected c)"
    by (cases "present q continuation lease") (auto simp: records_inner_def Let_def)
  show ?thesis
  proof (cases continuation)
    case (Some bs)
    show ?thesis
    proof (cases "cursor_decode bs")
      case (Inl c)
      then have "c = Malformed" by (simp add: cursor_decode_def split: option.splits)
      with Inl Some show ?thesis unfolding inl by (auto simp: present_def)
    next
      case (Inr p)
      with Some show ?thesis unfolding inl
        by (cases lease) (auto simp: present_def cursor_verify_def verify_lease_def)
    qed
  next
    case None
    then show ?thesis unfolding inl by (simp add: present_def)
  qed
qed

text \<open>The page of a walk, read off its outcome.\<close>

lemma assemble_part: "wk_stopped w = Some out \<Longrightarrow> ex_parts (page_execution (assemble w)) = [out]"
  by (simp add: assemble_def Let_def)

lemma assemble_cursor:
  "page_next_cursor (assemble w) = Some bs \<longleftrightarrow>
     (\<exists>t. wk_stopped w = Some (Degraded t) \<and> tr_position t = CursorAt bs)"
  by (auto simp: assemble_def Let_def split: option.splits part_outcome.splits truncation_point.splits)

lemma records_inner_walk:
  assumes "records_inner L clk S q b continuation lease = Inr page" "page_next_cursor page = Some bs"
  obtains presented where "present q continuation lease = Inr presented" "0 < qb_max_results b"
    "page = assemble (run L clk S (start_walk S q (admit b (clk 0)) presented 1))"
proof -
  from assms(1) obtain presented where pres: "present q continuation lease = Inr presented"
    and page: "page = (if qb_max_results b = 0 then empty_answer S q presented
      else assemble (run L clk S (start_walk S q (admit b (clk 0)) presented 1)))"
    by (auto simp: records_inner_Inr)
  with assms(2) have "0 < qb_max_results b" by (cases "qb_max_results b = 0") (simp_all add: empty_answer_def)
  with pres page show thesis by (intro that) simp_all
qed

lemma minted_cursor_payload:
  assumes "keys_fit S" "records_inner L clk S q b continuation lease = Inr page"
    "page_next_cursor page = Some bs"
  shows "\<exists>p. cursor_decode bs = Inr p \<and> cp_fingerprint p = query_fingerprint q \<and>
    (\<forall>c0 p0. continuation = Some c0 \<longrightarrow> cursor_decode c0 = Inr p0 \<longrightarrow> cp_snapshot p = cp_snapshot p0)"
proof -
  from assms(2,3) obtain presented where pres: "present q continuation lease = Inr presented"
    and page: "page = assemble (run L clk S (start_walk S q (admit b (clk 0)) presented 1))"
    by (rule records_inner_walk)
  obtain t where t: "wk_stopped (run L clk S (start_walk S q (admit b (clk 0)) presented 1)) = Some (Degraded t)"
    "tr_position t = CursorAt bs"
    using assms(3) unfolding page assemble_cursor by blast
  have "continues (query_fingerprint q) presented bs"
    using walk_mints [OF assms(1) pres, of L clk "admit b (clk 0)" 1] t by (simp add: mints_def)
  then show ?thesis using pres by (auto simp: continues_def present_Inr split: option.splits)
qed

text \<open>Every cursor a page hands out continues its query: over a driver whose keys are well
  formed it decodes, it is accepted under the query that minted it with no lease and with exactly
  the leases that pin its snapshot, and the snapshot is that of the continuation it came from.\<close>

theorem minted_cursor_is_accepted:
  assumes "keys_fit S" "records_inner L clk S q b continuation lease = Inr page"
    "page_next_cursor page = Some bs"
  shows "\<exists>p. cursor_decode bs = Inr p \<and> present q (Some bs) None = Inr (Some p) \<and>
    (\<forall>l. present q (Some bs) (Some l) =
       (if sl_snapshot l = fingerprint_of (cp_snapshot p) then Inr (Some p) else Inl LeaseMismatch)) \<and>
    (\<forall>c0 p0. continuation = Some c0 \<longrightarrow> cursor_decode c0 = Inr p0 \<longrightarrow> cp_snapshot p = cp_snapshot p0)"
proof -
  from minted_cursor_payload [OF assms] obtain p where
    p: "cursor_decode bs = Inr p" "cp_fingerprint p = query_fingerprint q"
    "\<forall>c0 p0. continuation = Some c0 \<longrightarrow> cursor_decode c0 = Inr p0 \<longrightarrow> cp_snapshot p = cp_snapshot p0"
    by blast
  then show ?thesis
    by (intro exI [of _ p]) (simp add: present_def cursor_verify_def verify_lease_def governs_def)
qed

text \<open>C31: An evicted record is a hole with a name: a continuation whose anchor is no longer
  resident, whatever the driver, the budget and the clock, names in its page's coverage the snapshot
  it is bound to and the gap after that anchor.\<close>

theorem evicted_anchor_is_named:
  assumes "records_inner L clk S q b continuation lease = Inr page"
    "present q continuation lease = Inr (Some p)" "\<not> anchor_is_resident S (rq_kind q) (cp_last_entity p)"
  shows "SnapshotBoundary (cp_snapshot p) \<in> set (ex_coverage (page_execution page)) \<and>
    (\<exists>e. EvictionGap (cp_last_entity p) e \<in> set (ex_coverage (page_execution page)))"
  by (rule evicted_anchor_named [OF assms])

text \<open>A cursor of the query, presented to an empty store.\<close>

definition stray_cursor :: cursor_payload where
  "stray_cursor = \<lparr>cp_position = 1, cp_last_entity = Assigned 1,
     cp_fingerprint = query_fingerprint (query_new Spans),
     cp_snapshot = AdmissionKey (AdmissionTime 2) (Assigned 2)\<rparr>"

lemma evicted_anchor_is_named_witness:
  "\<exists>page. sample_page 0 (Some (cursor_encode stray_cursor)) = Inr page \<and>
     SnapshotBoundary (AdmissionKey (AdmissionTime 2) (Assigned 2)) \<in> set (ex_coverage (page_execution page))"
proof -
  have "wf_cursor stray_cursor" by (simp add: stray_cursor_def wf_cursor_def u64_max_def)
  then have pres: "present (query_new Spans) (Some (cursor_encode stray_cursor)) None = Inr (Some stray_cursor)"
    by (simp add: present_Inr cursor_decode_encode) (simp add: stray_cursor_def)
  then obtain page where page: "sample_page 0 (Some (cursor_encode stray_cursor)) = Inr page"
    by (auto simp: sample_page_def records_def records_inner_Inr)
  have "\<not> anchor_is_resident (memory_query_store (spans_store 0)) Spans (cp_last_entity stray_cursor)"
    by (simp add: anchor_is_resident_def memory_query_store_def store_span_def shelf_get_def spans_store_def)
  with evicted_anchor_is_named [OF page [unfolded sample_page_def records_def] pres] page show ?thesis
    by (simp add: stray_cursor_def)
qed

section \<open>The memory store\<close>

lemma records_inner_judged:
  assumes "scannable st" "records_inner L clk (memory_query_store st) q b continuation lease = Inr page"
    "0 < qb_max_results b"
  obtains presented out where "present q continuation lease = Inr presented"
    "ex_parts (page_execution page) = [out]"
    "outcome_means (rq_filters q) presented
       (past (map_option resume_key presented) (resident_views (rq_kind q) st)) (page_items page) out"
    "\<forall>bs. page_next_cursor page = Some bs \<longleftrightarrow> (\<exists>t. out = Degraded t \<and> tr_position t = CursorAt bs)"
proof -
  let ?S = "memory_query_store st"
  from assms(2,3) obtain presented where pres: "present q continuation lease = Inr presented"
    and page: "page = assemble (run L clk ?S (start_walk ?S q (admit b (clk 0)) presented 1))"
    by (auto simp: records_inner_Inr)
  have "judged (rq_filters q) presented (past (map_option resume_key presented) (resident_views (rq_kind q) st))
      (run L clk ?S (start_walk ?S q (admit b (clk 0)) presented 1))"
    by (rule memory_engine.page_judged [OF assms(1) refl])
  then obtain out where
    stop: "wk_stopped (run L clk ?S (start_walk ?S q (admit b (clk 0)) presented 1)) = Some out"
    and means: "outcome_means (rq_filters q) presented
       (past (map_option resume_key presented) (resident_views (rq_kind q) st)) (page_items page) out"
    by (auto simp: judged_def page)
  show thesis
    by (rule that [OF pres _ means])
      (simp only: page assemble_part [OF stop], simp only: page assemble_cursor stop option.inject, simp)
qed

text \<open>C5: A page over the memory store accounts for every resident record of its kind past its
  start. A complete page returns every match within its snapshot, in order; a page cut with a cursor
  returns a prefix of the matches up to the position the cursor names, and the omission it reports
  is exactly what that prefix leaves out; a page cut with no cursor, or refused, returns nothing;
  and no page stalls.\<close>

theorem page_accounts_for_every_record:
  assumes "scannable st" "0 < qb_max_results b"
    "records_inner L clk (memory_query_store st) q b continuation lease = Inr page"
  shows "\<exists>presented out. present q continuation lease = Inr presented \<and>
    ex_parts (page_execution page) = [out] \<and>
    outcome_means (rq_filters q) presented
      (past (map_option resume_key presented) (resident_views (rq_kind q) st)) (page_items page) out"
  using records_inner_judged [OF assms(1,3,2)] by metis

lemma page_accounts_for_every_record_witness:
  "\<exists>page out. sample_page 3 None = Inr page \<and> ex_parts (page_execution page) = [out] \<and>
     outcome_means (SpanFilters span_all_none) None (resident_views Spans (spans_store 3)) (page_items page) out"
proof -
  obtain page where page: "sample_page 3 None = Inr page"
    using first_page_exists unfolding sample_page_def by blast
  have "scannable (spans_store 3)" "0 < qb_max_results paging_budget"
    by (simp_all add: spans_store_scannable paging_budget_def)
  from page_accounts_for_every_record [OF this page [unfolded sample_page_def records_def]] page
  show ?thesis by (auto simp: present_def past_def simp del: resident_views.simps)
qed

section \<open>A chain of pages\<close>

definition page_omitted :: "record_view page \<Rightarrow> nat" where
  "page_omitted page =
     (case ex_parts (page_execution page) of
        [Degraded t] \<Rightarrow> tr_omitted t
      | _ \<Rightarrow> 0)"

text \<open>Pages of one query, each continued from the cursor of the one before it, each under a budget
  and a clock of its own: the snapshot, the records returned so far, and the page arrived at.\<close>

inductive paged ::
  "layout \<Rightarrow> memory_store \<Rightarrow> records_query \<Rightarrow> admission_key option \<Rightarrow> record_view list \<Rightarrow>
     record_view page \<Rightarrow> bool" for L st q where
  first: "records L clk (memory_query_store st) q b None = Inr page \<Longrightarrow> 0 < qb_max_results b \<Longrightarrow>
    paged L st q None (page_items page) page"
| continued: "paged L st q snap items page \<Longrightarrow> page_next_cursor page = Some bs \<Longrightarrow>
    page_omitted page = 0 \<Longrightarrow> cursor_decode bs = Inr p \<Longrightarrow>
    records L clk (memory_query_store st) q b (Some bs) = Inr page' \<Longrightarrow> 0 < qb_max_results b \<Longrightarrow>
    paged L st q (Some (cp_snapshot p)) (items @ page_items page') page'"

lemma up_to_split:
  assumes "om_sorted rs" "a \<le> c"
  shows "up_to a rs @ up_to c (past (Some a) rs) = up_to c rs"
  using assms
proof (induction rs)
  case (Cons p rs)
  then have tail: "om_sorted rs" and head: "\<forall>q \<in> set rs. fst p < fst q" by simp_all
  show ?case
  proof (cases "fst p \<le> a")
    case True
    with Cons tail show ?thesis by (auto simp: up_to_def past_def)
  next
    case False
    then have "up_to a rs = []" using head by (fastforce simp: up_to_def filter_empty_conv)
    moreover have "past (Some a) (p # rs) = p # rs"
      using False head by (fastforce simp: past_def filter_id_conv)
    ultimately show ?thesis using False by (simp add: up_to_def)
  qed
qed (simp add: up_to_def past_def)

lemma anchored_payload:
  assumes "anchored fs presented rs items 0 bs" "pred_option wf_cursor presented"
    "list_all (\<lambda>p. wf_key (fst p)) rs"
  obtains p where "cursor_decode bs = Inr p" "follows presented rs p"
    "items = map snd (hits fs (up_to (resume_key p) rs))"
proof -
  from assms(1) obtain p where p: "bs = cursor_encode p" "follows presented rs p"
    "items = map snd (take (length items) (hits fs (up_to (resume_key p) rs)))"
    "length items = length (hits fs (up_to (resume_key p) rs))"
    by (auto simp: anchored_def)
  have "wf_cursor p"
  proof (cases "presented = Some p")
    case False
    then have "wf_key (resume_key p)" "wf_key (cp_snapshot p)"
      using p(2) assms(2,3)
      by (auto simp: follows_def list_all_iff wf_cursor_def wf_key_def split: option.splits)
    then show ?thesis by (simp add: wf_cursor_def wf_key_def resume_key_def)
  qed (use assms(2) in simp)
  with p show thesis by (intro that [of p]) (simp_all add: cursor_decode_encode)
qed

lemma hits_joined:
  assumes "om_sorted rs" "a \<le> c"
  shows "map snd (hits fs (up_to a rs)) @ map snd (hits fs (up_to c (past (Some a) rs))) =
    map snd (hits fs (up_to c rs))"
  by (simp flip: map_append hits_simps(2) add: up_to_split [OF assms])

definition positioned ::
  "records_query \<Rightarrow> resident_views \<Rightarrow> admission_key option \<Rightarrow> record_view list \<Rightarrow> cursor_payload \<Rightarrow> bool" where
  "positioned q R snap items p \<longleftrightarrow>
     resume_key p \<le> cp_snapshot p \<and> pred_option (\<lambda>s. cp_snapshot p = s) snap \<and>
     items = map snd (hits (rq_filters q) (up_to (resume_key p) R))"

lemma positioned_first:
  assumes "follows None R p" "items = map snd (hits (rq_filters q) (up_to (resume_key p) R))"
  shows "positioned q R None items p"
  using assms by (simp add: positioned_def follows_def)

lemma positioned_next:
  assumes sorted: "om_sorted R" and pos: "positioned q R snap items p"
    and follow: "follows (Some p) (past (Some (resume_key p)) R) p'"
    and items': "items' = map snd (hits (rq_filters q) (up_to (resume_key p') (past (Some (resume_key p)) R)))"
  shows "positioned q R (Some (cp_snapshot p)) (items @ items') p'"
proof (cases "p' = p")
  case True
  have "up_to (resume_key p) (past (Some (resume_key p)) R) = []"
    by (auto simp: up_to_def past_def filter_empty_conv)
  with True pos items' show ?thesis by (simp add: positioned_def)
next
  case False
  with follow have keys: "resume_key p' \<in> fst ` set (past (Some (resume_key p)) R)"
    "resume_key p' \<le> cp_snapshot p'" "cp_snapshot p' = cp_snapshot p"
    by (auto simp: follows_def)
  then have le: "resume_key p \<le> resume_key p'" by (auto simp: past_def)
  with pos keys items' hits_joined [OF sorted le] show ?thesis by (simp add: positioned_def)
qed

lemma resident_views_sorted: "scannable st \<Longrightarrow> om_sorted (resident_views k st)"
  by (rule memory_engine.resident_sorted)

lemma resident_past_fit:
  "resident_keys_fit st \<Longrightarrow> list_all (\<lambda>p. wf_key (fst p)) (past after (resident_views k st))"
  using past_subset [of after "resident_views k st"] by (auto simp: resident_keys_fit_def list_all_iff)

lemma paged_invariant:
  assumes "scannable st" "resident_keys_fit st"
  shows "paged L st q snap items page \<Longrightarrow>
    (ex_parts (page_execution page) = [Complete] \<longrightarrow>
       items = map snd (hits (rq_filters q) (bounded snap (resident_views (rq_kind q) st)))) \<and>
    (\<forall>bs. page_next_cursor page = Some bs \<longrightarrow> page_omitted page = 0 \<longrightarrow>
       (\<exists>p. cursor_decode bs = Inr p \<and>
          positioned q (resident_views (rq_kind q) st) snap items p))"
proof (induction rule: paged.induct)
  case (first clk b page)
  let ?R = "resident_views (rq_kind q) st"
  obtain presented out where pres: "present q None None = Inr presented"
    and part: "ex_parts (page_execution page) = [out]"
    and means: "outcome_means (rq_filters q) presented (past (map_option resume_key presented) ?R)
      (page_items page) out"
    and cursor: "\<forall>bs. page_next_cursor page = Some bs \<longleftrightarrow> (\<exists>t. out = Degraded t \<and> tr_position t = CursorAt bs)"
    by (rule records_inner_judged [OF assms(1) first(1) [unfolded records_def] first(2)])
  have R: "presented = None" "past (map_option resume_key presented) ?R = ?R"
    using pres by (simp_all add: present_def past_def)
  show ?case
  proof (intro conjI impI allI)
    assume "ex_parts (page_execution page) = [Complete]"
    with part means R show "page_items page = map snd (hits (rq_filters q) (bounded None ?R))"
      by (simp add: bounded_def)
  next
    fix bs assume bs: "page_next_cursor page = Some bs" "page_omitted page = 0"
    with cursor obtain t where t: "out = Degraded t" "tr_position t = CursorAt bs" by blast
    with bs part have "tr_omitted t = 0" by (simp add: page_omitted_def)
    with means t R have "anchored (rq_filters q) None ?R (page_items page) 0 bs" by simp
    moreover have "list_all (\<lambda>p. wf_key (fst p)) ?R"
      using assms(2) by (simp add: resident_keys_fit_def)
    ultimately show "\<exists>p. cursor_decode bs = Inr p \<and> positioned q ?R None (page_items page) p"
      by (elim anchored_payload) (use positioned_first in auto)
  qed
next
  case (continued snap items page bs p clk b page')
  let ?R = "resident_views (rq_kind q) st" and ?rs = "past (Some (resume_key p)) (resident_views (rq_kind q) st)"
  from continued have p: "positioned q ?R snap items p" by auto
  obtain presented out where pres: "present q (Some bs) None = Inr presented"
    and part: "ex_parts (page_execution page') = [out]"
    and means: "outcome_means (rq_filters q) presented (past (map_option resume_key presented) ?R)
      (page_items page') out"
    and cursor: "\<forall>bs. page_next_cursor page' = Some bs \<longleftrightarrow> (\<exists>t. out = Degraded t \<and> tr_position t = CursorAt bs)"
    by (rule records_inner_judged [OF assms(1) continued(5) [unfolded records_def] continued(6)])
  have presented: "presented = Some p" using pres continued(4) by (simp add: present_Inr)
  have sorted: "om_sorted ?R" using assms(1) by (rule resident_views_sorted)
  show ?case
  proof (intro conjI impI allI)
    assume "ex_parts (page_execution page') = [Complete]"
    with part means presented have "page_items page' = map snd (hits (rq_filters q) (up_to (cp_snapshot p) ?rs))"
      by (simp add: bounded_def)
    with p hits_joined [OF sorted, of "resume_key p" "cp_snapshot p"]
    show "items @ page_items page' = map snd (hits (rq_filters q) (bounded (Some (cp_snapshot p)) ?R))"
      by (simp add: positioned_def bounded_def)
  next
    fix bs' assume bs': "page_next_cursor page' = Some bs'" "page_omitted page' = 0"
    with cursor obtain t where t: "out = Degraded t" "tr_position t = CursorAt bs'" by blast
    with bs' part have "tr_omitted t = 0" by (simp add: page_omitted_def)
    with means t presented have "anchored (rq_filters q) (Some p) ?rs (page_items page') 0 bs'" by simp
    then obtain p' where "cursor_decode bs' = Inr p'" "follows (Some p) ?rs p'"
      "page_items page' = map snd (hits (rq_filters q) (up_to (resume_key p') ?rs))"
      using decode_wf [OF continued(4)] resident_past_fit [OF assms(2)]
      by (elim anchored_payload) simp_all
    with positioned_next [OF sorted p] show
      "\<exists>p'. cursor_decode bs' = Inr p' \<and> positioned q ?R (Some (cp_snapshot p)) (items @ page_items page') p'"
      by blast
  qed
qed

text \<open>C2: Pagination is lossless within the snapshot. Continue a query page by page, each page
  under any clock and any budget that allows a result at all, with no page cut by the byte ceiling: once a page is complete,
  the records returned so far are exactly the resident matches of the snapshot the cursors carry
  (of the whole store, if the first page was complete), each once and in residency order.\<close>

theorem pagination_lossless:
  assumes "scannable st" "resident_keys_fit st" "paged L st q snap items page"
    "ex_parts (page_execution page) = [Complete]"
  shows "items = map snd (hits (rq_filters q) (bounded snap (resident_views (rq_kind q) st)))"
  using paged_invariant [OF assms(1-3)] assms(4) by blast

section \<open>A page under its results ceiling\<close>

lemma up_to_past: "om_sorted rs \<Longrightarrow> rs = up_to a rs @ past (Some a) rs"
proof (induction rs)
  case (Cons q rs)
  then have head: "\<forall>r \<in> set rs. fst q < fst r" and IH: "rs = up_to a rs @ past (Some a) rs"
    by simp_all
  show ?case
  proof (cases "fst q \<le> a")
    case True
    with IH show ?thesis by (simp add: up_to_def past_def)
  next
    case False
    then have "up_to a (q # rs) = []" "past (Some a) (q # rs) = q # rs"
      using head by (fastforce simp: up_to_def past_def filter_empty_conv filter_id_conv)+
    then show ?thesis by simp
  qed
qed (simp add: up_to_def past_def)

lemma follows_bounded:
  assumes sorted: "om_sorted rs" and follow: "follows presented rs p"
    and some: "up_to (resume_key p) rs \<noteq> []" and resumed: "resumed presented rs"
  shows "\<exists>es. bounded (map_option cp_snapshot presented) rs = up_to (resume_key p) rs @ es"
proof -
  have "presented \<noteq> Some p"
    using some resumed by (fastforce simp: resumed_def up_to_def filter_empty_conv)
  with follow have le: "resume_key p \<le> cp_snapshot p"
    and snap: "presented = None \<or> (\<exists>p0. presented = Some p0 \<and> cp_snapshot p = cp_snapshot p0)"
    by (auto simp: follows_def split: option.splits)
  have "up_to (cp_snapshot p) rs = up_to (resume_key p) rs @ up_to (cp_snapshot p) (past (Some (resume_key p)) rs)"
    by (simp add: up_to_split [OF sorted le])
  moreover have "rs = up_to (resume_key p) rs @ past (Some (resume_key p)) rs"
    using up_to_past [OF sorted] .
  ultimately show ?thesis using snap by (auto simp: bounded_def)
qed

lemma ceiling_page:
  assumes "scannable st" "present q continuation lease = Inr presented" "0 < qb_max_results b"
    "\<forall>n. clk n - clk 0 < qb_deadline b"
    "length (past (map_option resume_key presented) (resident_views (rq_kind q) st)) \<le> qb_max_scan b"
    "evidence_total L (map snd (hits (rq_filters q)
       (past (map_option resume_key presented) (resident_views (rq_kind q) st)))) \<le> qb_max_bytes b"
    "records_inner L clk (memory_query_store st) q b continuation lease = Inr page"
  shows "let matches = map snd (hits (rq_filters q) (bounded (map_option cp_snapshot presented)
           (past (map_option resume_key presented) (resident_views (rq_kind q) st))))
    in page_items page = take (qb_max_results b) matches \<and>
       (ex_parts (page_execution page) = [Complete] \<longleftrightarrow> length matches \<le> qb_max_results b) \<and>
       (page_next_cursor page \<noteq> None \<longleftrightarrow> qb_max_results b < length matches) \<and>
       page_omitted page = 0"
proof -
  let ?S = "memory_query_store st" and ?rs = "past (map_option resume_key presented) (resident_views (rq_kind q) st)"
  define w where "w = run L clk ?S (start_walk ?S q (admit b (clk 0)) presented 1)"
  let ?ms = "hits (rq_filters q) (bounded (map_option cp_snapshot presented) ?rs)"
  have page: "page = assemble w" using assms(2,3,7) by (auto simp: records_inner_Inr w_def)
  have "live clk (admit b (clk 0))"
    using assms(4) by (simp add: live_def deadline_exhausted_def deadline_remaining_def admit_def not_le)
  then have stop: "ceiling_stop (rq_filters q) presented ?rs (qb_max_results b) w"
    using memory_engine.ceilings_judged [OF assms(1) refl, of "admit b (clk 0)" clk presented q L 1] assms(3,5,6)
    unfolding w_def by simp
  have judged: "judged (rq_filters q) presented ?rs w"
    unfolding w_def by (rule memory_engine.page_judged [OF assms(1) refl])
  have most: "length (wk_items w) \<le> qb_max_results b"
    unfolding w_def using page_within_its_budget_walk [where clk = clk and presented = presented and S = ?S] by blast
  show ?thesis
  proof (cases "wk_stopped w = Some Complete")
    case True
    then have items: "wk_items w = map snd ?ms" using judged by (auto simp: judged_def)
    have "page_next_cursor page = None"
      unfolding page assemble_def True Let_def by simp
    moreover have "length ?ms \<le> qb_max_results b" using most items by simp
    ultimately show ?thesis
      by (simp add: page assemble_part [OF True] page_omitted_def items Let_def)
  next
    case False
    with stop obtain bs where len: "length (wk_items w) = qb_max_results b" "qb_max_results b < length ?ms"
      and deg: "wk_stopped w = Some (Degraded \<lparr>tr_dimension = Results, tr_position = CursorAt bs, tr_omitted = 0\<rparr>)"
      by (auto simp: ceiling_stop_def)
    from judged deg obtain p where p: "follows presented ?rs p"
      "wk_items w = map snd (take (length (wk_items w)) (hits (rq_filters q) (up_to (resume_key p) ?rs)))"
      "length (wk_items w) = length (hits (rq_filters q) (up_to (resume_key p) ?rs))"
      by (auto simp: judged_def anchored_def)
    have "up_to (resume_key p) ?rs \<noteq> []" using p(3) len(1) assms(3) by auto
    moreover have "resumed presented ?rs" by (auto simp: resumed_def past_def)
    ultimately obtain es where "bounded (map_option cp_snapshot presented) ?rs = up_to (resume_key p) ?rs @ es"
      using follows_bounded [OF memory_engine.past_sorted [OF assms(1)] p(1)] by blast
    then have "wk_items w = take (qb_max_results b) (map snd ?ms)"
      using p(2,3) len(1) by simp
    moreover have "page_next_cursor page = Some bs" by (simp add: page assemble_cursor deg)
    ultimately show ?thesis
      using len(2) by (simp add: page assemble_part [OF deg] page_omitted_def Let_def)
  qed
qed

text \<open>C17: With room under the scan, byte and time ceilings, the results ceiling alone decides a
  page, batches or not: it returns exactly the first matches of its snapshot, as many as the ceiling
  allows; it is complete exactly when there are no more; and when there are more it hands out a
  cursor.\<close>

theorem results_ceiling_decides:
  assumes "scannable st" "present q continuation lease = Inr presented" "0 < qb_max_results b"
    "\<forall>n. clk n - clk 0 < qb_deadline b"
    "length (past (map_option resume_key presented) (resident_views (rq_kind q) st)) \<le> qb_max_scan b"
    "evidence_total L (map snd (hits (rq_filters q)
       (past (map_option resume_key presented) (resident_views (rq_kind q) st)))) \<le> qb_max_bytes b"
    "records_inner L clk (memory_query_store st) q b continuation lease = Inr page"
  shows "let matches = map snd (hits (rq_filters q) (bounded (map_option cp_snapshot presented)
           (past (map_option resume_key presented) (resident_views (rq_kind q) st))))
    in page_items page = take (qb_max_results b) matches \<and>
       (ex_parts (page_execution page) = [Complete] \<longleftrightarrow> length matches \<le> qb_max_results b) \<and>
       (page_next_cursor page \<noteq> None \<longleftrightarrow> qb_max_results b < length matches) \<and>
       page_omitted page = 0"
  using ceiling_page [OF assms] .

lemma spans_store_hits:
  "hits (SpanFilters span_all_none) (past after (resident_views Spans (spans_store n))) =
     past after (resident_views Spans (spans_store n))"
proof -
  have "\<forall>p \<in> set (resident_views Spans (spans_store n)). records_match (SpanFilters span_all_none) (snd p)"
    by (auto simp: spans_store_views span_filters_match_def span_all_none_def is_none_or_def
        simp del: resident_views.simps)
  then show ?thesis
    using past_subset [of after "resident_views Spans (spans_store n)"]
    by (auto simp: hits_def filter_id_conv simp del: resident_views.simps)
qed

lemma sample_evidence: "evidence_of layout64 (SpanView (sample_span 1 ''s'' None)) \<le> 10000"
proof -
  have "span_size layout64 (sample_span 1 ''s'' None) \<le> 10000"
    by (simp add: span_size_def sample_defs size_constants attributes_size_def attribute_entry_size_def
        resource_size_def scope_size_def context_size_def status_size_def heap_string_bytes_def opt_bytes_def
        opt_string_bytes_def trace_state_size_def trace_id_size_def span_id_size_def trace_id_length_def
        span_id_length_def)
  then show ?thesis by (simp only: evidence_of.simps order.trans [OF sat_u64_le])
qed

lemma evidence_total_bound:
  "\<forall>v \<in> set vs. evidence_of L v \<le> c \<Longrightarrow> evidence_total L vs \<le> c * length vs"
  by (induction vs) (simp_all add: evidence_total_def del: evidence_of.simps)

lemma spans_store_past:
  assumes "p \<in> set (past after (resident_views Spans (spans_store n)))"
  shows "snd p = SpanView (sample_span 1 ''s'' None)"
proof -
  from assms have "p \<in> set (resident_views Spans (spans_store n))"
    using past_subset by blast
  then show ?thesis by (simp only: spans_store_views) auto
qed

lemma spans_store_past_length: "length (past after (resident_views Spans (spans_store n))) \<le> n"
proof -
  have "length (past after (resident_views Spans (spans_store n))) \<le> length (resident_views Spans (spans_store n))"
    by (cases after) (simp_all add: past_def del: resident_views.simps)
  also have "\<dots> = n" by (simp only: spans_store_views) simp
  finally show ?thesis .
qed

lemma spans_store_evidence:
  "evidence_total layout64 (map snd (past after (resident_views Spans (spans_store n)))) \<le> 10000 * n"
proof -
  let ?vs = "map snd (past after (resident_views Spans (spans_store n)))"
  have "\<forall>v \<in> set ?vs. evidence_of layout64 v \<le> 10000"
    using spans_store_past [of _ after n] sample_evidence by (metis (no_types, lifting) imageE set_map)
  then have "evidence_total layout64 ?vs \<le> 10000 * length ?vs" by (rule evidence_total_bound)
  also have "\<dots> \<le> 10000 * n" using spans_store_past_length [of after n] by simp
  finally show ?thesis .
qed

lemma hits_bounded: "hits fs (bounded b rs) = bounded b (hits fs rs)"
  by (cases b) (simp_all add: hits_def bounded_def up_to_def conj_commute)

lemma sample_query [simp]: "rq_filters (query_new Spans) = SpanFilters span_all_none" "rq_kind (query_new Spans) = Spans"
  by simp_all

lemma sample_page_decided:
  assumes "n \<le> 100" "present (query_new Spans) continuation None = Inr presented"
    "sample_page n continuation = Inr page"
  shows "let matches = map snd (bounded (map_option cp_snapshot presented)
       (past (map_option resume_key presented) (resident_views Spans (spans_store n))))
    in page_items page = take 1 matches \<and>
       (ex_parts (page_execution page) = [Complete] \<longleftrightarrow> length matches \<le> 1) \<and>
       (page_next_cursor page \<noteq> None \<longleftrightarrow> 1 < length matches) \<and> page_omitted page = 0"
proof -
  let ?rs = "past (map_option resume_key presented) (resident_views Spans (spans_store n))"
  have "length ?rs \<le> n" by (rule spans_store_past_length)
  moreover have "evidence_total layout64 (map snd ?rs) \<le> 10 ^ 6"
    using spans_store_evidence [of "map_option resume_key presented" n] assms(1) by simp
  moreover have "scannable (spans_store n)" using assms(1) by (simp add: spans_store_scannable)
  ultimately show ?thesis
    using ceiling_page [of "spans_store n" "query_new Spans" continuation None presented paging_budget
        "\<lambda>_. 0" layout64 page] assms
    by (simp add: sample_page_def records_def paging_budget_def spans_store_hits hits_bounded
        del: resident_views.simps query_new.simps)
qed

text \<open>The first page of three spans under a results ceiling of one.\<close>

lemma results_ceiling_decides_witness:
  "\<exists>page. sample_page 3 None = Inr page \<and> page_items page = [SpanView (sample_span 1 ''s'' None)]"
proof -
  obtain page where page: "sample_page 3 None = Inr page"
    using first_page_exists unfolding sample_page_def by blast
  have "evidence_total layout64 (map snd (resident_views Spans (spans_store 3))) \<le> 10 ^ 6"
    using spans_store_evidence [of None 3] by (simp add: past_def del: resident_views.simps)
  then have "page_items page = take 1 (map snd (resident_views Spans (spans_store 3)))"
    using results_ceiling_decides [of "spans_store 3" "query_new Spans" None None None paging_budget
        "\<lambda>_. 0" layout64 page] page spans_store_hits [of None 3]
    by (simp add: sample_page_def records_def paging_budget_def present_def past_def bounded_def
        spans_store_scannable spans_store_views Let_def del: resident_views.simps query_new.simps)
  with page show ?thesis by (simp add: spans_store_views upt_rec del: resident_views.simps)
qed

lemma minted_cursor_is_accepted_witness:
  "\<exists>page bs p. sample_page 2 None = Inr page \<and> page_next_cursor page = Some bs \<and>
     present (query_new Spans) (Some bs) None = Inr (Some p)"
proof -
  have ok: "scannable (spans_store 2)" "resident_keys_fit (spans_store 2)"
    by (simp_all add: spans_store_scannable spans_store_keys_fit)
  obtain page where page: "sample_page 2 None = Inr page"
    using first_page_exists unfolding sample_page_def by blast
  have "length (resident_views Spans (spans_store 2)) = 2" by (simp only: spans_store_views) simp
  then obtain bs where bs: "page_next_cursor page = Some bs"
    using sample_page_decided [of 2 None None page] page
    by (auto simp: present_def past_def bounded_def Let_def simp del: resident_views.simps query_new.simps)
  from minted_cursor_is_accepted [OF memory_keys_fit [OF ok] page [unfolded sample_page_def records_def] bs]
    page bs show ?thesis by blast
qed

text \<open>Two spans, two pages.\<close>

lemma sample_chain:
  "\<exists>snap items page. paged layout64 (spans_store 2) (query_new Spans) (Some snap) items page \<and>
     ex_parts (page_execution page) = [Complete]"
proof -
  let ?q = "query_new Spans" and ?S = "memory_query_store (spans_store 2)" and ?R = "resident_views Spans (spans_store 2)"
  have ok: "scannable (spans_store 2)" "resident_keys_fit (spans_store 2)"
    by (simp_all add: spans_store_scannable spans_store_keys_fit)
  have sorted: "om_sorted ?R" using ok(1) by (rule resident_views_sorted)
  have two: "length ?R = 2" by (simp only: spans_store_views) simp
  have pos: "0 < qb_max_results paging_budget" by (simp add: paging_budget_def)
  obtain page1 where page1: "sample_page 2 None = Inr page1"
    using first_page_exists unfolding sample_page_def by blast
  have first: "paged layout64 (spans_store 2) ?q None (page_items page1) page1"
    using page1 pos unfolding sample_page_def by (rule paged.first)
  have one: "page_items page1 = take 1 (map snd ?R)" "page_next_cursor page1 \<noteq> None" "page_omitted page1 = 0"
    using sample_page_decided [of 2 None None page1] page1 two
    by (simp_all add: present_def past_def bounded_def Let_def del: resident_views.simps query_new.simps)
  then obtain bs where bs: "page_next_cursor page1 = Some bs" by blast
  with paged_invariant [OF ok first] one obtain p where p: "cursor_decode bs = Inr p"
    "positioned ?q ?R None (page_items page1) p" by auto
  have fp: "cp_fingerprint p = query_fingerprint ?q"
    using minted_cursor_payload [OF memory_keys_fit [OF ok] page1 [unfolded sample_page_def records_def] bs] p(1)
    by auto
  have pres: "present ?q (Some bs) None = Inr (Some p)" by (simp add: present_Inr p fp)
  then obtain page2 where page2: "sample_page 2 (Some bs) = Inr page2"
    by (auto simp: sample_page_def records_def records_inner_Inr)
  let ?rs = "past (Some (resume_key p)) ?R"
  have "length (up_to (resume_key p) ?R) = 1"
  proof -
    have "length (hits (SpanFilters span_all_none) (up_to (resume_key p) ?R)) = 1"
    proof -
      have "length (page_items page1) = 1" using one(1) two by (simp del: resident_views.simps)
      moreover have "page_items page1 = map snd (hits (SpanFilters span_all_none) (up_to (resume_key p) ?R))"
        using p(2) by (simp add: positioned_def del: resident_views.simps)
      ultimately show ?thesis by (simp del: resident_views.simps)
    qed
    moreover have "hits (SpanFilters span_all_none) (up_to (resume_key p) ?R) = up_to (resume_key p) ?R"
      using hits_bounded [of _ "Some (resume_key p)" ?R] spans_store_hits [of None 2]
      by (simp add: bounded_def past_def del: resident_views.simps)
    ultimately show ?thesis by simp
  qed
  then have "length ?rs = 1"
    using two arg_cong [OF up_to_past [OF sorted, of "resume_key p"], of length]
    by (simp del: resident_views.simps)
  then have "length (map snd (bounded (Some (cp_snapshot p)) ?rs)) \<le> 1"
    using length_filter_le [of "\<lambda>r. fst r \<le> cp_snapshot p" ?rs]
    by (simp add: bounded_def up_to_def del: resident_views.simps)
  then have "ex_parts (page_execution page2) = [Complete]"
    using sample_page_decided [of 2 "Some bs" "Some p" page2] pres page2
    by (simp add: Let_def del: resident_views.simps query_new.simps)
  moreover have "paged layout64 (spans_store 2) ?q (Some (cp_snapshot p)) (page_items page1 @ page_items page2) page2"
    by (rule paged.continued [OF first bs one(3) p(1) page2 [unfolded sample_page_def] pos])
  ultimately show ?thesis by blast
qed

lemma pagination_lossless_witness:
  "\<exists>snap items page. paged layout64 (spans_store 2) (query_new Spans) (Some snap) items page \<and>
     items = map snd (hits (SpanFilters span_all_none) (up_to snap (resident_views Spans (spans_store 2))))"
proof -
  obtain snap items page where chain: "paged layout64 (spans_store 2) (query_new Spans) (Some snap) items page"
    "ex_parts (page_execution page) = [Complete]" using sample_chain by blast
  have "scannable (spans_store 2)" "resident_keys_fit (spans_store 2)"
    by (simp_all add: spans_store_scannable spans_store_keys_fit)
  from pagination_lossless [OF this chain] chain(1) show ?thesis
    by (auto simp: bounded_def simp del: resident_views.simps)
qed

section \<open>Where the snapshot lies\<close>

lemma up_to_take:
  assumes "om_sorted rs" "0 < n" "n \<le> length rs"
  shows "up_to (fst (rs ! (n - 1))) rs = take n rs"
proof -
  have "om_sorted (take n rs @ drop n rs)" using assms(1) by simp
  moreover have "last_key (take n rs) = Some (fst (rs ! (n - 1)))"
    using assms(2,3) by (cases "rs = []") (simp_all add: last_key_def last_conv_nth)
  ultimately show ?thesis using up_to_last by fastforce
qed

lemma first_page_snapshot:
  assumes st: "scannable st" "resident_keys_fit st"
    and results: "0 < qb_max_results b"
      "qb_max_results b < length (hits (rq_filters q) (take SCAN_BATCH (resident_views (rq_kind q) st)))"
    and room: "\<forall>n. clk n - clk 0 < qb_deadline b"
      "length (resident_views (rq_kind q) st) \<le> qb_max_scan b"
      "evidence_total L (map snd (hits (rq_filters q) (resident_views (rq_kind q) st))) \<le> qb_max_bytes b"
    and more: "SCAN_BATCH < length (resident_views (rq_kind q) st)"
    and page: "records L clk (memory_query_store st) q b None = Inr page"
  shows "\<exists>bs p. page_next_cursor page = Some bs \<and> cursor_decode bs = Inr p \<and>
    cp_snapshot p = fst (resident_views (rq_kind q) st ! (SCAN_BATCH - 1))"
proof -
  let ?S = "memory_query_store st"
  let ?w = "run L clk ?S (start_walk ?S q (admit b (clk 0)) None 1)"
  have "live clk (admit b (clk 0))"
    using room(1) by (simp add: live_def deadline_exhausted_def deadline_remaining_def admit_def not_le)
  with memory_engine.first_batch_pins [OF st(1) refl, of "admit b (clk 0)" q clk L 1] results room more
  obtain p where p: "wf_cursor p" "wk_stopped ?w =
      Some (Degraded \<lparr>tr_dimension = Results, tr_position = CursorAt (cursor_encode p), tr_omitted = 0\<rparr>)"
    "cp_snapshot p = fst (resident_views (rq_kind q) st ! (SCAN_BATCH - 1))"
    using st(2) by (auto simp: resident_keys_fit_def simp del: resident_views.simps)
  have "page = assemble ?w"
    using page results(1) by (auto simp: records_def records_inner_Inr present_def)
  then have "page_next_cursor page = Some (cursor_encode p)" using p(2) by (simp only: assemble_cursor) auto
  with p cursor_decode_encode show ?thesis by blast
qed

text \<open>C32: A first page that fills its results inside its first batch fixes the snapshot at the end
  of that batch, not at the resident set it was admitted over: its cursor's snapshot is the key of the
  64th resident record, and however the continuation is paged, once it is complete it has returned
  the matches among those 64. Records beyond them that were resident when the first page was
  admitted are in no page of the chain, and its last page is complete.\<close>

theorem first_page_pins_its_batch:
  assumes "scannable st" "resident_keys_fit st" "0 < qb_max_results b"
    "qb_max_results b < length (hits (rq_filters q) (take SCAN_BATCH (resident_views (rq_kind q) st)))"
    "\<forall>n. clk n - clk 0 < qb_deadline b" "length (resident_views (rq_kind q) st) \<le> qb_max_scan b"
    "evidence_total L (map snd (hits (rq_filters q) (resident_views (rq_kind q) st))) \<le> qb_max_bytes b"
    "SCAN_BATCH < length (resident_views (rq_kind q) st)"
    "records L clk (memory_query_store st) q b None = Inr page"
  shows "\<exists>bs p. page_next_cursor page = Some bs \<and> cursor_decode bs = Inr p \<and>
    cp_snapshot p = fst (resident_views (rq_kind q) st ! (SCAN_BATCH - 1)) \<and>
    (\<forall>items page'. paged L st q (Some (cp_snapshot p)) items page' \<longrightarrow>
       ex_parts (page_execution page') = [Complete] \<longrightarrow>
       items = map snd (hits (rq_filters q) (take SCAN_BATCH (resident_views (rq_kind q) st))))"
proof -
  let ?R = "resident_views (rq_kind q) st"
  obtain bs p where p: "page_next_cursor page = Some bs" "cursor_decode bs = Inr p"
    "cp_snapshot p = fst (?R ! (SCAN_BATCH - 1))"
    using first_page_snapshot [OF assms] by blast
  have "up_to (cp_snapshot p) ?R = take SCAN_BATCH ?R"
    unfolding p(3) using assms(8) resident_views_sorted [OF assms(1)] by (intro up_to_take) (simp_all add: SCAN_BATCH_def)
  then have "items = map snd (hits (rq_filters q) (take SCAN_BATCH ?R))"
    if "paged L st q (Some (cp_snapshot p)) items page'" "ex_parts (page_execution page') = [Complete]"
    for items page'
    using paged_invariant [OF assms(1,2) that(1)] that(2) by (simp add: bounded_def del: resident_views.simps)
  with p show ?thesis by blast
qed

text \<open>Seventy resident spans, pages of one: a completed chain returns 64 of them.\<close>

lemma first_page_pins_its_batch_witness:
  "\<exists>page bs p. sample_page 70 None = Inr page \<and> page_next_cursor page = Some bs \<and> cursor_decode bs = Inr p \<and>
    (\<forall>items page'. paged layout64 (spans_store 70) (query_new Spans) (Some (cp_snapshot p)) items page' \<longrightarrow>
       ex_parts (page_execution page') = [Complete] \<longrightarrow> length items = 64)"
proof -
  obtain page where page: "sample_page 70 None = Inr page"
    using first_page_exists unfolding sample_page_def by blast
  let ?R = "resident_views Spans (spans_store 70)"
  have len: "length ?R = 70" by (simp only: spans_store_views) simp
  have hits: "hits (SpanFilters span_all_none) ?R = ?R"
    using spans_store_hits [of None 70] by (simp add: past_def del: resident_views.simps)
  then have front: "hits (SpanFilters span_all_none) (take SCAN_BATCH ?R) = take SCAN_BATCH ?R"
    by (auto simp: hits_def filter_id_conv filter_eq_Cons_iff dest: in_set_takeD simp del: resident_views.simps)
  have "evidence_total layout64 (map snd ?R) \<le> 10 ^ 6"
    using spans_store_evidence [of None 70] by (simp add: past_def del: resident_views.simps)
  then have "\<exists>bs p. page_next_cursor page = Some bs \<and> cursor_decode bs = Inr p \<and>
      cp_snapshot p = fst (?R ! (SCAN_BATCH - 1)) \<and>
      (\<forall>items page'. paged layout64 (spans_store 70) (query_new Spans) (Some (cp_snapshot p)) items page' \<longrightarrow>
         ex_parts (page_execution page') = [Complete] \<longrightarrow> items = map snd (take SCAN_BATCH ?R))"
    using first_page_pins_its_batch [of "spans_store 70" paging_budget "query_new Spans" "\<lambda>_. 0" layout64 page]
      page len hits front
    by (simp add: sample_page_def paging_budget_def spans_store_scannable spans_store_keys_fit SCAN_BATCH_def
        del: resident_views.simps query_new.simps)
  then show ?thesis using page len by (fastforce simp: SCAN_BATCH_def simp del: resident_views.simps query_new.simps)
qed

end
