(* ===== verification/Relations.thy ===== *)
theory Relations
  imports Store_Reader
begin

text \<open>
  The taxonomy of relations and the bounds and truth of a correlation run:
  \<open>crates/correlation/src/relations.rs\<close> and \<open>bounds.rs\<close>.

  A strategy and the relation type it produces share their names in the source; the constructors of
  the relation types carry the suffix \<open>Rel\<close> here, and those of the endpoint kinds \<open>End\<close>. The
  ceilings are \<open>u64\<close> in the source and \<open>nat\<close> here: the run only compares them with counts that
  stay below them.
\<close>

section \<open>Relations\<close>

record strategy_version =
  sv_name :: string
  sv_version :: string

datatype tier = IdentityTier | StructuralTier | AttachmentTier | ContextTier | TemporalTier

datatype relation_type =
    SpanIdentityRel
  | TraceIdentityRel
  | ParentChildRel
  | ResourceContextRel
  | TemporalCoActivityRel
  | ExemplarAttachmentRel
  | InferredRel

fun tier_of :: "relation_type \<Rightarrow> tier" where
  "tier_of SpanIdentityRel = IdentityTier"
| "tier_of TraceIdentityRel = IdentityTier"
| "tier_of InferredRel = IdentityTier"
| "tier_of ParentChildRel = StructuralTier"
| "tier_of ResourceContextRel = StructuralTier"
| "tier_of ExemplarAttachmentRel = AttachmentTier"
| "tier_of TemporalCoActivityRel = TemporalTier"

record evidence_fact =
  ef_field :: string
  ef_value :: model_value

record time_window =
  win_from :: u64
  win_to :: u64

definition window_len :: "time_window \<Rightarrow> u64" where
  "window_len w = (if win_from w \<le> win_to w then win_to w - win_from w else 0)"

definition window_is_empty :: "time_window \<Rightarrow> bool" where
  "window_is_empty w \<longleftrightarrow> win_to w \<le> win_from w"

datatype endpoint_kind = SpansEnd | LogRecordsEnd | MetricPointsEnd

record signal_ref =
  sr_kind :: endpoint_kind
  sr_entity :: entity_id

record 'r correlation_relation =
  rl_type :: relation_type
  rl_from :: 'r
  rl_to :: 'r
  rl_facts :: "evidence_fact list"
  rl_strategy :: strategy_version
  rl_window :: "time_window option"

definition relation_tier :: "'r correlation_relation \<Rightarrow> tier" where
  "relation_tier r = tier_of (rl_type r)"

section \<open>Strategies\<close>

datatype strategy =
    SpanIdentity
  | TraceIdentity
  | ParentChild
  | ResourceContext
  | ExemplarAttachment
  | TemporalCoActivity

fun strategy_name :: "strategy \<Rightarrow> string" where
  "strategy_name SpanIdentity = ''span_identity''"
| "strategy_name TraceIdentity = ''trace_identity''"
| "strategy_name ParentChild = ''parent_child''"
| "strategy_name ResourceContext = ''resource_context''"
| "strategy_name TemporalCoActivity = ''temporal_co_activity''"
| "strategy_name ExemplarAttachment = ''exemplar_attachment''"

definition strategy_version_of :: "strategy \<Rightarrow> string" where
  "strategy_version_of s = ''1.0.0''"

fun strategy_relation_type :: "strategy \<Rightarrow> relation_type" where
  "strategy_relation_type SpanIdentity = SpanIdentityRel"
| "strategy_relation_type TraceIdentity = TraceIdentityRel"
| "strategy_relation_type ParentChild = ParentChildRel"
| "strategy_relation_type ResourceContext = ResourceContextRel"
| "strategy_relation_type TemporalCoActivity = TemporalCoActivityRel"
| "strategy_relation_type ExemplarAttachment = ExemplarAttachmentRel"

definition version_of :: "strategy \<Rightarrow> strategy_version" where
  "version_of s = \<lparr>sv_name = strategy_name s, sv_version = strategy_version_of s\<rparr>"

definition STRATEGY_SET_VERSION :: string where "STRATEGY_SET_VERSION = ''1.0.0''"

definition COMMITTED_STRATEGIES :: "strategy list" where
  "COMMITTED_STRATEGIES =
     [SpanIdentity, TraceIdentity, ParentChild, ResourceContext, ExemplarAttachment,
      TemporalCoActivity]"

definition committed_versions :: "strategy_version list" where
  "committed_versions = map version_of COMMITTED_STRATEGIES"

section \<open>Bounds and truth\<close>

record correlation_bounds =
  cb_strategies :: "strategy list"
  cb_window :: "time_window option"
  cb_max_relations :: nat
  cb_max_hops :: nat
  cb_max_scan :: nat
  cb_subject_trace :: "trace_id option"

record suppression =
  su_log :: entity_id
  su_span :: entity_id
  su_suppressed :: nat

datatype absent_trace = AbsentTrace (at_log: entity_id)

datatype run_stop = MaxDepth nat | ScanExhausted nat | MaxRelations nat

record run_truth =
  tt_strategy_versions :: "strategy_version list"
  tt_suppressions :: "suppression list"
  tt_absent_traces :: "absent_trace list"
  tt_shrunken :: nat
  tt_stopped_at :: "run_stop option"
  tt_scan_spent :: nat

record correlation_outcome =
  co_relations :: "signal_ref correlation_relation list"
  co_truth :: run_truth

section \<open>The committed set\<close>

lemma committed_complete [simp]: "s \<in> set COMMITTED_STRATEGIES"
  by (cases s) (simp_all add: COMMITTED_STRATEGIES_def)

lemma committed_distinct: "distinct (map version_of COMMITTED_STRATEGIES)"
  by (simp add: COMMITTED_STRATEGIES_def version_of_def)

lemma strategy_relation_type_inject [simp]:
  "strategy_relation_type a = strategy_relation_type b \<longleftrightarrow> a = b"
  by (cases a; cases b) simp_all

lemma never_inferred [simp]: "strategy_relation_type s \<noteq> InferredRel"
  by (cases s) simp_all

end
