(* ===== verification/Ordering.thy ===== *)
theory Ordering
  imports Residency "HOL-Library.Multiset"
begin

text \<open>
  Sorting by a comparison, and the total order over results: \<open>crates/query/src/order.rs\<close>.

  \<open>sort_by\<close> is \<open>slice::sort_by\<close>: the stable sort by a three-valued comparison. What its clients
  rely on is proved once, in the locale \<open>comparator\<close>, from the two laws a comparison owes; the
  order over results and the order over relations provide them.
\<close>

section \<open>Sorting by a comparison\<close>

fun insert_by :: "('a \<Rightarrow> 'a \<Rightarrow> ordering) \<Rightarrow> 'a \<Rightarrow> 'a list \<Rightarrow> 'a list" where
  "insert_by cmp x [] = [x]"
| "insert_by cmp x (y # ys) = (if cmp x y = Greater then y # insert_by cmp x ys else x # y # ys)"

definition sort_by :: "('a \<Rightarrow> 'a \<Rightarrow> ordering) \<Rightarrow> 'a list \<Rightarrow> 'a list" where
  "sort_by cmp xs = foldr (insert_by cmp) xs []"

lemma sort_by_simps [simp]:
  "sort_by cmp [] = []" "sort_by cmp (x # xs) = insert_by cmp x (sort_by cmp xs)"
  by (simp_all add: sort_by_def)

lemma mset_insert_by [simp]: "mset (insert_by cmp x ys) = add_mset x (mset ys)"
  by (induction ys) auto

lemma set_insert_by [simp]: "set (insert_by cmp x ys) = insert x (set ys)"
  by (induction ys) auto

lemma mset_sort_by [simp]: "mset (sort_by cmp xs) = mset xs"
  by (induction xs) auto

lemma set_sort_by [simp]: "set (sort_by cmp xs) = set xs"
  by (induction xs) auto

lemma length_sort_by [simp]: "length (sort_by cmp xs) = length xs"
  by (metis mset_sort_by size_mset)

locale comparator =
  fixes cmp :: "'a \<Rightarrow> 'a \<Rightarrow> ordering"
  assumes cmp_swap: "cmp a b = Greater \<longleftrightarrow> cmp b a = Less"
    and cmp_trans: "cmp a b \<noteq> Greater \<Longrightarrow> cmp b c \<noteq> Greater \<Longrightarrow> cmp a c \<noteq> Greater"
begin

abbreviation ascending :: "'a list \<Rightarrow> bool" where
  "ascending xs \<equiv> sorted_wrt (\<lambda>a b. cmp a b \<noteq> Greater) xs"

lemma cmp_flip: "cmp a b = Greater \<Longrightarrow> cmp b a \<noteq> Greater"
  using cmp_swap [of a b] by simp

lemma cmp_Equal_sym: "cmp a b = Equal \<Longrightarrow> cmp b a = Equal"
  using cmp_swap [of a b] cmp_swap [of b a] by (cases "cmp b a") auto

lemma ascending_insert: "ascending ys \<Longrightarrow> ascending (insert_by cmp x ys)"
proof (induction ys)
  case (Cons y ys)
  have "cmp x z \<noteq> Greater" if "cmp x y \<noteq> Greater" "z \<in> set ys" for z
    using cmp_trans [OF that(1)] that(2) Cons.prems by auto
  with Cons show ?case by (auto dest: cmp_flip)
qed simp

lemma ascending_sort: "ascending (sort_by cmp xs)"
  by (induction xs) (simp_all add: ascending_insert)

text \<open>Where no two elements tie, the sorted sequence is that of the multiset.\<close>

lemma ascending_unique:
  assumes "ascending xs" "ascending ys" "mset xs = mset ys"
    "\<And>a b. a \<in> set xs \<Longrightarrow> b \<in> set xs \<Longrightarrow> cmp a b = Equal \<Longrightarrow> a = b"
  shows "xs = ys"
  using assms
proof (induction xs arbitrary: ys)
  case (Cons x xs)
  obtain y ys' where ys: "ys = y # ys'" using Cons.prems(3) by (cases ys) auto
  have sets: "set (x # xs) = set ys" using Cons.prems(3) by (metis mset_eq_setD)
  have "x = y"
  proof (rule ccontr)
    assume "x \<noteq> y"
    with sets ys have "y \<in> set xs" "x \<in> set ys'" by auto
    with Cons.prems(1,2) ys have "cmp x y \<noteq> Greater" "cmp y x \<noteq> Greater" by auto
    then have "cmp x y = Equal" using cmp_swap [of y x] by (cases "cmp x y") auto
    then show False using Cons.prems(4) [of x y] \<open>y \<in> set xs\<close> \<open>x \<noteq> y\<close> by auto
  qed
  with Cons.prems ys have "xs = ys'" by (intro Cons.IH) auto
  with \<open>x = y\<close> ys show ?case by simp
qed simp

lemma sort_unique:
  assumes "mset xs = mset ys"
    "\<And>a b. a \<in> set xs \<Longrightarrow> b \<in> set xs \<Longrightarrow> cmp a b = Equal \<Longrightarrow> a = b"
  shows "sort_by cmp xs = sort_by cmp ys"
  using assms by (intro ascending_unique ascending_sort) simp_all

end

text \<open>Comparisons are built from a key of an ordered type and chained by \<open>then_with\<close>.\<close>

lemma then_with_Greater: "then_with l r \<noteq> Greater \<longleftrightarrow> l = Less \<or> l = Equal \<and> r \<noteq> Greater"
  by (cases l) auto

lemma comparator_key: "comparator (\<lambda>a b. compare_lin (f a) (f b))"
  by unfold_locales (auto simp: compare_lin_def split: if_splits)

lemma comparator_on: "comparator c \<Longrightarrow> comparator (\<lambda>a b. c (f a) (f b))"
  unfolding comparator_def by blast

lemma comparator_then:
  assumes "comparator c" "comparator d"
  shows "comparator (\<lambda>a b. then_with (c a b) (d a b))"
proof
  note swap = comparator.cmp_swap [OF assms(1)] comparator.cmp_swap [OF assms(2)]
  note step = comparator.cmp_trans [OF assms(1)] comparator.cmp_trans [OF assms(2)]
  show "then_with (c a b) (d a b) = Greater \<longleftrightarrow> then_with (c b a) (d b a) = Less" for a b
    using swap comparator.cmp_Equal_sym [OF assms(1)] by auto
  show "then_with (c x z) (d x z) \<noteq> Greater"
    if prems: "then_with (c x y) (d x y) \<noteq> Greater" "then_with (c y z) (d y z) \<noteq> Greater" for x y z
  proof -
    have le: "c x y \<noteq> Greater" "c y z \<noteq> Greater" using prems unfolding then_with_Greater by auto
    then have xz: "c x z \<noteq> Greater" by (rule step(1))
    have "c x y = Equal \<and> c y z = Equal" if "c x z = Equal"
    proof -
      have "c z x \<noteq> Greater" using comparator.cmp_Equal_sym [OF assms(1) that] by simp
      then have "c y x \<noteq> Greater" "c z y \<noteq> Greater" using step(1) le by blast+
      then show ?thesis using le swap(1) by (metis ordering.exhaust)
    qed
    with prems xz show ?thesis unfolding then_with_Greater using step(2) by (metis ordering.distinct ordering.exhaust)
  qed
qed

section \<open>The order over results\<close>

fun entity_id_order :: "entity_id \<Rightarrow> entity_id \<Rightarrow> ordering" where
  "entity_id_order (Span left_trace left_span) (Span right_trace right_span) =
     then_with (compare_lin (trace_bytes left_trace) (trace_bytes right_trace))
               (compare_lin (span_bytes left_span) (span_bytes right_span))"
| "entity_id_order (Span _ _) (Assigned _) = Less"
| "entity_id_order (Assigned _) (Span _ _) = Greater"
| "entity_id_order (Assigned left) (Assigned right) = compare_lin left right"

definition item_order :: "('t \<Rightarrow> 'k::linorder) \<Rightarrow> ('t \<Rightarrow> entity_id) \<Rightarrow> 't \<Rightarrow> 't \<Rightarrow> ordering" where
  "item_order key ident a b =
     then_with (compare_lin (key a) (key b)) (entity_id_order (ident a) (ident b))"

definition sort_deterministically ::
  "('t \<Rightarrow> 'k::linorder) \<Rightarrow> ('t \<Rightarrow> entity_id) \<Rightarrow> 't list \<Rightarrow> 't list" where
  "sort_deterministically key ident items = sort_by (item_order key ident) items"

text \<open>The engine's tie-break and the store's agree, although neither is defined by the other.\<close>

lemma tie_breaks_agree: "entity_id_order = entity_order"
proof (intro ext)
  show "entity_id_order a b = entity_order a b" for a b by (cases a; cases b) simp_all
qed

lemma comparator_entity: "comparator entity_order"
proof
  show "entity_order a b = Greater \<longleftrightarrow> entity_order b a = Less" for a b by (rule entity_order_swap)
  show "entity_order a c \<noteq> Greater" if "entity_order a b \<noteq> Greater" "entity_order b c \<noteq> Greater" for a b c
    using that entity_order_trans entity_order_Equal entity_order_swap by (metis ordering.exhaust)
qed

interpretation results: comparator "item_order key ident" for key ident
  unfolding item_order_def tie_breaks_agree
  by (intro comparator_then comparator_key comparator_on [OF comparator_entity])

lemma item_order_Equal: "item_order key ident a b = Equal \<Longrightarrow> ident a = ident b"
  by (simp add: item_order_def tie_breaks_agree entity_order_Equal)

text \<open>Sorting a result set is canonical: when no two items carry one entity id, the items come
  out strictly ascending by the key and then by the engine's order of ids, and every permutation of
  them comes out the same.\<close>

theorem sort_deterministically_canonical:
  assumes "distinct (map ident xs)" "mset xs = mset ys"
  shows "sort_deterministically key ident xs = sort_deterministically key ident ys \<and>
    mset (sort_deterministically key ident xs) = mset xs \<and>
    sorted_wrt (\<lambda>a b. key a < key b \<or> key a = key b \<and> entity_id_order (ident a) (ident b) = Less)
      (sort_deterministically key ident xs)"
proof (intro conjI)
  have inj: "a = b" if "a \<in> set xs" "b \<in> set xs" "item_order key ident a b = Equal" for a b
    using assms(1) that item_order_Equal [OF that(3)] by (auto simp: distinct_map inj_on_def)
  then show "sort_deterministically key ident xs = sort_deterministically key ident ys"
    unfolding sort_deterministically_def by (intro results.sort_unique assms(2))
  show "mset (sort_deterministically key ident xs) = mset xs"
    by (simp add: sort_deterministically_def)
  let ?zs = "sort_by (item_order key ident) xs"
  have distinct: "distinct (map ident ?zs)"
    using assms(1) by (metis mset_map mset_sort_by mset_eq_imp_distinct_iff)
  have "item_order key ident (?zs ! i) (?zs ! j) = Less" if "i < j" "j < length ?zs" for i j
  proof -
    have "item_order key ident (?zs ! i) (?zs ! j) \<noteq> Greater"
      using results.ascending_sort [of key ident xs] that by (auto simp: sorted_wrt_iff_nth_less)
    moreover have "ident (?zs ! i) \<noteq> ident (?zs ! j)"
      using distinct that nth_eq_iff_index_eq [OF distinct, of i j] by auto
    ultimately show ?thesis using item_order_Equal by (metis ordering.exhaust)
  qed
  then show "sorted_wrt (\<lambda>a b. key a < key b \<or> key a = key b \<and> entity_id_order (ident a) (ident b) = Less)
      (sort_deterministically key ident xs)"
    by (auto simp: sort_deterministically_def sorted_wrt_iff_nth_less item_order_def)
qed

lemma sort_deterministically_canonical_witness:
  "sort_deterministically fst snd [(2::nat, Assigned 7), (1, Assigned 9)] =
     sort_deterministically fst snd [(1, Assigned 9), (2, Assigned 7)]"
  using sort_deterministically_canonical
    [of snd "[(2::nat, Assigned 7), (1, Assigned 9)]" "[(1, Assigned 9), (2, Assigned 7)]" fst]
  by simp

end
