(* ===== verification/Value_Order.thy ===== *)
theory Value_Order
  imports Ordering "HOL-Library.Product_Lexorder"
begin

text \<open>
  The derived \<open>Ord\<close> of \<open>Value\<close> (\<open>crates/telemetry-model/src/values.rs\<close>), which the ordered maps
  keyed by a resource rest on: variants in the order of the enum, then their contents, an integer as
  a signed number, a double by its bit pattern, a list item by item. It is proved total by the
  instantiation of \<open>linorder\<close>; an attribute map, a sorted association list, is then ordered by
  the library's orders of pairs and lists, which is the order derived for \<open>Attributes\<close>.
\<close>

fun variant_index :: "model_value \<Rightarrow> nat" where
  "variant_index (StringV _) = 0"
| "variant_index (BoolV _) = 1"
| "variant_index (IntV _) = 2"
| "variant_index (DoubleV _) = 3"
| "variant_index (BytesV _) = 4"
| "variant_index (ArrayV _) = 5"
| "variant_index (KvListV _) = 6"

fun value_cmp :: "model_value \<Rightarrow> model_value \<Rightarrow> ordering"
and values_cmp :: "model_value list \<Rightarrow> model_value list \<Rightarrow> ordering"
and entries_cmp :: "(string \<times> model_value) list \<Rightarrow> (string \<times> model_value) list \<Rightarrow> ordering" where
  "value_cmp (StringV a) w =
     (case w of StringV b \<Rightarrow> compare_lin a b | _ \<Rightarrow> compare_lin 0 (variant_index w))"
| "value_cmp (BoolV a) w =
     (case w of BoolV b \<Rightarrow> compare_lin a b | _ \<Rightarrow> compare_lin 1 (variant_index w))"
| "value_cmp (IntV a) w =
     (case w of IntV b \<Rightarrow> compare_lin (sint a) (sint b) | _ \<Rightarrow> compare_lin 2 (variant_index w))"
| "value_cmp (DoubleV a) w =
     (case w of DoubleV b \<Rightarrow> compare_lin (float_bits_of a) (float_bits_of b)
              | _ \<Rightarrow> compare_lin 3 (variant_index w))"
| "value_cmp (BytesV a) w =
     (case w of BytesV b \<Rightarrow> compare_lin a b | _ \<Rightarrow> compare_lin 4 (variant_index w))"
| "value_cmp (ArrayV a) w =
     (case w of ArrayV b \<Rightarrow> values_cmp a b | _ \<Rightarrow> compare_lin 5 (variant_index w))"
| "value_cmp (KvListV a) w =
     (case w of KvListV b \<Rightarrow> entries_cmp a b | _ \<Rightarrow> compare_lin 6 (variant_index w))"
| "values_cmp [] ys = (if ys = [] then Equal else Less)"
| "values_cmp (x # xs) ys =
     (case ys of [] \<Rightarrow> Greater | y # ys \<Rightarrow> then_with (value_cmp x y) (values_cmp xs ys))"
| "entries_cmp [] fs = (if fs = [] then Equal else Less)"
| "entries_cmp ((k, v) # es) fs =
     (case fs of [] \<Rightarrow> Greater
      | (l, w) # fs \<Rightarrow>
          then_with (compare_lin k l) (then_with (value_cmp v w) (entries_cmp es fs)))"

lemma values_cmp_Nil [simp]: "values_cmp xs [] = (if xs = [] then Equal else Greater)"
  by (cases xs) auto

lemma entries_cmp_Nil [simp]: "entries_cmp es [] = (if es = [] then Equal else Greater)"
  by (cases es) auto

lemma value_cmp_Equal [simp]:
  "value_cmp v w = Equal \<longleftrightarrow> v = w"
  "values_cmp xs ys = Equal \<longleftrightarrow> xs = ys"
  "entries_cmp es fs = Equal \<longleftrightarrow> es = fs"
  by (induction v w and xs ys and es fs rule: value_cmp_values_cmp_entries_cmp.induct)
    (auto simp: float_bits.expand intro: signed_word_eqI split: model_value.splits list.splits)

lemma value_cmp_swap:
  "value_cmp v w = Greater \<longleftrightarrow> value_cmp w v = Less"
  "values_cmp xs ys = Greater \<longleftrightarrow> values_cmp ys xs = Less"
  "entries_cmp es fs = Greater \<longleftrightarrow> entries_cmp fs es = Less"
  by (induction v w and xs ys and es fs rule: value_cmp_values_cmp_entries_cmp.induct)
    (auto split: model_value.splits list.splits)

lemma value_cmp_trans:
  "value_cmp v w = Less \<Longrightarrow> value_cmp w u = Less \<Longrightarrow> value_cmp v u = Less"
  "values_cmp xs ys = Less \<Longrightarrow> values_cmp ys zs = Less \<Longrightarrow> values_cmp xs zs = Less"
  "entries_cmp es fs = Less \<Longrightarrow> entries_cmp fs gs = Less \<Longrightarrow> entries_cmp es gs = Less"
proof (induction v w and xs ys and es fs arbitrary: u and zs and gs
    rule: value_cmp_values_cmp_entries_cmp.induct)
  case (9 x xs ys)
  obtain y ys' z zs' where split: "ys = y # ys'" "zs = z # zs'"
    using 9(3,4) by (cases ys; cases zs) (auto split: if_splits)
  have "value_cmp x y = Less \<Longrightarrow> value_cmp y z = Less \<Longrightarrow> value_cmp x z = Less"
    and "values_cmp xs ys' = Less \<Longrightarrow> values_cmp ys' zs' = Less \<Longrightarrow> values_cmp xs zs' = Less"
    using 9(1,2) split by blast+
  then show ?case using 9(3,4) by (auto simp: split)
next
  case (11 k v es fs)
  obtain l w fs' m u gs' where split: "fs = (l, w) # fs'" "gs = (m, u) # gs'"
    using 11(3,4) by (cases fs; cases gs) (auto split: if_splits)
  have "value_cmp v w = Less \<Longrightarrow> value_cmp w u = Less \<Longrightarrow> value_cmp v u = Less"
    and "entries_cmp es fs' = Less \<Longrightarrow> entries_cmp fs' gs' = Less \<Longrightarrow> entries_cmp es gs' = Less"
    using 11(1,2) split by blast+
  then show ?case using 11(3,4) by (auto simp: split)
next
  case (8 ys)
  then show ?case by (cases zs) (auto split: if_splits)
next
  case (10 fs)
  then show ?case by (cases gs) (auto split: if_splits)
qed (auto split: model_value.splits)

instantiation model_value :: linorder
begin

definition less_model_value :: "model_value \<Rightarrow> model_value \<Rightarrow> bool" where
  "v < w \<longleftrightarrow> value_cmp v w = Less"

definition less_eq_model_value :: "model_value \<Rightarrow> model_value \<Rightarrow> bool" where
  "v \<le> w \<longleftrightarrow> value_cmp v w \<noteq> Greater"

instance
proof
  fix v w u :: model_value
  note defs = less_model_value_def less_eq_model_value_def
  show "v < w \<longleftrightarrow> v \<le> w \<and> \<not> w \<le> v"
    unfolding defs value_cmp_swap(1) by (metis ordering.distinct(3) value_cmp_swap(1))
  show "v \<le> v" unfolding defs by (metis ordering.distinct(5) value_cmp_Equal(1))
  show "v \<le> u" if "v \<le> w" "w \<le> u"
    using that unfolding defs by (metis ordering.exhaust value_cmp_Equal(1) value_cmp_swap(1) value_cmp_trans(1))
  show "v = w" if "v \<le> w" "w \<le> v"
    using that unfolding defs by (metis ordering.exhaust value_cmp_Equal(1) value_cmp_swap(1))
  show "v \<le> w \<or> w \<le> v"
    unfolding defs by (metis ordering.distinct(3) value_cmp_swap(1))
qed

end

text \<open>The order of a resource is that of its attribute map, entry by entry.\<close>

lemma entries_cmp_less: "entries_cmp es fs = Less \<longleftrightarrow> es < fs"
proof (induction es arbitrary: fs)
  case (Cons e es)
  obtain k v where e: "e = (k, v)" by (cases e)
  show ?case
  proof (cases fs)
    case (Cons f fs')
    obtain l w where f: "f = (l, w)" by (cases f)
    show ?thesis
      using Cons.IH [of fs'] by (auto simp: e f Cons less_model_value_def less_prod_def)
  qed (simp add: e)
next
  case Nil
  then show ?case by (cases fs) auto
qed

end
