(* ===== verification/Correlation.thy ===== *)
theory Correlation
  imports Relations Value_Order
begin

text \<open>
  The correlation engine: \<open>crates/correlation/src/engine.rs\<close>.

  A run reads the resident set through a driver (\<open>query_store\<close>) in three scans that share one
  allowance, hands what the strategies form to a sink that keeps the first \<open>max_relations\<close> of
  them, re-checks the endpoints and sorts. A strategy's loops are folds over the scanned records that
  pass the sink on, a \<open>continue\<close> being the sink unchanged. The \<open>BTreeMap\<close> of the resource strategy
  is an ordered map keyed by the attribute map, which is all a resource compares by and all its
  facts cite. The scan loop ends for every driver, because every page but the last spends some of
  the allowance.
\<close>

section \<open>Scans\<close>

definition SCAN_PAGE :: usize where "SCAN_PAGE = 256"

text \<open>The inner loop over a page: what it examined, the spend, and whether the allowance ran out.\<close>

fun examine_items ::
  "('r scan_item \<Rightarrow> 'x) \<Rightarrow> nat \<Rightarrow> 'r scan_item list \<Rightarrow> 'x list \<Rightarrow> nat \<Rightarrow> 'x list \<times> nat \<times> bool" where
  "examine_items view max_scan [] resident spent = (resident, spent, False)"
| "examine_items view max_scan (item # items) resident spent =
     (if max_scan \<le> spent then (resident, spent, True)
      else examine_items view max_scan items (resident @ [view item]) (spent + 1))"

lemma examine_items_spent:
  "examine_items view max_scan items resident spent = (r, s, out) \<Longrightarrow> spent \<le> s"
  by (induction items arbitrary: resident spent) (auto split: if_splits, force)

lemma examine_items_progress:
  assumes "examine_items view max_scan items resident spent = (r, s, out)" "items \<noteq> []" "spent < max_scan"
  shows "spent < s"
  using assms
proof (cases items)
  case (Cons i rest)
  with assms have "examine_items view max_scan rest (resident @ [view i]) (spent + 1) = (r, s, out)" by simp
  from examine_items_spent [OF this] show ?thesis by simp
qed simp

function scan_loop ::
  "(admission_key option \<Rightarrow> usize \<Rightarrow> 'r scan_page) \<Rightarrow> ('r scan_item \<Rightarrow> 'x) \<Rightarrow> nat \<Rightarrow>
     admission_key option \<Rightarrow> 'x list \<Rightarrow> nat \<Rightarrow> run_stop option \<Rightarrow> 'x list \<times> nat \<times> run_stop option" where
  "scan_loop fetch view max_scan after resident spent stopped =
     (if max_scan \<le> spent then (resident, spent, Some (ScanExhausted spent))
      else let page = fetch after SCAN_PAGE in
        if pg_items page = [] then (resident, spent, stopped)
        else case examine_items view max_scan (pg_items page) resident spent of
          (resident1, spent1, exhausted) \<Rightarrow>
            if exhausted then (resident1, spent1, Some (ScanExhausted spent1))
            else (case pg_cursor page of
                    Some cursor \<Rightarrow> scan_loop fetch view max_scan (Some cursor) resident1 spent1 stopped
                  | None \<Rightarrow> (resident1, spent1, stopped)))"
  by pat_completeness auto

termination
  by (relation "measure (\<lambda>(fetch, view, max_scan, after, resident, spent, stopped). max_scan - spent)")
    (auto dest!: sym [of _ "examine_items _ _ _ _ _"] dest: examine_items_progress
      intro!: diff_less_mono2)

declare scan_loop.simps [simp del]

type_synonym resident_span = "entity_id \<times> span"
type_synonym resident_log = "entity_id \<times> log_record"
type_synonym resident_point = "entity_id \<times> metric_point \<times> stream_identity"

definition scan_resident_spans ::
  "query_store \<Rightarrow> correlation_bounds \<Rightarrow> nat \<Rightarrow> run_stop option \<Rightarrow> resident_span list \<times> nat \<times> run_stop option" where
  "scan_resident_spans S b spent stopped =
     scan_loop (qs_scan_spans S) (\<lambda>item. (key_entity (it_key item), it_record item))
       (cb_max_scan b) None [] spent stopped"

definition scan_resident_logs ::
  "query_store \<Rightarrow> correlation_bounds \<Rightarrow> nat \<Rightarrow> run_stop option \<Rightarrow> resident_log list \<times> nat \<times> run_stop option" where
  "scan_resident_logs S b spent stopped =
     scan_loop (qs_scan_log_records S) (\<lambda>item. (key_entity (it_key item), it_record item))
       (cb_max_scan b) None [] spent stopped"

definition scan_resident_points ::
  "query_store \<Rightarrow> correlation_bounds \<Rightarrow> nat \<Rightarrow> run_stop option \<Rightarrow> resident_point list \<times> nat \<times> run_stop option" where
  "scan_resident_points S b spent stopped =
     scan_loop (qs_scan_metric_points S)
       (\<lambda>item. (key_entity (it_key item), pv_point (it_record item), pv_stream (it_record item)))
       (cb_max_scan b) None [] spent stopped"

section \<open>The sink\<close>

type_synonym formed = "signal_ref correlation_relation"

record relation_sink =
  sk_relations :: "formed list"
  sk_limit :: nat
  sk_kept :: nat
  sk_stopped_at :: "run_stop option"

definition sink_new :: "nat \<Rightarrow> run_stop option \<Rightarrow> relation_sink" where
  "sink_new limit stopped =
     \<lparr>sk_relations = [], sk_limit = limit, sk_kept = 0, sk_stopped_at = stopped\<rparr>"

definition sink_push :: "formed \<Rightarrow> relation_sink \<Rightarrow> relation_sink" where
  "sink_push r sink =
     (if sk_limit sink \<le> sk_kept sink
      then (if sk_stopped_at sink = None
            then sink\<lparr>sk_stopped_at := Some (MaxRelations (sk_limit sink))\<rparr>
            else sink)
      else sink\<lparr>sk_relations := sk_relations sink @ [r], sk_kept := sk_kept sink + 1\<rparr>)"

section \<open>Facts\<close>

definition identity_facts :: "trace_id \<Rightarrow> span_id \<Rightarrow> evidence_fact list" where
  "identity_facts trace span_id =
     [\<lparr>ef_field = ''trace_id'', ef_value = BytesV (trace_bytes trace)\<rparr>,
      \<lparr>ef_field = ''span_id'', ef_value = BytesV (span_bytes span_id)\<rparr>]"

definition trace_facts :: "trace_id \<Rightarrow> evidence_fact list" where
  "trace_facts trace = [\<lparr>ef_field = ''trace_id'', ef_value = BytesV (trace_bytes trace)\<rparr>]"

definition clock_value :: "u64 \<Rightarrow> model_value" where
  "clock_value nano = IntV (if unat nano < 2 ^ 63 then nano else 2 ^ 63 - 1)"

definition resource_facts :: "attributes \<Rightarrow> evidence_fact list" where
  "resource_facts identity =
     (let facts = map (\<lambda>(key, v). \<lparr>ef_field = key, ef_value = v\<rparr>) identity
      in if facts = [] then [\<lparr>ef_field = ''resource'', ef_value = KvListV []\<rparr>] else facts)"

section \<open>The relations formed\<close>

definition span_identity_relation :: "entity_id \<Rightarrow> entity_id \<Rightarrow> trace_id \<Rightarrow> span_id \<Rightarrow> formed" where
  "span_identity_relation log_entity span_entity trace span_id =
     \<lparr>rl_type = SpanIdentityRel,
      rl_from = \<lparr>sr_kind = LogRecordsEnd, sr_entity = log_entity\<rparr>,
      rl_to = \<lparr>sr_kind = SpansEnd, sr_entity = span_entity\<rparr>,
      rl_facts = identity_facts trace span_id,
      rl_strategy = version_of SpanIdentity, rl_window = None\<rparr>"

definition trace_identity_relation :: "entity_id \<Rightarrow> entity_id \<Rightarrow> trace_id \<Rightarrow> formed" where
  "trace_identity_relation log_entity span_entity trace =
     \<lparr>rl_type = TraceIdentityRel,
      rl_from = \<lparr>sr_kind = LogRecordsEnd, sr_entity = log_entity\<rparr>,
      rl_to = \<lparr>sr_kind = SpansEnd, sr_entity = span_entity\<rparr>,
      rl_facts = trace_facts trace,
      rl_strategy = version_of TraceIdentity, rl_window = None\<rparr>"

definition parent_child_relation :: "entity_id \<Rightarrow> entity_id \<Rightarrow> span_id \<Rightarrow> formed" where
  "parent_child_relation child_entity parent_entity parent_span_id =
     \<lparr>rl_type = ParentChildRel,
      rl_from = \<lparr>sr_kind = SpansEnd, sr_entity = child_entity\<rparr>,
      rl_to = \<lparr>sr_kind = SpansEnd, sr_entity = parent_entity\<rparr>,
      rl_facts = [\<lparr>ef_field = ''parent_span_id'', ef_value = BytesV (span_bytes parent_span_id)\<rparr>],
      rl_strategy = version_of ParentChild, rl_window = None\<rparr>"

definition resource_context_relation :: "attributes \<Rightarrow> signal_ref \<Rightarrow> signal_ref \<Rightarrow> formed" where
  "resource_context_relation identity from to =
     \<lparr>rl_type = ResourceContextRel, rl_from = from, rl_to = to,
      rl_facts = resource_facts identity,
      rl_strategy = version_of ResourceContext, rl_window = None\<rparr>"

definition exemplar_relation :: "entity_id \<Rightarrow> entity_id \<Rightarrow> trace_id \<Rightarrow> span_id \<Rightarrow> formed" where
  "exemplar_relation point_entity span_entity trace span_id =
     \<lparr>rl_type = ExemplarAttachmentRel,
      rl_from = \<lparr>sr_kind = MetricPointsEnd, sr_entity = point_entity\<rparr>,
      rl_to = \<lparr>sr_kind = SpansEnd, sr_entity = span_entity\<rparr>,
      rl_facts =
        [\<lparr>ef_field = ''exemplar.trace_id'', ef_value = BytesV (trace_bytes trace)\<rparr>,
         \<lparr>ef_field = ''exemplar.span_id'', ef_value = BytesV (span_bytes span_id)\<rparr>],
      rl_strategy = version_of ExemplarAttachment, rl_window = None\<rparr>"

definition activity_relation ::
  "entity_id \<Rightarrow> span \<Rightarrow> entity_id \<Rightarrow> metric_point \<Rightarrow> time_window \<Rightarrow> formed" where
  "activity_relation span_entity span point_entity point window =
     \<lparr>rl_type = TemporalCoActivityRel,
      rl_from = \<lparr>sr_kind = SpansEnd, sr_entity = span_entity\<rparr>,
      rl_to = \<lparr>sr_kind = MetricPointsEnd, sr_entity = point_entity\<rparr>,
      rl_facts =
        [\<lparr>ef_field = ''span.start_time_unix_nano'', ef_value = clock_value (sp_start_time span)\<rparr>,
         \<lparr>ef_field = ''point.time_unix_nano'', ef_value = clock_value (point_time point)\<rparr>] @
        (case sp_end_time span of
           Some e \<Rightarrow> [\<lparr>ef_field = ''span.end_time_unix_nano'', ef_value = clock_value e\<rparr>]
         | None \<Rightarrow> []),
      rl_strategy = version_of TemporalCoActivity, rl_window = Some window\<rparr>"

section \<open>The strategies\<close>

definition subject_spans :: "resident_span list \<Rightarrow> trace_id option \<Rightarrow> resident_span list" where
  "subject_spans spans subject =
     (case subject of
        None \<Rightarrow> []
      | Some subject \<Rightarrow>
          filter (\<lambda>(_, span). case natural_identity span of
                                Some (trace, _) \<Rightarrow> trace = subject | None \<Rightarrow> False) spans)"

definition span_with_identity :: "resident_span list \<Rightarrow> trace_id \<Rightarrow> span_id \<Rightarrow> entity_id option" where
  "span_with_identity members trace span_id =
     map_option fst (find (\<lambda>(_, span). case natural_identity span of
         Some (candidate_trace, candidate_span) \<Rightarrow> candidate_trace = trace \<and> candidate_span = span_id
       | None \<Rightarrow> False) members)"

definition resident_span_named :: "resident_span list \<Rightarrow> trace_id \<Rightarrow> span_id \<Rightarrow> entity_id option" where
  "resident_span_named spans trace span_id =
     map_option fst (find (\<lambda>(_, candidate). case natural_identity candidate of
         Some (candidate_trace, candidate_span) \<Rightarrow> candidate_trace = trace \<and> candidate_span = span_id
       | None \<Rightarrow> False) spans)"

definition span_identity ::
  "trace_id option \<Rightarrow> resident_span list \<Rightarrow> resident_log list \<Rightarrow> relation_sink \<Rightarrow> relation_sink" where
  "span_identity subject members logs sink =
     (case subject of
        None \<Rightarrow> sink
      | Some subject \<Rightarrow>
          fold (\<lambda>(log_entity, log) sink.
            case log_correlation_pair log of
              None \<Rightarrow> sink
            | Some (trace, span_id) \<Rightarrow>
                if trace \<noteq> subject then sink
                else (case span_with_identity members trace span_id of
                        None \<Rightarrow> sink
                      | Some span_entity \<Rightarrow>
                          sink_push
                            (span_identity_relation log_entity span_entity trace span_id) sink))
            logs sink)"

record identity_accounts =
  ia_sink :: relation_sink
  ia_suppressions :: "suppression list"
  ia_absent :: "absent_trace list"

text \<open>One log record of the trace strategy's loop.\<close>

definition trace_identity_log ::
  "trace_id \<Rightarrow> resident_span list \<Rightarrow> resident_log \<Rightarrow> identity_accounts \<Rightarrow> identity_accounts" where
  "trace_identity_log subject members = (\<lambda>(log_entity, log) acc.
     case lg_trace_id log of
       None \<Rightarrow> acc
     | Some trace \<Rightarrow>
         if trace \<noteq> subject then acc
         else (case Option.bind (log_correlation_pair log)
                      (\<lambda>(trace, span_id). span_with_identity members trace span_id) of
                 Some exact_entity \<Rightarrow>
                   acc\<lparr>ia_suppressions := ia_suppressions acc @
                     [\<lparr>su_log = log_entity, su_span = exact_entity,
                       su_suppressed = sat_u64 (length (filter (\<lambda>(entity, _). entity \<noteq> exact_entity) members))\<rparr>]\<rparr>
               | None \<Rightarrow>
                   if members = [] then acc\<lparr>ia_absent := ia_absent acc @ [AbsentTrace log_entity]\<rparr>
                   else acc\<lparr>ia_sink :=
                     fold (\<lambda>(span_entity, _). sink_push
                         (trace_identity_relation log_entity span_entity trace))
                       members (ia_sink acc)\<rparr>))"

definition trace_identity ::
  "trace_id option \<Rightarrow> resident_span list \<Rightarrow> resident_log list \<Rightarrow> identity_accounts \<Rightarrow> identity_accounts" where
  "trace_identity subject members logs acc =
     (case subject of
        None \<Rightarrow> acc
      | Some subject \<Rightarrow> fold (trace_identity_log subject members) logs acc)"

definition parent_child :: "resident_span list \<Rightarrow> relation_sink \<Rightarrow> relation_sink" where
  "parent_child spans sink =
     fold (\<lambda>(child_entity, child) sink.
       case sp_parent_span_id child of
         None \<Rightarrow> sink
       | Some parent_span_id \<Rightarrow>
           if \<not> span_id_is_valid parent_span_id then sink
           else (case natural_identity child of
                   None \<Rightarrow> sink
                 | Some (trace, _) \<Rightarrow>
                     (case resident_span_named spans trace parent_span_id of
                        None \<Rightarrow> sink
                      | Some parent_entity \<Rightarrow>
                          if child_entity = parent_entity then sink
                          else sink_push
                            (parent_child_relation child_entity parent_entity parent_span_id) sink)))
       spans sink"

type_synonym resource_groups = "(attributes \<times> signal_ref list) list"

definition group_push :: "resource \<Rightarrow> signal_ref \<Rightarrow> resource_groups \<Rightarrow> resource_groups" where
  "group_push resource member groups =
     om_insert (res_attributes resource)
       ((case map_of groups (res_attributes resource) of Some members \<Rightarrow> members | None \<Rightarrow> []) @ [member])
       groups"

definition resource_groups ::
  "resident_span list \<Rightarrow> resident_log list \<Rightarrow> resident_point list \<Rightarrow> resource_groups" where
  "resource_groups spans logs points =
     fold (\<lambda>(entity, _, stream). group_push (si_resource stream) \<lparr>sr_kind = MetricPointsEnd, sr_entity = entity\<rparr>) points
       (fold (\<lambda>(entity, log). group_push (lg_resource log) \<lparr>sr_kind = LogRecordsEnd, sr_entity = entity\<rparr>) logs
         (fold (\<lambda>(entity, span). group_push (sp_resource span) \<lparr>sr_kind = SpansEnd, sr_entity = entity\<rparr>) spans []))"

text \<open>Each member of a group against every later one.\<close>

fun push_pairs :: "attributes \<Rightarrow> signal_ref list \<Rightarrow> relation_sink \<Rightarrow> relation_sink" where
  "push_pairs identity [] sink = sink"
| "push_pairs identity (from # later) sink =
     push_pairs identity later
       (fold (\<lambda>to. sink_push
           (resource_context_relation identity from to)) later sink)"

definition resource_context ::
  "resident_span list \<Rightarrow> resident_log list \<Rightarrow> resident_point list \<Rightarrow> relation_sink \<Rightarrow> relation_sink" where
  "resource_context spans logs points sink =
     fold (\<lambda>(identity, members) sink.
       if length members < 2 then sink else push_pairs identity members sink)
       (resource_groups spans logs points) sink"

definition exemplar_attachment ::
  "resident_point list \<Rightarrow> resident_span list \<Rightarrow> relation_sink \<Rightarrow> relation_sink" where
  "exemplar_attachment points spans sink =
     fold (\<lambda>(point_entity, point, _) sink.
       fold (\<lambda>exemplar sink.
         case exemplar_correlation_pair exemplar of
           None \<Rightarrow> sink
         | Some (trace, span_id) \<Rightarrow>
             (case resident_span_named spans trace span_id of
                None \<Rightarrow> sink
              | Some span_entity \<Rightarrow>
                  sink_push
                    (exemplar_relation point_entity span_entity trace span_id) sink))
         (point_exemplars point) sink)
       points sink"

text \<open>The gap between a span's interval and a point's time, over the machine's subtraction.\<close>

definition activity_gap :: "u64 \<Rightarrow> u64 \<Rightarrow> u64 \<Rightarrow> u64" where
  "activity_gap start end_time time =
     (if start \<le> time \<and> time < end_time then 0
      else if time < start then start - time
      else time - end_time)"

definition temporal_co_activity ::
  "resident_span list \<Rightarrow> resident_point list \<Rightarrow> time_window option \<Rightarrow> relation_sink \<Rightarrow> relation_sink" where
  "temporal_co_activity members points window sink =
     (case window of
        None \<Rightarrow> sink
      | Some window \<Rightarrow>
          if window_is_empty window then sink
          else fold (\<lambda>(span_entity, span) sink.
            let start = sp_start_time span;
                end_time = (case sp_end_time span of Some e \<Rightarrow> e | None \<Rightarrow> start)
            in if end_time \<le> win_from window \<or> win_to window \<le> start then sink
               else fold (\<lambda>(point_entity, point, _) sink.
                 let time = point_time point
                 in if time < win_from window \<or> win_to window \<le> time then sink
                    else if window_len window < activity_gap start end_time time then sink
                    else sink_push
                      (activity_relation span_entity span point_entity point window) sink)
                 points sink)
            members sink)"

section \<open>The re-check and the order\<close>

definition endpoint_resident :: "query_store \<Rightarrow> signal_ref \<Rightarrow> bool" where
  "endpoint_resident S endpoint =
     (case sr_kind endpoint of
        SpansEnd \<Rightarrow> qs_span S (sr_entity endpoint) \<noteq> None
      | LogRecordsEnd \<Rightarrow> qs_log_record S (sr_entity endpoint) \<noteq> None
      | MetricPointsEnd \<Rightarrow> qs_metric_point S (sr_entity endpoint) \<noteq> None)"

definition endpoints_resident :: "query_store \<Rightarrow> formed \<Rightarrow> bool" where
  "endpoints_resident S r \<longleftrightarrow> list_all (endpoint_resident S) [rl_from r, rl_to r]"

fun type_rank :: "relation_type \<Rightarrow> nat" where
  "type_rank SpanIdentityRel = 0"
| "type_rank TraceIdentityRel = 1"
| "type_rank ParentChildRel = 2"
| "type_rank ResourceContextRel = 3"
| "type_rank ExemplarAttachmentRel = 4"
| "type_rank TemporalCoActivityRel = 5"
| "type_rank InferredRel = 6"

fun kind_rank :: "endpoint_kind \<Rightarrow> nat" where
  "kind_rank SpansEnd = 0"
| "kind_rank LogRecordsEnd = 1"
| "kind_rank MetricPointsEnd = 2"

fun endpoint_entity_order :: "entity_id \<Rightarrow> entity_id \<Rightarrow> ordering" where
  "endpoint_entity_order (Span left_trace left_span) (Span right_trace right_span) =
     then_with (compare_lin (trace_bytes left_trace) (trace_bytes right_trace))
               (compare_lin (span_bytes left_span) (span_bytes right_span))"
| "endpoint_entity_order (Span _ _) (Assigned _) = Less"
| "endpoint_entity_order (Assigned _) (Span _ _) = Greater"
| "endpoint_entity_order (Assigned left) (Assigned right) = compare_lin left right"

definition signal_ref_order :: "signal_ref \<Rightarrow> signal_ref \<Rightarrow> ordering" where
  "signal_ref_order l r =
     then_with (compare_lin (kind_rank (sr_kind l)) (kind_rank (sr_kind r)))
               (endpoint_entity_order (sr_entity l) (sr_entity r))"

definition relation_order :: "formed \<Rightarrow> formed \<Rightarrow> ordering" where
  "relation_order l r =
     then_with (then_with (compare_lin (type_rank (rl_type l)) (type_rank (rl_type r)))
                          (signal_ref_order (rl_from l) (rl_from r)))
               (signal_ref_order (rl_to l) (rl_to r))"

section \<open>The run\<close>

text \<open>
  The source's one \<open>store\<close> argument is read twice, and the run allows for its answers to change in
  between (\<open>shrunken\<close> counts what left): \<open>S\<close> is the store as the scans read it, \<open>S'\<close> as the re-check
  does. A store that is not written during the run has \<open>S' = S\<close>.
\<close>

definition run_strategy ::
  "correlation_bounds \<Rightarrow> resident_span list \<Rightarrow> resident_log list \<Rightarrow> resident_point list \<Rightarrow>
     strategy \<Rightarrow> identity_accounts \<Rightarrow> identity_accounts" where
  "run_strategy b spans logs points s acc =
     (let members = subject_spans spans (cb_subject_trace b)
      in case s of
        SpanIdentity \<Rightarrow>
          acc\<lparr>ia_sink := span_identity (cb_subject_trace b) members logs (ia_sink acc)\<rparr>
      | TraceIdentity \<Rightarrow> trace_identity (cb_subject_trace b) members logs acc
      | ParentChild \<Rightarrow> acc\<lparr>ia_sink := parent_child spans (ia_sink acc)\<rparr>
      | ResourceContext \<Rightarrow> acc\<lparr>ia_sink := resource_context spans logs points (ia_sink acc)\<rparr>
      | ExemplarAttachment \<Rightarrow> acc\<lparr>ia_sink := exemplar_attachment points spans (ia_sink acc)\<rparr>
      | TemporalCoActivity \<Rightarrow>
          acc\<lparr>ia_sink := temporal_co_activity members points (cb_window b) (ia_sink acc)\<rparr>)"

definition resident_scans ::
  "query_store \<Rightarrow> correlation_bounds \<Rightarrow>
     resident_span list \<times> resident_log list \<times> resident_point list \<times> nat \<times> run_stop option" where
  "resident_scans S b =
     (case scan_resident_spans S b 0 None of (spans, spent, stopped) \<Rightarrow>
      case scan_resident_logs S b spent stopped of (logs, spent, stopped) \<Rightarrow>
      case scan_resident_points S b spent stopped of (points, spent, stopped) \<Rightarrow>
        (spans, logs, points, spent, stopped))"

definition correlate :: "query_store \<Rightarrow> query_store \<Rightarrow> correlation_bounds \<Rightarrow> correlation_outcome" where
  "correlate S S' b =
     (if cb_max_hops b = 0
      then \<lparr>co_relations = [],
            co_truth = \<lparr>tt_strategy_versions = [], tt_suppressions = [], tt_absent_traces = [],
                        tt_shrunken = 0, tt_stopped_at = Some (MaxDepth 0), tt_scan_spent = 0\<rparr>\<rparr>
      else case resident_scans S b of (spans, logs, points, spent, stopped) \<Rightarrow>
        let acc = fold (run_strategy b spans logs points) (cb_strategies b)
                    \<lparr>ia_sink = sink_new (cb_max_relations b) stopped, ia_suppressions = [], ia_absent = []\<rparr>;
            formed = sk_relations (ia_sink acc);
            kept = filter (endpoints_resident S') formed
        in \<lparr>co_relations = sort_by relation_order kept,
            co_truth = \<lparr>tt_strategy_versions = map version_of (cb_strategies b),
                        tt_suppressions = ia_suppressions acc, tt_absent_traces = ia_absent acc,
                        tt_shrunken = sat_u64 (length formed - length kept),
                        tt_stopped_at = sk_stopped_at (ia_sink acc), tt_scan_spent = spent\<rparr>\<rparr>)"

end
