(* ===== verification/Correlation_Laws.thy ===== *)
theory Correlation_Laws
  imports Correlation
begin

text \<open>
  What a correlation run forms. Every strategy is its list of formed relations pushed into the sink,
  so the sink's laws are proved once, over lists: it keeps the first of them up to its limit and
  names the ceiling when it cut. \<open>grounded\<close> says of a single relation which resident records ground
  it; the strategies form exactly the grounded relations.
\<close>

section \<open>Pushing a list\<close>

abbreviation push_all :: "formed list \<Rightarrow> relation_sink \<Rightarrow> relation_sink" where
  "push_all \<equiv> fold sink_push"

lemma fold_push_all:
  assumes "\<And>x sink. x \<in> set xs \<Longrightarrow> f x sink = push_all (g x) sink"
  shows "fold f xs sink = push_all (List.concat (map g xs)) sink"
  using assms by (induction xs arbitrary: sink) simp_all

definition wf_sink :: "relation_sink \<Rightarrow> bool" where
  "wf_sink sink \<longleftrightarrow> sk_kept sink = length (sk_relations sink) \<and> sk_kept sink \<le> sk_limit sink"

lemma wf_sink_new [simp]: "wf_sink (sink_new limit stopped)"
  by (simp add: wf_sink_def sink_new_def)

lemma push_full:
  assumes "sk_limit sink \<le> sk_kept sink"
  shows "push_all rs sink =
    (if rs = [] \<or> sk_stopped_at sink \<noteq> None then sink
     else sink\<lparr>sk_stopped_at := Some (MaxRelations (sk_limit sink))\<rparr>)"
  using assms by (induction rs arbitrary: sink) (auto simp: sink_push_def)

lemma push_all_conj:
  assumes "wf_sink sink"
  shows "sk_relations (push_all rs sink) = sk_relations sink @ take (sk_limit sink - sk_kept sink) rs \<and>
    sk_stopped_at (push_all rs sink) =
      (if sk_stopped_at sink = None \<and> sk_limit sink - sk_kept sink < length rs
       then Some (MaxRelations (sk_limit sink)) else sk_stopped_at sink) \<and>
    wf_sink (push_all rs sink)"
  using assms
proof (induction rs arbitrary: sink)
  case (Cons r rs)
  show ?case
  proof (cases "sk_limit sink \<le> sk_kept sink")
    case True
    show ?thesis unfolding push_full [OF True, of "r # rs"] using True Cons.prems by (simp add: wf_sink_def)
  next
    case False
    let ?s = "sink\<lparr>sk_relations := sk_relations sink @ [r], sk_kept := sk_kept sink + 1\<rparr>"
    have push: "sink_push r sink = ?s" and wf: "wf_sink ?s"
      using False Cons.prems by (simp_all add: sink_push_def wf_sink_def)
    obtain m where m: "sk_limit sink - sk_kept sink = Suc m"
      using False by (metis Suc_diff_Suc not_less)
    then have "sk_limit sink - Suc (sk_kept sink) = m" by simp
    with Cons.IH [OF wf] m show ?thesis by (simp add: push)
  qed
qed simp

lemmas push_all_laws =
  push_all_conj [THEN conjunct1] push_all_conj [THEN conjunct2, THEN conjunct1]
  push_all_conj [THEN conjunct2, THEN conjunct2]

section \<open>What each strategy forms\<close>

text \<open>What one scanned record contributes, per strategy, and the run's whole list.\<close>

definition span_identity_of :: "trace_id \<Rightarrow> resident_span list \<Rightarrow> resident_log \<Rightarrow> formed list" where
  "span_identity_of subject members = (\<lambda>(log_entity, log).
     case log_correlation_pair log of
       None \<Rightarrow> []
     | Some (trace, span_id) \<Rightarrow>
         if trace \<noteq> subject then []
         else (case span_with_identity members trace span_id of
                 None \<Rightarrow> []
               | Some span_entity \<Rightarrow> [span_identity_relation log_entity span_entity trace span_id]))"

text \<open>A log's exact span, when it names the subject and that span is a member.\<close>

definition exact_span :: "resident_span list \<Rightarrow> log_record \<Rightarrow> entity_id option" where
  "exact_span members log =
     Option.bind (log_correlation_pair log) (\<lambda>(trace, span_id). span_with_identity members trace span_id)"

definition trace_identity_of :: "trace_id \<Rightarrow> resident_span list \<Rightarrow> resident_log \<Rightarrow> formed list" where
  "trace_identity_of subject members = (\<lambda>(log_entity, log).
     if lg_trace_id log = Some subject \<and> exact_span members log = None
     then map (\<lambda>m. trace_identity_relation log_entity (fst m) subject) members else [])"

definition suppressions_of :: "trace_id \<Rightarrow> resident_span list \<Rightarrow> resident_log \<Rightarrow> suppression list" where
  "suppressions_of subject members = (\<lambda>(log_entity, log).
     if lg_trace_id log = Some subject
     then (case exact_span members log of
             Some exact \<Rightarrow>
               [\<lparr>su_log = log_entity, su_span = exact,
                 su_suppressed = sat_u64 (length (filter (\<lambda>m. fst m \<noteq> exact) members))\<rparr>]
           | None \<Rightarrow> [])
     else [])"

definition absent_of :: "trace_id \<Rightarrow> resident_span list \<Rightarrow> resident_log \<Rightarrow> absent_trace list" where
  "absent_of subject members = (\<lambda>(log_entity, log).
     if lg_trace_id log = Some subject \<and> members = [] then [AbsentTrace log_entity] else [])"

definition parent_child_of :: "resident_span list \<Rightarrow> resident_span \<Rightarrow> formed list" where
  "parent_child_of spans = (\<lambda>(child_entity, child).
     case sp_parent_span_id child of
       None \<Rightarrow> []
     | Some parent_span_id \<Rightarrow>
         if \<not> span_id_is_valid parent_span_id then []
         else (case natural_identity child of
                 None \<Rightarrow> []
               | Some (trace, _) \<Rightarrow>
                   (case resident_span_named spans trace parent_span_id of
                      None \<Rightarrow> []
                    | Some parent_entity \<Rightarrow>
                        if child_entity = parent_entity then []
                        else [parent_child_relation child_entity parent_entity parent_span_id])))"

fun pairs_of :: "attributes \<Rightarrow> signal_ref list \<Rightarrow> formed list" where
  "pairs_of identity [] = []"
| "pairs_of identity (from # later) =
     map (resource_context_relation identity from) later @ pairs_of identity later"

definition exemplars_of :: "resident_span list \<Rightarrow> resident_point \<Rightarrow> formed list" where
  "exemplars_of spans = (\<lambda>(point_entity, point, _).
     List.concat (map (\<lambda>exemplar.
       case exemplar_correlation_pair exemplar of
         None \<Rightarrow> []
       | Some (trace, span_id) \<Rightarrow>
           (case resident_span_named spans trace span_id of
              None \<Rightarrow> []
            | Some span_entity \<Rightarrow> [exemplar_relation point_entity span_entity trace span_id]))
       (point_exemplars point)))"

definition span_end :: "span \<Rightarrow> u64" where
  "span_end span = (case sp_end_time span of Some e \<Rightarrow> e | None \<Rightarrow> sp_start_time span)"

definition co_active :: "time_window \<Rightarrow> span \<Rightarrow> metric_point \<Rightarrow> bool" where
  "co_active window span point \<longleftrightarrow>
     win_from window < span_end span \<and> sp_start_time span < win_to window \<and>
     win_from window \<le> point_time point \<and> point_time point < win_to window \<and>
     activity_gap (sp_start_time span) (span_end span) (point_time point) \<le> window_len window"

definition activities_of :: "time_window \<Rightarrow> resident_point list \<Rightarrow> resident_span \<Rightarrow> formed list" where
  "activities_of window points = (\<lambda>(span_entity, span).
     List.concat (map (\<lambda>(point_entity, point, _).
       if co_active window span point
       then [activity_relation span_entity span point_entity point window] else []) points))"

definition strategy_formed ::
  "correlation_bounds \<Rightarrow> resident_span list \<Rightarrow> resident_log list \<Rightarrow> resident_point list \<Rightarrow> strategy \<Rightarrow> formed list" where
  "strategy_formed b spans logs points s =
     (let subject = cb_subject_trace b; members = subject_spans spans subject
      in case s of
        SpanIdentity \<Rightarrow>
          (case subject of None \<Rightarrow> [] | Some t \<Rightarrow> List.concat (map (span_identity_of t members) logs))
      | TraceIdentity \<Rightarrow>
          (case subject of None \<Rightarrow> [] | Some t \<Rightarrow> List.concat (map (trace_identity_of t members) logs))
      | ParentChild \<Rightarrow> List.concat (map (parent_child_of spans) spans)
      | ResourceContext \<Rightarrow>
          List.concat (map (\<lambda>(identity, members). pairs_of identity members)
            (resource_groups spans logs points))
      | ExemplarAttachment \<Rightarrow> List.concat (map (exemplars_of spans) points)
      | TemporalCoActivity \<Rightarrow>
          (case cb_window b of
             None \<Rightarrow> []
           | Some w \<Rightarrow> if window_is_empty w then [] else List.concat (map (activities_of w points) members)))"

lemma span_identity_pushes:
  "span_identity subject members logs sink =
     push_all (case subject of None \<Rightarrow> [] | Some t \<Rightarrow> List.concat (map (span_identity_of t members) logs)) sink"
  unfolding span_identity_def
  by (cases subject) (auto intro!: fold_push_all simp: span_identity_of_def split: option.splits)

lemma trace_identity_log_exact:
  "trace_identity_log subject members (log_entity, log) acc =
     (if lg_trace_id log = Some subject
      then (case exact_span members log of
              Some exact_entity \<Rightarrow>
                acc\<lparr>ia_suppressions := ia_suppressions acc @
                  [\<lparr>su_log = log_entity, su_span = exact_entity,
                    su_suppressed = sat_u64 (length (filter (\<lambda>m. fst m \<noteq> exact_entity) members))\<rparr>]\<rparr>
            | None \<Rightarrow>
                if members = [] then acc\<lparr>ia_absent := ia_absent acc @ [AbsentTrace log_entity]\<rparr>
                else acc\<lparr>ia_sink :=
                  push_all (map (\<lambda>m. trace_identity_relation log_entity (fst m) subject) members) (ia_sink acc)\<rparr>)
      else acc)"
  by (cases "lg_trace_id log")
    (auto simp: trace_identity_log_def exact_span_def fold_map comp_def case_prod_unfold
      split: option.split)

lemma trace_identity_pushes:
  "fold (trace_identity_log t members) logs acc =
     \<lparr>ia_sink = push_all (List.concat (map (trace_identity_of t members) logs)) (ia_sink acc),
      ia_suppressions = ia_suppressions acc @ List.concat (map (suppressions_of t members) logs),
      ia_absent = ia_absent acc @ List.concat (map (absent_of t members) logs)\<rparr>"
proof (induction logs arbitrary: acc)
  case (Cons l logs)
  obtain e log where l: "l = (e, log)" by (cases l)
  have none: "exact_span [] log = None"
    by (cases "log_correlation_pair log") (auto simp: exact_span_def span_with_identity_def)
  have "trace_identity_log t members l acc =
     \<lparr>ia_sink = push_all (trace_identity_of t members l) (ia_sink acc),
      ia_suppressions = ia_suppressions acc @ suppressions_of t members l,
      ia_absent = ia_absent acc @ absent_of t members l\<rparr>"
    using none
    by (auto simp: l trace_identity_log_exact trace_identity_of_def suppressions_of_def absent_of_def
        split: option.split)
  then show ?case by (simp add: Cons)
qed simp

lemma parent_child_pushes: "parent_child spans sink = push_all (List.concat (map (parent_child_of spans) spans)) sink"
  unfolding parent_child_def
  by (rule fold_push_all) (auto simp: parent_child_of_def split: option.split)

lemma pairs_pushes: "push_pairs identity members sink = push_all (pairs_of identity members) sink"
  by (induction identity members sink rule: push_pairs.induct) (simp_all add: fold_map comp_def)

lemma short_group: "length members < 2 \<Longrightarrow> pairs_of identity members = []"
  by (cases members; cases "tl members") auto

lemma resource_context_pushes:
  "resource_context spans logs points sink =
     push_all (List.concat (map (\<lambda>(identity, members). pairs_of identity members)
       (resource_groups spans logs points))) sink"
  unfolding resource_context_def
  by (rule fold_push_all) (auto simp: pairs_pushes short_group)

lemma exemplar_attachment_pushes:
  "exemplar_attachment points spans sink = push_all (List.concat (map (exemplars_of spans) points)) sink"
  unfolding exemplar_attachment_def
  by (rule fold_push_all)
    (auto simp: exemplars_of_def intro!: fold_push_all split: option.split)

lemma activities_push:
  "fold (\<lambda>(point_entity, point, _) sink.
       let time = point_time point
       in if time < win_from w \<or> win_to w \<le> time then sink
          else if window_len w < activity_gap (sp_start_time span) (span_end span) time then sink
          else sink_push (activity_relation span_entity span point_entity point w) sink) points sink =
     push_all (activities_of w points (span_entity, span)) sink"
  if "win_from w < span_end span" "sp_start_time span < win_to w"
  unfolding activities_of_def prod.case using that
  by (intro fold_push_all) (auto simp: co_active_def Let_def not_le not_less)

lemma no_activities:
  "\<not> (win_from w < span_end span \<and> sp_start_time span < win_to w) \<Longrightarrow>
     activities_of w points (span_entity, span) = []"
  by (auto simp: activities_of_def co_active_def)

lemma temporal_co_activity_pushes:
  "temporal_co_activity members points window sink =
     push_all (case window of
         None \<Rightarrow> []
       | Some w \<Rightarrow> if window_is_empty w then [] else List.concat (map (activities_of w points) members)) sink"
proof (cases window)
  case (Some w)
  have step: "(let start = sp_start_time span;
                end_time = (case sp_end_time span of Some e \<Rightarrow> e | None \<Rightarrow> start)
            in if end_time \<le> win_from w \<or> win_to w \<le> start then sink
               else fold (\<lambda>(point_entity, point, _) sink.
                 let time = point_time point
                 in if time < win_from w \<or> win_to w \<le> time then sink
                    else if window_len w < activity_gap start end_time time then sink
                    else sink_push (activity_relation span_entity span point_entity point w) sink)
                 points sink) = push_all (activities_of w points (span_entity, span)) sink"
    for span_entity span sink
    unfolding Let_def span_end_def [symmetric]
    using activities_push [of w span span_entity points sink] no_activities [of w span points span_entity]
    by (simp add: Let_def not_le not_less)
  show ?thesis
    unfolding Some temporal_co_activity_def option.case
    unfolding step
    by (cases "window_is_empty w")
      (auto intro!: fold_push_all)
qed (simp add: temporal_co_activity_def)

text \<open>A run of strategies is what they form, pushed, and what the trace strategy accounts.\<close>

definition strategy_suppressions ::
  "correlation_bounds \<Rightarrow> resident_span list \<Rightarrow> resident_log list \<Rightarrow> strategy \<Rightarrow> suppression list" where
  "strategy_suppressions b spans logs s =
     (case (s, cb_subject_trace b) of
        (TraceIdentity, Some t) \<Rightarrow> List.concat (map (suppressions_of t (subject_spans spans (Some t))) logs)
      | _ \<Rightarrow> [])"

definition strategy_absent ::
  "correlation_bounds \<Rightarrow> resident_span list \<Rightarrow> resident_log list \<Rightarrow> strategy \<Rightarrow> absent_trace list" where
  "strategy_absent b spans logs s =
     (case (s, cb_subject_trace b) of
        (TraceIdentity, Some t) \<Rightarrow> List.concat (map (absent_of t (subject_spans spans (Some t))) logs)
      | _ \<Rightarrow> [])"

lemma run_strategy_pushes:
  "run_strategy b spans logs points s acc =
     \<lparr>ia_sink = push_all (strategy_formed b spans logs points s) (ia_sink acc),
      ia_suppressions = ia_suppressions acc @ strategy_suppressions b spans logs s,
      ia_absent = ia_absent acc @ strategy_absent b spans logs s\<rparr>"
  by (cases s; cases "cb_subject_trace b")
    (simp_all add: run_strategy_def strategy_formed_def strategy_suppressions_def strategy_absent_def
      Let_def span_identity_pushes trace_identity_def trace_identity_pushes parent_child_pushes
      resource_context_pushes exemplar_attachment_pushes temporal_co_activity_pushes)

lemma run_strategies_push:
  "fold (run_strategy b spans logs points) ss acc =
     \<lparr>ia_sink = push_all (List.concat (map (strategy_formed b spans logs points) ss)) (ia_sink acc),
      ia_suppressions = ia_suppressions acc @ List.concat (map (strategy_suppressions b spans logs) ss),
      ia_absent = ia_absent acc @ List.concat (map (strategy_absent b spans logs) ss)\<rparr>"
  by (induction ss arbitrary: acc) (simp_all add: run_strategy_pushes)

end
