(* ===== verification/Correlation_Grounds.thy ===== *)
theory Correlation_Grounds
  imports Correlation_Laws
begin

text \<open>
  What grounds a relation, stated of single resident records and not of the strategies' loops, and
  the proof that the strategies form exactly the grounded relations. A span named by a pair of ids
  is the first resident span of that identity, as the source looks it up.
\<close>

section \<open>Grounds\<close>

text \<open>One element stands somewhere before another.\<close>

fun before :: "'a \<Rightarrow> 'a \<Rightarrow> 'a list \<Rightarrow> bool" where
  "before x y [] \<longleftrightarrow> False"
| "before x y (z # zs) \<longleftrightarrow> x = z \<and> y \<in> set zs \<or> before x y zs"

text \<open>The resident records in scan order, each with the identity of its resource.\<close>

definition resource_members ::
  "resident_span list \<Rightarrow> resident_log list \<Rightarrow> resident_point list \<Rightarrow> (attributes \<times> signal_ref) list" where
  "resource_members spans logs points =
     map (\<lambda>(e, s). (res_attributes (sp_resource s), \<lparr>sr_kind = SpansEnd, sr_entity = e\<rparr>)) spans @
     map (\<lambda>(e, l). (res_attributes (lg_resource l), \<lparr>sr_kind = LogRecordsEnd, sr_entity = e\<rparr>)) logs @
     map (\<lambda>(e, _, i). (res_attributes (si_resource i), \<lparr>sr_kind = MetricPointsEnd, sr_entity = e\<rparr>)) points"

inductive grounded ::
  "correlation_bounds \<Rightarrow> resident_span list \<Rightarrow> resident_log list \<Rightarrow> resident_point list \<Rightarrow> formed \<Rightarrow> bool"
  for b spans logs points where
  exact_span: "SpanIdentity \<in> set (cb_strategies b) \<Longrightarrow> (le, log) \<in> set logs \<Longrightarrow>
     lg_trace_id log = Some t \<Longrightarrow> cb_subject_trace b = Some t \<Longrightarrow> lg_span_id log = Some sid \<Longrightarrow>
     resident_span_named spans t sid = Some se \<Longrightarrow>
     grounded b spans logs points (span_identity_relation le se t sid)"
| trace_member: "TraceIdentity \<in> set (cb_strategies b) \<Longrightarrow> (le, log) \<in> set logs \<Longrightarrow>
     lg_trace_id log = Some t \<Longrightarrow> cb_subject_trace b = Some t \<Longrightarrow>
     (\<And>sid. lg_span_id log = Some sid \<Longrightarrow> resident_span_named spans t sid = None) \<Longrightarrow>
     (se, span) \<in> set spans \<Longrightarrow> natural_identity span = Some (t, sid') \<Longrightarrow>
     grounded b spans logs points (trace_identity_relation le se t)"
| parent: "ParentChild \<in> set (cb_strategies b) \<Longrightarrow> (ce, child) \<in> set spans \<Longrightarrow>
     sp_parent_span_id child = Some p \<Longrightarrow> span_id_is_valid p \<Longrightarrow>
     natural_identity child = Some (t, sid) \<Longrightarrow> resident_span_named spans t p = Some pe \<Longrightarrow> ce \<noteq> pe \<Longrightarrow>
     grounded b spans logs points (parent_child_relation ce pe p)"
| shared_resource: "ResourceContext \<in> set (cb_strategies b) \<Longrightarrow>
     before (identity, from) (identity, to) (resource_members spans logs points) \<Longrightarrow>
     grounded b spans logs points (resource_context_relation identity from to)"
| exemplar: "ExemplarAttachment \<in> set (cb_strategies b) \<Longrightarrow> (pe, point, stream) \<in> set points \<Longrightarrow>
     x \<in> set (point_exemplars point) \<Longrightarrow> ex_trace_id x = Some t \<Longrightarrow> ex_span_id x = Some sid \<Longrightarrow>
     resident_span_named spans t sid = Some se \<Longrightarrow>
     grounded b spans logs points (exemplar_relation pe se t sid)"
| activity: "TemporalCoActivity \<in> set (cb_strategies b) \<Longrightarrow> cb_window b = Some w \<Longrightarrow>
     cb_subject_trace b = Some t \<Longrightarrow> (se, span) \<in> set spans \<Longrightarrow> natural_identity span = Some (t, sid) \<Longrightarrow>
     (pe, point, stream) \<in> set points \<Longrightarrow> co_active w span point \<Longrightarrow>
     grounded b spans logs points (activity_relation se span pe point w)"

section \<open>Lookups\<close>

lemma find_filter: "(\<And>x. P x \<Longrightarrow> Q x) \<Longrightarrow> find P (filter Q xs) = find P xs"
  by (induction xs) auto

lemma subject_member:
  "m \<in> set (subject_spans spans (Some t)) \<longleftrightarrow>
     m \<in> set spans \<and> (\<exists>sid. natural_identity (snd m) = Some (t, sid))"
  by (auto simp: subject_spans_def split: option.splits)

lemma named_member: "span_with_identity (subject_spans spans (Some t)) t sid = resident_span_named spans t sid"
  unfolding span_with_identity_def resident_span_named_def subject_spans_def option.case
  by (subst find_filter) (auto split: option.splits)

lemma exact_span_named:
  "lg_trace_id log = Some t \<Longrightarrow>
     exact_span (subject_spans spans (Some t)) log =
       Option.bind (lg_span_id log) (resident_span_named spans t)"
  by (cases "lg_span_id log") (simp_all add: exact_span_def log_correlation_pair_def named_member)

lemma resident_span_named_SomeD:
  "resident_span_named spans t sid = Some e \<Longrightarrow>
     \<exists>span. (e, span) \<in> set spans \<and> natural_identity span = Some (t, sid)"
  by (auto simp: resident_span_named_def find_Some_iff split: option.splits) (metis nth_mem)

lemma resident_span_named_None:
  "resident_span_named spans t sid = None \<longleftrightarrow> (\<forall>m \<in> set spans. natural_identity (snd m) \<noteq> Some (t, sid))"
  by (force simp: resident_span_named_def find_None_iff split: option.splits)

section \<open>Groups\<close>

lemma before_filter: "before x y (filter P zs) \<longleftrightarrow> before x y zs \<and> P x \<and> P y"
  by (induction zs) auto

lemma before_map: "before x y (map f zs) \<longleftrightarrow> (\<exists>a b. before a b zs \<and> f a = x \<and> f b = y)"
  by (induction zs) auto

lemma set_pairs_of:
  "r \<in> set (pairs_of identity ms) \<longleftrightarrow> (\<exists>x y. before x y ms \<and> r = resource_context_relation identity x y)"
  by (induction ms) auto

definition group_add :: "attributes \<times> signal_ref \<Rightarrow> resource_groups \<Rightarrow> resource_groups" where
  "group_add = (\<lambda>(identity, member) groups.
     om_insert identity
       ((case map_of groups identity of Some members \<Rightarrow> members | None \<Rightarrow> []) @ [member]) groups)"

lemma group_push_add: "group_push res m = group_add (res_attributes res, m)"
  by (intro ext) (simp add: group_push_def group_add_def)

lemma resource_groups_members:
  "resource_groups spans logs points = fold group_add (resource_members spans logs points) []"
  by (simp add: resource_groups_def resource_members_def fold_map comp_def group_push_add
      case_prod_unfold)

definition members_with :: "attributes \<Rightarrow> (attributes \<times> signal_ref) list \<Rightarrow> signal_ref list" where
  "members_with identity ms = map snd (filter (\<lambda>m. fst m = identity) ms)"

lemma fold_group_add:
  assumes "om_sorted groups"
  shows "om_sorted (fold group_add ms groups) \<and>
    (\<forall>identity. map_of (fold group_add ms groups) identity =
       (if members_with identity ms = [] then map_of groups identity
        else Some ((case map_of groups identity of Some g \<Rightarrow> g | None \<Rightarrow> []) @ members_with identity ms)))"
  using assms
proof (induction ms arbitrary: groups)
  case (Cons m ms)
  obtain i r where m: "m = (i, r)" by (cases m)
  have "om_sorted (group_add m groups)" using Cons.prems by (simp add: group_add_def m om_sorted_insert)
  from Cons.IH [OF this] show ?case
    by (auto simp: group_add_def m map_of_om_insert members_with_def)
qed (simp add: members_with_def)

lemma resource_group_iff:
  "(identity, g) \<in> set (resource_groups spans logs points) \<longleftrightarrow>
     g \<noteq> [] \<and> g = members_with identity (resource_members spans logs points)"
proof -
  let ?gs = "resource_groups spans logs points"
  have laws: "om_sorted ?gs" "map_of ?gs identity =
      (if members_with identity (resource_members spans logs points) = [] then None
       else Some (members_with identity (resource_members spans logs points)))"
    using fold_group_add [of "[]" "resource_members spans logs points"]
    by (simp_all add: resource_groups_members)
  have "(identity, g) \<in> set ?gs \<longleftrightarrow> map_of ?gs identity = Some g"
    using om_sorted_distinct [OF laws(1)] by simp
  then show ?thesis using laws(2) by auto
qed

lemma set_resource_formed:
  "r \<in> set (List.concat (map (\<lambda>(identity, members). pairs_of identity members)
       (resource_groups spans logs points))) \<longleftrightarrow>
     (\<exists>identity x y. before (identity, x) (identity, y) (resource_members spans logs points) \<and>
        r = resource_context_relation identity x y)"
proof -
  have "before x y (members_with identity ms) \<longleftrightarrow> before (identity, x) (identity, y) ms" for identity x y ms
    by (auto simp: members_with_def before_map before_filter) 
  moreover have "before x y ms \<Longrightarrow> ms \<noteq> []" for x y :: signal_ref and ms by auto
  ultimately show ?thesis
    by (simp add: Bex_def split_paired_Ex resource_group_iff set_pairs_of) blast
qed

section \<open>The strategies form the grounded relations\<close>

lemmas each_record = Bex_def split_paired_Ex set_concat set_map image_image Union_iff

lemma span_identity_grounded:
  "r \<in> set (strategy_formed b spans logs points SpanIdentity) \<longleftrightarrow>
     (\<exists>le log t sid se. (le, log) \<in> set logs \<and> lg_trace_id log = Some t \<and> cb_subject_trace b = Some t \<and>
        lg_span_id log = Some sid \<and> resident_span_named spans t sid = Some se \<and>
        r = span_identity_relation le se t sid)"
proof (cases "cb_subject_trace b")
  case (Some t)
  have "r \<in> set (span_identity_of t (subject_spans spans (Some t)) (le, log)) \<longleftrightarrow>
      (\<exists>sid se. lg_trace_id log = Some t \<and> lg_span_id log = Some sid \<and>
        resident_span_named spans t sid = Some se \<and> r = span_identity_relation le se t sid)" for le log
    by (cases "lg_trace_id log"; cases "lg_span_id log"; cases "resident_span_named spans t (the (lg_span_id log))")
      (auto simp: span_identity_of_def log_correlation_pair_def named_member)
  then show ?thesis by (simp add: strategy_formed_def Some each_record)
qed (simp add: strategy_formed_def)

lemma trace_identity_grounded:
  "r \<in> set (strategy_formed b spans logs points TraceIdentity) \<longleftrightarrow>
     (\<exists>le log t se span sid'. (le, log) \<in> set logs \<and> lg_trace_id log = Some t \<and> cb_subject_trace b = Some t \<and>
        (\<forall>sid. lg_span_id log = Some sid \<longrightarrow> resident_span_named spans t sid = None) \<and>
        (se, span) \<in> set spans \<and> natural_identity span = Some (t, sid') \<and>
        r = trace_identity_relation le se t)"
proof (cases "cb_subject_trace b")
  case (Some t)
  have members: "(\<exists>m \<in> set (subject_spans spans (Some t)). r = f (fst m)) \<longleftrightarrow>
      (\<exists>se span sid'. (se, span) \<in> set spans \<and> natural_identity span = Some (t, sid') \<and> r = f se)" for f
    by (simp add: subject_member Bex_def split_paired_Ex)
  have "r \<in> set (trace_identity_of t (subject_spans spans (Some t)) (le, log)) \<longleftrightarrow>
      lg_trace_id log = Some t \<and>
      (\<forall>sid. lg_span_id log = Some sid \<longrightarrow> resident_span_named spans t sid = None) \<and>
      (\<exists>se span sid'. (se, span) \<in> set spans \<and> natural_identity span = Some (t, sid') \<and>
        r = trace_identity_relation le se t)" for le log
    unfolding members [symmetric]
    by (cases "lg_span_id log") (auto simp: trace_identity_of_def exact_span_named)
  then show ?thesis by (simp add: strategy_formed_def Some each_record)
qed (simp add: strategy_formed_def)

lemma parent_child_grounded:
  "r \<in> set (strategy_formed b spans logs points ParentChild) \<longleftrightarrow>
     (\<exists>ce child p t sid pe. (ce, child) \<in> set spans \<and> sp_parent_span_id child = Some p \<and>
        span_id_is_valid p \<and> natural_identity child = Some (t, sid) \<and>
        resident_span_named spans t p = Some pe \<and> ce \<noteq> pe \<and> r = parent_child_relation ce pe p)"
proof -
  have "r \<in> set (parent_child_of spans (ce, child)) \<longleftrightarrow>
     (\<exists>p t sid pe. sp_parent_span_id child = Some p \<and>
        span_id_is_valid p \<and> natural_identity child = Some (t, sid) \<and>
        resident_span_named spans t p = Some pe \<and> ce \<noteq> pe \<and> r = parent_child_relation ce pe p)" for ce child
    by (cases "sp_parent_span_id child"; cases "natural_identity child";
        cases "resident_span_named spans (fst (the (natural_identity child))) (the (sp_parent_span_id child))")
      (auto simp: parent_child_of_def)
  then show ?thesis by (simp add: strategy_formed_def each_record)
qed

lemma exemplar_grounded:
  "r \<in> set (strategy_formed b spans logs points ExemplarAttachment) \<longleftrightarrow>
     (\<exists>pe point stream x t sid se. (pe, point, stream) \<in> set points \<and> x \<in> set (point_exemplars point) \<and>
        ex_trace_id x = Some t \<and> ex_span_id x = Some sid \<and>
        resident_span_named spans t sid = Some se \<and> r = exemplar_relation pe se t sid)"
proof -
  have "r \<in> set (exemplars_of spans (pe, point, stream)) \<longleftrightarrow>
     (\<exists>x \<in> set (point_exemplars point). \<exists>t sid se. ex_trace_id x = Some t \<and> ex_span_id x = Some sid \<and>
        resident_span_named spans t sid = Some se \<and> r = exemplar_relation pe se t sid)" for pe point stream
  proof -
    have "r \<in> set (case exemplar_correlation_pair x of None \<Rightarrow> []
        | Some (t, sid) \<Rightarrow> (case resident_span_named spans t sid of None \<Rightarrow> []
            | Some se \<Rightarrow> [exemplar_relation pe se t sid])) \<longleftrightarrow>
      (\<exists>t sid se. ex_trace_id x = Some t \<and> ex_span_id x = Some sid \<and>
        resident_span_named spans t sid = Some se \<and> r = exemplar_relation pe se t sid)" for x
      by (cases "ex_trace_id x"; cases "ex_span_id x";
          cases "resident_span_named spans (the (ex_trace_id x)) (the (ex_span_id x))")
        (auto simp: exemplar_correlation_pair_def)
    then show ?thesis by (simp add: exemplars_of_def)
  qed
  then show ?thesis by (simp add: strategy_formed_def each_record)
qed

lemma co_active_window: "co_active w span point \<Longrightarrow> \<not> window_is_empty w"
  by (auto simp: co_active_def window_is_empty_def)

lemma activity_grounded:
  "r \<in> set (strategy_formed b spans logs points TemporalCoActivity) \<longleftrightarrow>
     (\<exists>w t se span sid pe point stream. cb_window b = Some w \<and> cb_subject_trace b = Some t \<and>
        (se, span) \<in> set spans \<and> natural_identity span = Some (t, sid) \<and>
        (pe, point, stream) \<in> set points \<and> co_active w span point \<and>
        r = activity_relation se span pe point w)"
proof (cases "cb_window b")
  case (Some w)
  have "r \<in> set (activities_of w points (se, span)) \<longleftrightarrow>
      (\<exists>pe point stream. (pe, point, stream) \<in> set points \<and> co_active w span point \<and>
        r = activity_relation se span pe point w)" for se span
    by (fastforce simp: activities_of_def split: if_splits)
  note each = this
  show ?thesis
  proof (cases "cb_subject_trace b")
    case (Some t)
    show ?thesis
      using \<open>cb_window b = Some w\<close> Some co_active_window [of w] each
      by (cases "window_is_empty w"; simp add: strategy_formed_def each_record subject_member; blast)
  next
    case None
    then show ?thesis using \<open>cb_window b = Some w\<close> by (simp add: strategy_formed_def subject_spans_def)
  qed
qed (simp add: strategy_formed_def)

lemma resource_grounded:
  "r \<in> set (strategy_formed b spans logs points ResourceContext) \<longleftrightarrow>
     (\<exists>identity x y. before (identity, x) (identity, y) (resource_members spans logs points) \<and>
        r = resource_context_relation identity x y)"
  using set_resource_formed by (simp add: strategy_formed_def)

theorem formed_exactly_grounded:
  "r \<in> set (List.concat (map (strategy_formed b spans logs points) (cb_strategies b))) \<longleftrightarrow>
     grounded b spans logs points r"
proof
  assume "r \<in> set (List.concat (map (strategy_formed b spans logs points) (cb_strategies b)))"
  then obtain s where s: "s \<in> set (cb_strategies b)" "r \<in> set (strategy_formed b spans logs points s)" by auto
  show "grounded b spans logs points r"
  proof (cases s)
    case SpanIdentity
    then show ?thesis using s span_identity_grounded by (auto intro: exact_span)
  next
    case TraceIdentity
    then show ?thesis using s unfolding TraceIdentity trace_identity_grounded by (auto intro: trace_member)
  next
    case ParentChild
    then show ?thesis using s unfolding ParentChild parent_child_grounded by (auto intro: parent)
  next
    case ResourceContext
    then show ?thesis using s unfolding ResourceContext resource_grounded by (auto intro: shared_resource)
  next
    case ExemplarAttachment
    then show ?thesis using s unfolding ExemplarAttachment exemplar_grounded by (auto intro: exemplar)
  next
    case TemporalCoActivity
    then show ?thesis using s unfolding TemporalCoActivity activity_grounded by (auto intro: activity)
  qed
next
  have mem: "s \<in> set (cb_strategies b) \<Longrightarrow> r \<in> set (strategy_formed b spans logs points s) \<Longrightarrow>
      r \<in> set (List.concat (map (strategy_formed b spans logs points) (cb_strategies b)))" for s
    by auto
  assume "grounded b spans logs points r"
  then show "r \<in> set (List.concat (map (strategy_formed b spans logs points) (cb_strategies b)))"
  proof cases
    case exact_span
    then show ?thesis by (intro mem [of SpanIdentity]) (auto simp: span_identity_grounded)
  next
    case trace_member
    then show ?thesis by (intro mem [of TraceIdentity]) (simp, unfold trace_identity_grounded, blast)
  next
    case parent
    then show ?thesis by (intro mem [of ParentChild]) (simp, unfold parent_child_grounded, blast)
  next
    case shared_resource
    then show ?thesis by (intro mem [of ResourceContext]) (simp, unfold resource_grounded, blast)
  next
    case exemplar
    then show ?thesis by (intro mem [of ExemplarAttachment]) (simp, unfold exemplar_grounded, blast)
  next
    case activity
    then show ?thesis by (intro mem [of TemporalCoActivity]) (simp, unfold activity_grounded, blast)
  qed
qed

end
