(* ===== verification/Correlation_Scans.thy ===== *)
theory Correlation_Scans
  imports Correlation_Grounds Store_Promises
begin

text \<open>
  What the scans of a correlation run read: for every driver, one unit of the allowance per record
  examined and never more than it allows; over the memory store, the resident records in residency
  order, up to what the allowance left them.
\<close>

section \<open>Every driver\<close>

lemma examine_items_closed:
  "spent \<le> max_scan \<Longrightarrow> examine_items view max_scan items resident spent =
     (let n = max_scan - spent
      in (resident @ map view (take n items), spent + min n (length items), n < length items))"
proof (induction items arbitrary: resident spent)
  case (Cons i items)
  show ?case
  proof (cases "max_scan \<le> spent")
    case False
    then obtain m where "max_scan - spent = Suc m" by (metis Suc_diff_Suc not_less)
    with False Cons.IH [of "spent + 1" "resident @ [view i]"] show ?thesis
      by (simp add: Let_def) (metis Suc_diff_Suc Suc_inject diff_Suc_Suc not_less)
  qed (use Cons.prems in simp)
qed simp

lemma scan_loop_spends:
  "spent \<le> max_scan \<Longrightarrow> scan_loop fetch view max_scan after resident spent stopped = (r, s, out) \<Longrightarrow>
     s \<le> max_scan \<and> length r + spent = length resident + s"
proof (induction fetch view max_scan after resident spent stopped rule: scan_loop.induct)
  case (1 fetch view max_scan after resident spent stopped)
  obtain r1 s1 ex where items: "examine_items view max_scan (pg_items (fetch after SCAN_PAGE)) resident spent = (r1, s1, ex)"
    by (metis prod_cases3)
  with 1(2) have one: "s1 \<le> max_scan" "length r1 + spent = length resident + s1"
    by (auto simp: examine_items_closed Let_def)
  show ?case
  proof (cases "max_scan \<le> spent \<or> pg_items (fetch after SCAN_PAGE) = [] \<or> ex \<or>
      pg_cursor (fetch after SCAN_PAGE) = None")
    case True
    then show ?thesis
      using 1(2,3) one items
      by (subst (asm) scan_loop.simps) (auto simp: Let_def split: if_splits option.splits)
  next
    case False
    then obtain c where c: "pg_cursor (fetch after SCAN_PAGE) = Some c" by auto
    have "scan_loop fetch view max_scan (Some c) r1 s1 stopped = (r, s, out)"
      using 1(3) False items c by (subst (asm) scan_loop.simps) (simp add: Let_def)
    from 1(1) [OF _ refl _ items [symmetric] refl _ c one(1) this] False one(2) show ?thesis by simp
  qed
qed

lemma resident_scans_spend:
  assumes "resident_scans S b = (spans, logs, points, spent, stopped)"
  shows "spent \<le> cb_max_scan b \<and> length spans + length logs + length points = spent"
proof -
  obtain s1 st1 s2 st2 where
    scans: "scan_resident_spans S b 0 None = (spans, s1, st1)" "scan_resident_logs S b s1 st1 = (logs, s2, st2)"
      "scan_resident_points S b s2 st2 = (points, spent, stopped)"
    using assms by (auto simp: resident_scans_def split: prod.splits)
  note one = scan_loop_spends [OF le0 scans(1) [unfolded scan_resident_spans_def]]
  note two = scan_loop_spends [OF one [THEN conjunct1] scans(2) [unfolded scan_resident_logs_def]]
  note three = scan_loop_spends [OF two [THEN conjunct1] scans(3) [unfolded scan_resident_points_def]]
  from one two three show ?thesis by simp
qed

section \<open>A driver that keeps the scan contract\<close>

definition bounded_scan ::
  "('a \<Rightarrow> 'x) \<Rightarrow> 'a list \<Rightarrow> nat \<Rightarrow> 'x list \<Rightarrow> nat \<Rightarrow> run_stop option \<Rightarrow> 'x list \<times> nat \<times> run_stop option" where
  "bounded_scan view ps max_scan resident spent stopped =
     (let n = max_scan - spent
      in (resident @ map view (take n ps), spent + min n (length ps),
          if n = 0 \<or> n < length ps then Some (ScanExhausted (spent + n)) else stopped))"

context ordered_scan
begin

lemma scan_loop_reads:
  assumes "ok s" "spent \<le> max_scan"
  shows "scan_loop (scan s) view max_scan after resident0 spent stopped =
    bounded_scan (\<lambda>p. view (as_item p)) (past after (resident s)) max_scan resident0 spent stopped"
  using assms(2)
proof (induction "max_scan - spent" arbitrary: after resident0 spent rule: less_induct)
  case less
  let ?ps = "past after (resident s)"
  let ?n = "max_scan - spent"
  have page: "pg_items (scan s after SCAN_PAGE) = map as_item (take SCAN_PAGE ?ps)"
    and cursor: "pg_cursor (scan s after SCAN_PAGE) =
      (if length ?ps \<le> SCAN_PAGE then None else Some (fst (?ps ! (SCAN_PAGE - 1))))"
    using assms(1) by (simp_all add: scan_items scan_cursor SCAN_PAGE_def)
  have pos: "0 < SCAN_PAGE" by (simp add: SCAN_PAGE_def)
  consider "?n = 0" | "?n \<noteq> 0" "length ?ps \<le> SCAN_PAGE" | "?n \<noteq> 0" "SCAN_PAGE < length ?ps" "?n < SCAN_PAGE"
    | "?n \<noteq> 0" "SCAN_PAGE < length ?ps" "SCAN_PAGE \<le> ?n" by linarith
  then show ?case
  proof cases
    case 1
    then show ?thesis using less.prems by (subst scan_loop.simps) (simp add: bounded_scan_def)
  next
    case 2
    then show ?thesis
      by (subst scan_loop.simps)
        (auto simp: page cursor examine_items_closed [OF less.prems] bounded_scan_def Let_def take_map comp_def min_def)
  next
    case 3
    then have "?ps \<noteq> []" by auto
    with 3 show ?thesis
      using pos by (subst scan_loop.simps)
        (auto simp: page cursor examine_items_closed [OF less.prems] bounded_scan_def Let_def take_map comp_def)
  next
    case 4
    define c where "c = fst (?ps ! (SCAN_PAGE - 1))"
    have rest: "past (Some c) (resident s) = drop SCAN_PAGE ?ps"
      unfolding c_def using past_cursor [OF assms(1) pos 4(2)] .
    have next_page: "pg_cursor (scan s after SCAN_PAGE) = Some c" using 4 cursor by (simp add: c_def)
    have ne: "?ps \<noteq> []" using 4 by auto
    have loop: "scan_loop (scan s) view max_scan after resident0 spent stopped =
        scan_loop (scan s) view max_scan (Some c)
          (resident0 @ map (\<lambda>p. view (as_item p)) (take SCAN_PAGE ?ps)) (spent + SCAN_PAGE) stopped"
      using 4 ne pos by (subst scan_loop.simps)
        (auto simp: page next_page examine_items_closed [OF less.prems] Let_def take_map comp_def)
    have split: "take ?n ?ps = take SCAN_PAGE ?ps @ take (?n - SCAN_PAGE) (drop SCAN_PAGE ?ps)"
      using 4(3) by (metis append_take_drop_id le_add_diff_inverse take_add)
    have "scan_loop (scan s) view max_scan (Some c)
          (resident0 @ map (\<lambda>p. view (as_item p)) (take SCAN_PAGE ?ps)) (spent + SCAN_PAGE) stopped =
        bounded_scan (\<lambda>p. view (as_item p)) (drop SCAN_PAGE ?ps) max_scan
          (resident0 @ map (\<lambda>p. view (as_item p)) (take SCAN_PAGE ?ps)) (spent + SCAN_PAGE) stopped"
      unfolding rest [symmetric] using 4 pos by (intro less.hyps) auto
    then show ?thesis
      unfolding loop using 4 pos split by (auto simp: bounded_scan_def Let_def)
  qed
qed

end

section \<open>The memory store\<close>

interpretation point_scan: ordered_scan "\<lambda>st. map (\<lambda>p. (fst p, view_of (snd p))) (by_key (points_shelf st))"
  scan_metric_points "\<lambda>st. om_sorted (by_key (points_shelf st))"
proof
  fix st :: memory_store and after :: "admission_key option" and limit :: usize
  let ?ps = "by_key (points_shelf st)"
  let ?view = "\<lambda>p. (fst p, view_of (snd p))"
  have past_map: "past after (map ?view ?ps) = map ?view (past after ?ps)"
    by (cases after) (simp_all add: past_def filter_map comp_def)
  have page: "pg_items (scan_after (points_shelf st) after limit) = map as_item (take limit (past after ?ps))"
    "0 < limit \<Longrightarrow> pg_cursor (scan_after (points_shelf st) after limit) =
       (if length (past after ?ps) \<le> limit then None else Some (fst (past after ?ps ! (limit - 1))))"
    by (auto simp: scan_after_def past_def page_from_items page_from_cursor split: option.splits)
  show "om_sorted (map ?view ?ps)" if "om_sorted ?ps"
    using that by (simp add: om_sorted_def comp_def)
  show "pg_items (scan_metric_points st after limit) = map as_item (take limit (past after (map ?view ?ps)))"
    unfolding past_map by (simp add: scan_metric_points_def page Let_def as_item_def take_map)
  show "pg_cursor (scan_metric_points st after limit) =
      (if length (past after (map ?view ?ps)) \<le> limit then None
       else Some (fst (past after (map ?view ?ps) ! (limit - 1))))" if "0 < limit"
    unfolding past_map using that by (simp add: scan_metric_points_def page Let_def)
qed

interpretation sorted_shelf: ordered_scan by_key scan_after "\<lambda>sh. om_sorted (by_key sh)"
proof
  fix sh :: "'a shelf" and after :: "admission_key option" and limit :: usize
  show "om_sorted (by_key sh)" if "om_sorted (by_key sh)" using that .
  show "pg_items (scan_after sh after limit) = map as_item (take limit (past after (by_key sh)))"
    by (auto simp: scan_after_def past_def page_from_items split: option.splits)
  show "pg_cursor (scan_after sh after limit) =
      (if length (past after (by_key sh)) \<le> limit then None
       else Some (fst (past after (by_key sh) ! (limit - 1))))" if "0 < limit"
    using that by (auto simp: scan_after_def past_def page_from_cursor split: option.splits)
qed

text \<open>The shelves of a store: in residency order, and each entity filed under its one key. Every
  session of the memory store keeps them so.\<close>

definition shelves_indexed :: "memory_store \<Rightarrow> bool" where
  "shelves_indexed st \<longleftrightarrow>
     om_sorted (by_key (spans_shelf st)) \<and> index_matches (spans_shelf st) \<and>
     om_sorted (by_key (logs_shelf st)) \<and> index_matches (logs_shelf st) \<and>
     om_sorted (by_key (points_shelf st)) \<and> index_matches (points_shelf st)"

lemma session_indexed:
  assumes "sane_config cfg"
  shows "shelves_indexed (fst (store_session L cfg wired ops))"
proof -
  obtain st kept calls where s: "store_session L cfg wired ops = (st, kept, calls)" by (metis prod_cases3)
  then show ?thesis
    using settled_parts(1) [OF session_laws(1) [OF assms s]]
    by (simp add: shelves_indexed_def wf_store_def wf_shelf_def)
qed

definition spans_of :: "memory_store \<Rightarrow> resident_span list" where
  "spans_of st = map (\<lambda>p. (key_entity (fst p), snd p)) (by_key (spans_shelf st))"

definition logs_of :: "memory_store \<Rightarrow> resident_log list" where
  "logs_of st = map (\<lambda>p. (key_entity (fst p), snd p)) (by_key (logs_shelf st))"

definition points_of :: "memory_store \<Rightarrow> resident_point list" where
  "points_of st =
     map (\<lambda>p. (key_entity (fst p), ps_point (snd p), ps_stream (snd p))) (by_key (points_shelf st))"

lemma memory_scans:
  assumes "shelves_indexed st" "spent \<le> cb_max_scan b"
  shows "scan_resident_spans (memory_query_store st) b spent stopped =
      bounded_scan (\<lambda>x. x) (spans_of st) (cb_max_scan b) [] spent stopped"
    and "scan_resident_logs (memory_query_store st) b spent stopped =
      bounded_scan (\<lambda>x. x) (logs_of st) (cb_max_scan b) [] spent stopped"
    and "scan_resident_points (memory_query_store st) b spent stopped =
      bounded_scan (\<lambda>x. x) (points_of st) (cb_max_scan b) [] spent stopped"
proof -
  have sorted: "om_sorted (by_key (spans_shelf st))" "om_sorted (by_key (logs_shelf st))"
    "om_sorted (by_key (points_shelf st))"
    using assms(1) by (simp_all add: shelves_indexed_def)
  show "scan_resident_spans (memory_query_store st) b spent stopped =
      bounded_scan (\<lambda>x. x) (spans_of st) (cb_max_scan b) [] spent stopped"
    by (simp add: scan_resident_spans_def memory_query_store_def scan_spans_def bounded_scan_def past_def
        spans_of_def as_item_def take_map comp_def Let_def
        sorted_shelf.scan_loop_reads [OF sorted(1) assms(2)])
  show "scan_resident_logs (memory_query_store st) b spent stopped =
      bounded_scan (\<lambda>x. x) (logs_of st) (cb_max_scan b) [] spent stopped"
    by (simp add: scan_resident_logs_def memory_query_store_def scan_log_records_def bounded_scan_def past_def
        logs_of_def as_item_def take_map comp_def Let_def
        sorted_shelf.scan_loop_reads [OF sorted(2) assms(2)])
  show "scan_resident_points (memory_query_store st) b spent stopped =
      bounded_scan (\<lambda>x. x) (points_of st) (cb_max_scan b) [] spent stopped"
    by (simp add: scan_resident_points_def memory_query_store_def bounded_scan_def past_def
        points_of_def as_item_def view_of_def take_map comp_def Let_def
        point_scan.scan_loop_reads [OF sorted(3) assms(2)])
qed

lemma memory_resident_scans:
  assumes "shelves_indexed st"
  shows "resident_scans (memory_query_store st) b =
    (let max_scan = cb_max_scan b; ns = length (spans_of st); nl = length (logs_of st);
         np = length (points_of st)
     in (take max_scan (spans_of st), take (max_scan - ns) (logs_of st),
         take (max_scan - ns - nl) (points_of st), min max_scan (ns + nl + np),
         if max_scan < ns + nl + np \<or> max_scan = ns + nl then Some (ScanExhausted max_scan) else None))"
  by (simp add: resident_scans_def memory_scans [OF assms] bounded_scan_def Let_def min_def) linarith

end
