(* ===== verification/Correlation_Promises.thy ===== *)
theory Correlation_Promises
  imports Correlation_Scans Samples
begin

text \<open>
  What a correlation run promises: its ceilings for every driver, the meaning of its relation
  ceiling, the exact set of relations over a session of the memory store, and the accounting of the
  trace strategy, with the two places where the report says less or more than the documentation of
  \<open>bounds.rs\<close>.
\<close>

section \<open>The shape of a run\<close>

lemma endpoint_orders_agree: "endpoint_entity_order = entity_order"
proof (intro ext)
  show "endpoint_entity_order a b = entity_order a b" for a b by (cases a; cases b) simp_all
qed

interpretation relations: comparator relation_order
  unfolding relation_order_def signal_ref_order_def endpoint_orders_agree
  by (intro comparator_then comparator_key comparator_on [OF comparator_entity])

text \<open>Every relation the strategies form, before any ceiling, in generation order.\<close>

definition formed_relations :: "query_store \<Rightarrow> correlation_bounds \<Rightarrow> formed list" where
  "formed_relations S b =
     (case resident_scans S b of (spans, logs, points, _) \<Rightarrow>
        List.concat (map (strategy_formed b spans logs points) (cb_strategies b)))"

lemma correlate_run:
  assumes "cb_max_hops b \<noteq> 0" "resident_scans S b = (spans, logs, points, spent, stopped)"
  shows "correlate S S' b =
    (let formed = take (cb_max_relations b) (formed_relations S b);
         kept = filter (endpoints_resident S') formed
     in \<lparr>co_relations = sort_by relation_order kept,
         co_truth = \<lparr>tt_strategy_versions = map version_of (cb_strategies b),
           tt_suppressions = List.concat (map (strategy_suppressions b spans logs) (cb_strategies b)),
           tt_absent_traces = List.concat (map (strategy_absent b spans logs) (cb_strategies b)),
           tt_shrunken = sat_u64 (length formed - length kept),
           tt_stopped_at = (if stopped = None \<and> cb_max_relations b < length (formed_relations S b)
                            then Some (MaxRelations (cb_max_relations b)) else stopped),
           tt_scan_spent = spent\<rparr>\<rparr>)"
  using assms push_all_laws [OF wf_sink_new]
  by (simp add: correlate_def run_strategies_push formed_relations_def Let_def sink_new_def)

lemma correlate_no_hops: "cb_max_hops b = 0 \<Longrightarrow> correlate S S' b =
   \<lparr>co_relations = [], co_truth = \<lparr>tt_strategy_versions = [], tt_suppressions = [],
      tt_absent_traces = [], tt_shrunken = 0, tt_stopped_at = Some (MaxDepth 0), tt_scan_spent = 0\<rparr>\<rparr>"
  by (simp add: correlate_def)

lemma strategy_formed_ceiling:
  "strategy_formed (b\<lparr>cb_max_relations := n\<rparr>) = strategy_formed b"
proof (intro ext)
  show "strategy_formed (b\<lparr>cb_max_relations := n\<rparr>) spans logs points s = strategy_formed b spans logs points s"
    for spans logs points s
    by (cases s) (simp_all add: strategy_formed_def)
qed

lemma scans_ceiling: "resident_scans S (b\<lparr>cb_max_relations := n\<rparr>) = resident_scans S b"
  by (simp add: resident_scans_def scan_resident_spans_def scan_resident_logs_def scan_resident_points_def)

lemma formed_relations_ceiling: "formed_relations S (b\<lparr>cb_max_relations := n\<rparr>) = formed_relations S b"
  by (simp add: formed_relations_def scans_ceiling strategy_formed_ceiling split: prod.split)

section \<open>Every driver\<close>

text \<open>C20: A correlation run stays within its bounds for every driver, before and at the re-check: it
  returns at most the relations its ceiling allows, those it dropped at the re-check included; it
  examines at most the positions its allowance allows; every relation it returns has both endpoints
  resident at the re-check; and the relations come in ascending order of type and endpoints.\<close>

theorem correlation_within_bounds:
  "length (co_relations (correlate S S' b)) + tt_shrunken (co_truth (correlate S S' b)) \<le> cb_max_relations b \<and>
   tt_scan_spent (co_truth (correlate S S' b)) \<le> cb_max_scan b \<and>
   list_all (endpoints_resident S') (co_relations (correlate S S' b)) \<and>
   sorted_wrt (\<lambda>l r. relation_order l r \<noteq> Greater) (co_relations (correlate S S' b))"
proof (cases "cb_max_hops b = 0")
  case False
  obtain spans logs points spent stopped where
    scans: "resident_scans S b = (spans, logs, points, spent, stopped)" by (metis prod_cases5)
  let ?formed = "take (cb_max_relations b) (formed_relations S b)"
  let ?kept = "filter (endpoints_resident S') ?formed"
  have "length ?kept + sat_u64 (length ?formed - length ?kept) \<le> length ?formed"
    using sat_u64_le [of "length ?formed - length ?kept"] length_filter_le [of "endpoints_resident S'" ?formed]
    by linarith
  moreover have "length ?formed \<le> cb_max_relations b" by simp
  ultimately show ?thesis
    using resident_scans_spend [OF scans] relations.ascending_sort [of ?kept]
    by (simp add: correlate_run [OF False scans] Let_def list_all_iff del: length_take)
qed (simp add: correlate_no_hops)

text \<open>C19: The relation ceiling keeps a prefix of what the strategies form and nothing else: what is
  formed does not depend on the ceiling, the answer is the sorted, still resident part of its first
  \<open>max_relations\<close> relations, the cut is named unless the scans had stopped the run already, and an
  answer under its ceiling is the answer of every higher ceiling.\<close>

theorem capped_answer_is_generation_prefix:
  assumes "cb_max_hops b \<noteq> 0"
  shows "co_relations (correlate S S' b) =
      sort_by relation_order (filter (endpoints_resident S') (take (cb_max_relations b) (formed_relations S b))) \<and>
    (\<forall>n. formed_relations S (b\<lparr>cb_max_relations := n\<rparr>) = formed_relations S b) \<and>
    (cb_max_relations b < length (formed_relations S b) \<longrightarrow>
       tt_stopped_at (co_truth (correlate S S' b)) \<noteq> None) \<and>
    (\<forall>n. length (formed_relations S b) \<le> cb_max_relations b \<longrightarrow> cb_max_relations b \<le> n \<longrightarrow>
       correlate S S' (b\<lparr>cb_max_relations := n\<rparr>) = correlate S S' b)"
proof -
  obtain spans logs points spent stopped where
    scans: "resident_scans S b = (spans, logs, points, spent, stopped)" by (metis prod_cases5)
  note run = correlate_run [OF assms scans]
  have scans': "resident_scans S (b\<lparr>cb_max_relations := n\<rparr>) = (spans, logs, points, spent, stopped)" for n
    by (simp add: scans_ceiling scans)
  have acc: "strategy_suppressions (b\<lparr>cb_max_relations := n\<rparr>) = strategy_suppressions b"
    "strategy_absent (b\<lparr>cb_max_relations := n\<rparr>) = strategy_absent b" for n
    by (intro ext; simp add: strategy_suppressions_def strategy_absent_def)+
  have "correlate S S' (b\<lparr>cb_max_relations := n\<rparr>) = correlate S S' b"
    if "length (formed_relations S b) \<le> cb_max_relations b" "cb_max_relations b \<le> n" for n
    using assms that by (subst correlate_run [OF _ scans'])
      (simp_all add: run formed_relations_ceiling acc Let_def)
  then show ?thesis by (auto simp: run Let_def formed_relations_ceiling)
qed

section \<open>The memory store\<close>

lemma indexed_get:
  assumes "om_sorted (by_key sh)" "index_matches sh" "(k, r) \<in> set (by_key sh)"
  shows "shelf_get (key_entity k) sh \<noteq> None"
proof -
  have "by_entity sh (key_entity k) = Some k"
    using assms(2,3) by (force simp: index_matches_def)
  moreover have "map_of (by_key sh) k = Some r"
    using assms(3) om_sorted_distinct [OF assms(1)] by (simp add: map_of_eq_Some_iff)
  ultimately show ?thesis by (simp add: shelf_get_def)
qed

lemma resident_reads:
  assumes "shelves_indexed st"
  shows "(e, s) \<in> set (spans_of st) \<Longrightarrow> endpoint_resident (memory_query_store st) \<lparr>sr_kind = SpansEnd, sr_entity = e\<rparr>"
    and "(e, l) \<in> set (logs_of st) \<Longrightarrow> endpoint_resident (memory_query_store st) \<lparr>sr_kind = LogRecordsEnd, sr_entity = e\<rparr>"
    and "(e, p, i) \<in> set (points_of st) \<Longrightarrow> endpoint_resident (memory_query_store st) \<lparr>sr_kind = MetricPointsEnd, sr_entity = e\<rparr>"
  using assms indexed_get [of "spans_shelf st"] indexed_get [of "logs_shelf st"] indexed_get [of "points_shelf st"]
  by (auto simp: endpoint_resident_def memory_query_store_def store_span_def store_log_record_def
      store_metric_point_def spans_of_def logs_of_def points_of_def shelves_indexed_def)

lemma before_in: "before x y zs \<Longrightarrow> x \<in> set zs \<and> y \<in> set zs"
  by (induction zs) auto

lemmas formed_relation_defs = span_identity_relation_def trace_identity_relation_def
  parent_child_relation_def resource_context_relation_def exemplar_relation_def activity_relation_def

lemma grounded_resident:
  assumes "shelves_indexed st" "grounded b (spans_of st) (logs_of st) (points_of st) r"
  shows "endpoints_resident (memory_query_store st) r"
  using assms(2)
proof cases
  case (shared_resource identity x y)
  have "endpoint_resident (memory_query_store st) m"
    if "(identity, m) \<in> set (resource_members (spans_of st) (logs_of st) (points_of st))" for m
    using that resident_reads [OF assms(1)] by (auto simp: resource_members_def)
  then show ?thesis
    using before_in [OF shared_resource(3)] shared_resource(1)
    by (simp add: endpoints_resident_def formed_relation_defs)
qed (auto simp: endpoints_resident_def formed_relation_defs dest!: resident_span_named_SomeD
    intro: resident_reads [OF assms(1)])

lemma memory_entities_distinct:
  assumes "shelves_indexed st"
  shows "distinct (map fst (spans_of st))"
proof -
  have "inj_on key_entity (fst ` set (by_key (spans_shelf st)))"
    using assms unfolding inj_on_def shelves_indexed_def index_matches_def by (metis option.inject)
  moreover have "distinct (map fst (by_key (spans_shelf st)))"
    using assms om_sorted_distinct [of "by_key (spans_shelf st)"] by (simp add: shelves_indexed_def)
  ultimately have "distinct (map key_entity (map fst (by_key (spans_shelf st))))"
    by (simp only: distinct_map [of key_entity] list.set_map)
  then show ?thesis by (simp add: spans_of_def comp_def)
qed

text \<open>C18: Over the memory store, a run that reports no stop returns exactly the relations the resident
  records ground: a relation is returned if and only if one of the requested strategies finds its
  evidence in resident records, nothing is dropped at the re-check, and every resident record was
  examined.\<close>

theorem relations_exactly_the_grounded:
  assumes "shelves_indexed st"
    "outcome = correlate (memory_query_store st) (memory_query_store st) b"
    "tt_stopped_at (co_truth outcome) = None"
  shows "set (co_relations outcome) = {r. grounded b (spans_of st) (logs_of st) (points_of st) r} \<and>
    tt_shrunken (co_truth outcome) = 0 \<and>
    tt_scan_spent (co_truth outcome) = length (spans_of st) + length (logs_of st) + length (points_of st)"
proof -
  have hops: "cb_max_hops b \<noteq> 0"
  proof
    assume "cb_max_hops b = 0"
    from correlate_no_hops [OF this] show False using assms(2,3) by simp
  qed
  obtain spans logs points spent stopped where
    scans: "resident_scans (memory_query_store st) b = (spans, logs, points, spent, stopped)" by (metis prod_cases5)
  note run = correlate_run [OF hops scans, of "memory_query_store st", folded assms(2)]
  have go: "stopped = None" "length (formed_relations (memory_query_store st) b) \<le> cb_max_relations b"
    using assms(3) by (auto simp: run Let_def split: if_splits)
  have read: "spans = spans_of st" "logs = logs_of st" "points = points_of st"
    "spent = length (spans_of st) + length (logs_of st) + length (points_of st)"
    using scans go(1) by (auto simp: memory_resident_scans [OF assms(1)] Let_def split: if_splits)
  have formed: "set (formed_relations (memory_query_store st) b) =
      {r. grounded b (spans_of st) (logs_of st) (points_of st) r}"
    using formed_exactly_grounded [of _ b "spans_of st" "logs_of st" "points_of st"]
    by (auto simp only: formed_relations_def scans read prod.case mem_Collect_eq)
  then have "filter (endpoints_resident (memory_query_store st)) (formed_relations (memory_query_store st) b) =
      formed_relations (memory_query_store st) b"
    using grounded_resident [OF assms(1)] by (auto intro: filter_True)
  then show ?thesis using formed go read by (simp add: run Let_def sat_u64_def)
qed

section \<open>The accounting of the trace strategy\<close>

lemma concat_map_empty: "(\<And>x. f x = []) \<Longrightarrow> List.concat (map f ss) = []"
  by (induction ss) simp_all

lemma concat_single:
  assumes "count_list ss s = 1" "\<And>x. x \<noteq> s \<Longrightarrow> f x = []"
  shows "List.concat (map f ss) = f s"
proof -
  have "count_list ss s = 0 \<Longrightarrow> List.concat (map f ss) = []" for ss
    using assms(2) by (induction ss) (auto split: if_splits)
  then show ?thesis using assms(1)
    by (induction ss) (auto simp: assms(2) split: if_splits)
qed

lemma other_members:
  assumes "distinct (map fst ms)" "e \<in> fst ` set ms"
  shows "length (filter (\<lambda>m. fst m \<noteq> e) ms) = length ms - 1"
  using assms
proof (induction ms)
  case (Cons m ms)
  show ?case
  proof (cases "fst m = e")
    case True
    then have "filter (\<lambda>m. fst m \<noteq> e) ms = ms" using Cons.prems by (intro filter_True) (metis distinct.simps(2) imageI list.set_map list.simps(9))
    with True show ?thesis by simp
  next
    case False
    then have "length ms \<noteq> 0" "length (filter (\<lambda>m. fst m \<noteq> e) ms) = length ms - 1"
      using Cons by auto
    with False show ?thesis by simp
  qed
qed simp

text \<open>The accounts the trace strategy owes: the subject's logs, and each one's exact span.\<close>

definition subject_logs :: "trace_id \<Rightarrow> resident_log list \<Rightarrow> resident_log list" where
  "subject_logs t logs = filter (\<lambda>(_, log). lg_trace_id log = Some t) logs"

definition exact_attachments :: "trace_id \<Rightarrow> resident_span list \<Rightarrow> resident_log list \<Rightarrow> (entity_id \<times> entity_id) list" where
  "exact_attachments t spans logs =
     List.map_filter (\<lambda>(log_entity, log). map_option (Pair log_entity)
       (Option.bind (lg_span_id log) (resident_span_named spans t))) (subject_logs t logs)"

lemma suppressions_attached:
  assumes "distinct (map fst spans)" "length (subject_spans spans (Some t)) \<le> u64_max"
  shows "List.concat (map (suppressions_of t (subject_spans spans (Some t))) logs) =
    map (\<lambda>(l, s). \<lparr>su_log = l, su_span = s, su_suppressed = length (subject_spans spans (Some t)) - 1\<rparr>)
      (exact_attachments t spans logs)"
proof (induction logs)
  case (Cons l logs)
  obtain e log where l: "l = (e, log)" by (cases l)
  let ?ms = "subject_spans spans (Some t)"
  have "distinct (map fst ?ms)"
    using assms(1) by (simp add: subject_spans_def distinct_map_filter)
  then have other: "sat_u64 (length (filter (\<lambda>m. fst m \<noteq> se) ?ms)) = length ?ms - 1"
    if "resident_span_named spans t sid = Some se" for sid se
  proof -
    from resident_span_named_SomeD [OF that]
    obtain span where "(se, span) \<in> set spans" "natural_identity span = Some (t, sid)" by blast
    then have "(se, span) \<in> set ?ms" by (simp add: subject_member)
    then have "se \<in> fst ` set ?ms" by force
    with other_members [OF \<open>distinct (map fst ?ms)\<close>, of se] assms(2) show ?thesis
      by (simp add: sat_u64_def)
  qed
  have "suppressions_of t ?ms l =
      map (\<lambda>(l, s). \<lparr>su_log = l, su_span = s, su_suppressed = length ?ms - 1\<rparr>)
        (exact_attachments t spans [l])"
    by (cases "lg_trace_id log = Some t"; cases "lg_span_id log")
      (auto simp: l suppressions_of_def exact_attachments_def subject_logs_def exact_span_named
        List.map_filter_def other split: option.split)
  then show ?case
    using Cons.IH by (simp add: l exact_attachments_def subject_logs_def List.map_filter_def split: if_splits)
qed (simp add: exact_attachments_def subject_logs_def List.map_filter_def)

lemma absent_logs:
  "List.concat (map (absent_of t ms) logs) = (if ms = [] then map (\<lambda>l. AbsentTrace (fst l)) (subject_logs t logs) else [])"
  by (induction logs) (auto simp: absent_of_def subject_logs_def)

text \<open>C21: The trace strategy, run once for a subject trace with a hop allowed, accounts for every
  resident log of that trace, whatever the relation ceiling cuts and whatever leaves before the
  re-check: once the allowance covers the spans and the logs, the absences are all those logs when the trace has no resident span and none
  otherwise, and the suppressions are exactly the logs whose exact span is resident, each with that
  span and the number of the trace's other resident spans.\<close>

theorem subject_logs_accounted:
  assumes "shelves_indexed st" "cb_max_hops b \<noteq> 0" "cb_subject_trace b = Some t"
    "count_list (cb_strategies b) TraceIdentity = 1"
    "length (spans_of st) + length (logs_of st) \<le> cb_max_scan b" "cb_max_scan b \<le> u64_max"
    "truth = co_truth (correlate (memory_query_store st) S' b)"
    "members = filter (\<lambda>m. \<exists>sid. natural_identity (snd m) = Some (t, sid)) (spans_of st)"
  shows "tt_absent_traces truth =
      (if members = [] then map (\<lambda>l. AbsentTrace (fst l)) (subject_logs t (logs_of st)) else []) \<and>
    tt_suppressions truth =
      map (\<lambda>(l, s). \<lparr>su_log = l, su_span = s, su_suppressed = length members - 1\<rparr>)
        (exact_attachments t (spans_of st) (logs_of st))"
proof -
  have members: "subject_spans (spans_of st) (Some t) = members"
    unfolding assms(8) subject_spans_def option.case by (intro filter_cong refl) (auto split: option.split)
  obtain points spent stopped where
    scans: "resident_scans (memory_query_store st) b = (spans_of st, logs_of st, points, spent, stopped)"
    using assms(5) by (simp add: memory_resident_scans [OF assms(1)] Let_def)
  have "length members \<le> length (spans_of st)" unfolding assms(8) by (rule length_filter_le)
  with assms(5,6) have fits: "length members \<le> u64_max" by linarith
  have one: "List.concat (map (strategy_absent b (spans_of st) (logs_of st)) (cb_strategies b)) =
      strategy_absent b (spans_of st) (logs_of st) TraceIdentity"
    "List.concat (map (strategy_suppressions b (spans_of st) (logs_of st)) (cb_strategies b)) =
      strategy_suppressions b (spans_of st) (logs_of st) TraceIdentity"
    by (rule concat_single [OF assms(4)];
        auto simp: strategy_absent_def strategy_suppressions_def split: strategy.split)+
  show ?thesis
    using suppressions_attached [OF memory_entities_distinct [OF assms(1)], of t "logs_of st"] fits
    by (simp add: assms(7) correlate_run [OF assms(2) scans] Let_def one strategy_absent_def
        strategy_suppressions_def assms(3) absent_logs members)
qed

section \<open>Where the report says more or less than it documents\<close>

text \<open>A run can report an exhausted allowance although it read everything: when the allowance is
  exactly the number of resident spans and logs and no point is resident, the run names
  \<open>ScanExhausted\<close>, while every larger allowance examines the same records, forms and returns the
  same relations and, within the relation ceiling, reports no stop.\<close>

theorem whole_read_reported_exhausted:
  assumes "shelves_indexed st" "cb_max_hops b \<noteq> 0" "points_of st = []"
    "cb_max_scan b = length (spans_of st) + length (logs_of st)" "cb_max_scan b < m"
  shows "tt_stopped_at (co_truth (correlate (memory_query_store st) S' b)) = Some (ScanExhausted (cb_max_scan b)) \<and>
    co_relations (correlate (memory_query_store st) S' (b\<lparr>cb_max_scan := m\<rparr>)) =
      co_relations (correlate (memory_query_store st) S' b) \<and>
    tt_scan_spent (co_truth (correlate (memory_query_store st) S' (b\<lparr>cb_max_scan := m\<rparr>))) = cb_max_scan b \<and>
    (length (formed_relations (memory_query_store st) b) \<le> cb_max_relations b \<longrightarrow>
      tt_stopped_at (co_truth (correlate (memory_query_store st) S' (b\<lparr>cb_max_scan := m\<rparr>))) = None)"
proof -
  let ?M = "memory_query_store st"
  have scans: "resident_scans ?M b = (spans_of st, logs_of st, [], cb_max_scan b, Some (ScanExhausted (cb_max_scan b)))"
    "resident_scans ?M (b\<lparr>cb_max_scan := m\<rparr>) = (spans_of st, logs_of st, [], cb_max_scan b, None)"
    using assms(3,4,5) by (auto simp: memory_resident_scans [OF assms(1)] Let_def)
  have "strategy_formed (b\<lparr>cb_max_scan := m\<rparr>) spans logs points s = strategy_formed b spans logs points s"
    for spans logs points s by (cases s) (simp_all add: strategy_formed_def)
  then have formed: "formed_relations ?M (b\<lparr>cb_max_scan := m\<rparr>) = formed_relations ?M b"
    by (simp add: formed_relations_def scans cong: map_cong)
  show ?thesis
    using correlate_run [OF assms(2) scans(1), of S'] correlate_run [OF _ scans(2), of S'] assms(2)
    by (simp add: formed Let_def)
qed

text \<open>The scan allowance bounds the accounting too: when the resident spans alone use it up, no log
  is examined and the run accounts for no log, neither as suppressed nor as absent, whatever logs
  of the subject's trace are resident; only the stop is named.\<close>

theorem scan_bound_cuts_accounting:
  assumes "shelves_indexed st" "cb_max_hops b \<noteq> 0" "cb_max_scan b \<le> length (spans_of st)"
    "truth = co_truth (correlate (memory_query_store st) S' b)"
  shows "tt_suppressions truth = [] \<and> tt_absent_traces truth = [] \<and>
    tt_stopped_at truth = Some (ScanExhausted (cb_max_scan b))"
proof -
  have scans: "resident_scans (memory_query_store st) b =
      (take (cb_max_scan b) (spans_of st), [], [], cb_max_scan b, Some (ScanExhausted (cb_max_scan b)))"
    using assms(3) by (auto simp: memory_resident_scans [OF assms(1)] Let_def)
  have none: "strategy_suppressions b spans [] s = []" "strategy_absent b spans [] s = []" for spans s
    by (cases s; cases "cb_subject_trace b"; simp add: strategy_suppressions_def strategy_absent_def)+
  have accounts: "List.concat (map (strategy_suppressions b spans []) ss) = []"
    "List.concat (map (strategy_absent b spans []) ss) = []" for spans ss
    by (rule concat_map_empty, rule none)+
  show ?thesis
    unfolding assms(4) correlate_run [OF assms(2) scans] Let_def by (simp add: accounts)
qed

text \<open>An instant span at the start of the window grounds no activity, although the window holds it.\<close>

lemma instant_at_window_start:
  assumes "sp_start_time span = win_from w" "sp_end_time span = None"
  shows "temporal_co_activity [(e, span)] points (Some w) sink = sink"
  using assms by (simp add: temporal_co_activity_def)

section \<open>A concrete run\<close>

text \<open>A trace of a parent and a child span, a log that names the parent and a log that names the
  trace only.\<close>

definition family_spans :: "(admission_key \<times> span) list" where
  "family_spans =
     [(AdmissionKey (AdmissionTime 1) (Span (sample_trace 1) (sample_span_id 1)), sample_span 1 ''parent'' None),
      (AdmissionKey (AdmissionTime 2) (Span (sample_trace 1) (sample_span_id 2)),
       (sample_span 2 ''child'' None)\<lparr>sp_context := (sp_context (sample_span 2 ''child'' None))
            \<lparr>tc_trace_id := sample_trace 1\<rparr>, sp_parent_span_id := Some (sample_span_id 1)\<rparr>)]"

definition family_logs :: "(admission_key \<times> log_record) list" where
  "family_logs =
     [(AdmissionKey (AdmissionTime 3) (Assigned 3),
       (sample_log None)\<lparr>lg_trace_id := Some (sample_trace 1), lg_span_id := Some (sample_span_id 1)\<rparr>),
      (AdmissionKey (AdmissionTime 4) (Assigned 4), (sample_log None)\<lparr>lg_trace_id := Some (sample_trace 1)\<rparr>)]"

definition indexed_shelf :: "(admission_key \<times> 'r) list \<Rightarrow> 'r shelf" where
  "indexed_shelf ps = \<lparr>by_key = ps, by_entity = map_of (map (\<lambda>p. (key_entity (fst p), fst p)) ps), shelf_bytes = 0\<rparr>"

definition family_store :: memory_store where
  "family_store = (store_new default_memory_config True)
     \<lparr>spans_shelf := indexed_shelf family_spans, logs_shelf := indexed_shelf family_logs\<rparr>"

definition family_bounds :: "nat \<Rightarrow> nat \<Rightarrow> correlation_bounds" where
  "family_bounds relations scan =
     \<lparr>cb_strategies = [SpanIdentity, TraceIdentity, ParentChild], cb_window = None,
      cb_max_relations = relations, cb_max_hops = 1, cb_max_scan = scan,
      cb_subject_trace = Some (sample_trace 1)\<rparr>"

lemma indexed_shelf_matches:
  assumes "distinct (map (\<lambda>p. key_entity (fst p)) ps)"
  shows "index_matches (indexed_shelf ps)"
proof -
  have "map_of (map (\<lambda>p. (key_entity (fst p), fst p)) ps) e = Some k \<longleftrightarrow>
      (e, k) \<in> set (map (\<lambda>p. (key_entity (fst p), fst p)) ps)" for e k
    using assms by (intro map_of_eq_Some_iff) (simp add: comp_def)
  then show ?thesis by (auto simp: index_matches_def indexed_shelf_def)
qed

lemma sample_ids_inject [simp]:
  "sample_span_id a = sample_span_id b \<longleftrightarrow> a = b" "sample_trace a = sample_trace b \<longleftrightarrow> a = b"
  by (simp_all add: sample_defs)

lemma family_indexed: "shelves_indexed family_store"
  by (auto simp: shelves_indexed_def family_store_def family_spans_def family_logs_def store_new_def shelf_new_def
      om_sorted_def key_less_iff index_matches_def [of "\<lparr>by_key = [], by_entity = _, shelf_bytes = _\<rparr>"]
      intro!: indexed_shelf_matches) (simp_all add: indexed_shelf_def key_less_iff)

lemma family_residents:
  "spans_of family_store = map (\<lambda>p. (key_entity (fst p), snd p)) family_spans"
  "logs_of family_store = map (\<lambda>p. (key_entity (fst p), snd p)) family_logs"
  "points_of family_store = []"
  by (simp_all add: spans_of_def logs_of_def points_of_def family_store_def indexed_shelf_def
      store_new_def shelf_new_def)

lemma family_formed:
  "formed_relations (memory_query_store family_store) (family_bounds n 9) =
     (let parent = Span (sample_trace 1) (sample_span_id 1); child = Span (sample_trace 1) (sample_span_id 2)
      in [span_identity_relation (Assigned 3) parent (sample_trace 1) (sample_span_id 1),
          trace_identity_relation (Assigned 4) parent (sample_trace 1),
          trace_identity_relation (Assigned 4) child (sample_trace 1),
          parent_child_relation child parent (sample_span_id 1)])"
  by (simp add: formed_relations_def memory_resident_scans [OF family_indexed] family_residents
      family_bounds_def family_spans_def family_logs_def Let_def strategy_formed_def
      subject_spans_def natural_identity_def trace_id_is_valid_def span_id_is_valid_def
      span_identity_of_def trace_identity_of_def parent_child_of_def exact_span_def
      log_correlation_pair_def span_with_identity_def resident_span_named_def sample_defs)

lemma family_formed_length: "length (formed_relations (memory_query_store family_store) (family_bounds n 9)) = 4"
  by (simp add: family_formed Let_def)

lemma capped_answer_is_generation_prefix_witness:
  "length (co_relations (correlate (memory_query_store family_store) (memory_query_store family_store)
     (family_bounds 1 9))) \<le> 1 \<and>
   tt_stopped_at (co_truth (correlate (memory_query_store family_store) (memory_query_store family_store)
     (family_bounds 1 9))) \<noteq> None"
proof -
  have "cb_max_hops (family_bounds 1 9) \<noteq> 0" by (simp add: family_bounds_def)
  note promise = capped_answer_is_generation_prefix
    [OF this, of "memory_query_store family_store" "memory_query_store family_store"]
  have cap: "cb_max_relations (family_bounds 1 9) = 1" by (simp add: family_bounds_def)
  have "length (filter P (take 1 rs)) \<le> 1" for P :: "formed \<Rightarrow> bool" and rs
    by (rule le_trans [OF length_filter_le]) simp
  then show ?thesis
    using conjunct1 [OF promise] conjunct1 [OF conjunct2 [OF conjunct2 [OF promise]]]
    unfolding cap family_formed_length by simp
qed

lemma family_complete:
  "tt_stopped_at (co_truth (correlate (memory_query_store family_store) (memory_query_store family_store)
     (family_bounds 4 9))) = None"
proof -
  have scans: "resident_scans (memory_query_store family_store) (family_bounds 4 9) =
      (spans_of family_store, logs_of family_store, [], 4, None)"
    by (simp add: memory_resident_scans [OF family_indexed] Let_def family_residents family_spans_def
        family_logs_def family_bounds_def)
  have "cb_max_hops (family_bounds 4 9) \<noteq> 0" "cb_max_relations (family_bounds 4 9) = 4"
    by (simp_all add: family_bounds_def)
  with correlate_run [OF _ scans] family_formed_length [of 4] show ?thesis by (simp add: Let_def)
qed

lemma relations_exactly_the_grounded_witness:
  "parent_child_relation (Span (sample_trace 1) (sample_span_id 2)) (Span (sample_trace 1) (sample_span_id 1)) (sample_span_id 1)
     \<in> set (co_relations (correlate (memory_query_store family_store) (memory_query_store family_store) (family_bounds 4 9)))"
proof -
  have "grounded (family_bounds 4 9) (spans_of family_store) (logs_of family_store) (points_of family_store)
      (parent_child_relation (Span (sample_trace 1) (sample_span_id 2)) (Span (sample_trace 1) (sample_span_id 1)) (sample_span_id 1))"
    by (rule grounded.parent [where child = "snd (family_spans ! 1)" and t = "sample_trace 1" and sid = "sample_span_id 2"])
      (simp_all add: family_bounds_def family_residents family_spans_def natural_identity_def
        trace_id_is_valid_def span_id_is_valid_def resident_span_named_def sample_defs)
  with relations_exactly_the_grounded [OF family_indexed refl family_complete] show ?thesis by simp
qed

lemma subject_logs_accounted_witness:
  "map su_log (tt_suppressions (co_truth (correlate (memory_query_store family_store) (memory_query_store family_store) (family_bounds 0 9)))) = [Assigned 3] \<and>
   tt_absent_traces (co_truth (correlate (memory_query_store family_store) (memory_query_store family_store) (family_bounds 0 9))) = []"
proof -
  have hyps: "cb_max_hops (family_bounds 0 9) \<noteq> 0" "cb_subject_trace (family_bounds 0 9) = Some (sample_trace 1)"
    "count_list (cb_strategies (family_bounds 0 9)) TraceIdentity = 1"
    "length (spans_of family_store) + length (logs_of family_store) \<le> cb_max_scan (family_bounds 0 9)"
    "cb_max_scan (family_bounds 0 9) \<le> u64_max"
    by (simp_all add: family_bounds_def family_residents family_spans_def family_logs_def u64_max_def)
  have logs: "exact_attachments (sample_trace 1) (spans_of family_store) (logs_of family_store) =
      [(Assigned 3, Span (sample_trace 1) (sample_span_id 1))]"
    by (simp add: exact_attachments_def subject_logs_def family_residents family_spans_def family_logs_def
        List.map_filter_def natural_identity_def trace_id_is_valid_def span_id_is_valid_def
        resident_span_named_def sample_defs)
  have members: "filter (\<lambda>m. \<exists>sid. natural_identity (snd m) = Some (sample_trace 1, sid)) (spans_of family_store) \<noteq> []"
    by (simp add: family_residents family_spans_def natural_identity_def trace_id_is_valid_def
        span_id_is_valid_def sample_defs)
  show ?thesis
    using subject_logs_accounted [OF family_indexed hyps refl refl, of "memory_query_store family_store"] members by (simp add: logs)
qed

lemma whole_read_reported_exhausted_witness:
  "tt_stopped_at (co_truth (correlate (memory_query_store family_store) (memory_query_store family_store) (family_bounds 4 4))) = Some (ScanExhausted 4)"
proof -
  have hyps: "cb_max_hops (family_bounds 4 4) \<noteq> 0" "points_of family_store = []"
    "cb_max_scan (family_bounds 4 4) = length (spans_of family_store) + length (logs_of family_store)"
    "cb_max_scan (family_bounds 4 4) < 5"
    by (simp_all add: family_bounds_def family_residents family_spans_def family_logs_def)
  show ?thesis using whole_read_reported_exhausted [OF family_indexed hyps, of "memory_query_store family_store"] by (simp add: family_bounds_def)
qed

lemma scan_bound_cuts_accounting_witness:
  "tt_suppressions (co_truth (correlate (memory_query_store family_store) (memory_query_store family_store) (family_bounds 4 2))) = []"
proof -
  have hyps: "cb_max_hops (family_bounds 4 2) \<noteq> 0" "cb_max_scan (family_bounds 4 2) \<le> length (spans_of family_store)"
    by (simp_all add: family_bounds_def family_residents family_spans_def)
  show ?thesis using scan_bound_cuts_accounting [OF family_indexed hyps refl, of "memory_query_store family_store"] by simp
qed

end
