(* ===== verification/Envelope.thy ===== *)
theory Envelope
  imports Query_Engine Correlation
begin

text \<open>
  The investigation envelope: \<open>subject.rs\<close>, \<open>execution.rs\<close>, \<open>correlated.rs\<close>, \<open>evidence.rs\<close>,
  \<open>limits.rs\<close> and \<open>envelope.rs\<close> of \<open>crates/investigation/src\<close>, with the checks of its invariants.

  The envelope mirrors the engine's vocabulary in types of its own. Where the two enums of the source
  share their constructors, those of the envelope carry a suffix here (\<open>Dim\<close>, \<open>Fact\<close>, \<open>Ev\<close>).
\<close>

section \<open>Subject\<close>

datatype requested_subject = RequestedSubject (rs_root_span: entity_id)

record effective_root =
  er_entity :: entity_id
  er_name :: string
  er_trace_id :: trace_id
  er_span_id :: span_id

datatype resolution_note =
    RequestedSpanIsRoot
  | TraceRootedAt entity_id string span_id
  | NoParentlessSpanResident
  | RootHasNoValidTraceIdentity

record effective_subject =
  es_root :: effective_root
  es_notes :: "resolution_note list"

record subject_part =
  su_requested :: requested_subject
  su_effective :: effective_subject

section \<open>Execution\<close>

datatype fact_dimension = DeadlineDim | ResultsDim | BytesDim | ScanDim | AggregationMemoryDim

datatype fact_magnitude = DurationFact nat | UnitsFact nat | BytesFact nat

datatype fact_point = CursorFact bytes | LastExaminedFact entity_id

record truncation_fact =
  tf_dimension :: fact_dimension
  tf_position :: fact_point
  tf_omitted :: nat

record refusal_fact =
  rf_dimension :: fact_dimension
  rf_limit :: fact_magnitude
  rf_observed :: fact_magnitude

datatype run_outcome = CompleteRun | DegradedRun truncation_fact | RefusedRun refusal_fact | StalledRun

datatype coverage_fact =
    EvictionGapFact entity_id entity_id
  | SnapshotBoundaryFact admission_time entity_id
  | UncountedTailFact entity_id fact_dimension
  | DriverStallFact entity_id

datatype part_name = SpansPart | RelatedLogs | SurroundingMetrics

record run_facts =
  rn_outcome :: run_outcome
  rn_coverage :: "coverage_fact list"
  rn_next_cursor :: "bytes option"

record run_group =
  rg_part :: part_name
  rg_runs :: "run_facts list"

record fact_window =
  fw_from :: u64
  fw_to :: u64

datatype correlation_stop = MaxDepthStop nat | ScanExhaustedStop nat | MaxRelationsStop nat

fun mirror_stop :: "run_stop \<Rightarrow> correlation_stop" where
  "mirror_stop (MaxDepth hops) = MaxDepthStop hops"
| "mirror_stop (ScanExhausted examined) = ScanExhaustedStop examined"
| "mirror_stop (MaxRelations n) = MaxRelationsStop n"

datatype flow_coverage_entry =
    MetricWindow fact_window fact_window
  | AdmissionAnomalies nat
  | ResidencyHole part_name nat
  | SuppressedEvidence entity_id entity_id nat
  | AbsentTraceSpans entity_id
  | RelationShrinkage nat
  | CorrelationDegradation correlation_stop
  | TemporalStrategySkipped string

record execution_part =
  xp_run_groups :: "run_group list"
  xp_flow_coverage :: "flow_coverage_entry list"

section \<open>Evidence and relations\<close>

datatype evidence_kind = SpansEv | LogRecordsEv | MetricPointsEv

record evidence_ref =
  ev_kind :: evidence_kind
  ev_entity :: entity_id

record span_evidence_view =
  sv_entity :: "entity_id option"
  sv_span :: span

record log_evidence_view =
  lv_entity :: "entity_id option"
  lv_log :: log_record

record point_evidence_view =
  pe_entity :: "entity_id option"
  pe_point :: metric_point
  pe_stream :: stream_identity

record evidence_part =
  ev_spans :: "span_evidence_view list"
  ev_logs :: "log_evidence_view list"
  ev_points :: "point_evidence_view list"

definition entity_of :: "evidence_part \<Rightarrow> evidence_kind \<Rightarrow> entity_id \<Rightarrow> bool" where
  "entity_of e k entity =
     (case k of
        SpansEv \<Rightarrow> list_ex (\<lambda>v. sv_entity v = Some entity) (ev_spans e)
      | LogRecordsEv \<Rightarrow> list_ex (\<lambda>v. lv_entity v = Some entity) (ev_logs e)
      | MetricPointsEv \<Rightarrow> list_ex (\<lambda>v. pe_entity v = Some entity) (ev_points e))"

fun evidence_ref_of :: "signal_ref \<Rightarrow> evidence_ref" where
  "evidence_ref_of r =
     \<lparr>ev_kind = (case sr_kind r of SpansEnd \<Rightarrow> SpansEv | LogRecordsEnd \<Rightarrow> LogRecordsEv
                                 | MetricPointsEnd \<Rightarrow> MetricPointsEv),
      ev_entity = sr_entity r\<rparr>"

definition engine_window :: "fact_window \<Rightarrow> time_window" where
  "engine_window w = \<lparr>win_from = fw_from w, win_to = fw_to w\<rparr>"

definition flow_window :: "time_window \<Rightarrow> fact_window" where
  "flow_window w = \<lparr>fw_from = win_from w, fw_to = win_to w\<rparr>"

type_synonym evidence_relation = "evidence_ref correlation_relation"

datatype correlated_part = Correlated (cr_relations: "evidence_relation list")

section \<open>Limits\<close>

record envelope_budget_limits =
  bl_deadline :: nat
  bl_max_results :: nat
  bl_max_bytes :: nat
  bl_max_scan :: nat
  bl_max_aggregation_memory :: nat

datatype chain_basis = TotalEntities | TotalPages

record chain_limits =
  cl_max_total_entities :: nat
  cl_max_total_pages :: nat
  cl_total_entities :: nat
  cl_total_pages :: nat
  cl_identity_examinations :: nat
  cl_correlation_scan :: nat
  cl_stopped :: "chain_basis option"

record eviction_state =
  ec_resident_records :: nat
  ec_total_evictions :: nat

record limits_part =
  lm_budget :: envelope_budget_limits
  lm_chain :: chain_limits
  lm_strategy_versions :: "strategy_version list"
  lm_eviction :: eviction_state

record investigation =
  iv_subject :: subject_part
  iv_execution :: execution_part
  iv_correlated :: correlated_part
  iv_evidence :: evidence_part
  iv_limits :: limits_part

section \<open>The checks of the invariants\<close>

definition subjects_are_stated_separately :: "investigation \<Rightarrow> bool" where
  "subjects_are_stated_separately env =
     (let requested = rs_root_span (su_requested (iv_subject env));
          effective = er_entity (es_root (su_effective (iv_subject env)));
          notes = es_notes (su_effective (iv_subject env))
      in if requested \<noteq> effective \<and>
            \<not> list_ex (\<lambda>note. case note of TraceRootedAt entity _ _ \<Rightarrow> entity = effective | _ \<Rightarrow> False) notes
         then False
         else list_all (\<lambda>note. case note of TraceRootedAt entity _ _ \<Rightarrow> entity = effective | _ \<Rightarrow> True) notes)"

definition run_is_named :: "run_facts \<Rightarrow> bool" where
  "run_is_named r =
     (case rn_outcome r of
        CompleteRun \<Rightarrow> True
      | DegradedRun t \<Rightarrow> tf_omitted t \<noteq> 0
      | RefusedRun refusal \<Rightarrow> rf_limit refusal \<noteq> rf_observed refusal
      | StalledRun \<Rightarrow> list_ex (\<lambda>e. case e of DriverStallFact _ \<Rightarrow> True | _ \<Rightarrow> False) (rn_coverage r))"

definition truncations_are_named :: "investigation \<Rightarrow> bool" where
  "truncations_are_named env =
     list_all (\<lambda>g. list_all run_is_named (rg_runs g)) (xp_run_groups (iv_execution env))"

definition signal_refs_resolve :: "investigation \<Rightarrow> bool" where
  "signal_refs_resolve env =
     list_all (\<lambda>r. \<not> (rl_type r = InferredRel \<or> rl_facts r = []) \<and>
         entity_of (iv_evidence env) (ev_kind (rl_from r)) (ev_entity (rl_from r)) \<and>
         entity_of (iv_evidence env) (ev_kind (rl_to r)) (ev_entity (rl_to r)))
       (cr_relations (iv_correlated env))"

definition violations :: "investigation \<Rightarrow> string list" where
  "violations env =
     (if subjects_are_stated_separately env then []
      else [''requested and effective subjects merged or unresolved'']) @
     (if truncations_are_named env then []
      else [''a truncation, refusal or stall is not named'']) @
     (if signal_refs_resolve env then []
      else [''a signal ref dangles or an inferred relation is present''])"

text \<open>The loop over the views: the entities seen, and whether every view so far carried one.\<close>

fun keyed_once :: "entity_id option list \<Rightarrow> entity_id list \<Rightarrow> bool \<Rightarrow> bool" where
  "keyed_once [] seen all_keyed = all_keyed"
| "keyed_once (Some e # views) seen all_keyed =
     (if e \<in> set seen then False else keyed_once views (seen @ [e]) all_keyed)"
| "keyed_once (None # views) seen all_keyed = keyed_once views seen False"

definition views_carry_entity_ids :: "investigation \<Rightarrow> bool" where
  "views_carry_entity_ids env =
     keyed_once (map sv_entity (ev_spans (iv_evidence env)) @ map lv_entity (ev_logs (iv_evidence env)) @
                 map pe_entity (ev_points (iv_evidence env))) [] True"

definition recorded_pages :: "investigation \<Rightarrow> nat" where
  "recorded_pages env = sum_list (map (\<lambda>g. length (rg_runs g)) (xp_run_groups (iv_execution env)))"

definition no_partial_content_as_complete :: "investigation \<Rightarrow> bool" where
  "no_partial_content_as_complete env =
     (let chain = lm_chain (iv_limits env)
      in if recorded_pages env \<noteq> cl_total_pages chain then False
         else \<not> (cl_stopped chain \<noteq> None \<and> cl_total_pages chain = 0))"

definition content_parts_equal :: "investigation \<Rightarrow> investigation \<Rightarrow> bool" where
  "content_parts_equal a b \<longleftrightarrow>
     iv_subject a = iv_subject b \<and> iv_correlated a = iv_correlated b \<and> iv_evidence a = iv_evidence b"

fun outcome_kind :: "run_outcome \<Rightarrow> string" where
  "outcome_kind CompleteRun = ''complete''"
| "outcome_kind (DegradedRun _) = ''degraded''"
| "outcome_kind (RefusedRun _) = ''refused''"
| "outcome_kind StalledRun = ''stalled''"

fun coverage_kind :: "coverage_fact \<Rightarrow> string" where
  "coverage_kind (EvictionGapFact _ _) = ''eviction_gap''"
| "coverage_kind (SnapshotBoundaryFact _ _) = ''snapshot_boundary''"
| "coverage_kind (UncountedTailFact _ _) = ''uncounted_tail''"
| "coverage_kind (DriverStallFact _) = ''driver_stall''"

definition runs_equivalent :: "run_facts \<Rightarrow> run_facts \<Rightarrow> bool" where
  "runs_equivalent a b \<longleftrightarrow>
     outcome_kind (rn_outcome a) = outcome_kind (rn_outcome b) \<and>
     length (rn_coverage a) = length (rn_coverage b) \<and>
     list_all (\<lambda>(x, y). coverage_kind x = coverage_kind y) (zip (rn_coverage a) (rn_coverage b))"

definition groups_equivalent :: "run_group \<Rightarrow> run_group \<Rightarrow> bool" where
  "groups_equivalent a b \<longleftrightarrow>
     rg_part a = rg_part b \<and> length (rg_runs a) = length (rg_runs b) \<and>
     list_all (\<lambda>(x, y). runs_equivalent x y) (zip (rg_runs a) (rg_runs b))"

definition run_facts_equivalent :: "investigation \<Rightarrow> investigation \<Rightarrow> bool" where
  "run_facts_equivalent a b \<longleftrightarrow>
     (let ga = xp_run_groups (iv_execution a); gb = xp_run_groups (iv_execution b)
      in length ga = length gb \<and> list_all (\<lambda>(x, y). groups_equivalent x y) (zip ga gb) \<and>
         cl_stopped (lm_chain (iv_limits a)) = cl_stopped (lm_chain (iv_limits b)))"

definition hole_counts :: "flow_coverage_entry list \<Rightarrow> nat" where
  "hole_counts es = sum_list (map (\<lambda>e. case e of ResidencyHole _ n \<Rightarrow> n | _ \<Rightarrow> 0) es)"

definition evidence_views :: "evidence_part \<Rightarrow> nat" where
  "evidence_views e = length (ev_spans e) + length (ev_logs e) + length (ev_points e)"

definition run_facts_are_consistent :: "investigation \<Rightarrow> bool" where
  "run_facts_are_consistent env \<longleftrightarrow>
     recorded_pages env = cl_total_pages (lm_chain (iv_limits env)) \<and>
     cl_total_entities (lm_chain (iv_limits env)) =
       evidence_views (iv_evidence env) + hole_counts (xp_flow_coverage (iv_execution env))"

text \<open>The time extent of a list of spans, the latest end counting a span without one at its start.\<close>

definition extent_step :: "span \<Rightarrow> u64 \<times> u64 \<Rightarrow> u64 \<times> u64" where
  "extent_step s acc =
     (let start = sp_start_time s; end_time = (case sp_end_time s of Some e \<Rightarrow> e | None \<Rightarrow> start)
      in (min (fst acc) start, max (snd acc) end_time))"

definition waterfall_extent :: "investigation \<Rightarrow> (u64 \<times> u64) option" where
  "waterfall_extent env =
     (let spans = ev_spans (iv_evidence env)
      in if spans = [] then None
         else Some (fold (\<lambda>v. extent_step (sv_span v)) spans (- 1, 0)))"

definition asked_window :: "flow_coverage_entry list \<Rightarrow> fact_window option" where
  "asked_window es =
     (case List.map_filter (\<lambda>e. case e of MetricWindow asked _ \<Rightarrow> Some asked | _ \<Rightarrow> None) es of
        [] \<Rightarrow> None | w # _ \<Rightarrow> Some w)"

definition metric_window_is_stated :: "investigation \<Rightarrow> bool" where
  "metric_window_is_stated env =
     (if \<not> list_ex (\<lambda>g. rg_part g = SurroundingMetrics \<and> rg_runs g \<noteq> []) (xp_run_groups (iv_execution env))
      then True
      else (case asked_window (xp_flow_coverage (iv_execution env)) of
              None \<Rightarrow> False
            | Some asked \<Rightarrow>
                (case waterfall_extent env of
                   None \<Rightarrow> False
                 | Some (min_start, max_end) \<Rightarrow> asked = \<lparr>fw_from = min_start, fw_to = max_end\<rparr>)))"

section \<open>The shape of the envelope\<close>

definition FIELD_PATHS :: "string list" where
  "FIELD_PATHS =
     [''subject.requested.root_span'', ''subject.effective.root.entity'', ''subject.effective.root.name'',
      ''subject.effective.root.trace_id'', ''subject.effective.root.span_id'', ''subject.effective.notes'',
      ''execution.run_groups[].part'', ''execution.run_groups[].runs[].outcome'',
      ''execution.run_groups[].runs[].coverage'', ''execution.run_groups[].runs[].next_cursor'',
      ''execution.flow_coverage'',
      ''correlated.relations[].relation_type'', ''correlated.relations[].from'',
      ''correlated.relations[].to'', ''correlated.relations[].facts[].field'',
      ''correlated.relations[].facts[].value'', ''correlated.relations[].strategy.name'',
      ''correlated.relations[].strategy.version'', ''correlated.relations[].window'',
      ''evidence.spans[].entity'', ''evidence.spans[].span'', ''evidence.logs[].entity'',
      ''evidence.logs[].log'', ''evidence.points[].entity'', ''evidence.points[].point'',
      ''evidence.points[].stream'',
      ''limits.budget.deadline'', ''limits.budget.max_results'', ''limits.budget.max_bytes'',
      ''limits.budget.max_scan'', ''limits.budget.max_aggregation_memory'',
      ''limits.chain.max_total_entities'', ''limits.chain.max_total_pages'',
      ''limits.chain.total_entities'', ''limits.chain.total_pages'',
      ''limits.chain.identity_examinations'', ''limits.chain.correlation_scan'',
      ''limits.chain.stopped'',
      ''limits.strategy_versions[].name'', ''limits.strategy_versions[].version'',
      ''limits.eviction.resident_records'', ''limits.eviction.total_evictions'']"

definition BANNED_VOCABULARY :: "string list" where
  "BANNED_VOCABULARY =
     [''storage'', ''driver'', ''table'', ''index'', ''sql'', ''sqlite'', ''http'', ''grpc'', ''otlp'',
      ''rpc'', ''transport'', ''wire'', ''json'', ''mode'', ''request'', ''response'', ''endpoint'',
      ''route'']"

text \<open>\<open>str::split\<close> at any of a set of characters: the pieces between them, empty ones included.\<close>

fun split_any :: "char list \<Rightarrow> string \<Rightarrow> string \<Rightarrow> string list" where
  "split_any seps piece [] = [piece]"
| "split_any seps piece (c # cs) =
     (if c \<in> set seps then piece # split_any seps [] cs else split_any seps (piece @ [c]) cs)"

definition shape_violations :: "string list \<Rightarrow> string list" where
  "shape_violations paths =
     List.concat (map (\<lambda>path. map (\<lambda>token. path @ '' names banned vocabulary `'' @ token @ ''`'')
         (filter (\<lambda>token. token \<in> set BANNED_VOCABULARY) (split_any ''_.[]'' [] path))) paths)"

definition mode_symmetry_field_paths_clean :: bool where
  "mode_symmetry_field_paths_clean \<longleftrightarrow> shape_violations FIELD_PATHS = []"

end
