(* ===== verification/Flow_Parts.thy ===== *)
theory Flow_Parts
  imports Envelope
begin

text \<open>
  The pieces of the trace investigation that read no store: \<open>crates/investigation/src/flow.rs\<close>,
  the mirrors of the engine's vocabulary, the resolution of the subject, the waterfall and its extent,
  and the evidence of its spans.

  The source compares payloads by address (\<open>Arc::ptr_eq\<close>). A record is a value here, so an \<open>Arc\<close> is
  a pair of an address and its payload (\<open>arc\<close>); which addresses a driver hands out is a parameter
  of the flow (\<open>arc_addresses\<close>). An \<open>expect\<close> that fails is the value \<open>Panicked\<close>.
\<close>

section \<open>Budgets and failures\<close>

definition RECOVERY_SCAN_SLICE :: usize where "RECOVERY_SCAN_SLICE = 256"

record investigation_budget =
  ib_deadline :: nat
  ib_max_results :: nat
  ib_max_bytes :: nat
  ib_max_scan :: nat
  ib_max_aggregation_memory :: nat

definition per_page :: "investigation_budget \<Rightarrow> query_budget" where
  "per_page b =
     \<lparr>qb_deadline = ib_deadline b, qb_max_results = ib_max_results b, qb_max_bytes = ib_max_bytes b,
      qb_max_scan = ib_max_scan b, qb_max_aggregation_memory = ib_max_aggregation_memory b\<rparr>"

record trace_investigation_request =
  ti_root_span :: entity_id
  ti_budget :: investigation_budget
  ti_correlation_window :: "fact_window option"

datatype flow_error = SubjectUnresolved entity_id | ContinuationRejected | EngineContract

datatype flow_stop = FlowFailed flow_error | Panicked

record chain_budget =
  ch_max_total_pages :: nat
  ch_max_total_entities :: nat
  ch_max_identity_examinations :: nat

definition chain_defaults :: chain_budget where
  "chain_defaults =
     \<lparr>ch_max_total_pages = 16, ch_max_total_entities = 10000, ch_max_identity_examinations = 100000\<rparr>"

record walk_state =
  ws_budget :: investigation_budget
  ws_chain :: chain_budget
  ws_pages :: nat
  ws_entities :: nat
  ws_examinations :: nat
  ws_stopped :: "chain_basis option"

section \<open>Addresses\<close>

type_synonym 'r arc = "nat \<times> 'r"

record arc_addresses =
  aa_root :: nat
  aa_spans :: "nat \<Rightarrow> nat"
  aa_logs :: "nat \<Rightarrow> nat"
  aa_points :: "nat \<Rightarrow> nat"
  aa_log_items :: "admission_key \<Rightarrow> nat"
  aa_point_items :: "admission_key \<Rightarrow> nat"

text \<open>The views of a walk with their addresses: the \<open>n\<close>-th view's is \<open>address n\<close>.\<close>

definition addressed :: "(nat \<Rightarrow> nat) \<Rightarrow> 'r list \<Rightarrow> 'r arc list" where
  "addressed address rs = zip (map address [0..<length rs]) rs"

definition arc_ptr_eq :: "'r arc \<Rightarrow> 's arc \<Rightarrow> bool" where
  "arc_ptr_eq a b \<longleftrightarrow> fst a = fst b"

text \<open>\<open>Iterator::position\<close>.\<close>

fun position_of :: "('a \<Rightarrow> bool) \<Rightarrow> 'a list \<Rightarrow> nat option" where
  "position_of p [] = None"
| "position_of p (x # xs) = (if p x then Some 0 else map_option Suc (position_of p xs))"

section \<open>Mirrors\<close>

fun mirror_dimension :: "dimension \<Rightarrow> fact_dimension" where
  "mirror_dimension Deadline = DeadlineDim"
| "mirror_dimension Results = ResultsDim"
| "mirror_dimension Bytes = BytesDim"
| "mirror_dimension Scan = ScanDim"
| "mirror_dimension AggregationMemory = AggregationMemoryDim"

fun mirror_magnitude :: "magnitude \<Rightarrow> fact_magnitude" where
  "mirror_magnitude (Duration n) = DurationFact n"
| "mirror_magnitude (Units n) = UnitsFact n"
| "mirror_magnitude (ByteCount n) = BytesFact n"

definition mirror_truncation :: "truncation \<Rightarrow> truncation_fact" where
  "mirror_truncation t =
     \<lparr>tf_dimension = mirror_dimension (tr_dimension t),
      tf_position = (case tr_position t of CursorAt bytes \<Rightarrow> CursorFact bytes
                                         | LastExamined entity \<Rightarrow> LastExaminedFact entity),
      tf_omitted = tr_omitted t\<rparr>"

definition mirror_refusal :: "budget_refusal \<Rightarrow> refusal_fact" where
  "mirror_refusal refusal =
     \<lparr>rf_dimension = mirror_dimension (br_dimension refusal),
      rf_limit = mirror_magnitude (br_limit refusal),
      rf_observed = mirror_magnitude (br_observed refusal)\<rparr>"

fun mirror_outcome :: "part_outcome \<Rightarrow> run_outcome" where
  "mirror_outcome Complete = CompleteRun"
| "mirror_outcome (Degraded t) = DegradedRun (mirror_truncation t)"
| "mirror_outcome (Refused refusal) = RefusedRun (mirror_refusal refusal)"
| "mirror_outcome Stalled = StalledRun"

fun mirror_coverage :: "coverage_entry \<Rightarrow> coverage_fact" where
  "mirror_coverage (EvictionGap after before) = EvictionGapFact after before"
| "mirror_coverage (SnapshotBoundary admission) =
     SnapshotBoundaryFact (key_time admission) (key_entity admission)"
| "mirror_coverage (UncountedTail after dim) = UncountedTailFact after (mirror_dimension dim)"
| "mirror_coverage (DriverStall after) = DriverStallFact after"

definition mirror_page :: "record_view page \<Rightarrow> flow_stop + run_facts" where
  "mirror_page page =
     (case ex_parts (page_execution page) of
        [] \<Rightarrow> Inl (FlowFailed EngineContract)
      | part # _ \<Rightarrow>
          Inr \<lparr>rn_outcome = mirror_outcome part,
               rn_coverage = map mirror_coverage (ex_coverage (page_execution page)),
               rn_next_cursor = page_next_cursor page\<rparr>)"

section \<open>The subject\<close>

definition span_views_of :: "record_view arc list \<Rightarrow> span arc list" where
  "span_views_of views =
     List.map_filter (\<lambda>(address, view). case view of SpanView s \<Rightarrow> Some (address, s) | _ \<Rightarrow> None) views"

type_synonym trace_member = "span arc \<times> trace_id \<times> span_id"

definition trace_members :: "trace_id \<Rightarrow> span arc list \<Rightarrow> trace_member list" where
  "trace_members trace spans =
     List.map_filter (\<lambda>s. case natural_identity (snd s) of
         Some (member_trace, member_span) \<Rightarrow>
           (if member_trace = trace then Some (s, member_trace, member_span) else None)
       | None \<Rightarrow> None) spans"

definition resolve_subject :: "span arc \<Rightarrow> entity_id \<Rightarrow> span arc list \<Rightarrow> effective_subject" where
  "resolve_subject root requested spans =
     (case natural_identity (snd root) of
        None \<Rightarrow>
          \<lparr>es_root = \<lparr>er_entity = requested, er_name = sp_name (snd root),
                      er_trace_id = tc_trace_id (sp_context (snd root)),
                      er_span_id = tc_span_id (sp_context (snd root))\<rparr>,
           es_notes = [RootHasNoValidTraceIdentity]\<rparr>
      | Some (trace, _) \<Rightarrow>
          (case filter (\<lambda>(s, _). sp_parent_span_id (snd s) = None) (trace_members trace spans) of
             (candidate, candidate_trace, candidate_span) # _ \<Rightarrow>
               \<lparr>es_root = \<lparr>er_entity = Span candidate_trace candidate_span,
                           er_name = sp_name (snd candidate),
                           er_trace_id = candidate_trace, er_span_id = candidate_span\<rparr>,
                es_notes =
                  (if arc_ptr_eq candidate root then [RequestedSpanIsRoot]
                   else [TraceRootedAt (Span candidate_trace candidate_span)
                           (sp_name (snd candidate)) candidate_span])\<rparr>
           | [] \<Rightarrow>
               \<lparr>es_root = \<lparr>er_entity = Span trace (tc_span_id (sp_context (snd root))),
                           er_name = sp_name (snd root), er_trace_id = trace,
                           er_span_id = tc_span_id (sp_context (snd root))\<rparr>,
                es_notes = [NoParentlessSpanResident]\<rparr>))"

section \<open>The waterfall\<close>

text \<open>
  One loop over the spans: those of the trace that \<open>takes\<close> and were not visited yet are appended and
  marked. The children of an ordered span and the members left over are both gathered this way.
\<close>

fun gather ::
  "(span \<Rightarrow> bool) \<Rightarrow> trace_id \<Rightarrow> span arc list \<Rightarrow> span arc list \<times> span_id list \<Rightarrow>
     span arc list \<times> span_id list" where
  "gather takes trace [] acc = acc"
| "gather takes trace (s # spans) (ordered, visited) =
     (if \<not> takes (snd s) then gather takes trace spans (ordered, visited)
      else case natural_identity (snd s) of
        Some (natural_trace, natural_span) \<Rightarrow>
          (if natural_trace = trace \<and> natural_span \<notin> set visited
           then gather takes trace spans (ordered @ [s], visited @ [natural_span])
           else gather takes trace spans (ordered, visited))
      | None \<Rightarrow> gather takes trace spans (ordered, visited))"

text \<open>What is left of the breadth-first walk: the ids no loop has visited, and the ordered spans ahead.\<close>

definition span_ids :: "span arc list \<Rightarrow> span_id set" where
  "span_ids spans = (\<lambda>s. tc_span_id (sp_context (snd s))) ` set spans"

definition unvisited :: "span arc list \<Rightarrow> span_id list \<Rightarrow> nat" where
  "unvisited spans visited = card (span_ids spans - set visited)"

lemma natural_span_id: "natural_identity s = Some (t, i) \<Longrightarrow> i = tc_span_id (sp_context s)"
  by (auto simp: natural_identity_def split: if_splits)

lemma gather_left:
  assumes "set spans \<subseteq> set all_spans" "gather takes trace spans (ordered, visited) = (o', v')"
  shows "unvisited all_spans v' + length o' = unvisited all_spans visited + length ordered"
  using assms
proof (induction spans arbitrary: ordered visited)
  case (Cons s spans)
  show ?case
  proof (cases "\<exists>i. natural_identity (snd s) = Some (trace, i) \<and> i \<notin> set visited \<and> takes (snd s)")
    case True
    then obtain i where i: "natural_identity (snd s) = Some (trace, i)" "i \<notin> set visited" "takes (snd s)"
      by blast
    have "i \<in> span_ids all_spans"
      using Cons.prems(1) natural_span_id [OF i(1)] by (force simp: span_ids_def)
    moreover have "span_ids all_spans - set (visited @ [i]) = (span_ids all_spans - set visited) - {i}" by auto
    ultimately have "Suc (unvisited all_spans (visited @ [i])) = unvisited all_spans visited"
      using i(2) card_Suc_Diff1 [of "span_ids all_spans - set visited" i]
      unfolding unvisited_def by (simp add: span_ids_def)
    with Cons.IH [of "ordered @ [s]" "visited @ [i]"] Cons.prems i show ?thesis by simp
  next
    case False
    then have "gather takes trace (s # spans) (ordered, visited) = gather takes trace spans (ordered, visited)"
      by (auto split: option.splits)
    with Cons.IH [of ordered visited] Cons.prems show ?thesis by simp
  qed
qed simp

function levels ::
  "trace_id \<Rightarrow> span arc list \<Rightarrow> nat \<Rightarrow> span arc list \<times> span_id list \<Rightarrow>
     flow_stop + span arc list \<times> span_id list" where
  "levels trace spans cursor (ordered, visited) =
     (if cursor < length ordered
      then (case natural_identity (snd (ordered ! cursor)) of
              None \<Rightarrow> Inl Panicked
            | Some (_, parent_id) \<Rightarrow>
                levels trace spans (cursor + 1)
                  (gather (\<lambda>s. sp_parent_span_id s = Some parent_id) trace spans (ordered, visited)))
      else Inr (ordered, visited))"
  by pat_completeness auto

termination
proof (relation "measure (\<lambda>(trace, spans, cursor, ordered, visited).
    unvisited spans visited + length ordered - cursor)", goal_cases)
  case (2 trace spans cursor ordered visited i t parent_id)
  obtain o' v' where g: "gather (\<lambda>s. sp_parent_span_id s = Some parent_id) trace spans (ordered, visited) = (o', v')"
    by fastforce
  from gather_left [OF subset_refl g] 2(1) show ?case by (simp add: g)
qed simp

declare levels.simps [simp del]

definition waterfall :: "span arc list \<Rightarrow> effective_subject \<Rightarrow> span arc \<Rightarrow> flow_stop + span arc list" where
  "waterfall spans effective root =
     (let trace = er_trace_id (es_root effective); root_id = er_span_id (es_root effective)
      in case position_of (\<lambda>s. natural_identity (snd s) = Some (trace, root_id)) spans of
           None \<Rightarrow> Inr [root]
         | Some seed_index \<Rightarrow>
             and_then (levels trace spans 0 ([spans ! seed_index], [root_id]))
               (\<lambda>walked. Inr (fst (gather (\<lambda>_. True) trace spans walked))))"

definition extent_of :: "span arc list \<Rightarrow> u64 \<times> u64" where
  "extent_of spans = fold (\<lambda>s. extent_step (snd s)) spans (- 1, 0)"

definition span_evidence :: "span arc list \<Rightarrow> effective_subject \<Rightarrow> span_evidence_view list" where
  "span_evidence spans effective =
     map (\<lambda>s. \<lparr>sv_entity = Some (case natural_identity (snd s) of
                                  None \<Rightarrow> er_entity (es_root effective)
                                | Some (trace, span_id) \<Rightarrow> Span trace span_id),
                sv_span = snd s\<rparr>) spans"

end
