(* ===== verification/Flow.thy ===== *)
theory Flow
  imports Flow_Parts
begin

text \<open>
  The trace investigation: \<open>crates/investigation/src/flow.rs\<close>, the walks over the engine's pages, the
  recovery of identities and the flow that composes them with the correlation engine.

  A page is answered by \<open>records\<close>; \<open>clks n\<close> is the monotonic clock as the \<open>n\<close>-th page of the flow
  reads it. The flow holds the store borrowed for reading, so one \<open>query_store\<close> stands for it; its
  statistics are an argument. The loop of the recovery ends only when the driver lets it, so it is a
  \<open>partial_function\<close> and \<open>None\<close> says that it does not return.
\<close>

section \<open>The walk over pages\<close>

definition walk_per_page :: "walk_state \<Rightarrow> query_budget" where
  "walk_per_page ws = per_page (ws_budget ws)"

function walk_loop ::
  "layout \<Rightarrow> (nat \<Rightarrow> nat \<Rightarrow> nat) \<Rightarrow> query_store \<Rightarrow> records_query \<Rightarrow>
     record_view list \<Rightarrow> run_facts list \<Rightarrow> bytes option \<Rightarrow> walk_state \<Rightarrow>
     flow_stop + record_view list \<times> run_facts list \<times> walk_state" where
  "walk_loop L clks S q items facts cursor ws =
     (if ch_max_total_pages (ws_chain ws) \<le> ws_pages ws
      then Inr (items, facts, ws\<lparr>ws_stopped := Some TotalPages\<rparr>)
      else if ch_max_total_entities (ws_chain ws) \<le> ws_entities ws
      then Inr (items, facts, ws\<lparr>ws_stopped := Some TotalEntities\<rparr>)
      else case records L (clks (ws_pages ws)) S q (walk_per_page ws) cursor of
        Inl _ \<Rightarrow> Inl (FlowFailed ContinuationRejected)
      | Inr page \<Rightarrow>
          (let ws1 = ws\<lparr>ws_pages := ws_pages ws + 1\<rparr>
           in case mirror_page page of
             Inl e \<Rightarrow> Inl e
           | Inr mirrored \<Rightarrow>
               (let items1 = items @ page_items page; facts1 = facts @ [mirrored]
                in case page_next_cursor page of
                  None \<Rightarrow> Inr (items1, facts1, ws1)
                | Some next_cursor \<Rightarrow>
                    (if cursor = Some next_cursor then Inr (items1, facts1, ws1)
                     else walk_loop L clks S q items1 facts1 (Some next_cursor) ws1))))"
  by pat_completeness auto

termination
  by (relation "measure (\<lambda>(L, clks, S, q, items, facts, cursor, ws).
      ch_max_total_pages (ws_chain ws) - ws_pages ws)") auto

declare walk_loop.simps [simp del]

definition walk_pages ::
  "layout \<Rightarrow> (nat \<Rightarrow> nat \<Rightarrow> nat) \<Rightarrow> query_store \<Rightarrow> records_query \<Rightarrow> part_name \<Rightarrow> walk_state \<Rightarrow>
     flow_stop + record_view list \<times> run_group \<times> walk_state" where
  "walk_pages L clks S q part ws =
     and_then (walk_loop L clks S q [] [] None ws)
       (\<lambda>(items, facts, ws1). Inr (items, \<lparr>rg_part = part, rg_runs = facts\<rparr>, ws1))"

section \<open>The recovery of identities\<close>

record recovery =
  rc_wanted :: "nat set"
  rc_names :: "entity_id option list"
  rc_examinations :: nat

fun recover_items ::
  "nat \<Rightarrow> ('r scan_item \<Rightarrow> nat) \<Rightarrow> nat list \<Rightarrow> 'r scan_item list \<Rightarrow> recovery \<Rightarrow> flow_stop + recovery" where
  "recover_items limit address selected [] r = Inr r"
| "recover_items limit address selected (item # items) r =
     (if rc_wanted r = {} \<or> limit \<le> rc_examinations r then Inr r
      else let r1 = r\<lparr>rc_examinations := rc_examinations r + 1\<rparr>; pointer = address item
        in if pointer \<in> rc_wanted r1
           then (case position_of (\<lambda>a. a = pointer) selected of
                   None \<Rightarrow> Inl Panicked
                 | Some index \<Rightarrow>
                     recover_items limit address selected items
                       (r1\<lparr>rc_wanted := rc_wanted r1 - {pointer},
                           rc_names := (rc_names r1)[index := Some (key_entity (it_key item))]\<rparr>))
           else recover_items limit address selected items r1)"

partial_function (option) recover_loop ::
  "(admission_key option \<Rightarrow> usize \<Rightarrow> 'r scan_page) \<Rightarrow> nat \<Rightarrow> ('r scan_item \<Rightarrow> nat) \<Rightarrow> nat list \<Rightarrow>
     admission_key option \<Rightarrow> recovery \<Rightarrow> (flow_stop + recovery) option" where
  "recover_loop fetch limit address selected after r =
     (if rc_wanted r = {} \<or> limit \<le> rc_examinations r then Some (Inr r)
      else let page = fetch after RECOVERY_SCAN_SLICE
        in case recover_items limit address selected (pg_items page) r of
             Inl e \<Rightarrow> Some (Inl e)
           | Inr r1 \<Rightarrow>
               (case pg_cursor page of
                  Some cursor \<Rightarrow> recover_loop fetch limit address selected (Some cursor) r1
                | None \<Rightarrow> Some (Inr r1)))"

text \<open>The body \<open>name_log_identities\<close> and \<open>name_point_identities\<close> share, and the two.\<close>

definition name_identities ::
  "(admission_key option \<Rightarrow> usize \<Rightarrow> 'r scan_page) \<Rightarrow> ('r scan_item \<Rightarrow> nat) \<Rightarrow> nat list \<Rightarrow> walk_state \<Rightarrow>
     (flow_stop + entity_id option list \<times> walk_state) option" where
  "name_identities fetch address selected ws =
     map_option (\<lambda>res. and_then res (\<lambda>r. Inr (rc_names r, ws\<lparr>ws_examinations := rc_examinations r\<rparr>)))
       (recover_loop fetch (ch_max_identity_examinations (ws_chain ws)) address selected None
          \<lparr>rc_wanted = set selected, rc_names = replicate (length selected) None,
           rc_examinations = ws_examinations ws\<rparr>)"

definition name_log_identities ::
  "query_store \<Rightarrow> arc_addresses \<Rightarrow> log_record arc list \<Rightarrow> walk_state \<Rightarrow>
     (flow_stop + entity_id option list \<times> walk_state) option" where
  "name_log_identities S A selected ws =
     name_identities (qs_scan_log_records S) (\<lambda>item. aa_log_items A (it_key item)) (map fst selected) ws"

definition name_point_identities ::
  "query_store \<Rightarrow> arc_addresses \<Rightarrow> nat list \<Rightarrow> walk_state \<Rightarrow>
     (flow_stop + entity_id option list \<times> walk_state) option" where
  "name_point_identities S A selected ws =
     name_identities (qs_scan_metric_points S) (\<lambda>item. aa_point_items A (it_key item)) selected ws"

section \<open>The parts\<close>

definition holes_of :: "entity_id option list \<Rightarrow> nat" where
  "holes_of ids = length (filter (\<lambda>i. i = None) ids)"

definition log_views_of :: "record_view arc list \<Rightarrow> log_record arc list" where
  "log_views_of views =
     List.map_filter (\<lambda>(address, view). case view of LogView r \<Rightarrow> Some (address, r) | _ \<Rightarrow> None) views"

definition select_logs :: "trace_id option \<Rightarrow> log_record arc list \<Rightarrow> log_record arc list" where
  "select_logs relates_to rs =
     (case relates_to of
        Some trace \<Rightarrow> filter (\<lambda>r. lg_trace_id (snd r) = Some trace) rs
      | None \<Rightarrow> [])"

definition named_logs :: "log_record arc list \<Rightarrow> entity_id option list \<Rightarrow> log_evidence_view list" where
  "named_logs selected ids =
     List.map_filter (\<lambda>(r, name). map_option (\<lambda>entity. \<lparr>lv_entity = Some entity, lv_log = snd r\<rparr>) name)
       (zip selected ids)"

definition related_logs ::
  "query_store \<Rightarrow> arc_addresses \<Rightarrow> record_view list \<Rightarrow> trace_id option \<Rightarrow> walk_state \<Rightarrow>
     (flow_stop + log_evidence_view list \<times> nat \<times> walk_state) option" where
  "related_logs S A views relates_to ws =
     (let selected = select_logs relates_to (log_views_of (addressed (aa_logs A) views))
      in map_option (\<lambda>named. and_then named (\<lambda>(ids, ws1).
           Inr (named_logs selected ids, holes_of ids,
                ws1\<lparr>ws_entities := sat_add (ws_entities ws1) (length selected)\<rparr>)))
         (name_log_identities S A selected ws))"

type_synonym point_arc = "nat \<times> metric_point \<times> stream_identity"

definition point_views_of :: "record_view arc list \<Rightarrow> point_arc list" where
  "point_views_of views =
     List.map_filter (\<lambda>(address, view). case view of PointView p s \<Rightarrow> Some (address, p, s) | _ \<Rightarrow> None)
       views"

definition select_points :: "trace_id option \<Rightarrow> fact_window \<Rightarrow> point_arc list \<Rightarrow> point_arc list" where
  "select_points relates_to asked ps =
     (case relates_to of
        Some _ \<Rightarrow> filter (\<lambda>(_, p, _). fw_from asked \<le> point_time p \<and> point_time p < fw_to asked) ps
      | None \<Rightarrow> [])"

definition named_points :: "point_arc list \<Rightarrow> entity_id option list \<Rightarrow> point_evidence_view list" where
  "named_points selected ids =
     List.map_filter (\<lambda>((_, p, s), name).
         map_option (\<lambda>entity. \<lparr>pe_entity = Some entity, pe_point = p, pe_stream = s\<rparr>) name)
       (zip selected ids)"

text \<open>\<open>u64::saturating_add\<close> of one.\<close>

definition saturating_succ :: "u64 \<Rightarrow> u64" where
  "saturating_succ t = (if t = - 1 then t else t + 1)"

definition resident_window :: "fact_window \<Rightarrow> point_evidence_view list \<Rightarrow> fact_window" where
  "resident_window asked evidence =
     (if evidence = [] then \<lparr>fw_from = fw_to asked, fw_to = fw_to asked\<rparr>
      else let times = map (\<lambda>v. point_time (pe_point v)) evidence
        in \<lparr>fw_from = fold min times (- 1), fw_to = saturating_succ (fold max times 0)\<rparr>)"

definition surrounding_metrics ::
  "query_store \<Rightarrow> arc_addresses \<Rightarrow> record_view list \<Rightarrow> fact_window \<Rightarrow> trace_id option \<Rightarrow> walk_state \<Rightarrow>
     (flow_stop + point_evidence_view list \<times> nat \<times> fact_window \<times> walk_state) option" where
  "surrounding_metrics S A views asked relates_to ws =
     (let selected = select_points relates_to asked (point_views_of (addressed (aa_points A) views))
      in map_option (\<lambda>named. and_then named (\<lambda>(ids, ws1).
           let evidence = named_points selected ids
           in Inr (evidence, holes_of ids, resident_window asked evidence,
                   ws1\<lparr>ws_entities := sat_add (ws_entities ws1) (length selected)\<rparr>)))
         (name_point_identities S A (map fst selected) ws))"

section \<open>The investigation\<close>

text \<open>\<open>Relation::new\<close> over the flow's own endpoints.\<close>

definition as_evidence :: "formed \<Rightarrow> evidence_relation" where
  "as_evidence r =
     \<lparr>rl_type = rl_type r, rl_from = evidence_ref_of (rl_from r), rl_to = evidence_ref_of (rl_to r),
      rl_facts = rl_facts r, rl_strategy = rl_strategy r, rl_window = rl_window r\<rparr>"

definition relation_in_evidence :: "evidence_part \<Rightarrow> evidence_relation \<Rightarrow> bool" where
  "relation_in_evidence e r \<longleftrightarrow>
     entity_of e (ev_kind (rl_from r)) (ev_entity (rl_from r)) \<and>
     entity_of e (ev_kind (rl_to r)) (ev_entity (rl_to r))"

definition flow_bounds :: "trace_investigation_request \<Rightarrow> trace_id option \<Rightarrow> correlation_bounds" where
  "flow_bounds request relates_to =
     (let (strategies, window) =
        (case ti_correlation_window request of
           Some asked \<Rightarrow> ([SpanIdentity, TraceIdentity, TemporalCoActivity], Some (engine_window asked))
         | None \<Rightarrow> ([SpanIdentity, TraceIdentity], None))
      in \<lparr>cb_strategies = strategies, cb_window = window, cb_max_relations = 10000, cb_max_hops = 2,
          cb_max_scan = ib_max_scan (ti_budget request), cb_subject_trace = relates_to\<rparr>)"

definition flow_coverage_of ::
  "run_group \<Rightarrow> fact_window \<Rightarrow> fact_window \<Rightarrow> nat \<Rightarrow> nat \<Rightarrow> nat \<Rightarrow>
     trace_investigation_request \<Rightarrow> run_truth \<Rightarrow> nat \<Rightarrow> flow_coverage_entry list" where
  "flow_coverage_of points_group asked resident anomalies log_holes point_holes request truth shrunk =
     (if rg_runs points_group = [] then [] else [MetricWindow asked resident]) @
     [AdmissionAnomalies anomalies] @
     (if log_holes > 0 then [ResidencyHole RelatedLogs log_holes] else []) @
     (if point_holes > 0 then [ResidencyHole SurroundingMetrics point_holes] else []) @
     (case ti_correlation_window request of
        Some _ \<Rightarrow> [] | None \<Rightarrow> [TemporalStrategySkipped ''no_correlation_window'']) @
     map (\<lambda>s. SuppressedEvidence (su_log s) (su_span s) (su_suppressed s)) (tt_suppressions truth) @
     map (\<lambda>a. AbsentTraceSpans (at_log a)) (tt_absent_traces truth) @
     (if shrunk > 0 then [RelationShrinkage shrunk] else []) @
     (case tt_stopped_at truth of Some stop \<Rightarrow> [CorrelationDegradation (mirror_stop stop)] | None \<Rightarrow> [])"

definition limits_of ::
  "investigation_budget \<Rightarrow> chain_budget \<Rightarrow> walk_state \<Rightarrow> run_truth \<Rightarrow> store_stats \<Rightarrow> limits_part" where
  "limits_of budget chain ws truth st =
     \<lparr>lm_budget = \<lparr>bl_deadline = ib_deadline budget, bl_max_results = ib_max_results budget,
                   bl_max_bytes = ib_max_bytes budget, bl_max_scan = ib_max_scan budget,
                   bl_max_aggregation_memory = ib_max_aggregation_memory budget\<rparr>,
      lm_chain = \<lparr>cl_max_total_entities = ch_max_total_entities chain,
                  cl_max_total_pages = ch_max_total_pages chain, cl_total_entities = ws_entities ws,
                  cl_total_pages = ws_pages ws, cl_identity_examinations = ws_examinations ws,
                  cl_correlation_scan = tt_scan_spent truth, cl_stopped = ws_stopped ws\<rparr>,
      lm_strategy_versions = tt_strategy_versions truth,
      lm_eviction = \<lparr>ec_resident_records = resident_records st, ec_total_evictions = total_evictions st\<rparr>\<rparr>"

text \<open>A step that may fail or not return, and what follows it.\<close>

definition flow_bind ::
  "(flow_stop + 'a) option \<Rightarrow> ('a \<Rightarrow> (flow_stop + 'b) option) \<Rightarrow> (flow_stop + 'b) option" where
  "flow_bind step rest =
     (case step of None \<Rightarrow> None | Some (Inl e) \<Rightarrow> Some (Inl e) | Some (Inr a) \<Rightarrow> rest a)"

text \<open>The last part of the flow: relations, coverage and limits over what the three walks collected.\<close>

definition conclude ::
  "query_store \<Rightarrow> store_stats \<Rightarrow> trace_investigation_request \<Rightarrow> chain_budget \<Rightarrow> trace_id option \<Rightarrow>
     effective_subject \<Rightarrow> evidence_part \<Rightarrow> run_group \<times> run_group \<times> run_group \<Rightarrow>
     fact_window \<times> fact_window \<Rightarrow> nat \<times> nat \<Rightarrow> walk_state \<Rightarrow> investigation" where
  "conclude S st request chain relates_to effective evidence =
     (\<lambda>(spans_group, logs_group, points_group) (asked, resident) (log_holes, point_holes) ws.
      let outcome = correlate S S (flow_bounds request relates_to);
          truth = co_truth outcome;
          formed = map as_evidence (co_relations outcome);
          relations = filter (relation_in_evidence evidence) formed;
          shrunk = length formed - length relations
      in \<lparr>iv_subject = \<lparr>su_requested = RequestedSubject (ti_root_span request), su_effective = effective\<rparr>,
          iv_execution =
            \<lparr>xp_run_groups = [spans_group, logs_group, points_group],
             xp_flow_coverage = flow_coverage_of points_group asked resident
               (admission_anomalies_total st) log_holes point_holes request truth shrunk\<rparr>,
          iv_correlated = Correlated relations,
          iv_evidence = evidence,
          iv_limits = limits_of (ti_budget request) chain ws truth st\<rparr>)"

definition investigate_trace_bounded ::
  "layout \<Rightarrow> (nat \<Rightarrow> nat \<Rightarrow> nat) \<Rightarrow> arc_addresses \<Rightarrow> query_store \<Rightarrow> store_stats \<Rightarrow>
     trace_investigation_request \<Rightarrow> chain_budget \<Rightarrow> (flow_stop + investigation) option" where
  "investigate_trace_bounded L clks A S st request chain =
     (case qs_span S (ti_root_span request) of
        None \<Rightarrow> Some (Inl (FlowFailed (SubjectUnresolved (ti_root_span request))))
      | Some root_span \<Rightarrow>
          (let root = (aa_root A, root_span);
               relates_to = map_option fst (natural_identity root_span);
               ws = \<lparr>ws_budget = ti_budget request, ws_chain = chain, ws_pages = 0, ws_entities = 0,
                       ws_examinations = 0, ws_stopped = None\<rparr>
           in flow_bind (Some (walk_pages L clks S (query_new Spans) SpansPart ws))
                (\<lambda>(span_views, spans_group, ws).
              let spans = span_views_of (addressed (aa_spans A) span_views);
                  effective = resolve_subject root (ti_root_span request) spans
              in flow_bind (Some (waterfall spans effective root)) (\<lambda>ordered.
                 let ws = ws\<lparr>ws_entities := sat_add (ws_entities ws) (length ordered)\<rparr>
                 in flow_bind (Some (walk_pages L clks S (query_new LogRecords) RelatedLogs ws))
                      (\<lambda>(log_views, logs_group, ws).
                    flow_bind (related_logs S A log_views relates_to ws)
                      (\<lambda>(log_evidence, log_holes, ws).
                    flow_bind (Some (walk_pages L clks S (query_new MetricPoints) SurroundingMetrics ws))
                      (\<lambda>(point_views, points_group, ws).
                    let (min_start, max_end) = extent_of ordered;
                        asked = \<lparr>fw_from = min_start, fw_to = max_end\<rparr>
                    in flow_bind (surrounding_metrics S A point_views asked relates_to ws)
                      (\<lambda>(point_evidence, point_holes, resident, ws).
                    Some (Inr (conclude S st request chain relates_to effective
                      \<lparr>ev_spans = span_evidence ordered effective, ev_logs = log_evidence,
                       ev_points = point_evidence\<rparr>
                      (spans_group, logs_group, points_group) (asked, resident)
                      (log_holes, point_holes) ws))))))))))"

definition investigate_trace ::
  "layout \<Rightarrow> (nat \<Rightarrow> nat \<Rightarrow> nat) \<Rightarrow> arc_addresses \<Rightarrow> query_store \<Rightarrow> store_stats \<Rightarrow>
     trace_investigation_request \<Rightarrow> (flow_stop + investigation) option" where
  "investigate_trace L clks A S st request =
     investigate_trace_bounded L clks A S st request chain_defaults"

end
