(* ===== verification/Flow_Laws.thy ===== *)
theory Flow_Laws
  imports Flow Query_Promises Correlation_Promises "HOL-Library.Sublist"
begin

text \<open>
  What the steps of the investigation do, each on its own: the walk over pages, the recovery of
  identities, the waterfall, and what the flow's envelope is made of (\<open>investigated\<close>).
\<close>

section \<open>The walk over pages\<close>

lemma page_has_part: "records L clk S q b c = Inr page \<Longrightarrow> \<exists>part. ex_parts (page_execution page) = [part]"
  by (auto simp: records_def records_inner_Inr empty_answer_def assemble_def Let_def)

lemma page_mirrored:
  assumes "records L clk S q b c = Inr page"
  obtains mirrored where "mirror_page page = Inr mirrored"
  using page_has_part [OF assms] by (auto simp: mirror_page_def)

text \<open>What every walk over pages leaves alone and what it adds.\<close>

definition walked :: "walk_state \<Rightarrow> nat \<Rightarrow> walk_state \<Rightarrow> bool" where
  "walked ws n ws' \<longleftrightarrow>
     ws_pages ws' = ws_pages ws + n \<and>
     (ws_pages ws \<le> ch_max_total_pages (ws_chain ws) \<longrightarrow> ws_pages ws' \<le> ch_max_total_pages (ws_chain ws)) \<and>
     ws_budget ws' = ws_budget ws \<and> ws_chain ws' = ws_chain ws \<and> ws_entities ws' = ws_entities ws \<and>
     ws_examinations ws' = ws_examinations ws \<and>
     (ws_pages ws < ch_max_total_pages (ws_chain ws) \<longrightarrow>
        ws_entities ws < ch_max_total_entities (ws_chain ws) \<longrightarrow> 0 < n)"

abbreviation chain_done :: "walk_state \<Rightarrow> bool" where
  "chain_done ws \<equiv>
     ch_max_total_pages (ws_chain ws) \<le> ws_pages ws \<or> ch_max_total_entities (ws_chain ws) \<le> ws_entities ws"

lemma walk_loop_done:
  "chain_done ws \<Longrightarrow> walk_loop L clks S q items facts cursor ws =
     Inr (items, facts, ws\<lparr>ws_stopped := Some (if ch_max_total_pages (ws_chain ws) \<le> ws_pages ws
                                              then TotalPages else TotalEntities)\<rparr>)"
  by (subst walk_loop.simps) auto

lemma walk_loop_rejected:
  "\<not> chain_done ws \<Longrightarrow> records L (clks (ws_pages ws)) S q (walk_per_page ws) cursor = Inl e \<Longrightarrow>
     walk_loop L clks S q items facts cursor ws = Inl (FlowFailed ContinuationRejected)"
  by (subst walk_loop.simps) simp

lemma walk_loop_reads:
  "\<not> chain_done ws \<Longrightarrow> records L (clks (ws_pages ws)) S q (walk_per_page ws) cursor = Inr page \<Longrightarrow>
     mirror_page page = Inr mirrored \<Longrightarrow>
     walk_loop L clks S q items facts cursor ws =
       (case page_next_cursor page of
          Some bs \<Rightarrow>
            if cursor \<noteq> Some bs
            then walk_loop L clks S q (items @ page_items page) (facts @ [mirrored]) (Some bs)
                   (ws\<lparr>ws_pages := ws_pages ws + 1\<rparr>)
            else Inr (items @ page_items page, facts @ [mirrored], ws\<lparr>ws_pages := ws_pages ws + 1\<rparr>)
        | None \<Rightarrow> Inr (items @ page_items page, facts @ [mirrored], ws\<lparr>ws_pages := ws_pages ws + 1\<rparr>))"
  by (subst walk_loop.simps) (simp add: Let_def split: option.split)

text \<open>Induction over the pages of a walk: the chain is done, the page is rejected, the page is the
  last of the part, or the walk goes on from its cursor.\<close>

lemma walk_pages_induct [case_names ended rejected last_page further]:
  assumes ended: "\<And>items facts cursor ws. chain_done ws \<Longrightarrow> P items facts cursor ws"
    and rejected: "\<And>items facts cursor ws e. \<not> chain_done ws \<Longrightarrow>
      records L (clks (ws_pages ws)) S q (walk_per_page ws) cursor = Inl e \<Longrightarrow> P items facts cursor ws"
    and last_page: "\<And>items facts cursor ws page m. \<not> chain_done ws \<Longrightarrow>
      records L (clks (ws_pages ws)) S q (walk_per_page ws) cursor = Inr page \<Longrightarrow> mirror_page page = Inr m \<Longrightarrow>
      page_next_cursor page = None \<or> page_next_cursor page = cursor \<Longrightarrow>
      walk_loop L clks S q items facts cursor ws =
        Inr (items @ page_items page, facts @ [m], ws\<lparr>ws_pages := ws_pages ws + 1\<rparr>) \<Longrightarrow> P items facts cursor ws"
    and further: "\<And>items facts cursor ws page m bs. \<not> chain_done ws \<Longrightarrow>
      records L (clks (ws_pages ws)) S q (walk_per_page ws) cursor = Inr page \<Longrightarrow> mirror_page page = Inr m \<Longrightarrow>
      page_next_cursor page = Some bs \<Longrightarrow>
      walk_loop L clks S q items facts cursor ws =
        walk_loop L clks S q (items @ page_items page) (facts @ [m]) (Some bs)
          (ws\<lparr>ws_pages := ws_pages ws + 1\<rparr>) \<Longrightarrow>
      P (items @ page_items page) (facts @ [m]) (Some bs) (ws\<lparr>ws_pages := ws_pages ws + 1\<rparr>) \<Longrightarrow>
      P items facts cursor ws"
  shows "P items facts cursor ws"
proof (induction "ch_max_total_pages (ws_chain ws) - ws_pages ws" arbitrary: items facts cursor ws
    rule: less_induct)
  case less
  show ?case
  proof (cases "chain_done ws")
    case False
    show ?thesis
    proof (cases "records L (clks (ws_pages ws)) S q (walk_per_page ws) cursor")
      case (Inl e)
      with False show ?thesis by (rule rejected)
    next
      case (Inr page)
      then obtain m where m: "mirror_page page = Inr m" by (rule page_mirrored)
      note read = walk_loop_reads [of ws L clks S q cursor page m items facts, OF False Inr m]
      show ?thesis
      proof (cases "page_next_cursor page = None \<or> page_next_cursor page = cursor")
        case True
        then have "walk_loop L clks S q items facts cursor ws =
            Inr (items @ page_items page, facts @ [m], ws\<lparr>ws_pages := ws_pages ws + 1\<rparr>)"
          by (cases "page_next_cursor page") (auto simp: read split: option.split)
        with False Inr m True show ?thesis by (rule last_page)
      next
        case more: False
        then obtain bs where bs: "page_next_cursor page = Some bs" "cursor \<noteq> Some bs" by auto
        show ?thesis
          by (rule further [OF False Inr m bs(1) _ less]) (use False bs read in auto)
      qed
    qed
  qed (rule ended)
qed

lemma walk_loop_walked:
  "walk_loop L clks S q items facts cursor ws = Inr (items', facts', ws') \<Longrightarrow>
     \<exists>more. facts' = facts @ more \<and> walked ws (length more) ws'"
proof (induction items facts cursor ws rule: walk_pages_induct [where L = L and clks = clks and S = S and q = q])
  case (further items facts cursor ws page m bs)
  then obtain more where "facts' = (facts @ [m]) @ more"
    "walked (ws\<lparr>ws_pages := ws_pages ws + 1\<rparr>) (length more) ws'" by auto
  with further(1) show ?case by (intro exI [of _ "m # more"]) (auto simp: walked_def)
qed (auto simp: walk_loop_done walk_loop_rejected walked_def)

lemma walk_pages_walked:
  assumes "walk_pages L clks S q part ws = Inr (items, rgroup, ws')"
  shows "rg_part rgroup = part" "walked ws (length (rg_runs rgroup)) ws'"
proof -
  from assms obtain facts where loop: "walk_loop L clks S q [] [] None ws = Inr (items, facts, ws')"
    and rgroup: "rgroup = \<lparr>rg_part = part, rg_runs = facts\<rparr>"
    by (auto simp: walk_pages_def and_then_Inr_iff)
  show "rg_part rgroup = part" "walked ws (length (rg_runs rgroup)) ws'"
    using walk_loop_walked [OF loop] by (auto simp: rgroup)
qed

text \<open>A walk over well-formed keys never fails, whatever page it continues from.\<close>

definition accepted :: "records_query \<Rightarrow> bytes option \<Rightarrow> bool" where
  "accepted q c \<longleftrightarrow> (\<exists>presented. present q c None = Inr presented)"

lemma accepted_page: "accepted q c \<Longrightarrow> \<exists>page. records L clk S q b c = Inr page"
  by (auto simp: accepted_def records_def records_inner_Inr)

lemma accepted_next:
  assumes "keys_fit S" "records L clk S q b c = Inr page" "page_next_cursor page = Some bs"
  shows "accepted q (Some bs)"
  using minted_cursor_payload [OF assms(1) assms(2) [unfolded records_def] assms(3)]
  by (auto simp: accepted_def present_Inr)

lemma walk_loop_succeeds:
  assumes "keys_fit S"
  shows "accepted q cursor \<Longrightarrow> \<exists>r. walk_loop L clks S q items facts cursor ws = Inr r"
proof (induction items facts cursor ws rule: walk_pages_induct [where L = L and clks = clks and S = S and q = q])
  case (rejected items facts cursor ws e)
  with accepted_page [OF rejected(3)] show ?case by (metis Inl_Inr_False)
next
  case (further items facts cursor ws page m bs)
  with accepted_next [OF assms further(2,4)] show ?case by simp
qed (auto simp: walk_loop_done)

lemma walk_pages_succeeds:
  assumes "keys_fit S"
  obtains items rgroup ws' where "walk_pages L clks S q part ws = Inr (items, rgroup, ws')"
proof -
  have "accepted q None" by (simp add: accepted_def present_def)
  from walk_loop_succeeds [OF assms this, of L clks "[]" "[]" ws]
  obtain items facts ws' where "walk_loop L clks S q [] [] None ws = Inr (items, facts, ws')" by auto
  then show thesis by (intro that) (simp add: walk_pages_def)
qed

section \<open>The recovery of identities\<close>

lemma position_of_Some:
  "position_of p xs = Some i \<Longrightarrow> i < length xs \<and> p (xs ! i) \<and> (\<forall>x \<in> set (take i xs). \<not> p x)"
  by (induction xs arbitrary: i) (auto split: if_splits)

lemma position_of_None: "position_of p xs = None \<longleftrightarrow> (\<forall>x \<in> set xs. \<not> p x)"
  by (induction xs) auto

text \<open>Every item a driver's scan can answer.\<close>

definition scanned :: "(admission_key option \<Rightarrow> usize \<Rightarrow> 'r scan_page) \<Rightarrow> 'r scan_item set" where
  "scanned fetch = {item. \<exists>after n. item \<in> set (pg_items (fetch after n))}"

text \<open>
  A recovery under way: what is wanted is selected, and a name stands only at the first selected
  record of its address, which is wanted no more, and is the entity of a scanned item at that address.
\<close>

definition recovering ::
  "('r scan_item \<Rightarrow> nat) \<Rightarrow> 'r scan_item set \<Rightarrow> nat list \<Rightarrow> recovery \<Rightarrow> bool" where
  "recovering address pool selected r \<longleftrightarrow>
     rc_wanted r \<subseteq> set selected \<and> length (rc_names r) = length selected \<and>
     (\<forall>i < length selected. \<forall>e. rc_names r ! i = Some e \<longrightarrow>
        selected ! i \<notin> rc_wanted r \<and> selected ! i \<notin> set (take i selected) \<and>
        (\<exists>item \<in> pool. address item = selected ! i \<and> key_entity (it_key item) = e))"

lemma recovering_examined [simp]:
  "recovering address pool selected (r\<lparr>rc_examinations := n\<rparr>) = recovering address pool selected r"
  by (simp add: recovering_def)

lemma recovering_named:
  assumes "recovering address pool selected r" "item \<in> pool"
    "position_of (\<lambda>a. a = address item) selected = Some i"
  shows "recovering address pool selected
    (r\<lparr>rc_wanted := rc_wanted r - {address item},
       rc_names := (rc_names r)[i := Some (key_entity (it_key item))]\<rparr>)"
  using assms position_of_Some [OF assms(3)] by (auto simp: recovering_def nth_list_update)

lemma recover_items_law:
  assumes "recovering address pool selected r" "set items \<subseteq> pool"
  shows "\<exists>r'. recover_items limit address selected items r = Inr r' \<and> recovering address pool selected r' \<and>
    rc_examinations r \<le> rc_examinations r' \<and> rc_examinations r' \<le> max limit (rc_examinations r) \<and>
    (items \<noteq> [] \<longrightarrow> rc_wanted r \<noteq> {} \<longrightarrow> rc_examinations r < limit \<longrightarrow> rc_examinations r < rc_examinations r')"
  using assms
proof (induction items arbitrary: r)
  case (Cons item items)
  show ?case
  proof (cases "rc_wanted r = {} \<or> limit \<le> rc_examinations r")
    case False
    let ?r1 = "r\<lparr>rc_examinations := rc_examinations r + 1\<rparr>"
    show ?thesis
    proof (cases "address item \<in> rc_wanted r")
      case True
      with Cons.prems(1) have "address item \<in> set selected" by (auto simp: recovering_def)
      then obtain i where i: "position_of (\<lambda>a. a = address item) selected = Some i"
        using position_of_None [of "\<lambda>a. a = address item" selected] by (cases "position_of (\<lambda>a. a = address item) selected") auto
      let ?r2 = "?r1\<lparr>rc_wanted := rc_wanted r - {address item},
        rc_names := (rc_names r)[i := Some (key_entity (it_key item))]\<rparr>"
      have "recovering address pool selected ?r2"
        using recovering_named [of address pool selected ?r1 item i] i Cons.prems by simp
      from Cons.IH [OF this] Cons.prems(2) False True i show ?thesis by (auto simp: Let_def)
    next
      case other: False
      from Cons.IH [of ?r1] Cons.prems False other show ?thesis by (auto simp: Let_def)
    qed
  qed (use Cons.prems in auto)
qed auto

definition recovers_to ::
  "(admission_key option \<Rightarrow> usize \<Rightarrow> 'r scan_page) \<Rightarrow> nat \<Rightarrow> ('r scan_item \<Rightarrow> nat) \<Rightarrow> nat list \<Rightarrow>
     recovery \<Rightarrow> flow_stop + recovery \<Rightarrow> bool" where
  "recovers_to fetch limit address selected r res \<longleftrightarrow>
     (recovering address (scanned fetch) selected r \<longrightarrow>
       (\<exists>r'. res = Inr r' \<and> recovering address (scanned fetch) selected r' \<and>
          rc_examinations r \<le> rc_examinations r' \<and> rc_examinations r' \<le> max limit (rc_examinations r)))"

lemma recover_loop_law:
  assumes "recover_loop fetch limit address selected after r = Some res"
  shows "recovers_to fetch limit address selected r res"
proof (rule recover_loop.raw_induct
    [where P = "\<lambda>fetch limit address selected after r res. recovers_to fetch limit address selected r res",
     OF _ assms], goal_cases)
  case (1 loop fetch limit address selected after r res)
  show ?case
  proof (cases "rc_wanted r = {} \<or> limit \<le> rc_examinations r")
    case True
    with 1(2) show ?thesis by (auto simp: recovers_to_def)
  next
    case False
    let ?page = "fetch after RECOVERY_SCAN_SLICE"
    show ?thesis unfolding recovers_to_def
    proof
      assume "recovering address (scanned fetch) selected r"
      moreover have "set (pg_items ?page) \<subseteq> scanned fetch" by (auto simp: scanned_def)
      ultimately obtain r1 where r1: "recover_items limit address selected (pg_items ?page) r = Inr r1"
        "recovering address (scanned fetch) selected r1" "rc_examinations r \<le> rc_examinations r1"
        "rc_examinations r1 \<le> max limit (rc_examinations r)" using recover_items_law by blast
      show "\<exists>r'. res = Inr r' \<and> recovering address (scanned fetch) selected r' \<and>
          rc_examinations r \<le> rc_examinations r' \<and> rc_examinations r' \<le> max limit (rc_examinations r)"
      proof (cases "pg_cursor ?page")
        case None
        with 1(2) False r1 show ?thesis by (auto simp: Let_def)
      next
        case (Some cursor)
        with 1(2) False r1(1) have "loop fetch limit address selected (Some cursor) r1 = Some res"
          by (simp add: Let_def)
        from 1(1) [OF this] r1(2-4) show ?thesis by (fastforce simp: recovers_to_def)
      qed
    qed
  qed
qed

text \<open>A scan that answers no empty page with a cursor to go on from.\<close>

definition never_stalls :: "(admission_key option \<Rightarrow> usize \<Rightarrow> 'r scan_page) \<Rightarrow> bool" where
  "never_stalls fetch \<longleftrightarrow>
     (\<forall>after. pg_items (fetch after RECOVERY_SCAN_SLICE) = [] \<longrightarrow> pg_cursor (fetch after RECOVERY_SCAN_SLICE) = None)"

lemma recover_loop_returns:
  assumes "never_stalls fetch"
  shows "recovering address (scanned fetch) selected r \<Longrightarrow>
    \<exists>res. recover_loop fetch limit address selected after r = Some res"
proof (induction "limit - rc_examinations r" arbitrary: r after rule: less_induct)
  case less
  show ?case
  proof (cases "rc_wanted r = {} \<or> limit \<le> rc_examinations r")
    case False
    let ?page = "fetch after RECOVERY_SCAN_SLICE"
    have "set (pg_items ?page) \<subseteq> scanned fetch" by (auto simp: scanned_def)
    from recover_items_law [OF less(2) this, of limit] obtain r1 where
      r1: "recover_items limit address selected (pg_items ?page) r = Inr r1"
      "recovering address (scanned fetch) selected r1"
      "pg_items ?page \<noteq> [] \<longrightarrow> rc_examinations r < rc_examinations r1" using False by fastforce
    show ?thesis
    proof (cases "pg_cursor ?page")
      case None
      with False r1 show ?thesis by (subst recover_loop.simps) (simp add: Let_def)
    next
      case (Some cursor)
      with assms have "pg_items ?page \<noteq> []" by (auto simp: never_stalls_def)
      with r1(3) False have "limit - rc_examinations r1 < limit - rc_examinations r" by auto
      from less(1) [OF this r1(2), of "Some cursor"] False r1(1) Some show ?thesis
        by (subst recover_loop.simps) (simp add: Let_def)
    qed
  qed (subst recover_loop.simps, simp)
qed

text \<open>The names a recovery gives: one place per selected record, a name only at the first of its address.\<close>

definition names_fit ::
  "(admission_key option \<Rightarrow> usize \<Rightarrow> 'r scan_page) \<Rightarrow> ('r scan_item \<Rightarrow> nat) \<Rightarrow> nat list \<Rightarrow>
     entity_id option list \<Rightarrow> bool" where
  "names_fit fetch address selected ids \<longleftrightarrow>
     length ids = length selected \<and>
     (\<forall>i < length selected. \<forall>e. ids ! i = Some e \<longrightarrow> selected ! i \<notin> set (take i selected) \<and>
        (\<exists>item \<in> scanned fetch. address item = selected ! i \<and> key_entity (it_key item) = e))"

lemma recovering_first:
  "recovering address pool selected
     \<lparr>rc_wanted = set selected, rc_names = replicate (length selected) None, rc_examinations = n\<rparr>"
  by (simp add: recovering_def)

lemma name_identities_law:
  assumes "name_identities fetch address selected ws = Some res"
  obtains ids n where "res = Inr (ids, ws\<lparr>ws_examinations := n\<rparr>)" "names_fit fetch address selected ids"
    "ws_examinations ws \<le> n" "n \<le> max (ch_max_identity_examinations (ws_chain ws)) (ws_examinations ws)"
proof -
  let ?r = "\<lparr>rc_wanted = set selected, rc_names = replicate (length selected) None,
    rc_examinations = ws_examinations ws\<rparr>"
  let ?limit = "ch_max_identity_examinations (ws_chain ws)"
  from assms obtain out where out: "recover_loop fetch ?limit address selected None ?r = Some out"
    and res: "res = and_then out (\<lambda>r. Inr (rc_names r, ws\<lparr>ws_examinations := rc_examinations r\<rparr>))"
    by (auto simp: name_identities_def)
  from recover_loop_law [OF out] obtain r' where "out = Inr r'" "recovering address (scanned fetch) selected r'"
    "ws_examinations ws \<le> rc_examinations r'" "rc_examinations r' \<le> max ?limit (ws_examinations ws)"
    by (auto simp: recovers_to_def recovering_first)
  then show thesis using res
    by (intro that [of "rc_names r'" "rc_examinations r'"]) (auto simp: names_fit_def recovering_def)
qed

lemma name_identities_returns:
  "never_stalls fetch \<Longrightarrow> \<exists>res. name_identities fetch address selected ws = Some res"
  using recover_loop_returns [of fetch address selected "\<lparr>rc_wanted = set selected,
      rc_names = replicate (length selected) None, rc_examinations = ws_examinations ws\<rparr>"
      "ch_max_identity_examinations (ws_chain ws)" None]
  by (auto simp: name_identities_def recovering_first)

lemma named_length:
  "length ids = length selected \<Longrightarrow>
     length (List.map_filter (\<lambda>(x, name). map_option (f x) name) (zip selected ids)) + holes_of ids =
     length selected"
  by (induction ids selected rule: list_induct2)
    (auto simp: holes_of_def map_filter_simps split: option.splits)

section \<open>The waterfall\<close>

definition ordering_of ::
  "trace_id \<Rightarrow> span arc list \<Rightarrow> span arc list \<times> span_id list \<Rightarrow> bool" where
  "ordering_of trace spans acc \<longleftrightarrow>
     list_all2 (\<lambda>s i. natural_identity (snd s) = Some (trace, i)) (fst acc) (snd acc) \<and>
     distinct (snd acc) \<and> set (fst acc) \<subseteq> set spans"

lemma gather_law:
  assumes "ordering_of trace all_spans (ordered, visited)" "set spans \<subseteq> set all_spans"
  obtains more ids where
    "gather takes trace spans (ordered, visited) = (ordered @ more, visited @ ids)"
    "ordering_of trace all_spans (ordered @ more, visited @ ids)"
    "subseq more spans" "\<forall>s \<in> set more. takes (snd s)"
    "\<forall>s \<in> set spans. \<forall>i. takes (snd s) \<longrightarrow> natural_identity (snd s) = Some (trace, i) \<longrightarrow> i \<in> set (visited @ ids)"
proof -
  have "\<exists>more ids. gather takes trace spans (ordered, visited) = (ordered @ more, visited @ ids) \<and>
    ordering_of trace all_spans (ordered @ more, visited @ ids) \<and> subseq more spans \<and>
    (\<forall>s \<in> set more. takes (snd s)) \<and>
    (\<forall>s \<in> set spans. \<forall>i. takes (snd s) \<longrightarrow> natural_identity (snd s) = Some (trace, i) \<longrightarrow> i \<in> set (visited @ ids))"
    using assms
  proof (induction spans arbitrary: ordered visited)
    case (Cons s spans)
    show ?case
    proof (cases "\<exists>i. takes (snd s) \<and> natural_identity (snd s) = Some (trace, i) \<and> i \<notin> set visited")
      case True
      then obtain i where i: "takes (snd s)" "natural_identity (snd s) = Some (trace, i)" "i \<notin> set visited"
        by blast
      have "ordering_of trace all_spans (ordered @ [s], visited @ [i])"
        using Cons.prems i by (auto simp: ordering_of_def intro: list_all2_appendI)
      from Cons.IH [OF this] Cons.prems(2) obtain more ids where IH:
        "gather takes trace spans (ordered @ [s], visited @ [i]) = ((ordered @ [s]) @ more, (visited @ [i]) @ ids)"
        "ordering_of trace all_spans ((ordered @ [s]) @ more, (visited @ [i]) @ ids)" "subseq more spans"
        "\<forall>s \<in> set more. takes (snd s)"
        "\<forall>s \<in> set spans. \<forall>j. takes (snd s) \<longrightarrow> natural_identity (snd s) = Some (trace, j) \<longrightarrow>
           j \<in> set ((visited @ [i]) @ ids)" by auto
      with i show ?thesis by (intro exI [of _ "s # more"] exI [of _ "i # ids"]) auto
    next
      case False
      then have skip: "gather takes trace (s # spans) (ordered, visited) = gather takes trace spans (ordered, visited)"
        by (auto split: option.splits)
      from Cons.IH [OF Cons.prems(1)] Cons.prems(2) obtain more ids where IH:
        "gather takes trace spans (ordered, visited) = (ordered @ more, visited @ ids)"
        "ordering_of trace all_spans (ordered @ more, visited @ ids)" "subseq more spans"
        "\<forall>s \<in> set more. takes (snd s)"
        "\<forall>s \<in> set spans. \<forall>i. takes (snd s) \<longrightarrow> natural_identity (snd s) = Some (trace, i) \<longrightarrow>
           i \<in> set (visited @ ids)" by auto
      with False skip show ?thesis by (intro exI [of _ more] exI [of _ ids]) auto
    qed
  qed auto
  with that show thesis by blast
qed

text \<open>
  The walk of the levels at a cursor: every span but the first is the child of one before it, and the
  trace's children of the spans before the cursor are all visited.
\<close>

definition linked :: "trace_id \<Rightarrow> span arc list \<Rightarrow> nat \<Rightarrow> span arc list \<times> span_id list \<Rightarrow> bool" where
  "linked trace spans cursor acc \<longleftrightarrow>
     ordering_of trace spans acc \<and> fst acc \<noteq> [] \<and>
     (\<forall>k < length (fst acc). 0 < k \<longrightarrow>
        (\<exists>j < k. sp_parent_span_id (snd (fst acc ! k)) = Some (snd acc ! j))) \<and>
     (\<forall>j < cursor. \<forall>s \<in> set spans. \<forall>i. sp_parent_span_id (snd s) = Some (snd acc ! j) \<longrightarrow>
        natural_identity (snd s) = Some (trace, i) \<longrightarrow> i \<in> set (snd acc))"

lemma ordering_length: "ordering_of trace spans acc \<Longrightarrow> length (snd acc) = length (fst acc)"
  by (auto simp: ordering_of_def dest: list_all2_lengthD)

lemma linked_step:
  assumes link: "linked trace spans cursor (ordered, visited)" and cursor: "cursor < length ordered"
  obtains parent_id more ids where "natural_identity (snd (ordered ! cursor)) = Some (trace, parent_id)"
    "gather (\<lambda>s. sp_parent_span_id s = Some parent_id) trace spans (ordered, visited) = (ordered @ more, visited @ ids)"
    "linked trace spans (cursor + 1) (ordered @ more, visited @ ids)"
proof -
  from link have ord: "ordering_of trace spans (ordered, visited)" by (simp add: linked_def)
  have len: "length visited = length ordered" using ordering_length [OF ord] by simp
  have id: "natural_identity (snd (ordered ! cursor)) = Some (trace, visited ! cursor)"
    using ord cursor by (auto simp: ordering_of_def dest: list_all2_nthD)
  let ?takes = "\<lambda>s. sp_parent_span_id s = Some (visited ! cursor)"
  obtain more ids where g:
    "gather ?takes trace spans (ordered, visited) = (ordered @ more, visited @ ids)"
    "ordering_of trace spans (ordered @ more, visited @ ids)" "subseq more spans"
    "\<forall>s \<in> set more. ?takes (snd s)"
    "\<forall>s \<in> set spans. \<forall>i. ?takes (snd s) \<longrightarrow> natural_identity (snd s) = Some (trace, i) \<longrightarrow> i \<in> set (visited @ ids)"
    by (rule gather_law [OF ord subset_refl])
  have old: "(visited @ ids) ! j = visited ! j" if "j < length ordered" for j
    using that len by (simp add: nth_append)
  have parents: "\<exists>j < k. sp_parent_span_id (snd ((ordered @ more) ! k)) = Some ((visited @ ids) ! j)"
    if k: "k < length (ordered @ more)" "0 < k" for k
  proof (cases "k < length ordered")
    case True
    with link k(2) obtain j where "j < k" "sp_parent_span_id (snd (ordered ! k)) = Some (visited ! j)"
      by (auto simp: linked_def)
    with True old [of j] show ?thesis by (intro exI [of _ j]) (simp add: nth_append)
  next
    case False
    then have "(ordered @ more) ! k \<in> set more" using k(1) by (simp add: nth_append)
    with g(4) False cursor old [OF cursor] show ?thesis by (intro exI [of _ cursor]) auto
  qed
  have closed: "i \<in> set (visited @ ids)"
    if "j < cursor + 1" "s \<in> set spans" "sp_parent_span_id (snd s) = Some ((visited @ ids) ! j)"
      "natural_identity (snd s) = Some (trace, i)" for j s i
  proof (cases "j = cursor")
    case True
    with that g(5) old [OF cursor] show ?thesis by simp
  next
    case False
    with that(1) cursor have "j < cursor" "j < length ordered" by simp_all
    with that(2-4) old [of j] link have "i \<in> set visited" unfolding linked_def fst_conv snd_conv by metis
    then show ?thesis by simp
  qed
  have "linked trace spans (cursor + 1) (ordered @ more, visited @ ids)"
    using g(2) link parents closed by (auto simp: linked_def)
  with id g(1) show thesis by (rule that)
qed

lemma levels_law:
  "linked trace spans cursor acc \<Longrightarrow> cursor \<le> length (fst acc) \<Longrightarrow>
     \<exists>more ids. levels trace spans cursor acc = Inr (fst acc @ more, snd acc @ ids) \<and>
       linked trace spans (length (fst acc @ more)) (fst acc @ more, snd acc @ ids)"
proof (induction trace spans cursor acc rule: levels.induct)
  case (1 trace spans cursor ordered visited)
  show ?case
  proof (cases "cursor < length ordered")
    case True
    obtain parent_id more ids where step:
      "natural_identity (snd (ordered ! cursor)) = Some (trace, parent_id)"
      "gather (\<lambda>s. sp_parent_span_id s = Some parent_id) trace spans (ordered, visited) = (ordered @ more, visited @ ids)"
      "linked trace spans (cursor + 1) (ordered @ more, visited @ ids)"
      using 1(2) True by (rule linked_step)
    have next_level: "levels trace spans cursor (ordered, visited) =
        levels trace spans (cursor + 1) (ordered @ more, visited @ ids)"
      using True step(1,2) by (subst levels.simps) simp
    obtain more' ids' where "levels trace spans (cursor + 1) (ordered @ more, visited @ ids) =
        Inr ((ordered @ more) @ more', (visited @ ids) @ ids')"
      "linked trace spans (length ((ordered @ more) @ more')) ((ordered @ more) @ more', (visited @ ids) @ ids')"
      using 1(1) [OF True step(1) refl] step(2,3) True by fastforce
    with next_level show ?thesis
      by (intro exI [of _ "more @ more'"] exI [of _ "ids @ ids'"]) simp
  next
    case False
    with 1(3) have "levels trace spans cursor (ordered, visited) = Inr (ordered, visited)"
      by (subst levels.simps) simp
    with False 1(2,3) show ?thesis by (intro exI [of _ "[]"]) simp
  qed
qed

text \<open>
  What a waterfall is: spans reached from the root over parent links, each after its parent and with
  every child of the trace, then the members of the trace no chain reached, in engine order; each
  identity of the trace once, and all of them.
\<close>

abbreviation identity_of :: "span arc \<Rightarrow> (trace_id \<times> span_id) option" where
  "identity_of s \<equiv> natural_identity (snd s)"

abbreviation child_of :: "trace_id \<Rightarrow> span arc \<Rightarrow> span arc \<Rightarrow> bool" where
  "child_of trace s parent \<equiv>
     (\<exists>p. sp_parent_span_id (snd s) = Some p \<and> identity_of parent = Some (trace, p))"

definition waterfall_of ::
  "trace_id \<Rightarrow> span_id \<Rightarrow> span arc list \<Rightarrow> span arc list \<Rightarrow> span arc list \<Rightarrow> bool" where
  "waterfall_of trace root_id spans front rest \<longleftrightarrow>
     front \<noteq> [] \<and> identity_of (hd front) = Some (trace, root_id) \<and>
     (\<forall>k < length front. 0 < k \<longrightarrow> (\<exists>j < k. child_of trace (front ! k) (front ! j))) \<and>
     (\<forall>s \<in> set spans. \<forall>i. identity_of s = Some (trace, i) \<longrightarrow>
        (\<exists>parent \<in> set front. child_of trace s parent) \<longrightarrow> Some (trace, i) \<in> identity_of ` set front) \<and>
     subseq rest spans \<and> set front \<subseteq> set spans \<and>
     distinct (map identity_of (front @ rest)) \<and>
     identity_of ` set (front @ rest) = {Some (trace, i) | i. Some (trace, i) \<in> identity_of ` set spans}"

lemma ordering_identities:
  assumes "ordering_of trace spans (ordered, visited)"
  shows "map identity_of ordered = map (\<lambda>i. Some (trace, i)) visited" "distinct (map identity_of ordered)"
    "set ordered \<subseteq> set spans"
proof -
  show eq: "map identity_of ordered = map (\<lambda>i. Some (trace, i)) visited"
    using assms by (auto simp: ordering_of_def list_all2_conv_all_nth intro: nth_equalityI)
  show "distinct (map identity_of ordered)" "set ordered \<subseteq> set spans"
    using assms unfolding eq by (auto simp: ordering_of_def distinct_map inj_on_def)
qed

lemma waterfall_of_linked:
  assumes link: "linked trace spans (length front) (front, visited)"
    and first: "identity_of (hd front) = Some (trace, root_id)"
    and ord: "ordering_of trace spans (front @ rest, visited @ ids)" and sub: "subseq rest spans"
    and all: "\<forall>s \<in> set spans. \<forall>i. identity_of s = Some (trace, i) \<longrightarrow> i \<in> set (visited @ ids)"
  shows "waterfall_of trace root_id spans front rest"
proof -
  note ids = ordering_identities [OF ord]
  have front: "ordering_of trace spans (front, visited)" using link by (simp add: linked_def)
  note front_ids = ordering_identities [OF front]
  have len: "length visited = length front" using ordering_length [OF front] by simp
  have nth: "identity_of (front ! j) = Some (trace, visited ! j)" if "j < length front" for j
    using arg_cong [OF front_ids(1), of "\<lambda>xs. xs ! j"] that len by simp
  have "\<exists>j < k. child_of trace (front ! k) (front ! j)" if "k < length front" "0 < k" for k
  proof -
    from link that obtain j where "j < k" "sp_parent_span_id (snd (front ! k)) = Some (visited ! j)"
      by (auto simp: linked_def)
    with nth [of j] that show ?thesis by auto
  qed
  moreover have "Some (trace, i) \<in> identity_of ` set front"
    if s: "s \<in> set spans" "identity_of s = Some (trace, i)" "parent \<in> set front" "child_of trace s parent" for s i parent
  proof -
    from s(3) obtain j where j: "j < length front" "parent = front ! j" by (auto simp: in_set_conv_nth)
    with s(4) nth have "sp_parent_span_id (snd s) = Some (visited ! j)" by auto
    with link s(1,2) j(1) have "i \<in> set visited" unfolding linked_def fst_conv snd_conv by metis
    then show ?thesis using arg_cong [OF front_ids(1), of set] by auto
  qed
  moreover have "identity_of ` set (front @ rest) = {Some (trace, i) | i. Some (trace, i) \<in> identity_of ` set spans}"
  proof -
    have eq: "identity_of ` set (front @ rest) = Some ` Pair trace ` set (visited @ ids)"
      using arg_cong [OF ids(1), of set] by (simp add: image_Un image_image)
    have sub_ids: "identity_of ` set (front @ rest) \<subseteq> identity_of ` set spans" using ids(3) by (rule image_mono)
    show ?thesis
    proof (intro equalityI subsetI)
      fix x assume x: "x \<in> identity_of ` set (front @ rest)"
      with sub_ids have "x \<in> identity_of ` set spans" by blast
      moreover from x eq obtain i where "x = Some (trace, i)" unfolding eq by blast
      ultimately have "Some (trace, i) \<in> identity_of ` set spans" by (simp only:)
      with \<open>x = Some (trace, i)\<close> show "x \<in> {Some (trace, i) | i. Some (trace, i) \<in> identity_of ` set spans}"
        unfolding mem_Collect_eq by (intro exI conjI)
    next
      fix x assume "x \<in> {Some (trace, i) | i. Some (trace, i) \<in> identity_of ` set spans}"
      then obtain i where x: "x = Some (trace, i)" "x \<in> identity_of ` set spans" by blast
      from x(2) obtain s where "s \<in> set spans" "x = identity_of s" by (rule imageE)
      note s = this [unfolded x(1)]
      with all have "i \<in> set (visited @ ids)" by (metis s(2))
      then show "x \<in> identity_of ` set (front @ rest)" unfolding eq x(1) by (intro imageI)
    qed
  qed
  ultimately show ?thesis
    using first sub ids(2) front_ids(3) link unfolding waterfall_of_def linked_def by auto
qed

lemma waterfall_law:
  fixes effective :: effective_subject
  defines "trace \<equiv> er_trace_id (es_root effective)" and "root_id \<equiv> er_span_id (es_root effective)"
  shows "\<exists>ordered. waterfall spans effective root = Inr ordered \<and>
    (if Some (trace, root_id) \<in> identity_of ` set spans
     then \<exists>front rest. ordered = front @ rest \<and> waterfall_of trace root_id spans front rest
     else ordered = [root])"
proof (cases "position_of (\<lambda>s. identity_of s = Some (trace, root_id)) spans")
  case None
  then have "Some (trace, root_id) \<notin> identity_of ` set spans" unfolding position_of_None by force
  with None show ?thesis by (simp add: waterfall_def trace_def root_id_def)
next
  case (Some i)
  let ?seed = "spans ! i"
  from position_of_Some [OF Some] have seed: "?seed \<in> set spans" "identity_of ?seed = Some (trace, root_id)"
    by simp_all
  have "linked trace spans 0 ([?seed], [root_id])" using seed by (simp add: linked_def ordering_of_def)
  from levels_law [OF this] obtain more ids where walk: "levels trace spans 0 ([?seed], [root_id]) = Inr (?seed # more, root_id # ids)"
    "linked trace spans (length (?seed # more)) (?seed # more, root_id # ids)" by auto
  from walk(2) have "ordering_of trace spans (?seed # more, root_id # ids)" by (simp add: linked_def)
  then obtain rest ids' where g: "gather (\<lambda>_. True) trace spans (?seed # more, root_id # ids) =
      ((?seed # more) @ rest, (root_id # ids) @ ids')"
    "ordering_of trace spans ((?seed # more) @ rest, (root_id # ids) @ ids')" "subseq rest spans"
    "\<forall>s \<in> set rest. True"
    "\<forall>s \<in> set spans. \<forall>i. True \<longrightarrow> identity_of s = Some (trace, i) \<longrightarrow> i \<in> set ((root_id # ids) @ ids')"
    by (rule gather_law [OF _ subset_refl])
  have "waterfall_of trace root_id spans (?seed # more) rest"
    by (rule waterfall_of_linked [OF walk(2) _ g(2,3)]) (use seed g(5) in auto)
  moreover have "waterfall spans effective root = Inr ((?seed # more) @ rest)"
    using Some walk(1) g(1) by (simp add: waterfall_def trace_def root_id_def)
  moreover have "Some (trace, root_id) \<in> identity_of ` set spans"
    using seed by (metis image_eqI)
  ultimately show ?thesis
    by (intro exI [of _ "(?seed # more) @ rest"]) (metis (no_types, lifting))
qed

section \<open>The parts of the flow\<close>

lemma flow_bind_simps [simp]:
  "flow_bind (Some (Inr a)) rest = rest a" "flow_bind (Some (Inl e)) rest = Some (Inl e)"
  "flow_bind None rest = None"
  by (simp_all add: flow_bind_def)

lemma flow_bind_Inr: "flow_bind step rest = Some (Inr b) \<longleftrightarrow> (\<exists>a. step = Some (Inr a) \<and> rest a = Some (Inr b))"
  by (auto simp: flow_bind_def split: option.splits sum.splits)

abbreviation selected_logs :: "arc_addresses \<Rightarrow> record_view list \<Rightarrow> trace_id option \<Rightarrow> log_record arc list" where
  "selected_logs A views relates_to \<equiv> select_logs relates_to (log_views_of (addressed (aa_logs A) views))"

abbreviation selected_points ::
  "arc_addresses \<Rightarrow> record_view list \<Rightarrow> fact_window \<Rightarrow> trace_id option \<Rightarrow> point_arc list" where
  "selected_points A views asked relates_to \<equiv>
     select_points relates_to asked (point_views_of (addressed (aa_points A) views))"

abbreviation log_address :: "arc_addresses \<Rightarrow> log_record scan_item \<Rightarrow> nat" where
  "log_address A item \<equiv> aa_log_items A (it_key item)"

abbreviation point_address :: "arc_addresses \<Rightarrow> point_view scan_item \<Rightarrow> nat" where
  "point_address A item \<equiv> aa_point_items A (it_key item)"

text \<open>A part that selects \<open>n\<close> records: what it leaves of the walking state.\<close>

definition selected_from :: "walk_state \<Rightarrow> nat \<Rightarrow> walk_state \<Rightarrow> bool" where
  "selected_from ws n ws' \<longleftrightarrow>
     ws_pages ws' = ws_pages ws \<and> ws_budget ws' = ws_budget ws \<and> ws_chain ws' = ws_chain ws \<and>
     ws_stopped ws' = ws_stopped ws \<and> ws_entities ws' = sat_add (ws_entities ws) n \<and>
     ws_examinations ws \<le> ws_examinations ws' \<and>
     ws_examinations ws' \<le> max (ch_max_identity_examinations (ws_chain ws)) (ws_examinations ws)"

lemma related_logs_law:
  assumes "related_logs S A views relates_to ws = Some res"
  obtains ids ws' where
    "res = Inr (named_logs (selected_logs A views relates_to) ids, holes_of ids, ws')"
    "names_fit (qs_scan_log_records S) (log_address A) (map fst (selected_logs A views relates_to)) ids"
    "selected_from ws (length (selected_logs A views relates_to)) ws'"
proof -
  from assms obtain named where named: "name_log_identities S A (selected_logs A views relates_to) ws = Some named"
    and res: "res = and_then named (\<lambda>(ids, ws1). Inr (named_logs (selected_logs A views relates_to) ids, holes_of ids,
      ws1\<lparr>ws_entities := sat_add (ws_entities ws1) (length (selected_logs A views relates_to))\<rparr>))"
    by (auto simp: related_logs_def Let_def)
  from named [unfolded name_log_identities_def] obtain ids n where
    "named = Inr (ids, ws\<lparr>ws_examinations := n\<rparr>)"
    "names_fit (qs_scan_log_records S) (log_address A) (map fst (selected_logs A views relates_to)) ids"
    "ws_examinations ws \<le> n" "n \<le> max (ch_max_identity_examinations (ws_chain ws)) (ws_examinations ws)"
    by (rule name_identities_law)
  with res show thesis
    by (intro that [of ids "ws\<lparr>ws_examinations := n, ws_entities := sat_add (ws_entities ws)
          (length (selected_logs A views relates_to))\<rparr>"]) (simp_all add: selected_from_def)
qed

lemma surrounding_metrics_law:
  assumes "surrounding_metrics S A views asked relates_to ws = Some res"
  obtains ids ws' where
    "res = Inr (named_points (selected_points A views asked relates_to) ids, holes_of ids,
       resident_window asked (named_points (selected_points A views asked relates_to) ids), ws')"
    "names_fit (qs_scan_metric_points S) (point_address A)
       (map fst (selected_points A views asked relates_to)) ids"
    "selected_from ws (length (selected_points A views asked relates_to)) ws'"
proof -
  let ?sel = "selected_points A views asked relates_to"
  from assms obtain named where named: "name_point_identities S A (map fst ?sel) ws = Some named"
    and res: "res = and_then named (\<lambda>(ids, ws1). Inr (named_points ?sel ids, holes_of ids,
      resident_window asked (named_points ?sel ids),
      ws1\<lparr>ws_entities := sat_add (ws_entities ws1) (length ?sel)\<rparr>))"
    by (auto simp: surrounding_metrics_def Let_def)
  from named [unfolded name_point_identities_def] obtain ids n where
    "named = Inr (ids, ws\<lparr>ws_examinations := n\<rparr>)"
    "names_fit (qs_scan_metric_points S) (point_address A) (map fst ?sel) ids"
    "ws_examinations ws \<le> n" "n \<le> max (ch_max_identity_examinations (ws_chain ws)) (ws_examinations ws)"
    by (rule name_identities_law)
  with res show thesis
    by (intro that [of ids "ws\<lparr>ws_examinations := n, ws_entities := sat_add (ws_entities ws) (length ?sel)\<rparr>"])
      (simp_all add: selected_from_def)
qed

lemma named_logs_length:
  "length ids = length selected \<Longrightarrow> length (named_logs selected ids) + holes_of ids = length selected"
  using named_length [of ids selected "\<lambda>r entity. \<lparr>lv_entity = Some entity, lv_log = snd r\<rparr>"]
  by (simp add: named_logs_def)

lemma named_points_length:
  assumes "length ids = length selected"
  shows "length (named_points selected ids) + holes_of ids = length selected"
  using assms
  by (induction ids selected rule: list_induct2)
    (auto simp: named_points_def holes_of_def map_filter_simps split: option.splits)

definition flow_start :: "trace_investigation_request \<Rightarrow> chain_budget \<Rightarrow> walk_state" where
  "flow_start request chain =
     \<lparr>ws_budget = ti_budget request, ws_chain = chain, ws_pages = 0, ws_entities = 0,
      ws_examinations = 0, ws_stopped = None\<rparr>"

abbreviation walked_spans :: "arc_addresses \<Rightarrow> record_view list \<Rightarrow> span arc list" where
  "walked_spans A views \<equiv> span_views_of (addressed (aa_spans A) views)"

abbreviation subject_of ::
  "arc_addresses \<Rightarrow> trace_investigation_request \<Rightarrow> span \<Rightarrow> record_view list \<Rightarrow> effective_subject" where
  "subject_of A request root views \<equiv>
     resolve_subject (aa_root A, root) (ti_root_span request) (walked_spans A views)"

text \<open>The steps of an investigation that answered an envelope.\<close>

lemma investigated:
  assumes "investigate_trace_bounded L clks A S st request chain = Some (Inr env)"
  obtains root span_views g1 ws1 ordered log_views g2 ws2 ids2 ws3 point_views g3 ws4 ids3 ws5 asked where
    "qs_span S (ti_root_span request) = Some root"
    "walk_pages L clks S (query_new Spans) SpansPart (flow_start request chain) = Inr (span_views, g1, ws1)"
    "waterfall (walked_spans A span_views) (subject_of A request root span_views) (aa_root A, root) = Inr ordered"
    "walk_pages L clks S (query_new LogRecords) RelatedLogs
       (ws1\<lparr>ws_entities := sat_add (ws_entities ws1) (length ordered)\<rparr>) = Inr (log_views, g2, ws2)"
    "names_fit (qs_scan_log_records S) (log_address A)
       (map fst (selected_logs A log_views (map_option fst (natural_identity root)))) ids2"
    "selected_from ws2 (length (selected_logs A log_views (map_option fst (natural_identity root)))) ws3"
    "walk_pages L clks S (query_new MetricPoints) SurroundingMetrics ws3 = Inr (point_views, g3, ws4)"
    "asked = \<lparr>fw_from = fst (extent_of ordered), fw_to = snd (extent_of ordered)\<rparr>"
    "names_fit (qs_scan_metric_points S) (point_address A)
       (map fst (selected_points A point_views asked (map_option fst (natural_identity root)))) ids3"
    "selected_from ws4 (length (selected_points A point_views asked (map_option fst (natural_identity root)))) ws5"
    "env = conclude S st request chain (map_option fst (natural_identity root))
       (subject_of A request root span_views)
       \<lparr>ev_spans = span_evidence ordered (subject_of A request root span_views),
        ev_logs = named_logs (selected_logs A log_views (map_option fst (natural_identity root))) ids2,
        ev_points = named_points (selected_points A point_views asked (map_option fst (natural_identity root))) ids3\<rparr>
       (g1, g2, g3)
       (asked, resident_window asked
          (named_points (selected_points A point_views asked (map_option fst (natural_identity root))) ids3))
       (holes_of ids2, holes_of ids3) ws5"
proof -
  from assms obtain root where root: "qs_span S (ti_root_span request) = Some root"
    by (auto simp: investigate_trace_bounded_def split: option.splits)
  let ?rel = "map_option fst (natural_identity root)"
  note run = assms [unfolded investigate_trace_bounded_def Let_def root option.case]
  from run obtain span_views g1 ws1 ordered log_views g2 ws2 where
    spans: "walk_pages L clks S (query_new Spans) SpansPart (flow_start request chain) = Inr (span_views, g1, ws1)"
    "waterfall (walked_spans A span_views) (subject_of A request root span_views) (aa_root A, root) = Inr ordered"
    and logs: "walk_pages L clks S (query_new LogRecords) RelatedLogs
       (ws1\<lparr>ws_entities := sat_add (ws_entities ws1) (length ordered)\<rparr>) = Inr (log_views, g2, ws2)"
    and rest: "flow_bind (related_logs S A log_views ?rel ws2) (\<lambda>(log_evidence, log_holes, ws).
       flow_bind (Some (walk_pages L clks S (query_new MetricPoints) SurroundingMetrics ws))
         (\<lambda>(point_views, points_group, ws).
            case extent_of ordered of (min_start, max_end) \<Rightarrow>
              flow_bind (surrounding_metrics S A point_views \<lparr>fw_from = min_start, fw_to = max_end\<rparr> ?rel ws)
                (\<lambda>(point_evidence, point_holes, resident, ws).
                  Some (Inr (conclude S st request chain ?rel (subject_of A request root span_views)
                    \<lparr>ev_spans = span_evidence ordered (subject_of A request root span_views),
                     ev_logs = log_evidence, ev_points = point_evidence\<rparr>
                    (g1, g2, points_group) (\<lparr>fw_from = min_start, fw_to = max_end\<rparr>, resident)
                    (log_holes, point_holes) ws))))) = Some (Inr env)"
    unfolding flow_bind_Inr split_paired_Ex prod.case flow_start_def [symmetric] by blast
  from rest obtain res where res: "related_logs S A log_views ?rel ws2 = Some res"
    by (cases "related_logs S A log_views ?rel ws2") auto
  then obtain ids2 ws3 where logs2: "res = Inr (named_logs (selected_logs A log_views ?rel) ids2, holes_of ids2, ws3)"
    "names_fit (qs_scan_log_records S) (log_address A) (map fst (selected_logs A log_views ?rel)) ids2"
    "selected_from ws2 (length (selected_logs A log_views ?rel)) ws3" by (rule related_logs_law)
  define asked where "asked = \<lparr>fw_from = fst (extent_of ordered), fw_to = snd (extent_of ordered)\<rparr>"
  from rest [unfolded res logs2(1)] obtain point_views g3 ws4 where
    points: "walk_pages L clks S (query_new MetricPoints) SurroundingMetrics ws3 = Inr (point_views, g3, ws4)"
    and rest2: "flow_bind (surrounding_metrics S A point_views asked ?rel ws4)
      (\<lambda>(point_evidence, point_holes, resident, ws).
        Some (Inr (conclude S st request chain ?rel (subject_of A request root span_views)
          \<lparr>ev_spans = span_evidence ordered (subject_of A request root span_views),
           ev_logs = named_logs (selected_logs A log_views ?rel) ids2, ev_points = point_evidence\<rparr>
          (g1, g2, g3) (asked, resident) (holes_of ids2, point_holes) ws))) = Some (Inr env)"
    by (cases "extent_of ordered") (auto simp: flow_bind_Inr asked_def)
  from rest2 obtain res2 where res2: "surrounding_metrics S A point_views asked ?rel ws4 = Some res2"
    by (cases "surrounding_metrics S A point_views asked ?rel ws4") auto
  then obtain ids3 ws5 where points2: "res2 = Inr (named_points (selected_points A point_views asked ?rel) ids3, holes_of ids3,
       resident_window asked (named_points (selected_points A point_views asked ?rel) ids3), ws5)"
    "names_fit (qs_scan_metric_points S) (point_address A) (map fst (selected_points A point_views asked ?rel)) ids3"
    "selected_from ws4 (length (selected_points A point_views asked ?rel)) ws5"
    by (rule surrounding_metrics_law)
  have "env = conclude S st request chain ?rel (subject_of A request root span_views)
       \<lparr>ev_spans = span_evidence ordered (subject_of A request root span_views),
        ev_logs = named_logs (selected_logs A log_views ?rel) ids2,
        ev_points = named_points (selected_points A point_views asked ?rel) ids3\<rparr>
       (g1, g2, g3) (asked, resident_window asked (named_points (selected_points A point_views asked ?rel) ids3))
       (holes_of ids2, holes_of ids3) ws5"
    using rest2 unfolding res2 points2(1) by simp
  then show thesis by (rule that [OF root spans logs logs2(2,3) points asked_def points2(2,3)])
qed

end
