(* ===== verification/Flow_Promises.thy ===== *)
theory Flow_Promises
  imports Flow_Laws
begin

text \<open>
  What the trace investigation promises: it never panics and fails on its subject alone, it returns
  on every driver that makes progress, its envelope keeps the invariants the source states as
  executable checks; and a driver on which the recovery of identities never returns.
\<close>

section \<open>The envelope of a conclusion\<close>

lemma conclude_parts [simp]:
  "iv_subject (conclude S st request chain relates_to effective evidence gs w hs ws) =
     \<lparr>su_requested = RequestedSubject (ti_root_span request), su_effective = effective\<rparr>"
  "iv_evidence (conclude S st request chain relates_to effective evidence gs w hs ws) = evidence"
  "xp_run_groups (iv_execution (conclude S st request chain relates_to effective evidence gs w hs ws)) =
     [fst gs, fst (snd gs), snd (snd gs)]"
  "lm_chain (iv_limits (conclude S st request chain relates_to effective evidence gs w hs ws)) =
     \<lparr>cl_max_total_entities = ch_max_total_entities chain, cl_max_total_pages = ch_max_total_pages chain,
      cl_total_entities = ws_entities ws, cl_total_pages = ws_pages ws,
      cl_identity_examinations = ws_examinations ws,
      cl_correlation_scan = tt_scan_spent (co_truth (correlate S S (flow_bounds request relates_to))),
      cl_stopped = ws_stopped ws\<rparr>"
  "cr_relations (iv_correlated (conclude S st request chain relates_to effective evidence gs w hs ws)) =
     filter (relation_in_evidence evidence)
       (map as_evidence (co_relations (correlate S S (flow_bounds request relates_to))))"
  by (cases gs; cases w; cases hs; simp add: conclude_def limits_of_def Let_def)+

lemma conclude_coverage:
  "\<exists>truth shrunk. xp_flow_coverage (iv_execution
     (conclude S st request chain relates_to effective evidence (g1, g2, g3) (asked, resident) (n, m) ws)) =
     flow_coverage_of g3 asked resident (admission_anomalies_total st) n m request truth shrunk"
  by (auto simp: conclude_def Let_def)

lemma hole_counts_simps [simp]:
  "hole_counts [] = 0" "hole_counts (e # es) = (case e of ResidencyHole _ n \<Rightarrow> n | _ \<Rightarrow> 0) + hole_counts es"
  "hole_counts (es @ fs) = hole_counts es + hole_counts fs"
  by (simp_all add: hole_counts_def)

lemma hole_counts_none: "(\<And>part n. ResidencyHole part n \<notin> set es) \<Longrightarrow> hole_counts es = 0"
proof (induction es)
  case (Cons e es)
  then show ?case by (cases e) (auto simp: hole_counts_def)
qed simp

lemma flow_coverage_holes:
  "hole_counts (flow_coverage_of g asked resident anomalies n m request truth shrunk) = n + m"
proof -
  have "hole_counts (map (\<lambda>s. SuppressedEvidence (su_log s) (su_span s) (su_suppressed s)) ss) = 0"
    for ss :: "suppression list" by (rule hole_counts_none) auto
  moreover have "hole_counts (map (\<lambda>a. AbsentTraceSpans (at_log a)) as) = 0" for as
    by (rule hole_counts_none) auto
  ultimately show ?thesis by (simp add: flow_coverage_of_def split: option.split)
qed

section \<open>Failure and return\<close>

lemma flow_bind_Inl:
  "flow_bind step rest = Some (Inl e) \<longleftrightarrow>
     step = Some (Inl e) \<or> (\<exists>a. step = Some (Inr a) \<and> rest a = Some (Inl e))"
  by (auto simp: flow_bind_def split: option.splits sum.splits)

lemma walk_fails_rejected:
  assumes "walk_pages L clks S q part ws = Inl e"
  shows "e = FlowFailed ContinuationRejected"
proof -
  have "walk_loop L clks S q items facts cursor ws = Inl e \<Longrightarrow> e = FlowFailed ContinuationRejected"
    for items facts cursor
    by (induction items facts cursor ws rule: walk_pages_induct [where L = L and clks = clks and S = S and q = q])
      (auto simp: walk_loop_done walk_loop_rejected)
  then show ?thesis using assms by (auto simp: walk_pages_def elim!: and_then.elims)
qed

lemma parts_never_fail:
  "waterfall spans effective root \<noteq> Inl e" "related_logs S A views relates_to ws \<noteq> Some (Inl e)"
  "surrounding_metrics S A views asked relates_to ws \<noteq> Some (Inl e)"
proof -
  show "waterfall spans effective root \<noteq> Inl e"
    using waterfall_law [of spans effective root] by (metis Inl_Inr_False)
  show "related_logs S A views relates_to ws \<noteq> Some (Inl e)" by (auto elim: related_logs_law)
  show "surrounding_metrics S A views asked relates_to ws \<noteq> Some (Inl e)" by (auto elim: surrounding_metrics_law)
qed

lemma flow_fails:
  assumes "investigate_trace_bounded L clks A S st request chain = Some (Inl e)"
    "qs_span S (ti_root_span request) \<noteq> None"
  shows "\<exists>q part ws. walk_pages L clks S q part ws = Inl e"
proof -
  obtain root where root: "qs_span S (ti_root_span request) = Some root" using assms(2) by auto
  note run = assms(1) [unfolded investigate_trace_bounded_def Let_def root option.case]
  from run show ?thesis
    by (auto simp: flow_bind_Inl parts_never_fail split: prod.splits)
qed

lemma flow_decided:
  "investigate_trace_bounded L clks A S st request chain \<noteq> Some (Inl Panicked) \<and>
   (keys_fit S \<longrightarrow>
      (investigate_trace_bounded L clks A S st request chain = Some (Inl e) \<longleftrightarrow>
         qs_span S (ti_root_span request) = None \<and>
         e = FlowFailed (SubjectUnresolved (ti_root_span request))))"
proof (cases "qs_span S (ti_root_span request)")
  case None
  then show ?thesis by (auto simp: investigate_trace_bounded_def)
next
  case (Some root)
  then have fails: "\<exists>q part ws. walk_pages L clks S q part ws = Inl e'"
    if "investigate_trace_bounded L clks A S st request chain = Some (Inl e')" for e'
    using flow_fails [OF that] by simp
  have "investigate_trace_bounded L clks A S st request chain \<noteq> Some (Inl Panicked)"
    using fails walk_fails_rejected by blast
  moreover have "investigate_trace_bounded L clks A S st request chain \<noteq> Some (Inl e)" if "keys_fit S"
    using fails walk_pages_succeeds [OF that] by (metis Inl_Inr_False)
  ultimately show ?thesis using Some by simp
qed

text \<open>C9: An investigation never panics, whatever the driver, and over a driver whose keys are well
  formed it fails in one way only: its root span is not resident.\<close>

theorem investigation_fails_only_on_its_subject:
  "investigate_trace_bounded L clks A S st request chain \<noteq> Some (Inl Panicked) \<and>
   (keys_fit S \<longrightarrow>
      (investigate_trace_bounded L clks A S st request chain = Some (Inl e) \<longleftrightarrow>
         qs_span S (ti_root_span request) = None \<and>
         e = FlowFailed (SubjectUnresolved (ti_root_span request))))"
  by (rule flow_decided)

lemma related_logs_returns:
  "never_stalls (qs_scan_log_records S) \<Longrightarrow> \<exists>res. related_logs S A views relates_to ws = Some res"
  using name_identities_returns [of "qs_scan_log_records S"]
  by (fastforce simp: related_logs_def name_log_identities_def Let_def)

lemma surrounding_metrics_returns:
  "never_stalls (qs_scan_metric_points S) \<Longrightarrow> \<exists>res. surrounding_metrics S A views asked relates_to ws = Some res"
  using name_identities_returns [of "qs_scan_metric_points S"]
  by (fastforce simp: surrounding_metrics_def name_point_identities_def Let_def)

lemma flow_bind_returns:
  "\<exists>r. step = Some r \<Longrightarrow> (\<And>a. step = Some (Inr a) \<Longrightarrow> \<exists>r. rest a = Some r) \<Longrightarrow> \<exists>r. flow_bind step rest = Some r"
  by (auto simp: flow_bind_def split: sum.split)

lemma flow_returns:
  assumes "never_stalls (qs_scan_log_records S)" "never_stalls (qs_scan_metric_points S)"
  shows "\<exists>res. investigate_trace_bounded L clks A S st request chain = Some res"
proof (cases "qs_span S (ti_root_span request)")
  case (Some root)
  show ?thesis
    unfolding investigate_trace_bounded_def Let_def Some option.case
    by (intro flow_bind_returns exI [of _ "walk_pages _ _ _ _ _ _"])
      (auto intro!: flow_bind_returns related_logs_returns surrounding_metrics_returns assms split: prod.split)
qed (simp add: investigate_trace_bounded_def)

text \<open>C10: An investigation returns: over any driver whose scans of logs and points never answer an
  empty page with a cursor, whatever the budget, the chain ceilings and the clocks.\<close>

theorem investigation_returns:
  assumes "never_stalls (qs_scan_log_records S)" "never_stalls (qs_scan_metric_points S)"
  shows "\<exists>res. investigate_trace_bounded L clks A S st request chain = Some res"
  using assms by (rule flow_returns)

text \<open>A scan that answers every page of the recovery empty, with a cursor.\<close>

definition stalls :: "(admission_key option \<Rightarrow> usize \<Rightarrow> 'r scan_page) \<Rightarrow> bool" where
  "stalls fetch \<longleftrightarrow>
     (\<forall>after. pg_items (fetch after RECOVERY_SCAN_SLICE) = [] \<and> pg_cursor (fetch after RECOVERY_SCAN_SLICE) \<noteq> None)"

lemma recover_loop_stalls:
  assumes "stalls fetch" "rc_wanted r \<noteq> {}" "rc_examinations r < limit"
  shows "recover_loop fetch limit address selected after r = None"
proof (rule ccontr)
  assume "recover_loop fetch limit address selected after r \<noteq> None"
  then obtain y where y: "recover_loop fetch limit address selected after r = Some y" by blast
  have "stalls fetch \<longrightarrow> rc_wanted r \<noteq> {} \<longrightarrow> rc_examinations r < limit \<longrightarrow> False"
  proof (rule recover_loop.raw_induct
      [where P = "\<lambda>fetch limit address selected after r res.
         stalls fetch \<longrightarrow> rc_wanted r \<noteq> {} \<longrightarrow> rc_examinations r < limit \<longrightarrow> False", OF _ y], goal_cases)
    case (1 loop fetch limit address selected after r res)
    show ?case
    proof (intro impI)
      assume h: "stalls fetch" "rc_wanted r \<noteq> {}" "rc_examinations r < limit"
      then obtain cursor where "pg_items (fetch after RECOVERY_SCAN_SLICE) = []"
        "pg_cursor (fetch after RECOVERY_SCAN_SLICE) = Some cursor" by (auto simp: stalls_def)
      with 1(2) h have "loop fetch limit address selected (Some cursor) r = Some res" by (simp add: Let_def)
      from 1(1) [OF this] h show False by simp
    qed
  qed
  with assms show False by blast
qed

text \<open>C40: The recovery of identities has no guard against a driver that makes no progress: over a scan
  that answers every page empty with a cursor, which the query engine ends after three pages, naming
  any selected log record does not return, however small the ceiling on examinations is.\<close>

theorem empty_pages_wedge_the_recovery:
  assumes "stalls (qs_scan_log_records S)" "selected \<noteq> []"
    "ws_examinations ws < ch_max_identity_examinations (ws_chain ws)"
  shows "name_log_identities S A selected ws = None"
  using recover_loop_stalls [OF assms(1)] assms(2,3)
  by (simp add: name_log_identities_def name_identities_def)

section \<open>The invariants of the envelope\<close>

lemma grounded_facts:
  "grounded b spans logs points r \<Longrightarrow> rl_facts r \<noteq> [] \<and> rl_type r \<noteq> InferredRel"
  by (induction rule: grounded.induct)
    (simp_all add: formed_relation_defs identity_facts_def trace_facts_def resource_facts_def Let_def)

lemma correlate_facts:
  assumes "r \<in> set (co_relations (correlate S S' b))"
  shows "rl_facts r \<noteq> [] \<and> rl_type r \<noteq> InferredRel"
proof (cases "cb_max_hops b = 0")
  case True
  with assms show ?thesis by (simp add: correlate_no_hops)
next
  case False
  obtain spans logs points spent stopped where scans: "resident_scans S b = (spans, logs, points, spent, stopped)"
    by (metis prod_cases5)
  have "r \<in> set (formed_relations S b)"
    using assms by (auto simp: correlate_run [OF False scans] Let_def dest: in_set_takeD)
  then have "grounded b spans logs points r"
    unfolding formed_relations_def scans by (simp add: formed_exactly_grounded [symmetric])
  then show ?thesis by (rule grounded_facts)
qed

text \<open>C22: No signal reference of an answer dangles: every relation of the envelope states facts, none
  is an inferred one, and both its endpoints are records of the envelope's own evidence.\<close>

theorem signal_references_resolve:
  assumes "investigate_trace_bounded L clks A S st request chain = Some (Inr env)"
  shows "signal_refs_resolve env"
  using assms by (rule investigated)
    (auto simp: signal_refs_resolve_def list_all_iff relation_in_evidence_def as_evidence_def
      dest: correlate_facts)

text \<open>The numbers of a flow: pages per part, selected records per part, and the state they add up to.\<close>

lemma flow_numbers:
  assumes "investigate_trace_bounded L clks A S st request chain = Some (Inr env)"
  obtains p1 p2 p3 n1 n2 n3 where
    "recorded_pages env = p1 + p2 + p3" "cl_total_pages (lm_chain (iv_limits env)) = p1 + p2 + p3"
    "p1 + p2 + p3 \<le> ch_max_total_pages chain"
    "0 < ch_max_total_pages chain \<Longrightarrow> 0 < ch_max_total_entities chain \<Longrightarrow> 0 < p1"
    "evidence_views (iv_evidence env) + hole_counts (xp_flow_coverage (iv_execution env)) = n1 + n2 + n3"
    "cl_total_entities (lm_chain (iv_limits env)) = sat_add (sat_add (sat_add 0 n1) n2) n3"
    "cl_identity_examinations (lm_chain (iv_limits env)) \<le> ch_max_identity_examinations chain"
  using assms
proof (rule investigated)
  fix root span_views g1 ws1 ordered log_views g2 ws2 ids2 ws3 point_views g3 ws4 ids3 ws5 asked
  let ?rel = "map_option fst (natural_identity root)"
  let ?logs = "selected_logs A log_views ?rel" and ?points = "selected_points A point_views asked ?rel"
  assume walks: "walk_pages L clks S (query_new Spans) SpansPart (flow_start request chain) = Inr (span_views, g1, ws1)"
    "walk_pages L clks S (query_new LogRecords) RelatedLogs
       (ws1\<lparr>ws_entities := sat_add (ws_entities ws1) (length ordered)\<rparr>) = Inr (log_views, g2, ws2)"
    "walk_pages L clks S (query_new MetricPoints) SurroundingMetrics ws3 = Inr (point_views, g3, ws4)"
    and parts: "selected_from ws2 (length ?logs) ws3" "selected_from ws4 (length ?points) ws5"
    and names: "names_fit (qs_scan_log_records S) (log_address A) (map fst ?logs) ids2"
      "names_fit (qs_scan_metric_points S) (point_address A) (map fst ?points) ids3"
    and env: "env = conclude S st request chain ?rel (subject_of A request root span_views)
       \<lparr>ev_spans = span_evidence ordered (subject_of A request root span_views),
        ev_logs = named_logs ?logs ids2, ev_points = named_points ?points ids3\<rparr>
       (g1, g2, g3) (asked, resident_window asked (named_points ?points ids3))
       (holes_of ids2, holes_of ids3) ws5"
  note w = walk_pages_walked(2) [OF walks(1)] walk_pages_walked(2) [OF walks(2)] walk_pages_walked(2) [OF walks(3)]
  have ids: "length ids2 = length ?logs" "length ids3 = length ?points"
    using names by (simp_all add: names_fit_def)
  have holes: "hole_counts (xp_flow_coverage (iv_execution env)) = holes_of ids2 + holes_of ids3"
    using conclude_coverage unfolding env by (metis flow_coverage_holes)
  show thesis
  proof (rule that)
    show "recorded_pages env = length (rg_runs g1) + length (rg_runs g2) + length (rg_runs g3)"
      by (simp add: recorded_pages_def env)
    show "cl_total_pages (lm_chain (iv_limits env)) = length (rg_runs g1) + length (rg_runs g2) + length (rg_runs g3)"
      "length (rg_runs g1) + length (rg_runs g2) + length (rg_runs g3) \<le> ch_max_total_pages chain"
      "0 < ch_max_total_pages chain \<Longrightarrow> 0 < ch_max_total_entities chain \<Longrightarrow> 0 < length (rg_runs g1)"
      "cl_identity_examinations (lm_chain (iv_limits env)) \<le> ch_max_identity_examinations chain"
      "cl_total_entities (lm_chain (iv_limits env)) =
        sat_add (sat_add (sat_add 0 (length ordered)) (length ?logs)) (length ?points)"
      using w parts by (simp_all add: env walked_def selected_from_def flow_start_def)
    show "evidence_views (iv_evidence env) + hole_counts (xp_flow_coverage (iv_execution env)) =
        length ordered + length ?logs + length ?points"
      unfolding holes using named_logs_length [OF ids(1)] named_points_length [OF ids(2)]
      by (simp add: env evidence_views_def span_evidence_def)
  qed
qed

text \<open>C8: The totals of an answer are its contents: the pages it states are the runs it records, the
  entities it states are its views and the holes it names (below the width of the counter), pages and
  examinations stay within the chain's ceilings, and under ceilings of at least one no answer claims
  anything without a page read.\<close>

theorem run_facts_consistent:
  assumes "investigate_trace_bounded L clks A S st request chain = Some (Inr env)"
    "evidence_views (iv_evidence env) + hole_counts (xp_flow_coverage (iv_execution env)) \<le> u64_max"
    "0 < ch_max_total_pages chain" "0 < ch_max_total_entities chain"
  shows "run_facts_are_consistent env \<and> no_partial_content_as_complete env \<and>
    cl_total_pages (lm_chain (iv_limits env)) \<le> ch_max_total_pages chain \<and>
    cl_identity_examinations (lm_chain (iv_limits env)) \<le> ch_max_identity_examinations chain"
  using assms(1)
proof (rule flow_numbers)
  fix p1 p2 p3 n1 n2 n3
  assume pages: "recorded_pages env = p1 + p2 + p3" "cl_total_pages (lm_chain (iv_limits env)) = p1 + p2 + p3"
    "p1 + p2 + p3 \<le> ch_max_total_pages chain"
    "0 < ch_max_total_pages chain \<Longrightarrow> 0 < ch_max_total_entities chain \<Longrightarrow> 0 < p1"
    and entities: "evidence_views (iv_evidence env) + hole_counts (xp_flow_coverage (iv_execution env)) = n1 + n2 + n3"
    "cl_total_entities (lm_chain (iv_limits env)) = sat_add (sat_add (sat_add 0 n1) n2) n3"
    and examined: "cl_identity_examinations (lm_chain (iv_limits env)) \<le> ch_max_identity_examinations chain"
  have "sat_add (sat_add (sat_add 0 n1) n2) n3 = n1 + n2 + n3"
    using assms(2) entities(1) by (simp add: sat_add_def)
  then show ?thesis
    using pages entities examined assms(3,4)
    by (simp add: run_facts_are_consistent_def no_partial_content_as_complete_def Let_def)
qed

lemma extent_evidence:
  "fold (\<lambda>v. extent_step (sv_span v)) (span_evidence ordered effective) acc =
     fold (\<lambda>s. extent_step (snd s)) ordered acc"
  by (induction ordered arbitrary: acc) (simp_all add: span_evidence_def)

lemma waterfall_nonempty: "waterfall spans effective root = Inr ordered \<Longrightarrow> ordered \<noteq> []"
  using waterfall_law [of spans effective root] by (auto simp: waterfall_of_def split: if_splits)

text \<open>An answer with a metrics run states the window it asked, and that window is the time extent
  of its own waterfall.\<close>

theorem metric_window_stated:
  assumes "investigate_trace_bounded L clks A S st request chain = Some (Inr env)"
  shows "metric_window_is_stated env"
  using assms
proof (rule investigated)
  fix root span_views g1 ws1 ordered log_views g2 ws2 ids2 ws3 point_views g3 ws4 ids3 ws5 asked
  let ?rel = "map_option fst (natural_identity root)" and ?eff = "subject_of A request root span_views"
  assume walks: "walk_pages L clks S (query_new Spans) SpansPart (flow_start request chain) = Inr (span_views, g1, ws1)"
    "walk_pages L clks S (query_new LogRecords) RelatedLogs
       (ws1\<lparr>ws_entities := sat_add (ws_entities ws1) (length ordered)\<rparr>) = Inr (log_views, g2, ws2)"
    and ordered: "waterfall (walked_spans A span_views) ?eff (aa_root A, root) = Inr ordered"
    and asked: "asked = \<lparr>fw_from = fst (extent_of ordered), fw_to = snd (extent_of ordered)\<rparr>"
    and env: "env = conclude S st request chain ?rel ?eff
       \<lparr>ev_spans = span_evidence ordered ?eff, ev_logs = named_logs (selected_logs A log_views ?rel) ids2,
        ev_points = named_points (selected_points A point_views asked ?rel) ids3\<rparr>
       (g1, g2, g3) (asked, resident_window asked (named_points (selected_points A point_views asked ?rel) ids3))
       (holes_of ids2, holes_of ids3) ws5"
  have parts: "rg_part g1 = SpansPart" "rg_part g2 = RelatedLogs"
    using walk_pages_walked(1) [OF walks(1)] walk_pages_walked(1) [OF walks(2)] by simp_all
  have extent: "waterfall_extent env = Some (extent_of ordered)"
  proof -
    have "span_evidence ordered ?eff \<noteq> []"
      using waterfall_nonempty [OF ordered] by (simp add: span_evidence_def)
    then show ?thesis by (simp add: env waterfall_extent_def extent_of_def extent_evidence)
  qed
  show ?thesis
  proof (cases "rg_runs g3 = []")
    case True
    then show ?thesis using parts by (simp add: metric_window_is_stated_def env)
  next
    case False
    obtain truth shrunk where "xp_flow_coverage (iv_execution env) =
        flow_coverage_of g3 asked (resident_window asked (named_points (selected_points A point_views asked ?rel) ids3))
          (admission_anomalies_total st) (holes_of ids2) (holes_of ids3) request truth shrunk"
      using conclude_coverage unfolding env by blast
    with False have "asked_window (xp_flow_coverage (iv_execution env)) = Some asked"
      by (simp add: flow_coverage_of_def asked_window_def map_filter_simps)
    then show ?thesis by (simp add: metric_window_is_stated_def extent asked split: prod.split)
  qed
qed

text \<open>A driver that looks a span up by its identity, and addresses that tell the root apart.\<close>

definition looks_up_by_identity :: "query_store \<Rightarrow> bool" where
  "looks_up_by_identity S \<longleftrightarrow>
     (\<forall>e s t i. qs_span S e = Some s \<longrightarrow> natural_identity s = Some (t, i) \<longrightarrow> e = Span t i)"

definition tells_the_root ::
  "layout \<Rightarrow> (nat \<Rightarrow> nat \<Rightarrow> nat) \<Rightarrow> arc_addresses \<Rightarrow> query_store \<Rightarrow>
     trace_investigation_request \<Rightarrow> chain_budget \<Rightarrow> bool" where
  "tells_the_root L clks A S request chain \<longleftrightarrow>
     (\<forall>views g ws root. walk_pages L clks S (query_new Spans) SpansPart (flow_start request chain) = Inr (views, g, ws) \<longrightarrow>
        qs_span S (ti_root_span request) = Some root \<longrightarrow>
        (\<forall>s \<in> set (walked_spans A views). fst s = aa_root A \<longrightarrow> snd s = root))"

lemma trace_members_cases:
  "(s, t, i) \<in> set (trace_members trace spans) \<Longrightarrow> s \<in> set spans \<and> t = trace \<and> identity_of s = Some (trace, i)"
proof (induction spans)
  case (Cons x spans)
  show ?case
  proof (cases "\<exists>j. identity_of x = Some (trace, j)")
    case True
    with Cons show ?thesis by (auto simp: trace_members_def map_filter_simps)
  next
    case False
    then have "trace_members trace (x # spans) = trace_members trace spans"
      by (auto simp: trace_members_def map_filter_simps split: option.splits)
    with Cons show ?thesis by auto
  qed
qed (simp add: trace_members_def map_filter_simps)

lemma subject_separate:
  assumes "\<And>t i. natural_identity (snd root) = Some (t, i) \<Longrightarrow> requested = Span t i"
    "\<forall>s \<in> set spans. fst s = fst root \<longrightarrow> snd s = snd root"
  shows "let effective = resolve_subject root requested spans
    in (er_entity (es_root effective) \<noteq> requested \<longrightarrow>
          (\<exists>name i. es_notes effective = [TraceRootedAt (er_entity (es_root effective)) name i])) \<and>
       (\<forall>e name i. TraceRootedAt e name i \<in> set (es_notes effective) \<longrightarrow> e = er_entity (es_root effective))"
proof (cases "natural_identity (snd root)")
  case None
  then show ?thesis by (simp add: resolve_subject_def)
next
  case (Some ti)
  then obtain t i where ti: "natural_identity (snd root) = Some (t, i)" by (cases ti) simp
  with natural_span_id [OF ti] assms(1) have req: "requested = Span t (tc_span_id (sp_context (snd root)))" by simp
  show ?thesis
  proof (cases "filter (\<lambda>(s, _). sp_parent_span_id (snd s) = None) (trace_members t spans)")
    case Nil
    with ti req show ?thesis by (simp add: resolve_subject_def)
  next
    case (Cons m ms)
    obtain s t' i' where m: "m = (s, t', i')" by (cases m) auto
    have "m \<in> set (m # ms)" by simp
    then have "m \<in> set (trace_members t spans)" unfolding Cons [symmetric] by simp
    then have s: "s \<in> set spans" "t' = t" "identity_of s = Some (t, i')"
      using trace_members_cases unfolding m by auto
    have "arc_ptr_eq s root \<Longrightarrow> requested = Span t i'"
      using assms s ti by (auto simp: arc_ptr_eq_def)
    with ti Cons s m show ?thesis by (simp add: resolve_subject_def)
  qed
qed

text \<open>C24: The requested and the effective subject are stated separately: over a driver that looks
  spans up by their identity and shares its payloads, an answer whose effective root is not the span
  asked for says so by a note that names that root, and no note names another.\<close>

theorem subjects_stated_separately:
  assumes "investigate_trace_bounded L clks A S st request chain = Some (Inr env)"
    "looks_up_by_identity S" "tells_the_root L clks A S request chain"
  shows "subjects_are_stated_separately env"
  using assms(1)
proof (rule investigated)
  fix root span_views g1 ws1 ordered log_views g2 ws2 ids2 ws3 point_views g3 ws4 ids3 ws5 asked
  let ?rel = "map_option fst (natural_identity root)" and ?eff = "subject_of A request root span_views"
  assume root: "qs_span S (ti_root_span request) = Some root"
    and spans: "walk_pages L clks S (query_new Spans) SpansPart (flow_start request chain) = Inr (span_views, g1, ws1)"
    and env: "env = conclude S st request chain ?rel ?eff
       \<lparr>ev_spans = span_evidence ordered ?eff, ev_logs = named_logs (selected_logs A log_views ?rel) ids2,
        ev_points = named_points (selected_points A point_views asked ?rel) ids3\<rparr>
       (g1, g2, g3) (asked, resident_window asked (named_points (selected_points A point_views asked ?rel) ids3))
       (holes_of ids2, holes_of ids3) ws5"
  have "let effective = ?eff
    in (er_entity (es_root effective) \<noteq> ti_root_span request \<longrightarrow>
          (\<exists>name i. es_notes effective = [TraceRootedAt (er_entity (es_root effective)) name i])) \<and>
       (\<forall>e name i. TraceRootedAt e name i \<in> set (es_notes effective) \<longrightarrow> e = er_entity (es_root effective))"
    using assms(2,3) root spans
    by (intro subject_separate) (auto simp: looks_up_by_identity_def tells_the_root_def)
  then show ?thesis
    by (fastforce simp: subjects_are_stated_separately_def env Let_def list_all_iff split: resolution_note.splits)
qed

section \<open>The entities of the evidence\<close>

text \<open>
  A driver whose log and point keys carry assigned entities, one per record: the entity of a scanned
  item tells its address, and no entity is both a log's and a point's.
\<close>

definition entities_tell :: "('r scan_item \<Rightarrow> nat) \<Rightarrow> (admission_key option \<Rightarrow> usize \<Rightarrow> 'r scan_page) \<Rightarrow> bool" where
  "entities_tell address fetch \<longleftrightarrow>
     (\<forall>x \<in> scanned fetch. (\<exists>n. key_entity (it_key x) = Assigned n) \<and>
        (\<forall>y \<in> scanned fetch. key_entity (it_key x) = key_entity (it_key y) \<longrightarrow> address x = address y))"

definition sound_entities :: "arc_addresses \<Rightarrow> query_store \<Rightarrow> bool" where
  "sound_entities A S \<longleftrightarrow>
     entities_tell (log_address A) (qs_scan_log_records S) \<and>
     entities_tell (point_address A) (qs_scan_metric_points S) \<and>
     (\<forall>x \<in> scanned (qs_scan_log_records S). \<forall>y \<in> scanned (qs_scan_metric_points S).
        key_entity (it_key x) \<noteq> key_entity (it_key y))"

lemma keyed_once_all: "keyed_once (map Some es) taken True \<longleftrightarrow> distinct es \<and> set es \<inter> set taken = {}"
  by (induction es arbitrary: taken) auto

abbreviation names_of :: "entity_id option list \<Rightarrow> entity_id list" where
  "names_of ids \<equiv> List.map_filter (\<lambda>x. x) ids"

lemma names_of_set: "e \<in> set (names_of ids) \<longleftrightarrow> Some e \<in> set ids"
  by (induction ids) (auto simp: map_filter_simps split: option.splits)

lemma names_of_distinct:
  "(\<And>i j e. i < j \<Longrightarrow> j < length ids \<Longrightarrow> ids ! i = Some e \<Longrightarrow> ids ! j \<noteq> Some e) \<Longrightarrow> distinct (names_of ids)"
proof (induction ids)
  case (Cons x ids)
  have "distinct (names_of ids)"
    by (rule Cons.IH) (use Cons.prems [of "Suc i" "Suc j" for i j] in auto)
  moreover have "Some e \<notin> set ids" if "x = Some e" for e
    using Cons.prems [of 0 "Suc j" e for j] that by (auto simp: in_set_conv_nth)
  ultimately show ?case by (auto simp: map_filter_simps names_of_set split: option.split)
qed (simp add: map_filter_simps)

lemma fit_names:
  assumes "names_fit fetch address selected ids" "entities_tell address fetch"
  shows "distinct (names_of ids)" "set (names_of ids) \<subseteq> (\<lambda>x. key_entity (it_key x)) ` scanned fetch"
proof -
  have name: "\<exists>x \<in> scanned fetch. address x = selected ! i \<and> key_entity (it_key x) = e"
    "selected ! i \<notin> set (take i selected)" if "i < length ids" "ids ! i = Some e" for i e
    using assms(1) that by (auto simp: names_fit_def)
  show "distinct (names_of ids)"
  proof (rule names_of_distinct)
    fix i j e assume ij: "i < j" "j < length ids" "ids ! i = Some e"
    show "ids ! j \<noteq> Some e"
    proof
      assume j: "ids ! j = Some e"
      have len: "length ids = length selected" using assms(1) by (simp add: names_fit_def)
      obtain x y where "x \<in> scanned fetch" "address x = selected ! i" "key_entity (it_key x) = e"
        "y \<in> scanned fetch" "address y = selected ! j" "key_entity (it_key y) = e"
        using name(1) [of i e] name(1) [of j e] ij j by auto
      with assms(2) have "selected ! i = selected ! j" unfolding entities_tell_def by metis
      moreover have "selected ! i \<in> set (take j selected)"
        using ij len by (auto simp: in_set_conv_nth intro!: exI [of _ i])
      ultimately show False using name(2) [OF ij(2) j] by simp
    qed
  qed
  show "set (names_of ids) \<subseteq> (\<lambda>x. key_entity (it_key x)) ` scanned fetch"
  proof
    fix e assume "e \<in> set (names_of ids)"
    then have "Some e \<in> set ids" by (simp only: names_of_set)
    then obtain i where "i < length ids" "ids ! i = Some e" by (auto simp: in_set_conv_nth)
    from name(1) [OF this] show "e \<in> (\<lambda>x. key_entity (it_key x)) ` scanned fetch" by auto
  qed
qed

lemma named_entities:
  "length ids = length ls \<Longrightarrow> map lv_entity (named_logs ls ids) = map Some (names_of ids)"
  "length ids = length ps \<Longrightarrow> map pe_entity (named_points ps ids) = map Some (names_of ids)"
proof -
  show "length ids = length ls \<Longrightarrow> map lv_entity (named_logs ls ids) = map Some (names_of ids)"
    by (induction ids ls rule: list_induct2) (auto simp: named_logs_def map_filter_simps split: option.splits)
  show "length ids = length ps \<Longrightarrow> map pe_entity (named_points ps ids) = map Some (names_of ids)"
    by (induction ids ps rule: list_induct2) (auto simp: named_points_def map_filter_simps split: option.splits)
qed

lemma waterfall_identities:
  assumes "waterfall_of trace root_id spans front rest" "s \<in> set (front @ rest)"
  shows "\<exists>i. identity_of s = Some (trace, i)"
proof -
  have "identity_of s \<in> identity_of ` set (front @ rest)" using assms(2) by (rule imageI)
  also have "\<dots> = {Some (trace, i) | i. Some (trace, i) \<in> identity_of ` set spans}"
    using assms(1) unfolding waterfall_of_def by (elim conjE)
  finally show ?thesis by blast
qed

lemma waterfall_entities:
  assumes "waterfall spans effective root = Inr ordered"
  obtains es where "map sv_entity (span_evidence ordered effective) = map Some es" "distinct es"
    "natural_identity (snd root) \<noteq> None \<Longrightarrow> set es \<subseteq> range (\<lambda>(t, i). Span t i)"
proof -
  let ?e = "\<lambda>s. case identity_of s of None \<Rightarrow> er_entity (es_root effective) | Some (trace, i) \<Rightarrow> Span trace i"
  have entities: "map sv_entity (span_evidence ordered effective) = map Some (map ?e ordered)"
    by (simp add: span_evidence_def)
  from waterfall_law [of spans effective root] assms
  consider front rest where "ordered = front @ rest"
      "waterfall_of (er_trace_id (es_root effective)) (er_span_id (es_root effective)) spans front rest"
    | "ordered = [root]" by (auto split: if_splits)
  then show thesis
  proof cases
    case 1
    then have ids: "distinct (map identity_of ordered)" "\<forall>s \<in> set ordered. identity_of s \<noteq> None"
      using waterfall_identities by (simp add: waterfall_of_def, fastforce)
    have "map ?e ordered = map (\<lambda>x. case x of None \<Rightarrow> er_entity (es_root effective) | Some (trace, i) \<Rightarrow> Span trace i)
        (map identity_of ordered)" by simp
    moreover have "inj_on (\<lambda>x. case x of None \<Rightarrow> er_entity (es_root effective) | Some (trace, i) \<Rightarrow> Span trace i)
        (set (map identity_of ordered))"
      using ids(2) by (auto simp: inj_on_def split: option.splits)
    ultimately have "distinct (map ?e ordered)" using ids(1) by (simp only: distinct_map)
    moreover have "set (map ?e ordered) \<subseteq> range (\<lambda>(t, i). Span t i)"
      using ids(2) by (force split: option.splits)
    ultimately show thesis using entities by (intro that)
  next
    case 2
    then show thesis using entities by (intro that [of "map ?e ordered"]) (auto split: option.splits)
  qed
qed

text \<open>C23: Every view of an answer carries its entity id and no entity is carried by two views, over a
  driver whose keys name one log or point each and tell the two apart.\<close>

theorem views_keyed_once:
  assumes "investigate_trace_bounded L clks A S st request chain = Some (Inr env)" "sound_entities A S"
  shows "views_carry_entity_ids env"
  using assms(1)
proof (rule investigated)
  fix root span_views g1 ws1 ordered log_views g2 ws2 ids2 ws3 point_views g3 ws4 ids3 ws5 asked
  let ?rel = "map_option fst (natural_identity root)" and ?eff = "subject_of A request root span_views"
  let ?logs = "selected_logs A log_views ?rel" and ?points = "selected_points A point_views asked ?rel"
  assume ordered: "waterfall (walked_spans A span_views) ?eff (aa_root A, root) = Inr ordered"
    and names: "names_fit (qs_scan_log_records S) (log_address A) (map fst ?logs) ids2"
      "names_fit (qs_scan_metric_points S) (point_address A) (map fst ?points) ids3"
    and env: "env = conclude S st request chain ?rel ?eff
       \<lparr>ev_spans = span_evidence ordered ?eff, ev_logs = named_logs ?logs ids2,
        ev_points = named_points ?points ids3\<rparr>
       (g1, g2, g3) (asked, resident_window asked (named_points ?points ids3))
       (holes_of ids2, holes_of ids3) ws5"
  from ordered obtain es where es: "map sv_entity (span_evidence ordered ?eff) = map Some es" "distinct es"
    "natural_identity root \<noteq> None \<Longrightarrow> set es \<subseteq> range (\<lambda>(t, i). Span t i)"
    by (rule waterfall_entities) auto
  have len: "length ids2 = length ?logs" "length ids3 = length ?points"
    using names by (simp_all add: names_fit_def)
  have all: "views_carry_entity_ids env \<longleftrightarrow> distinct (es @ names_of ids2 @ names_of ids3)"
    using keyed_once_all [of "es @ names_of ids2 @ names_of ids3" "[]"]
    by (simp add: views_carry_entity_ids_def env es(1) named_entities(1) [OF len(1)] named_entities(2) [OF len(2)])
  note logs = fit_names [OF names(1)] and points = fit_names [OF names(2)]
  have laws: "entities_tell (log_address A) (qs_scan_log_records S)"
    "entities_tell (point_address A) (qs_scan_metric_points S)" using assms(2) by (simp_all add: sound_entities_def)
  show ?thesis
  proof (cases "natural_identity root")
    case None
    with len have "ids2 = []" "ids3 = []" by (simp_all add: select_logs_def select_points_def)
    with all es(2) show ?thesis by (simp add: map_filter_simps)
  next
    case (Some ti)
    have "set (names_of ids2) \<inter> set (names_of ids3) = {}"
      using logs(2) [OF laws(1)] points(2) [OF laws(2)] assms(2) by (fastforce simp: sound_entities_def)
    moreover have "set es \<inter> set (names_of ids2) = {}"
      using es(3) Some logs(2) [OF laws(1)] laws(1) by (fastforce simp: entities_tell_def)
    moreover have "set es \<inter> set (names_of ids3) = {}"
      using es(3) Some points(2) [OF laws(2)] laws(2) by (fastforce simp: entities_tell_def)
    ultimately show ?thesis using all es(2) logs(1) [OF laws(1)] points(1) [OF laws(2)] by auto
  qed
qed

end
