(* ===== verification/Flow_Exact.thy ===== *)
theory Flow_Exact
  imports Flow_Promises
begin

text \<open>
  The investigation over the memory store: when each walk is answered by one complete page, the
  evidence is the trace. The waterfall is characterised for any spans and any root.
\<close>

section \<open>The waterfall of a resident trace\<close>

lemma resolved_root:
  assumes "natural_identity (snd root) = Some (t, i)" "snd root \<in> snd ` set spans"
  shows "er_trace_id (es_root (resolve_subject root requested spans)) = t"
    "Some (t, er_span_id (es_root (resolve_subject root requested spans))) \<in> identity_of ` set spans"
proof -
  let ?e = "es_root (resolve_subject root requested spans)"
  have "er_trace_id ?e = t \<and> Some (t, er_span_id ?e) \<in> identity_of ` set spans"
  proof (cases "filter (\<lambda>(s, _). sp_parent_span_id (snd s) = None) (trace_members t spans)")
    case Nil
    have "Some (t, i) \<in> identity_of ` set spans" using assms by (metis (mono_tags, lifting) imageE image_eqI)
    with Nil assms(1) natural_span_id [OF assms(1)] show ?thesis by (simp add: resolve_subject_def)
  next
    case (Cons m ms)
    obtain s t' i' where m: "m = (s, t', i')" by (cases m) auto
    have "m \<in> set (m # ms)" by simp
    then have "m \<in> set (trace_members t spans)" unfolding Cons [symmetric] by simp
    then have "s \<in> set spans" "t' = t" "identity_of s = Some (t, i')"
      using trace_members_cases unfolding m by auto
    then have "t' = t" "Some (t, i') \<in> identity_of ` set spans" by (auto intro: rev_image_eqI)
    with Cons m assms(1) show ?thesis by (simp add: resolve_subject_def)
  qed
  then show "er_trace_id ?e = t" "Some (t, er_span_id ?e) \<in> identity_of ` set spans" by simp_all
qed

text \<open>C7: The waterfall is the trace: from the effective root over parent links, each span after its
  parent and no child of the trace left out, then the members no chain reaches in engine order; every
  identity of the trace stands in it exactly once and nothing else does.\<close>

theorem waterfall_is_the_trace:
  assumes "natural_identity (snd root) = Some (t, i)" "snd root \<in> snd ` set spans"
  shows "\<exists>front rest. waterfall spans (resolve_subject root requested spans) root = Inr (front @ rest) \<and>
    waterfall_of t (er_span_id (es_root (resolve_subject root requested spans))) spans front rest"
  using waterfall_law [of spans "resolve_subject root requested spans" root] resolved_root [OF assms, of requested]
  by auto

section \<open>A walk of one complete page\<close>

lemma complete_page_ends:
  assumes "records L clk S q b c = Inr page" "ex_parts (page_execution page) = [Complete]"
  shows "page_next_cursor page = None"
  using assms
  by (auto simp: records_def records_inner_Inr empty_answer_def assemble_def Let_def
      split: if_splits option.splits part_outcome.splits truncation_point.splits)

lemma mirror_complete:
  assumes "mirror_page page = Inr m" "rn_outcome m = CompleteRun"
  shows "\<exists>ps. ex_parts (page_execution page) = Complete # ps"
proof (cases "ex_parts (page_execution page)")
  case (Cons part ps)
  with assms show ?thesis by (cases part) (auto simp: mirror_page_def)
qed (use assms in \<open>simp add: mirror_page_def\<close>)

lemma one_complete_page:
  assumes "walk_pages L clks S q part ws = Inr (items, g, ws')" "map rn_outcome (rg_runs g) = [CompleteRun]"
  obtains page where "records L (clks (ws_pages ws)) S q (walk_per_page ws) None = Inr page"
    "ex_parts (page_execution page) = [Complete]" "items = page_items page"
proof -
  from assms(1) obtain facts where loop: "walk_loop L clks S q [] [] None ws = Inr (items, facts, ws')"
    and g: "rg_runs g = facts" by (auto simp: walk_pages_def and_then_Inr_iff)
  from assms(2) g obtain m where m: "facts = [m]" "rn_outcome m = CompleteRun" by auto
  have going: "\<not> chain_done ws" using loop m by (auto simp: walk_loop_done)
  then obtain page where page: "records L (clks (ws_pages ws)) S q (walk_per_page ws) None = Inr page"
    using loop walk_loop_rejected [OF going, of L clks S q None]
    by (cases "records L (clks (ws_pages ws)) S q (walk_per_page ws) None") auto
  then obtain m' where m': "mirror_page page = Inr m'" by (rule page_mirrored)
  note read = walk_loop_reads [of ws L clks S q None page m' "[]" "[]", OF going page m']
  have "m' = m"
  proof (cases "page_next_cursor page")
    case None
    with read loop m show ?thesis by simp
  next
    case (Some bs)
    with read loop have "walk_loop L clks S q (page_items page) [m'] (Some bs) (ws\<lparr>ws_pages := ws_pages ws + 1\<rparr>) =
        Inr (items, facts, ws')" by simp
    from walk_loop_walked [OF this] m show ?thesis by auto
  qed
  with mirror_complete [OF m'] m page_has_part [OF page] have part: "ex_parts (page_execution page) = [Complete]" by auto
  with complete_page_ends [OF page] read loop have "items = page_items page" by simp
  with page part show thesis by (rule that)
qed

lemma all_match:
  "rq_kind (query_new k) = k"
  "p \<in> set (resident_views k st) \<Longrightarrow> records_match (rq_filters (query_new k)) (snd p)"
  by (cases k; auto simp: keyed_def point_record_view_def span_filters_match_def log_filters_match_def
      metric_filters_match_def span_all_none_def log_all_none_def metric_all_none_def is_none_or_def)+

lemma complete_page_is_resident:
  assumes "scannable st" "records L clk (memory_query_store st) (query_new k) b None = Inr page"
    "0 < qb_max_results b" "ex_parts (page_execution page) = [Complete]"
  shows "page_items page = map snd (resident_views k st)"
proof -
  obtain presented out where "present (query_new k) None None = Inr presented"
    and part: "ex_parts (page_execution page) = [out]"
    and means: "outcome_means (rq_filters (query_new k)) presented
      (past (map_option resume_key presented) (resident_views (rq_kind (query_new k)) st)) (page_items page) out"
    by (rule records_inner_judged [OF assms(1) assms(2) [unfolded records_def] assms(3)])
  then have "presented = None" by (simp add: present_def)
  with part assms(4) means have "page_items page = map snd (hits (rq_filters (query_new k)) (resident_views k st))"
    by (simp add: bounded_def past_def all_match(1))
  moreover have "hits (rq_filters (query_new k)) (resident_views k st) = resident_views k st"
    using all_match(2) by (auto simp: hits_def filter_id_conv)
  ultimately show ?thesis by simp
qed

lemma walked_resident:
  assumes "scannable st" "0 < ib_max_results (ws_budget ws)"
    "walk_pages L clks (memory_query_store st) (query_new k) part ws = Inr (items, g, ws')"
    "map rn_outcome (rg_runs g) = [CompleteRun]"
  shows "items = map snd (resident_views k st)"
proof -
  obtain page where "records L (clks (ws_pages ws)) (memory_query_store st) (query_new k) (walk_per_page ws) None = Inr page"
    "ex_parts (page_execution page) = [Complete]" "items = page_items page"
    by (rule one_complete_page [OF assms(3,4)])
  with complete_page_is_resident [OF assms(1)] assms(2) show ?thesis
    by (auto simp: walk_per_page_def per_page_def)
qed

section \<open>The evidence of complete walks\<close>

lemma addressed_values [simp]: "map snd (addressed f rs) = rs"
  by (simp add: addressed_def)

lemma addressed_views:
  "span_views_of (addressed f (map SpanView ss)) = addressed f ss"
  "log_views_of (addressed f (map LogView ls)) = addressed f ls"
  "point_views_of (addressed f (map (\<lambda>(p, i). PointView p i) ps)) = addressed f ps"
proof -
  have zips: "List.map_filter (\<lambda>(a, view). case view of SpanView s \<Rightarrow> Some (a, s) | _ \<Rightarrow> None) (zip as (map SpanView ss)) = zip as ss"
    "List.map_filter (\<lambda>(a, view). case view of LogView r \<Rightarrow> Some (a, r) | _ \<Rightarrow> None) (zip as (map LogView ls)) = zip as ls"
    "List.map_filter (\<lambda>(a, view). case view of PointView p s \<Rightarrow> Some (a, p, s) | _ \<Rightarrow> None)
       (zip as (map (\<lambda>(p, i). PointView p i) ps)) = zip as ps" for as
  proof -
    show "List.map_filter (\<lambda>(a, view). case view of SpanView s \<Rightarrow> Some (a, s) | _ \<Rightarrow> None) (zip as (map SpanView ss)) = zip as ss"
      by (induction as ss rule: list_induct2') (simp_all add: map_filter_simps)
    show "List.map_filter (\<lambda>(a, view). case view of LogView r \<Rightarrow> Some (a, r) | _ \<Rightarrow> None) (zip as (map LogView ls)) = zip as ls"
      by (induction as ls rule: list_induct2') (simp_all add: map_filter_simps)
    show "List.map_filter (\<lambda>(a, view). case view of PointView p s \<Rightarrow> Some (a, p, s) | _ \<Rightarrow> None)
       (zip as (map (\<lambda>(p, i). PointView p i) ps)) = zip as ps"
      by (induction as ps rule: list_induct2') (auto simp: map_filter_simps)
  qed
  show "span_views_of (addressed f (map SpanView ss)) = addressed f ss"
    by (simp add: span_views_of_def addressed_def zips)
  show "log_views_of (addressed f (map LogView ls)) = addressed f ls"
    by (simp add: log_views_of_def addressed_def zips)
  show "point_views_of (addressed f (map (\<lambda>(p, i). PointView p i) ps)) = addressed f ps"
    by (simp add: point_views_of_def addressed_def zips)
qed

definition point_rows :: "memory_store \<Rightarrow> (metric_point \<times> stream_identity) list" where
  "point_rows st = map snd (points_of st)"

lemma resident_rows:
  "map snd (resident_views Spans st) = map SpanView (map snd (spans_of st))"
  "map snd (resident_views LogRecords st) = map LogView (map snd (logs_of st))"
  "map snd (resident_views MetricPoints st) = map (\<lambda>(p, i). PointView p i) (point_rows st)"
  by (simp_all add: keyed_def spans_of_def logs_of_def points_of_def point_rows_def point_record_view_def view_of_def comp_def)

lemma named_all:
  "length ids = length ls \<Longrightarrow> holes_of ids = 0 \<Longrightarrow> map lv_log (named_logs ls ids) = map snd ls"
  "length ids = length ps \<Longrightarrow> holes_of ids = 0 \<Longrightarrow>
     map (\<lambda>v. (pe_point v, pe_stream v)) (named_points ps ids) = map snd ps"
proof -
  show "length ids = length ls \<Longrightarrow> holes_of ids = 0 \<Longrightarrow> map lv_log (named_logs ls ids) = map snd ls"
    by (induction ids ls rule: list_induct2)
      (auto simp: named_logs_def holes_of_def map_filter_simps split: option.splits if_splits)
  show "length ids = length ps \<Longrightarrow> holes_of ids = 0 \<Longrightarrow>
     map (\<lambda>v. (pe_point v, pe_stream v)) (named_points ps ids) = map snd ps"
    by (induction ids ps rule: list_induct2)
      (auto simp: named_points_def holes_of_def map_filter_simps split: option.splits if_splits)
qed

lemma filter_values: "map snd (filter (\<lambda>r. P (snd r)) rs) = filter P (map snd rs)"
  by (induction rs) simp_all

lemma store_span_resident:
  "store_span st e = Some s \<Longrightarrow> s \<in> set (map snd (spans_of st))"
  by (force simp: store_span_def shelf_get_def spans_of_def dest: map_of_SomeD split: option.splits)

text \<open>C6: Over the memory store an investigation whose three walks are each answered by one complete
  page is exact: its span evidence carries each identity of the resident trace once and no other span,
  and when it names no hole its logs are the resident logs of the trace and its points the resident
  points inside the window it asked, all of them, in residency order.\<close>

theorem complete_pages_find_the_trace:
  assumes "scannable st" "0 < ib_max_results (ti_budget request)"
    "investigate_trace_bounded L clks A (memory_query_store st) sts request chain = Some (Inr env)"
    "\<forall>g \<in> set (xp_run_groups (iv_execution env)). map rn_outcome (rg_runs g) = [CompleteRun]"
    "store_span st (ti_root_span request) = Some root" "natural_identity root = Some (t, i)"
  shows "distinct (map natural_identity (map sv_span (ev_spans (iv_evidence env)))) \<and>
    natural_identity ` sv_span ` set (ev_spans (iv_evidence env)) =
      {Some (t, j) | j. Some (t, j) \<in> natural_identity ` snd ` set (spans_of st)} \<and>
    (hole_counts (xp_flow_coverage (iv_execution env)) = 0 \<longrightarrow>
       map lv_log (ev_logs (iv_evidence env)) =
         filter (\<lambda>r. lg_trace_id r = Some t) (map snd (logs_of st)) \<and>
       (\<exists>asked. asked_window (xp_flow_coverage (iv_execution env)) = Some asked \<and>
          map (\<lambda>v. (pe_point v, pe_stream v)) (ev_points (iv_evidence env)) =
            filter (\<lambda>(p, _). fw_from asked \<le> point_time p \<and> point_time p < fw_to asked) (point_rows st)))"
  using assms(3)
proof (rule investigated)
  fix root' span_views g1 ws1 ordered log_views g2 ws2 ids2 ws3 point_views g3 ws4 ids3 ws5 asked
  let ?S = "memory_query_store st" and ?rel = "map_option fst (natural_identity root')"
  let ?eff = "subject_of A request root' span_views"
  let ?logs = "selected_logs A log_views ?rel" and ?points = "selected_points A point_views asked ?rel"
  assume root': "qs_span ?S (ti_root_span request) = Some root'"
    and walks: "walk_pages L clks ?S (query_new Spans) SpansPart (flow_start request chain) = Inr (span_views, g1, ws1)"
    "walk_pages L clks ?S (query_new LogRecords) RelatedLogs
       (ws1\<lparr>ws_entities := sat_add (ws_entities ws1) (length ordered)\<rparr>) = Inr (log_views, g2, ws2)"
    "walk_pages L clks ?S (query_new MetricPoints) SurroundingMetrics ws3 = Inr (point_views, g3, ws4)"
    and ordered: "waterfall (walked_spans A span_views) ?eff (aa_root A, root') = Inr ordered"
    and parts: "selected_from ws2 (length ?logs) ws3"
    and names: "names_fit (qs_scan_log_records ?S) (log_address A) (map fst ?logs) ids2"
      "names_fit (qs_scan_metric_points ?S) (point_address A) (map fst ?points) ids3"
    and env: "env = conclude ?S sts request chain ?rel ?eff
       \<lparr>ev_spans = span_evidence ordered ?eff, ev_logs = named_logs ?logs ids2,
        ev_points = named_points ?points ids3\<rparr>
       (g1, g2, g3) (asked, resident_window asked (named_points ?points ids3))
       (holes_of ids2, holes_of ids3) ws5"
  have root: "root' = root" using root' assms(5) by (simp add: memory_query_store_def)
  have rel: "?rel = Some t" using root assms(6) by simp
  have complete: "map rn_outcome (rg_runs g1) = [CompleteRun]" "map rn_outcome (rg_runs g2) = [CompleteRun]"
    "map rn_outcome (rg_runs g3) = [CompleteRun]" using assms(4) unfolding env by simp_all
  have budgets: "ws_budget ws1 = ti_budget request" "ws_budget ws3 = ti_budget request"
    using walk_pages_walked(2) [OF walks(1)] walk_pages_walked(2) [OF walks(2)] parts
    by (simp_all add: walked_def flow_start_def selected_from_def)
  have views: "span_views = map SpanView (map snd (spans_of st))" "log_views = map LogView (map snd (logs_of st))"
    "point_views = map (\<lambda>(p, i). PointView p i) (point_rows st)"
    using walked_resident [OF assms(1) _ walks(1) complete(1)] walked_resident [OF assms(1) _ walks(2) complete(2)]
      walked_resident [OF assms(1) _ walks(3) complete(3)] assms(2) budgets
    unfolding resident_rows by (simp_all add: flow_start_def)
  let ?spans = "addressed (aa_spans A) (map snd (spans_of st))"
  have spans: "walked_spans A span_views = ?spans" unfolding views addressed_views ..
  have payloads: "snd ` set ?spans = snd ` set (spans_of st)"
    by (metis addressed_values list.set_map)
  have "snd (aa_root A, root) \<in> snd ` set ?spans"
    using store_span_resident [OF assms(5)] unfolding payloads by simp
  moreover have "natural_identity (snd (aa_root A, root)) = Some (t, i)" using assms(6) by simp
  ultimately obtain front rest where split: "ordered = front @ rest"
    "waterfall_of t (er_span_id (es_root ?eff)) ?spans front rest"
    using waterfall_law [of ?spans ?eff "(aa_root A, root)"]
      resolved_root [of "(aa_root A, root)" t i ?spans "ti_root_span request"] ordered
    unfolding spans root by auto
  have identities: "map natural_identity (map sv_span (ev_spans (iv_evidence env))) = map identity_of ordered"
    by (simp add: env span_evidence_def)
  have trace: "distinct (map identity_of ordered)"
    "identity_of ` set ordered = {Some (t, j) | j. Some (t, j) \<in> identity_of ` set ?spans}"
    using split unfolding waterfall_of_def by simp_all
  have "natural_identity ` sv_span ` set (ev_spans (iv_evidence env)) =
      set (map natural_identity (map sv_span (ev_spans (iv_evidence env))))" by (simp only: list.set_map)
  also have "\<dots> = identity_of ` set ordered" unfolding identities by (simp only: list.set_map)
  finally have "natural_identity ` sv_span ` set (ev_spans (iv_evidence env)) =
      {Some (t, j) | j. Some (t, j) \<in> natural_identity ` snd ` set (spans_of st)}"
    unfolding trace(2) payloads [symmetric] image_image .
  moreover have "distinct (map natural_identity (map sv_span (ev_spans (iv_evidence env))))"
    unfolding identities by (rule trace(1))
  moreover have "map lv_log (ev_logs (iv_evidence env)) =
         filter (\<lambda>r. lg_trace_id r = Some t) (map snd (logs_of st)) \<and>
       (\<exists>asked. asked_window (xp_flow_coverage (iv_execution env)) = Some asked \<and>
          map (\<lambda>v. (pe_point v, pe_stream v)) (ev_points (iv_evidence env)) =
            filter (\<lambda>(p, _). fw_from asked \<le> point_time p \<and> point_time p < fw_to asked) (point_rows st))"
    if "hole_counts (xp_flow_coverage (iv_execution env)) = 0"
  proof (intro conjI exI)
    obtain truth shrunk where cov: "xp_flow_coverage (iv_execution env) =
        flow_coverage_of g3 asked (resident_window asked (named_points ?points ids3))
          (admission_anomalies_total sts) (holes_of ids2) (holes_of ids3) request truth shrunk"
      using conclude_coverage unfolding env by blast
    have none: "holes_of ids2 = 0" "holes_of ids3 = 0" using that unfolding cov flow_coverage_holes by simp_all
    have len: "length ids2 = length ?logs" "length ids3 = length ?points"
      using names by (simp_all add: names_fit_def)
    show "map lv_log (ev_logs (iv_evidence env)) = filter (\<lambda>r. lg_trace_id r = Some t) (map snd (logs_of st))"
    proof -
      have "map snd ?logs = filter (\<lambda>r. lg_trace_id r = Some t) (map snd (logs_of st))"
        unfolding rel select_logs_def views addressed_views option.case
        by (simp only: filter_values [of "\<lambda>r. lg_trace_id r = Some t"] addressed_values)
      with named_all(1) [OF len(1) none(1)] show ?thesis by (simp add: env)
    qed
    show "asked_window (xp_flow_coverage (iv_execution env)) = Some asked"
      using complete(3) by (auto simp: cov flow_coverage_of_def asked_window_def map_filter_simps)
    have "?points = filter (\<lambda>r. (\<lambda>(p, _). fw_from asked \<le> point_time p \<and> point_time p < fw_to asked) (snd r))
        (addressed (aa_points A) (point_rows st))"
      unfolding rel select_points_def views addressed_views option.case by (intro filter_cong) auto
    then have "map snd ?points = filter (\<lambda>(p, _). fw_from asked \<le> point_time p \<and> point_time p < fw_to asked) (point_rows st)"
      by (simp only: filter_values addressed_values)
    with named_all(2) [OF len(2) none(2)]
    show "map (\<lambda>v. (pe_point v, pe_stream v)) (ev_points (iv_evidence env)) =
        filter (\<lambda>(p, _). fw_from asked \<le> point_time p \<and> point_time p < fw_to asked) (point_rows st)"
      by (simp add: env)
  qed
  ultimately show ?thesis by blast
qed

end
