(* ===== verification/Flow_Limits.thy ===== *)
theory Flow_Limits
  imports Flow_Exact
begin

text \<open>
  Where the investigation falls short over the memory store: a walk whose first page fills its results
  inside the first batch never sees a record behind that batch, and the envelope's own check of its
  truncations rejects the stop the engine honestly reports there.
\<close>

section \<open>Walks that stay inside a snapshot\<close>

definition inside :: "records_query \<Rightarrow> memory_store \<Rightarrow> admission_key \<Rightarrow> record_view list \<Rightarrow> bool" where
  "inside q st snap items \<longleftrightarrow> set items \<subseteq> snd ` set (up_to snap (resident_views (rq_kind q) st))"

lemma inside_append [simp]: "inside q st snap (xs @ ys) \<longleftrightarrow> inside q st snap xs \<and> inside q st snap ys"
  by (auto simp: inside_def)

lemma inside_hits:
  assumes "k \<le> snap"
  shows "inside q st snap (map snd (take n (hits fs (up_to k (past after (resident_views (rq_kind q) st))))))"
proof -
  have "set (take n (hits fs (up_to k (past after (resident_views (rq_kind q) st))))) \<subseteq>
      set (up_to snap (resident_views (rq_kind q) st))"
    using assms past_subset [of after "resident_views (rq_kind q) st"]
    by (fastforce simp: hits_def up_to_def dest: in_set_takeD)
  then show ?thesis unfolding inside_def list.set_map by (rule image_mono)
qed

lemma anchored_inside:
  assumes "anchored fs presented (past (map_option resume_key presented) (resident_views (rq_kind q) st)) items n bs"
    "pred_option (\<lambda>p. cp_snapshot p = snap) presented" "pred_option wf_cursor presented" "resident_keys_fit st"
    "presented = None \<Longrightarrow> \<exists>p. cursor_decode bs = Inr p \<and> cp_snapshot p = snap"
  shows "inside q st snap items"
proof -
  let ?rs = "past (map_option resume_key presented) (resident_views (rq_kind q) st)"
  from assms(1) obtain p where p: "bs = cursor_encode p" "follows presented ?rs p"
    "items = map snd (take (length items) (hits fs (up_to (resume_key p) ?rs)))" by (auto simp: anchored_def)
  show ?thesis
  proof (cases "presented = Some p")
    case True
    then have "up_to (resume_key p) ?rs = []" by (auto simp: up_to_def past_def filter_empty_conv)
    with p(3) show ?thesis by (simp add: inside_def)
  next
    case False
    then have le: "resume_key p \<le> cp_snapshot p" using p(2) by (auto simp: follows_def)
    have "cp_snapshot p = snap"
    proof (cases presented)
      case None
      have keys: "list_all (\<lambda>r. wf_key (fst r)) ?rs" using assms(4) by (rule resident_past_fit)
      then have "wf_key (resume_key p)" "wf_key (cp_snapshot p)"
        using p(2) None by (auto simp: follows_def list_all_iff)
      then have "wf_cursor p" by (simp add: wf_cursor_def wf_key_def resume_key_def)
      then have "cursor_decode bs = Inr p" by (simp add: p(1) cursor_decode_encode)
      with assms(5) [OF None] show ?thesis by auto
    next
      case (Some p0)
      with False p(2) assms(2) show ?thesis by (auto simp: follows_def)
    qed
    with le inside_hits [of "resume_key p" snap q st] show ?thesis by (subst p(3)) simp
  qed
qed

lemma page_inside:
  assumes "scannable st" "resident_keys_fit st"
    "records L clk (memory_query_store st) q b c = Inr page" "0 < qb_max_results b"
    "present q c None = Inr presented" "pred_option (\<lambda>p. cp_snapshot p = snap) presented"
    "presented = None \<Longrightarrow> \<exists>bs p. page_next_cursor page = Some bs \<and> cursor_decode bs = Inr p \<and> cp_snapshot p = snap"
  shows "inside q st snap (page_items page)"
proof -
  let ?rs = "past (map_option resume_key presented) (resident_views (rq_kind q) st)"
  obtain out where means: "outcome_means (rq_filters q) presented ?rs (page_items page) out"
    and cursor: "\<forall>bs. page_next_cursor page = Some bs \<longleftrightarrow> (\<exists>t. out = Degraded t \<and> tr_position t = CursorAt bs)"
    using records_inner_judged [OF assms(1) assms(3) [unfolded records_def] assms(4)] assms(5) by (metis Inr_inject)
  have wf: "pred_option wf_cursor presented"
    using assms(5) by (auto simp: present_Inr dest: decode_wf split: option.splits)
  show ?thesis
  proof (cases out)
    case Complete
    with cursor assms(7) obtain p where "presented = Some p" by fastforce
    with means Complete assms(6) have "page_items page = map snd (hits (rq_filters q) (up_to snap ?rs))"
      by (simp add: bounded_def)
    with inside_hits [OF order_refl, of q st snap "length (hits (rq_filters q) (up_to snap ?rs))"
        "rq_filters q" "map_option resume_key presented"] show ?thesis by simp
  next
    case (Degraded t)
    show ?thesis
    proof (cases "tr_position t")
      case (CursorAt bs)
      with means Degraded have "anchored (rq_filters q) presented ?rs (page_items page) (tr_omitted t) bs" by simp
      moreover have "\<exists>p. cursor_decode bs = Inr p \<and> cp_snapshot p = snap" if "presented = None"
        using assms(7) [OF that] cursor Degraded CursorAt by auto
      ultimately show ?thesis using assms(2,6) wf by (intro anchored_inside)
    qed (use means Degraded in \<open>simp add: inside_def\<close>)
  qed (use means in \<open>simp_all add: inside_def\<close>)
qed

lemma walk_loop_inside:
  assumes st: "scannable st" "resident_keys_fit st" and pos: "0 < ib_max_results (ws_budget ws)"
  shows "walk_loop L clks (memory_query_store st) q items facts cursor ws = Inr (items', facts', ws') \<Longrightarrow>
    cursor = Some bs \<Longrightarrow> cursor_decode bs = Inr p \<Longrightarrow> cp_fingerprint p = query_fingerprint q \<Longrightarrow>
    cp_snapshot p = snap \<Longrightarrow> inside q st snap items \<Longrightarrow> inside q st snap items'"
  using pos
proof (induction items facts cursor ws arbitrary: bs p
    rule: walk_pages_induct [where L = L and clks = clks and S = "memory_query_store st" and q = q])
  case (last_page items facts cursor ws page m)
  have pres: "present q cursor None = Inr (Some p)" using last_page by (simp add: present_Inr)
  have "inside q st snap (page_items page)"
    by (rule page_inside [OF st last_page(2) _ pres])
      (use last_page in \<open>simp_all add: walk_per_page_def per_page_def\<close>)
  with last_page show ?case by auto
next
  case (further items facts cursor ws page m bs')
  have pres: "present q cursor None = Inr (Some p)" using further by (simp add: present_Inr)
  have page: "inside q st snap (page_items page)"
    by (rule page_inside [OF st further(2) _ pres])
      (use further in \<open>simp_all add: walk_per_page_def per_page_def\<close>)
  obtain p' where p': "cursor_decode bs' = Inr p'" "cp_fingerprint p' = query_fingerprint q"
    "cp_snapshot p' = cp_snapshot p"
    using minted_cursor_payload [OF memory_keys_fit [OF st] further(2) [unfolded records_def] further(4)] further(8,9)
    by auto
  have "walk_loop L clks (memory_query_store st) q (items @ page_items page) (facts @ [m]) (Some bs')
      (ws\<lparr>ws_pages := ws_pages ws + 1\<rparr>) = Inr (items', facts', ws')" using further(5,7) by simp
  then show ?case
    by (rule further(6) [OF _ refl p'(1,2)]) (use p'(3) further(11-13) page in simp_all)
qed (auto simp: walk_loop_done walk_loop_rejected)

section \<open>The spans walk under a results ceiling\<close>

text \<open>A page over the spans with room under every ceiling but the results'.\<close>

definition roomy :: "layout \<Rightarrow> (nat \<Rightarrow> nat) \<Rightarrow> investigation_budget \<Rightarrow> memory_store \<Rightarrow> bool" where
  "roomy L clk b st \<longleftrightarrow>
     0 < ib_max_results b \<and> (\<forall>n. clk n - clk 0 < ib_deadline b) \<and> length (spans_of st) \<le> ib_max_scan b \<and>
     evidence_total L (map snd (resident_views Spans st)) \<le> ib_max_bytes b"

lemma spans_hits:
  "hits (rq_filters (query_new Spans)) (resident_views Spans st) = resident_views Spans st"
  "hits (rq_filters (query_new Spans)) (take n (resident_views Spans st)) = take n (resident_views Spans st)"
proof -
  show "hits (rq_filters (query_new Spans)) (resident_views Spans st) = resident_views Spans st"
    using all_match(2) [of _ Spans st] unfolding hits_def filter_id_conv by blast
  show "hits (rq_filters (query_new Spans)) (take n (resident_views Spans st)) = take n (resident_views Spans st)"
    using all_match(2) [of _ Spans st] unfolding hits_def filter_id_conv by (blast dest: in_set_takeD)
qed

lemma spans_length: "length (resident_views Spans st) = length (spans_of st)"
  by (simp add: keyed_def spans_of_def)

lemma first_spans_page:
  assumes "walk_pages L clks S (query_new Spans) SpansPart (flow_start request chain) = Inr (views, g, ws')"
    "0 < ch_max_total_pages chain" "0 < ch_max_total_entities chain"
  obtains page m more where "records L (clks 0) S (query_new Spans) (per_page (ti_budget request)) None = Inr page"
    "mirror_page page = Inr m" "rg_runs g = m # more"
    "page_next_cursor page = None \<longrightarrow> views = page_items page"
    "\<forall>bs. page_next_cursor page = Some bs \<longrightarrow>
       walk_loop L clks S (query_new Spans) (page_items page) [m] (Some bs)
         ((flow_start request chain)\<lparr>ws_pages := 1\<rparr>) = Inr (views, rg_runs g, ws')"
proof -
  let ?ws = "flow_start request chain" and ?q = "query_new Spans"
  from assms(1) obtain facts where loop: "walk_loop L clks S ?q [] [] None ?ws = Inr (views, facts, ws')"
    and g: "rg_runs g = facts" by (auto simp: walk_pages_def and_then_Inr_iff)
  have going: "\<not> chain_done ?ws" using assms(2,3) by (simp add: flow_start_def)
  then obtain page where page: "records L (clks (ws_pages ?ws)) S ?q (walk_per_page ?ws) None = Inr page"
    using loop walk_loop_rejected [OF going, of L clks S ?q None]
    by (cases "records L (clks (ws_pages ?ws)) S ?q (walk_per_page ?ws) None") auto
  then obtain m where m: "mirror_page page = Inr m" by (rule page_mirrored)
  note read = walk_loop_reads [of ?ws L clks S ?q None page m "[]" "[]", OF going page m]
  have ws: "?ws\<lparr>ws_pages := ws_pages ?ws + 1\<rparr> = ?ws\<lparr>ws_pages := 1\<rparr>" by (simp add: flow_start_def)
  have further: "walk_loop L clks S ?q (page_items page) [m] (Some bs) (?ws\<lparr>ws_pages := 1\<rparr>) = Inr (views, facts, ws')"
    if "page_next_cursor page = Some bs" for bs using loop that ws unfolding read by simp
  show thesis
  proof (cases "page_next_cursor page")
    case None
    with loop have "views = page_items page" "facts = [m]" unfolding read by simp_all
    with None page m g show thesis
      by (intro that [of page m "[]"]) (simp_all add: flow_start_def walk_per_page_def)
  next
    case (Some bs)
    from walk_loop_walked [OF further [OF Some]] obtain more where "facts = m # more" by auto
    with Some page m g further show thesis
      by (intro that [of page m more]) (simp_all add: flow_start_def walk_per_page_def)
  qed
qed

text \<open>C39: The envelope's own check rejects an honest answer: over the memory store, with room under
  every other ceiling, an investigation whose results ceiling is below the number of resident spans
  has a run that is degraded, names its dimension and its position and omits nothing, and
  \<open>truncations_are_named\<close> calls that run unnamed.\<close>

theorem honest_results_stop_is_rejected:
  assumes "scannable st" "roomy L (clks 0) (ti_budget request) st"
    "ib_max_results (ti_budget request) < length (spans_of st)"
    "0 < ch_max_total_pages chain" "0 < ch_max_total_entities chain"
    "investigate_trace_bounded L clks A (memory_query_store st) sts request chain = Some (Inr env)"
  shows "\<not> truncations_are_named env"
  using assms(6)
proof (rule investigated)
  fix root span_views g1 ws1 ordered log_views g2 ws2 ids2 ws3 point_views g3 ws4 ids3 ws5 asked
  let ?S = "memory_query_store st" and ?rel = "map_option fst (natural_identity root)"
  assume spans: "walk_pages L clks ?S (query_new Spans) SpansPart (flow_start request chain) = Inr (span_views, g1, ws1)"
    and env: "env = conclude ?S sts request chain ?rel (subject_of A request root span_views)
       \<lparr>ev_spans = span_evidence ordered (subject_of A request root span_views),
        ev_logs = named_logs (selected_logs A log_views ?rel) ids2,
        ev_points = named_points (selected_points A point_views asked ?rel) ids3\<rparr>
       (g1, g2, g3) (asked, resident_window asked (named_points (selected_points A point_views asked ?rel) ids3))
       (holes_of ids2, holes_of ids3) ws5"
  obtain page m more where page: "records L (clks 0) ?S (query_new Spans) (per_page (ti_budget request)) None = Inr page"
    and m: "mirror_page page = Inr m" "rg_runs g1 = m # more"
    using first_spans_page [OF spans assms(4,5)] by metis
  have "page_next_cursor page \<noteq> None \<and> page_omitted page = 0"
    using ceiling_page [of st "query_new Spans" None None None "per_page (ti_budget request)" "clks 0" L page]
      assms(1-3) page spans_hits(1) [of st]
    by (simp add: roomy_def per_page_def records_def present_def past_def bounded_def spans_length
        all_match(1) Let_def del: resident_views.simps query_new.simps)
  then obtain bs where bs: "page_next_cursor page = Some bs" and none: "page_omitted page = 0" by auto
  obtain t where t: "ex_parts (page_execution page) = [Degraded t]"
    using page bs page_has_part [OF page]
    by (auto simp: records_def records_inner_Inr empty_answer_def assemble_def Let_def
        split: if_splits option.splits part_outcome.splits truncation_point.splits)
  with none have "tr_omitted t = 0" by (simp add: page_omitted_def)
  with t m(1) have "\<not> run_is_named m" by (auto simp: mirror_page_def run_is_named_def mirror_truncation_def)
  then show ?thesis using m(2) by (simp add: truncations_are_named_def env)
qed

text \<open>C38: Spans behind the first batch are missed: over the memory store, with room under every other
  ceiling and a results ceiling below the engine's batch of 64, the evidence of an investigation holds
  no span but the root and the 64 oldest resident ones, however many pages the flow walks and however
  many members of the trace are resident behind them.\<close>

theorem later_spans_are_missed:
  assumes "scannable st" "resident_keys_fit st" "roomy L (clks 0) (ti_budget request) st"
    "ib_max_results (ti_budget request) < SCAN_BATCH" "SCAN_BATCH < length (spans_of st)"
    "0 < ch_max_total_pages chain" "0 < ch_max_total_entities chain"
    "investigate_trace_bounded L clks A (memory_query_store st) sts request chain = Some (Inr env)"
    "store_span st (ti_root_span request) = Some root"
  shows "sv_span ` set (ev_spans (iv_evidence env)) \<subseteq> insert root (snd ` set (take SCAN_BATCH (spans_of st)))"
  using assms(8)
proof (rule investigated)
  fix root' span_views g1 ws1 ordered log_views g2 ws2 ids2 ws3 point_views g3 ws4 ids3 ws5 asked
  let ?S = "memory_query_store st" and ?rel = "map_option fst (natural_identity root')" and ?q = "query_new Spans"
  let ?R = "resident_views Spans st" and ?b = "per_page (ti_budget request)"
  assume root': "qs_span ?S (ti_root_span request) = Some root'"
    and spans: "walk_pages L clks ?S ?q SpansPart (flow_start request chain) = Inr (span_views, g1, ws1)"
    and ordered: "waterfall (walked_spans A span_views) (subject_of A request root' span_views) (aa_root A, root') = Inr ordered"
    and env: "env = conclude ?S sts request chain ?rel (subject_of A request root' span_views)
       \<lparr>ev_spans = span_evidence ordered (subject_of A request root' span_views),
        ev_logs = named_logs (selected_logs A log_views ?rel) ids2,
        ev_points = named_points (selected_points A point_views asked ?rel) ids3\<rparr>
       (g1, g2, g3) (asked, resident_window asked (named_points (selected_points A point_views asked ?rel) ids3))
       (holes_of ids2, holes_of ids3) ws5"
  have root: "root' = root" using root' assms(9) by (simp add: memory_query_store_def)
  define snap where "snap = fst (?R ! (SCAN_BATCH - 1))"
  have long: "SCAN_BATCH < length ?R" using assms(5) by (simp only: spans_length)
  obtain page m more where page: "records L (clks 0) ?S ?q ?b None = Inr page"
    and "mirror_page page = Inr m" "rg_runs g1 = m # more"
      "page_next_cursor page = None \<longrightarrow> span_views = page_items page"
    and rest: "\<forall>bs. page_next_cursor page = Some bs \<longrightarrow>
       walk_loop L clks ?S ?q (page_items page) [m] (Some bs) ((flow_start request chain)\<lparr>ws_pages := 1\<rparr>) =
         Inr (span_views, rg_runs g1, ws1)"
    by (rule first_spans_page [OF spans assms(6,7)])
  have "\<exists>bs p. page_next_cursor page = Some bs \<and> cursor_decode bs = Inr p \<and>
      cp_snapshot p = fst (resident_views (rq_kind ?q) st ! (SCAN_BATCH - 1))"
  proof (rule first_page_snapshot [OF assms(1,2) _ _ _ _ _ _ page])
    show "qb_max_results ?b < length (hits (rq_filters ?q) (take SCAN_BATCH (resident_views (rq_kind ?q) st)))"
      unfolding all_match(1) spans_hits using assms(4) long by (simp add: per_page_def del: resident_views.simps)
  qed (use assms(3) long in \<open>unfold all_match(1) spans_hits,
        simp_all add: roomy_def per_page_def spans_length del: resident_views.simps\<close>)
  then obtain bs p where p: "page_next_cursor page = Some bs" "cursor_decode bs = Inr p" "cp_snapshot p = snap"
    unfolding snap_def all_match(1) by blast
  have fp: "cp_fingerprint p = query_fingerprint ?q"
    using minted_cursor_payload [OF memory_keys_fit [OF assms(1,2)] page [unfolded records_def] p(1)] p(2) by auto
  have pos: "0 < ib_max_results (ti_budget request)" using assms(3) by (simp add: roomy_def)
  have "inside ?q st snap (page_items page)"
    by (rule page_inside [OF assms(1,2) page, of None]) (use p pos in \<open>simp_all add: per_page_def present_def\<close>)
  then have "inside ?q st snap span_views"
    by (rule walk_loop_inside [OF assms(1,2) _ rest [rule_format, OF p(1)] refl p(2) fp p(3), rotated])
      (use pos in \<open>simp add: flow_start_def\<close>)
  moreover have "up_to snap ?R = take SCAN_BATCH ?R"
    unfolding snap_def using long resident_views_sorted [OF assms(1), of Spans]
    by (intro up_to_take) (simp_all add: SCAN_BATCH_def del: resident_views.simps)
  ultimately have "set span_views \<subseteq> snd ` set (take SCAN_BATCH ?R)" by (simp only: inside_def all_match(1))
  also have "snd ` set (take SCAN_BATCH ?R) = SpanView ` snd ` set (take SCAN_BATCH (spans_of st))"
    using arg_cong [OF resident_rows(1) [of st], of "\<lambda>rs. set (take SCAN_BATCH rs)"]
    by (simp only: take_map list.set_map)
  finally have views: "set span_views \<subseteq> SpanView ` snd ` set (take SCAN_BATCH (spans_of st))" .
  have "snd ` set (walked_spans A span_views) \<subseteq> snd ` set (take SCAN_BATCH (spans_of st))"
  proof -
    obtain ss where "span_views = map SpanView ss" "set ss \<subseteq> snd ` set (take SCAN_BATCH (spans_of st))"
      using views by (metis (no_types, lifting) ex_map_conv list.set_map inj_image_subset_iff inj_def record_view.inject(1) subset_image_iff image_iff subsetD)
    then show ?thesis by (metis addressed_values addressed_views(1) list.set_map)
  qed
  moreover
  have "set ordered \<subseteq> insert (aa_root A, root) (set (walked_spans A span_views))"
    using waterfall_law [of "walked_spans A span_views" "subject_of A request root' span_views" "(aa_root A, root')"]
      ordered root by (auto simp: waterfall_of_def dest: list_emb_set split: if_splits)
  then have "snd ` set ordered \<subseteq> insert root (snd ` set (walked_spans A span_views))" by force
  ultimately have "snd ` set ordered \<subseteq> insert root (snd ` set (take SCAN_BATCH (spans_of st)))" by blast
  then show ?thesis by (auto simp: env span_evidence_def image_image)
qed

end
