(* ===== verification/Flow_Samples.thy ===== *)
theory Flow_Samples
  imports Flow_Limits
begin

text \<open>
  Investigations over the memory store that exist: a store of well-formed keys is read without stall
  and answers, and a walk with room for every record is one complete page. On these rest the concrete
  investigations that witness the properties of the flow.
\<close>

section \<open>The memory store answers\<close>

lemma shelf_never_stalls: "om_sorted (by_key sh) \<Longrightarrow> never_stalls (scan_after sh)"
  by (auto simp: never_stalls_def sorted_shelf.scan_items sorted_shelf.scan_cursor RECOVERY_SCAN_SLICE_def)

lemma memory_never_stalls:
  assumes "scannable st"
  shows "never_stalls (qs_scan_log_records (memory_query_store st))"
    "never_stalls (qs_scan_metric_points (memory_query_store st))"
proof -
  have "never_stalls (scan_after (logs_shelf st))" "never_stalls (scan_after (points_shelf st))"
    using assms by (simp_all add: scannable_def shelf_never_stalls)
  then show "never_stalls (qs_scan_log_records (memory_query_store st))"
    "never_stalls (qs_scan_metric_points (memory_query_store st))"
    by (simp_all add: memory_query_store_def scan_log_records_def scan_metric_points_def never_stalls_def Let_def)
qed

lemma memory_investigation:
  assumes "scannable st" "resident_keys_fit st" "store_span st (ti_root_span request) \<noteq> None"
  obtains env where "investigate_trace_bounded L clks A (memory_query_store st) sts request chain = Some (Inr env)"
proof -
  obtain res where res: "investigate_trace_bounded L clks A (memory_query_store st) sts request chain = Some res"
    using flow_returns [OF memory_never_stalls [OF assms(1)]] by blast
  moreover have "res \<noteq> Inl e" for e
    using flow_decided [of L clks A "memory_query_store st" sts request chain e] res assms(3)
      memory_keys_fit [OF assms(1,2)] by (auto simp: memory_query_store_def)
  ultimately show thesis using that by (cases res) auto
qed

text \<open>A walk with room for every resident record is one complete page of all of them.\<close>

lemma small_walk:
  assumes "scannable st" "\<not> chain_done ws" "0 < ib_max_results (ws_budget ws)"
    "length (resident_views k st) \<le> ib_max_results (ws_budget ws)"
    "\<forall>n. clks (ws_pages ws) n - clks (ws_pages ws) 0 < ib_deadline (ws_budget ws)"
    "length (resident_views k st) \<le> ib_max_scan (ws_budget ws)"
    "evidence_total L (map snd (resident_views k st)) \<le> ib_max_bytes (ws_budget ws)"
  shows "\<exists>m. walk_pages L clks (memory_query_store st) (query_new k) part ws =
      Inr (map snd (resident_views k st), \<lparr>rg_part = part, rg_runs = [m]\<rparr>, ws\<lparr>ws_pages := ws_pages ws + 1\<rparr>) \<and>
    rn_outcome m = CompleteRun"
proof -
  let ?S = "memory_query_store st" and ?q = "query_new k" and ?b = "walk_per_page ws"
  obtain page where page: "records L (clks (ws_pages ws)) ?S ?q ?b None = Inr page"
    using first_page_exists by blast
  have all: "hits (rq_filters ?q) (resident_views k st) = resident_views k st"
    using all_match(2) [of _ k st] unfolding hits_def filter_id_conv by blast
  have "ex_parts (page_execution page) = [Complete]"
    using ceiling_page [of st ?q None None None ?b "clks (ws_pages ws)" L page] assms page all
    by (simp add: walk_per_page_def per_page_def records_def present_def past_def bounded_def all_match(1)
        Let_def del: resident_views.simps query_new.simps)
  moreover from this have items: "page_items page = map snd (resident_views k st)"
    using complete_page_is_resident [OF assms(1) page] assms(3) by (simp add: walk_per_page_def per_page_def)
  moreover obtain m where m: "mirror_page page = Inr m" using page by (rule page_mirrored)
  ultimately have "rn_outcome m = CompleteRun" by (auto simp: mirror_page_def)
  moreover have "walk_loop L clks ?S ?q [] [] None ws = Inr (page_items page, [m], ws\<lparr>ws_pages := ws_pages ws + 1\<rparr>)"
    using walk_loop_reads [of ws L clks ?S ?q None page m "[]" "[]", OF assms(2) page m]
      complete_page_ends [OF page \<open>ex_parts (page_execution page) = [Complete]\<close>] by simp
  ultimately show ?thesis by (intro exI [of _ m]) (simp add: walk_pages_def items)
qed

section \<open>Two spans and two logs of one trace\<close>

definition sample_flow_budget :: "nat \<Rightarrow> investigation_budget" where
  "sample_flow_budget results =
     \<lparr>ib_deadline = 10, ib_max_results = results, ib_max_bytes = 10 ^ 6, ib_max_scan = 1000,
      ib_max_aggregation_memory = 0\<rparr>"

text \<open>The child is asked for; the walk hands its address out second.\<close>

definition child_request :: "nat \<Rightarrow> trace_investigation_request" where
  "child_request results =
     \<lparr>ti_root_span = Span (sample_trace 1) (sample_span_id 2), ti_budget = sample_flow_budget results,
      ti_correlation_window = None\<rparr>"

definition family_addresses :: arc_addresses where
  "family_addresses =
     \<lparr>aa_root = 1, aa_spans = (\<lambda>n. n), aa_logs = (\<lambda>n. 10 + n), aa_points = (\<lambda>n. 20 + n),
      aa_log_items = (\<lambda>k. if key_entity k = Assigned 3 then 10 else 11), aa_point_items = (\<lambda>k. 20)\<rparr>"

definition family_investigation :: "nat \<Rightarrow> (flow_stop + investigation) option" where
  "family_investigation results =
     investigate_trace_bounded layout64 (\<lambda>_ _. 0) family_addresses (memory_query_store family_store)
       (stats family_store) (child_request results) chain_defaults"

lemma family_views:
  "resident_views Spans family_store = keyed SpanView family_spans"
  "resident_views LogRecords family_store = keyed LogView family_logs"
  "resident_views MetricPoints family_store = []"
  by (simp_all add: family_store_def indexed_shelf_def store_new_def shelf_new_def keyed_def)

lemma family_sound:
  "scannable family_store" "resident_keys_fit family_store"
  "store_span family_store (ti_root_span (child_request n)) = Some (snd (family_spans ! 1))"
proof -
  show "scannable family_store" using family_indexed by (simp add: scannable_def shelves_indexed_def)
  show "resident_keys_fit family_store"
    unfolding resident_keys_fit_def
  proof
    fix k show "list_all (\<lambda>p. wf_key (fst p)) (resident_views k family_store)"
      by (cases k) (simp_all add: family_views keyed_def family_spans_def family_logs_def wf_key_def
          sample_defs wf_trace_id_def wf_span_id_def u64_max_def trace_id_length_def span_id_length_def
          del: resident_views.simps)
  qed
  show "store_span family_store (ti_root_span (child_request n)) = Some (snd (family_spans ! 1))"
    by (simp add: store_span_def shelf_get_def family_store_def indexed_shelf_def family_spans_def child_request_def)
qed

lemma family_env: obtains env where "family_investigation n = Some (Inr env)"
  using memory_investigation [OF family_sound(1,2)] family_sound(3) [of n]
  unfolding family_investigation_def by (metis option.distinct(1))

lemma family_evidence: "evidence_total layout64 (map snd (resident_views k family_store)) \<le> 10 ^ 6"
proof -
  have sizes: "\<forall>v \<in> set (map snd (resident_views k family_store)). evidence_of layout64 v \<le> 10000"
    by (cases k) (simp_all add: family_views keyed_def family_spans_def family_logs_def del: resident_views.simps evidence_of.simps,
       auto simp: sat_u64_def span_size_def log_record_size_def sample_defs size_constants attributes_size_def attribute_entry_size_def
        resource_size_def scope_size_def context_size_def status_size_def heap_string_bytes_def opt_bytes_def
        opt_string_bytes_def trace_state_size_def trace_id_size_def span_id_size_def trace_id_length_def
        span_id_length_def)
  have "length (resident_views k family_store) \<le> 2"
    by (cases k) (simp_all add: family_views keyed_def family_spans_def family_logs_def del: resident_views.simps)
  with evidence_total_bound [OF sizes] show ?thesis by simp
qed

lemma family_walk:
  assumes "2 \<le> results" "ws_pages ws < 16" "ws_entities ws < 10000" "ws_chain ws = chain_defaults"
    "ws_budget ws = sample_flow_budget results"
  shows "\<exists>m. walk_pages layout64 (\<lambda>_ _. 0) (memory_query_store family_store) (query_new k) part ws =
      Inr (map snd (resident_views k family_store), \<lparr>rg_part = part, rg_runs = [m]\<rparr>,
           ws\<lparr>ws_pages := ws_pages ws + 1\<rparr>) \<and> rn_outcome m = CompleteRun"
proof (rule small_walk [OF family_sound(1)])
  have "length (resident_views k family_store) \<le> 2"
    by (cases k) (simp_all add: family_views keyed_def family_spans_def family_logs_def del: resident_views.simps)
  then show "length (resident_views k family_store) \<le> ib_max_results (ws_budget ws)"
    "length (resident_views k family_store) \<le> ib_max_scan (ws_budget ws)"
    using assms(1,5) by (simp_all add: sample_flow_budget_def)
  show "evidence_total layout64 (map snd (resident_views k family_store)) \<le> ib_max_bytes (ws_budget ws)"
    using family_evidence [of k] assms(5) by (simp add: sample_flow_budget_def)
qed (use assms in \<open>simp_all add: sample_flow_budget_def chain_defaults_def\<close>)

text \<open>The spans walk of the sample, and the three runs of its answer.\<close>

lemma family_spans_walk:
  assumes "2 \<le> results"
  obtains m where "walk_pages layout64 (\<lambda>_ _. 0) (memory_query_store family_store) (query_new Spans) SpansPart
      (flow_start (child_request results) chain_defaults) =
    Inr (map SpanView (map snd family_spans), \<lparr>rg_part = SpansPart, rg_runs = [m]\<rparr>,
      (flow_start (child_request results) chain_defaults)\<lparr>ws_pages := 1\<rparr>)" "rn_outcome m = CompleteRun"
  using family_walk [OF assms, of "flow_start (child_request results) chain_defaults" Spans SpansPart]
  by (auto simp: flow_start_def child_request_def family_views keyed_def comp_def simp del: resident_views.simps)

lemma family_tells_the_root: "tells_the_root layout64 (\<lambda>_ _. 0) family_addresses (memory_query_store family_store)
    (child_request 2) chain_defaults"
proof -
  obtain m where m: "walk_pages layout64 (\<lambda>_ _. 0) (memory_query_store family_store) (query_new Spans) SpansPart
      (flow_start (child_request 2) chain_defaults) =
    Inr (map SpanView (map snd family_spans), \<lparr>rg_part = SpansPart, rg_runs = [m]\<rparr>,
      (flow_start (child_request 2) chain_defaults)\<lparr>ws_pages := 1\<rparr>)" "rn_outcome m = CompleteRun"
    by (rule family_spans_walk [of 2]) simp
  have "walked_spans family_addresses (map SpanView (map snd family_spans)) = addressed (aa_spans family_addresses) (map snd family_spans)"
    by (rule addressed_views)
  then show ?thesis
    using family_sound(3) [of 2] unfolding tells_the_root_def m(1)
    by (auto simp: memory_query_store_def family_addresses_def addressed_def family_spans_def)
qed

lemma family_looks_up: "looks_up_by_identity (memory_query_store family_store)"
  by (auto simp: looks_up_by_identity_def memory_query_store_def store_span_def shelf_get_def family_store_def
      indexed_shelf_def family_spans_def sample_span_def natural_identity_def split: if_splits option.splits)

lemma family_scanned:
  "(\<lambda>x. key_entity (it_key x)) ` scanned (qs_scan_log_records (memory_query_store family_store)) \<subseteq> {Assigned 3, Assigned 4}"
  "scanned (qs_scan_metric_points (memory_query_store family_store)) = {}"
proof -
  have "om_sorted (by_key (logs_shelf family_store))" "om_sorted (by_key (points_shelf family_store))"
    using family_sound(1) by (simp_all add: scannable_def)
  then have items: "pg_items (scan_after (logs_shelf family_store) after n) =
      map as_item (take n (past after (by_key (logs_shelf family_store))))"
    "pg_items (scan_after (points_shelf family_store) after n) =
      map as_item (take n (past after (by_key (points_shelf family_store))))" for after n
    by (simp_all add: sorted_shelf.scan_items)
  have logs: "by_key (logs_shelf family_store) = family_logs" "by_key (points_shelf family_store) = []"
    by (simp_all add: family_store_def indexed_shelf_def store_new_def shelf_new_def)
  have "fst p \<in> fst ` set family_logs" if "p \<in> set (take n (past after family_logs))" for p n after
    using in_set_takeD [OF that] by (cases after) (auto simp: past_def)
  then have key: "key_entity (fst p) \<in> {Assigned 3, Assigned 4}" if "p \<in> set (take n (past after family_logs))" for p n after
    using that by (fastforce simp: family_logs_def)
  show "(\<lambda>x. key_entity (it_key x)) ` scanned (qs_scan_log_records (memory_query_store family_store)) \<subseteq> {Assigned 3, Assigned 4}"
  proof (rule image_subsetI)
    fix x assume "x \<in> scanned (qs_scan_log_records (memory_query_store family_store))"
    then obtain after n p where "p \<in> set (take n (past after family_logs))" "it_key x = fst p"
      by (auto simp: scanned_def memory_query_store_def scan_log_records_def items logs as_item_def)
    with key show "key_entity (it_key x) \<in> {Assigned 3, Assigned 4}" by simp
  qed
  show "scanned (qs_scan_metric_points (memory_query_store family_store)) = {}"
    by (auto simp: scanned_def memory_query_store_def scan_metric_points_def items logs Let_def past_def
        split: option.splits)
qed

lemma family_sound_entities: "sound_entities family_addresses (memory_query_store family_store)"
  using family_scanned(1)
  by (auto simp: sound_entities_def entities_tell_def family_scanned(2) family_addresses_def image_subset_iff)

lemma waterfall_length:
  assumes "waterfall spans effective root = Inr ordered"
  shows "length ordered \<le> max 1 (length spans)"
proof -
  from waterfall_law [of spans effective root] assms
  consider front rest where "ordered = front @ rest"
      "waterfall_of (er_trace_id (es_root effective)) (er_span_id (es_root effective)) spans front rest"
    | "ordered = [root]" by (auto split: if_splits)
  then show ?thesis
  proof cases
    case 1
    then have "distinct (map identity_of ordered)" "set ordered \<subseteq> set spans"
      by (auto simp: waterfall_of_def dest: list_emb_set)
    then have "length ordered = card (identity_of ` set ordered)" "identity_of ` set ordered \<subseteq> identity_of ` set spans"
      using distinct_card [of "map identity_of ordered"] by auto
    moreover have "card (identity_of ` set spans) \<le> length spans"
      by (rule order.trans [OF card_image_le card_length]) simp
    moreover have "card (identity_of ` set ordered) \<le> card (identity_of ` set spans)"
      by (rule card_mono) (simp, fact)
    ultimately show ?thesis by linarith
  qed simp
qed

lemma select_logs_length: "length (select_logs relates_to (log_views_of (addressed f views))) \<le> length views"
proof -
  have "length (log_views_of vs) \<le> length vs" for vs
  proof (induction vs)
    case (Cons v vs)
    then show ?case by (cases v; cases "snd v") (simp_all add: log_views_of_def map_filter_simps)
  qed (simp add: log_views_of_def map_filter_simps)
  then have le: "length (log_views_of (addressed f views)) \<le> length views"
    by (rule order.trans) (simp add: addressed_def)
  show ?thesis
  proof (cases relates_to)
    case (Some t)
    show ?thesis unfolding Some select_logs_def option.case by (rule order.trans [OF length_filter_le le])
  qed (simp add: select_logs_def)
qed

text \<open>The sample's three parts are one complete page each, and its entities are few.\<close>

lemma family_answer:
  assumes "2 \<le> results" "family_investigation results = Some (Inr env)"
  shows "\<forall>g \<in> set (xp_run_groups (iv_execution env)). map rn_outcome (rg_runs g) = [CompleteRun]"
    "evidence_views (iv_evidence env) + hole_counts (xp_flow_coverage (iv_execution env)) \<le> 4"
proof -
  let ?S = "memory_query_store family_store" and ?r = "child_request results"
  have "(\<forall>g \<in> set (xp_run_groups (iv_execution env)). map rn_outcome (rg_runs g) = [CompleteRun]) \<and>
    evidence_views (iv_evidence env) + hole_counts (xp_flow_coverage (iv_execution env)) \<le> 4"
    using assms(2) [unfolded family_investigation_def]
  proof (rule investigated)
    fix root span_views g1 ws1 ordered log_views g2 ws2 ids2 ws3 point_views g3 ws4 ids3 ws5 asked
    let ?rel = "map_option fst (natural_identity root)" and ?eff = "subject_of family_addresses ?r root span_views"
    let ?logs = "selected_logs family_addresses log_views ?rel"
    let ?points = "selected_points family_addresses point_views asked ?rel"
    assume walks: "walk_pages layout64 (\<lambda>_ _. 0) ?S (query_new Spans) SpansPart (flow_start ?r chain_defaults) = Inr (span_views, g1, ws1)"
      "walk_pages layout64 (\<lambda>_ _. 0) ?S (query_new LogRecords) RelatedLogs
         (ws1\<lparr>ws_entities := sat_add (ws_entities ws1) (length ordered)\<rparr>) = Inr (log_views, g2, ws2)"
      "walk_pages layout64 (\<lambda>_ _. 0) ?S (query_new MetricPoints) SurroundingMetrics ws3 = Inr (point_views, g3, ws4)"
      and ordered: "waterfall (walked_spans family_addresses span_views) ?eff (aa_root family_addresses, root) = Inr ordered"
      and parts: "selected_from ws2 (length ?logs) ws3"
      and names: "names_fit (qs_scan_log_records ?S) (log_address family_addresses) (map fst ?logs) ids2"
        "names_fit (qs_scan_metric_points ?S) (point_address family_addresses) (map fst ?points) ids3"
      and env: "env = conclude ?S (stats family_store) ?r chain_defaults ?rel ?eff
         \<lparr>ev_spans = span_evidence ordered ?eff, ev_logs = named_logs ?logs ids2, ev_points = named_points ?points ids3\<rparr>
         (g1, g2, g3) (asked, resident_window asked (named_points ?points ids3)) (holes_of ids2, holes_of ids3) ws5"
    obtain m1 where m1: "span_views = map SpanView (map snd family_spans)" "g1 = \<lparr>rg_part = SpansPart, rg_runs = [m1]\<rparr>"
      "ws1 = (flow_start ?r chain_defaults)\<lparr>ws_pages := 1\<rparr>" "rn_outcome m1 = CompleteRun"
      using walks(1) family_spans_walk [OF assms(1)] by (metis Inr_inject prod.inject)
    have "length (walked_spans family_addresses span_views) = 2"
      unfolding m1 addressed_views by (simp add: addressed_def family_spans_def)
    then have few: "length ordered \<le> 2" using waterfall_length [OF ordered] by simp
    let ?ws = "ws1\<lparr>ws_entities := sat_add (ws_entities ws1) (length ordered)\<rparr>"
    have "sat_add 0 (length ordered) \<le> 2" using few order.trans [OF sat_add_le] by simp
    then obtain m2 where m2: "log_views = map snd (resident_views LogRecords family_store)"
      "g2 = \<lparr>rg_part = RelatedLogs, rg_runs = [m2]\<rparr>" "ws2 = ?ws\<lparr>ws_pages := ws_pages ?ws + 1\<rparr>" "rn_outcome m2 = CompleteRun"
      using family_walk [OF assms(1), of ?ws LogRecords RelatedLogs] walks(2)
      by (auto simp: m1(3) flow_start_def child_request_def simp del: resident_views.simps)
    have logs: "length ?logs \<le> 2"
      by (rule order.trans [OF select_logs_length]) (simp add: m2(1) family_views keyed_def family_logs_def del: resident_views.simps)
    have ws3: "ws_pages ws3 = 2" "ws_chain ws3 = chain_defaults" "ws_budget ws3 = sample_flow_budget results"
      "ws_entities ws3 \<le> 4"
      using parts \<open>sat_add 0 (length ordered) \<le> 2\<close> logs sat_add_le [of "sat_add 0 (length ordered)" "length ?logs"]
      by (simp_all add: selected_from_def m2(3) m1(3) flow_start_def child_request_def)
    then obtain m3 where m3: "point_views = map snd (resident_views MetricPoints family_store)"
      "g3 = \<lparr>rg_part = SurroundingMetrics, rg_runs = [m3]\<rparr>" "rn_outcome m3 = CompleteRun"
      using family_walk [OF assms(1), of ws3 MetricPoints SurroundingMetrics] walks(3) by auto
    have points: "?points = []"
      by (simp add: m3(1) family_views addressed_def point_views_of_def map_filter_simps select_points_def
          del: resident_views.simps split: option.split)
    have holes: "hole_counts (xp_flow_coverage (iv_execution env)) = holes_of ids2 + holes_of ids3"
      using conclude_coverage unfolding env by (metis flow_coverage_holes)
    have len: "length ids2 = length ?logs" "length ids3 = length ?points"
      using names by (simp_all add: names_fit_def)
    have "evidence_views (iv_evidence env) + hole_counts (xp_flow_coverage (iv_execution env)) =
        length ordered + length ?logs + length ?points"
      unfolding holes using named_logs_length [OF len(1)] named_points_length [OF len(2)]
      by (simp add: env evidence_views_def span_evidence_def)
    with few logs points have "evidence_views (iv_evidence env) + hole_counts (xp_flow_coverage (iv_execution env)) \<le> 4"
      by simp
    then show ?thesis using m1(2,4) m2(2,4) m3(2,3) by (simp add: env)
  qed
  then show "\<forall>g \<in> set (xp_run_groups (iv_execution env)). map rn_outcome (rg_runs g) = [CompleteRun]"
    "evidence_views (iv_evidence env) + hole_counts (xp_flow_coverage (iv_execution env)) \<le> 4" by simp_all
qed

section \<open>The properties at work\<close>

lemma investigation_fails_only_on_its_subject_witness:
  "investigate_trace layout64 (\<lambda>_ _. 0) family_addresses (memory_query_store family_store) (stats family_store)
     ((child_request 2)\<lparr>ti_root_span := Assigned 9\<rparr>) =
   Some (Inl (FlowFailed (SubjectUnresolved (Assigned 9))))"
  using investigation_fails_only_on_its_subject
    [of layout64 "\<lambda>_ _. 0" family_addresses "memory_query_store family_store" "stats family_store"
      "(child_request 2)\<lparr>ti_root_span := Assigned 9\<rparr>" chain_defaults "FlowFailed (SubjectUnresolved (Assigned 9))"]
    memory_keys_fit [OF family_sound(1,2)]
  by (simp add: investigate_trace_def memory_query_store_def store_span_def shelf_get_def family_store_def
      indexed_shelf_def family_spans_def)

lemma investigation_returns_witness: "\<exists>res. family_investigation 100 = Some res"
  unfolding family_investigation_def
  by (rule investigation_returns) (rule memory_never_stalls [OF family_sound(1)])+

text \<open>A driver that shows the recovery empty pages only.\<close>

definition stalling_store :: query_store where
  "stalling_store = (memory_query_store family_store)
     \<lparr>qs_scan_log_records := (\<lambda>after limit.
        if limit = RECOVERY_SCAN_SLICE
        then \<lparr>pg_items = [], pg_cursor = Some (AdmissionKey (AdmissionTime 1) (Assigned 1))\<rparr>
        else scan_log_records family_store after limit)\<rparr>"

lemma empty_pages_wedge_the_recovery_witness:
  "name_log_identities stalling_store family_addresses [(10, sample_log None)] (flow_start (child_request 2) chain_defaults) = None"
  by (rule empty_pages_wedge_the_recovery)
    (simp_all add: stalls_def stalling_store_def flow_start_def chain_defaults_def)

lemma signal_references_resolve_witness: "\<exists>env. family_investigation 100 = Some (Inr env) \<and> signal_refs_resolve env"
proof -
  obtain env where "family_investigation 100 = Some (Inr env)" by (rule family_env)
  with signal_references_resolve [OF this [unfolded family_investigation_def]] show ?thesis by blast
qed

lemma run_facts_consistent_witness:
  "\<exists>env. family_investigation 100 = Some (Inr env) \<and> run_facts_are_consistent env \<and> no_partial_content_as_complete env"
proof -
  obtain env where env: "family_investigation 100 = Some (Inr env)" by (rule family_env)
  have "evidence_views (iv_evidence env) + hole_counts (xp_flow_coverage (iv_execution env)) \<le> 4"
    using env by (intro family_answer(2) [of 100]) simp_all
  then have few: "evidence_views (iv_evidence env) + hole_counts (xp_flow_coverage (iv_execution env)) \<le> u64_max"
    by (simp add: u64_max_def)
  have "run_facts_are_consistent env \<and> no_partial_content_as_complete env \<and>
      cl_total_pages (lm_chain (iv_limits env)) \<le> ch_max_total_pages chain_defaults \<and>
      cl_identity_examinations (lm_chain (iv_limits env)) \<le> ch_max_identity_examinations chain_defaults"
    by (rule run_facts_consistent [OF env [unfolded family_investigation_def] few]) (simp_all add: chain_defaults_def)
  with env show ?thesis by blast
qed

lemma metric_window_stated_witness: "\<exists>env. family_investigation 100 = Some (Inr env) \<and> metric_window_is_stated env"
proof -
  obtain env where "family_investigation 100 = Some (Inr env)" by (rule family_env)
  with metric_window_stated [OF this [unfolded family_investigation_def]] show ?thesis by blast
qed

lemma subjects_stated_separately_witness:
  "\<exists>env. family_investigation 2 = Some (Inr env) \<and> subjects_are_stated_separately env"
proof -
  obtain env where "family_investigation 2 = Some (Inr env)" by (rule family_env)
  with subjects_stated_separately [OF this [unfolded family_investigation_def] family_looks_up family_tells_the_root]
  show ?thesis by blast
qed

lemma views_keyed_once_witness: "\<exists>env. family_investigation 100 = Some (Inr env) \<and> views_carry_entity_ids env"
proof -
  obtain env where "family_investigation 100 = Some (Inr env)" by (rule family_env)
  with views_keyed_once [OF this [unfolded family_investigation_def] family_sound_entities] show ?thesis by blast
qed

lemma family_identities:
  "natural_identity (snd (family_spans ! 0)) = Some (sample_trace 1, sample_span_id 1)"
  "natural_identity (snd (family_spans ! 1)) = Some (sample_trace 1, sample_span_id 2)"
  by (simp_all add: family_spans_def sample_defs natural_identity_def trace_id_is_valid_def span_id_is_valid_def)

lemma waterfall_is_the_trace_witness:
  "let spans = addressed (\<lambda>n. n) (map snd family_spans); root = (1, snd (family_spans ! 1))
   in \<exists>ordered. waterfall spans (resolve_subject root (Span (sample_trace 1) (sample_span_id 2)) spans) root = Inr ordered \<and>
        distinct (map identity_of ordered)"
proof -
  let ?spans = "addressed (\<lambda>n. n) (map snd family_spans)" and ?root = "(1, snd (family_spans ! 1)) :: span arc"
  have "snd ?root \<in> snd ` set ?spans"
    by (simp add: addressed_def family_spans_def)
  from waterfall_is_the_trace [of ?root, OF _ this, of "sample_trace 1" "sample_span_id 2"] family_identities(2)
  show ?thesis by (fastforce simp: waterfall_of_def Let_def)
qed

lemma complete_pages_find_the_trace_witness:
  "\<exists>env. family_investigation 100 = Some (Inr env) \<and>
     Some (sample_trace 1, sample_span_id 1) \<in> natural_identity ` sv_span ` set (ev_spans (iv_evidence env)) \<and>
     Some (sample_trace 1, sample_span_id 2) \<in> natural_identity ` sv_span ` set (ev_spans (iv_evidence env))"
proof -
  obtain env where env: "family_investigation 100 = Some (Inr env)" by (rule family_env)
  have complete: "\<forall>g \<in> set (xp_run_groups (iv_execution env)). map rn_outcome (rg_runs g) = [CompleteRun]"
    using env by (intro family_answer(1) [of 100]) simp_all
  have pos: "0 < ib_max_results (ti_budget (child_request 100))"
    by (simp add: child_request_def sample_flow_budget_def)
  have "natural_identity ` sv_span ` set (ev_spans (iv_evidence env)) =
      {Some (sample_trace 1, j) | j. Some (sample_trace 1, j) \<in> natural_identity ` snd ` set (spans_of family_store)}"
    using complete_pages_find_the_trace [OF family_sound(1) pos env [unfolded family_investigation_def] complete
        family_sound(3) family_identities(2)] by blast
  moreover have "snd ` set (spans_of family_store) = {snd (family_spans ! 0), snd (family_spans ! 1)}"
    by (simp add: family_residents family_spans_def)
  ultimately have "natural_identity ` sv_span ` set (ev_spans (iv_evidence env)) =
      {Some (sample_trace 1, j) | j. Some (sample_trace 1, j) \<in>
        {Some (sample_trace 1, sample_span_id 1), Some (sample_trace 1, sample_span_id 2)}}"
    by (simp only: image_insert image_empty family_identities)
  with env show ?thesis by (intro exI [of _ env]) (simp del: image_image)
qed

lemma honest_results_stop_is_rejected_witness:
  "\<exists>env. family_investigation 1 = Some (Inr env) \<and> \<not> truncations_are_named env"
proof -
  obtain env where env: "family_investigation 1 = Some (Inr env)" by (rule family_env)
  have two: "length (spans_of family_store) = 2" by (simp add: family_residents family_spans_def)
  have "\<not> truncations_are_named env"
    by (rule honest_results_stop_is_rejected [OF family_sound(1) _ _ _ _ env [unfolded family_investigation_def]])
      (use two family_evidence [of Spans] in \<open>simp_all add: roomy_def child_request_def sample_flow_budget_def
        chain_defaults_def del: resident_views.simps\<close>)
  with env show ?thesis by blast
qed

text \<open>Seventy spans of one trace, pages of one span.\<close>

definition member_span :: "nat \<Rightarrow> span" where
  "member_span i = (sample_span (word_of_nat i) ''s'' None)
     \<lparr>sp_context := (sp_context (sample_span (word_of_nat i) ''s'' None))\<lparr>tc_trace_id := sample_trace 1\<rparr>\<rparr>"

definition member_rows :: "(admission_key \<times> span) list" where
  "member_rows = map (\<lambda>i. (AdmissionKey (AdmissionTime (word_of_nat i))
       (Span (sample_trace 1) (sample_span_id (word_of_nat i))), member_span i)) [1..<71]"

definition members_store :: memory_store where
  "members_store = (store_new default_memory_config True)\<lparr>spans_shelf := indexed_shelf member_rows\<rparr>"

definition members_request :: trace_investigation_request where
  "members_request =
     \<lparr>ti_root_span = Span (sample_trace 1) (sample_span_id 1), ti_budget = sample_flow_budget 1,
      ti_correlation_window = None\<rparr>"

lemma members_views:
  "resident_views Spans members_store = keyed SpanView member_rows"
  "resident_views LogRecords members_store = []" "resident_views MetricPoints members_store = []"
  "spans_of members_store = map (\<lambda>p. (key_entity (fst p), snd p)) member_rows"
  by (simp_all add: members_store_def indexed_shelf_def store_new_def shelf_new_def keyed_def spans_of_def)

lemma members_sound: "scannable members_store" "resident_keys_fit members_store"
  "store_span members_store (ti_root_span members_request) = Some (member_span 1)"
proof -
  have "sorted_wrt (\<lambda>i j. AdmissionKey (AdmissionTime (word_of_nat i)) (Span (sample_trace 1) (sample_span_id (word_of_nat i))) <
      AdmissionKey (AdmissionTime (word_of_nat j)) (Span (sample_trace 1) (sample_span_id (word_of_nat j)))) [1..<71]"
    by (rule sorted_wrt_mono_rel [OF _ sorted_wrt_upt]) (simp add: key_less_iff word_less_nat_alt unat_of_nat)
  then have "om_sorted member_rows" by (simp add: om_sorted_def member_rows_def comp_def sorted_wrt_map)
  then show "scannable members_store"
    by (simp add: scannable_def members_store_def indexed_shelf_def store_new_def shelf_new_def om_sorted_def)
  show "resident_keys_fit members_store"
    unfolding resident_keys_fit_def
  proof
    fix k show "list_all (\<lambda>p. wf_key (fst p)) (resident_views k members_store)"
      by (cases k) (auto simp: members_views keyed_def member_rows_def list_all_iff wf_key_def sample_defs
          wf_trace_id_def wf_span_id_def trace_id_length_def span_id_length_def simp del: resident_views.simps)
  qed
  obtain rest where rows: "member_rows = (AdmissionKey (AdmissionTime 1) (Span (sample_trace 1) (sample_span_id 1)), member_span 1) # rest"
    by (simp add: member_rows_def upt_conv_Cons)
  show "store_span members_store (ti_root_span members_request) = Some (member_span 1)"
    unfolding members_store_def members_request_def rows
    by (simp add: store_span_def shelf_get_def indexed_shelf_def)
qed

lemma members_evidence: "evidence_total layout64 (map snd (resident_views Spans members_store)) \<le> 10 ^ 6"
proof -
  have size: "span_size layout64 (member_span i) \<le> 10000" for i
    by (simp add: member_span_def span_size_def sample_defs size_constants attributes_size_def attribute_entry_size_def
        resource_size_def scope_size_def context_size_def status_size_def heap_string_bytes_def opt_bytes_def
        opt_string_bytes_def trace_state_size_def trace_id_size_def span_id_size_def trace_id_length_def
        span_id_length_def)
  have "evidence_of layout64 (SpanView (member_span i)) \<le> 10000" for i
    by (simp only: evidence_of.simps order.trans [OF sat_u64_le size])
  then have "\<forall>v \<in> set (map snd (resident_views Spans members_store)). evidence_of layout64 v \<le> 10000"
    by (auto simp: members_views keyed_def member_rows_def simp del: resident_views.simps evidence_of.simps)
  from evidence_total_bound [OF this] show ?thesis
    by (simp add: members_views keyed_def member_rows_def del: resident_views.simps)
qed

lemma member_span_inject: "i < 256 \<Longrightarrow> j < 256 \<Longrightarrow> member_span i = member_span j \<Longrightarrow> i = j"
proof -
  assume small: "i < 256" "j < 256" and eq: "member_span i = member_span j"
  have "(word_of_nat i :: u8) = word_of_nat j"
    using arg_cong [OF eq, of "\<lambda>s. tc_span_id (sp_context s)"] by (simp add: member_span_def sample_defs)
  then have "unat (word_of_nat i :: u8) = unat (word_of_nat j :: u8)" by simp
  with small show "i = j" by (simp add: unat_of_nat)
qed

lemma later_spans_are_missed_witness:
  "\<exists>env. investigate_trace layout64 (\<lambda>_ _. 0) family_addresses (memory_query_store members_store)
        (stats members_store) members_request = Some (Inr env) \<and>
     member_span 70 \<in> snd ` set (spans_of members_store) \<and>
     natural_identity (member_span 70) = Some (sample_trace 1, sample_span_id 70) \<and>
     member_span 70 \<notin> sv_span ` set (ev_spans (iv_evidence env))"
proof -
  obtain env where env: "investigate_trace_bounded layout64 (\<lambda>_ _. 0) family_addresses (memory_query_store members_store)
      (stats members_store) members_request chain_defaults = Some (Inr env)"
    using memory_investigation [OF members_sound(1,2)] members_sound(3) by (metis option.distinct(1))
  have len: "length (spans_of members_store) = 70" by (simp add: members_views member_rows_def)
  have subset: "sv_span ` set (ev_spans (iv_evidence env)) \<subseteq>
      insert (member_span 1) (snd ` set (take SCAN_BATCH (spans_of members_store)))"
    by (rule later_spans_are_missed [OF members_sound(1,2) _ _ _ _ _ env members_sound(3)])
      (use len members_evidence in \<open>simp_all add: roomy_def members_request_def sample_flow_budget_def chain_defaults_def
        SCAN_BATCH_def del: resident_views.simps\<close>)
  have "snd ` set (take SCAN_BATCH (spans_of members_store)) \<subseteq> member_span ` {1..64}"
    by (auto simp: members_views member_rows_def SCAN_BATCH_def take_map take_upt image_image)
  moreover have "member_span 1 \<in> member_span ` {1..64}" by (rule imageI) simp
  ultimately have "insert (member_span 1) (snd ` set (take SCAN_BATCH (spans_of members_store))) \<subseteq> member_span ` {1..64}"
    by (simp only: insert_subset)
  with subset have "sv_span ` set (ev_spans (iv_evidence env)) \<subseteq> member_span ` {1..64}" by (rule order.trans)
  moreover have "member_span 70 \<notin> member_span ` {1..64}"
  proof
    assume "member_span 70 \<in> member_span ` {1..64}"
    then obtain i where "i \<in> {1..64}" "member_span 70 = member_span i" by (rule imageE)
    with member_span_inject [of 70 i] show False by simp
  qed
  ultimately have "member_span 70 \<notin> sv_span ` set (ev_spans (iv_evidence env))" by (rule contra_subsetD)
  moreover have "member_span 70 \<in> snd ` set (spans_of members_store)"
    by (simp add: members_views member_rows_def image_image)
  moreover have "natural_identity (member_span 70) = Some (sample_trace 1, sample_span_id 70)"
    by (simp add: member_span_def sample_defs natural_identity_def trace_id_is_valid_def span_id_is_valid_def)
  ultimately show ?thesis using env by (auto simp: investigate_trace_def)
qed

end
