(* ===== verification/Spec2Isabelle.thy ===== *)
theory Spec2Isabelle
  imports Store_Promises Runtime_Promises Query_Promises Correlation_Promises Flow_Samples
begin

text \<open>
  A verification development of the core of runtime-trail, a local runtime that admits OTLP telemetry,
  keeps it for a bounded time and answers queries and investigations over what it keeps. Paths are
  relative to \<open>src/crates\<close>.

  \<^bold>\<open>The program.\<close> An OTLP export enters the \<^emph>\<open>pipeline\<close>, which gates and parses it, translates each
  message into a record of the \<^emph>\<open>telemetry model\<close>, admits the record into the \<^emph>\<open>ledger\<close> (which gives it an
  identity, collapses a re-delivery and refuses a conflict) and at the end offers all fresh records to
  the bounded \<^emph>\<open>hand-off queue\<close>, or undoes them all. The \<^emph>\<open>runtime\<close>'s pump takes records off the queue into
  the \<^emph>\<open>store\<close>; the store's retention evicts the oldest when a ceiling is exceeded, and tells a hook, which
  makes the ledger forget the identity. Readers see the store through the storage contract alone: the
  \<^emph>\<open>query engine\<close> answers filtered pages with continuation cursors under a budget, the \<^emph>\<open>correlation
  engine\<close> relates resident records, and the \<^emph>\<open>investigation\<close> composes both into one envelope that states
  what was found, what was examined and what was left out.

  \<^bold>\<open>Theories and sources.\<close> Every definition keeps the name it has in the source, or adds a suffix where
  the name is taken.

  \<^item> \<^emph>\<open>Ground.\<close> \<open>Prelude\<close>: machine types, results as sums, ordered maps, keyed tables, and the locale
    \<open>content_key\<close>. \<open>Samples\<close>: concrete records for evaluated instances.
  \<^item> \<^emph>\<open>Telemetry model\<close>, \<open>telemetry-model/src\<close>. \<open>Values\<close> (\<open>values.rs\<close>), \<open>Records\<close> (\<open>context.rs\<close>,
    \<open>resources.rs\<close>, \<open>spans.rs\<close>, \<open>logs.rs\<close>), \<open>Metrics\<close> (\<open>metrics.rs\<close>), \<open>Sizes\<close> (\<open>size.rs\<close>), \<open>Budgets\<close>
    (\<open>budgets.rs\<close>), \<open>Identity\<close> (\<open>identity.rs\<close>), \<open>Ledger\<close> (\<open>ledger.rs\<close>), \<open>Value_Order\<close> (the derived
    order of values).
  \<^item> \<^emph>\<open>Ingestion\<close>, \<open>telemetry-ingestion/src\<close>. \<open>Wire\<close> (the message structs under \<open>otlp\<close>), \<open>Decode\<close>
    (\<open>decode.rs\<close>), \<open>Hand_Off\<close> (\<open>signal.rs\<close>, \<open>queue.rs\<close>), \<open>Pipeline\<close> (\<open>pipeline.rs\<close>).
  \<^item> \<^emph>\<open>Storage\<close>. \<open>Residency\<close> and \<open>Store_Reader\<close> (\<open>storage/src\<close>), \<open>Shelf\<close> and \<open>Memory_Store\<close>
    (\<open>storage-memory/src\<close>).
  \<^item> \<^emph>\<open>Composition root\<close>. \<open>Runtime\<close> (\<open>server/src/runtime.rs\<close>): the critical sections of its threads are
    the steps of \<open>runtime_step\<close>; the lock-free admission clock has its own step relation.
  \<^item> \<^emph>\<open>Query engine\<close>, \<open>query/src\<close>. \<open>Cursor\<close> (\<open>cursor.rs\<close>, \<open>lease.rs\<close>), \<open>Query_Budget\<close> (\<open>result.rs\<close>,
    \<open>spend.rs\<close>, \<open>budget.rs\<close>), \<open>Filters\<close> (\<open>filters.rs\<close>), \<open>Query_Engine\<close> (\<open>engine.rs\<close>), \<open>Ordering\<close>
    (\<open>order.rs\<close>).
  \<^item> \<^emph>\<open>Correlation engine\<close>, \<open>correlation/src\<close>. \<open>Relations\<close> (\<open>relations.rs\<close>, \<open>bounds.rs\<close>), \<open>Correlation\<close>
    (\<open>engine.rs\<close>).
  \<^item> \<^emph>\<open>Investigation\<close>, \<open>investigation/src\<close>. \<open>Envelope\<close> (the answer's data and the executable checks of
    its invariants), \<open>Flow_Parts\<close> and \<open>Flow\<close> (\<open>flow.rs\<close>).

  \<^bold>\<open>What the lemmas show.\<close> The theories named \<open>_Laws\<close> prove the laws of a component's operations, those
  named \<open>_Promises\<close> what its clients rely on.

  \<^item> \<open>Ledger_Laws\<close>: over every session of deliveries, evictions and releases the ledger stays well
    formed, and a re-delivery collapses onto the standing record (locale \<open>identity_book\<close>).
  \<^item> \<open>Decode_Laws\<close>: a value translates exactly when it encodes a well-formed model value, and every
    record built is well formed. \<open>Pipeline_Laws\<close>, \<open>Pipeline_Promises\<close>: an export is handed off whole
    or undone, its spent serials and counts apart; the queue (locale \<open>record_sink\<close>) is bounded and first in, first out.
  \<^item> \<open>Store_Laws\<close>, \<open>Store_Promises\<close>: ceilings, accounting, the completeness of a retention pass and of
    cursor walks (locale \<open>ordered_scan\<close>), over every session of a sane configuration. The charge for
    stream identities is exact only where streams of equal content have one size (\<open>size_coherent\<close>),
    and what rests on it says so.
  \<^item> \<open>Runtime_Laws\<close>, \<open>Runtime_Tracking\<close>, \<open>Runtime_Promises\<close>: over every interleaving of the steps,
    identity follows residency, every admitted record is accounted for, and a drain can complete.
  \<^item> \<open>Query_Laws\<close>, \<open>Query_Pages\<close>, \<open>Query_Ceilings\<close>, \<open>Query_Promises\<close>: for any driver a page ends and
    keeps its ceilings (locales \<open>walk_invariant\<close>, \<open>traversal_charge\<close>); over a driver with a lawful scan
    (locale \<open>engine_driver\<close>, interpreted on the memory store) a page and a chain of pages are
    characterised by what is resident. \<open>Filters\<close> proves the canonical query description a prefix code
    (locales \<open>prefix_code\<close>, \<open>present_code\<close>), \<open>Cursor\<close> the codec exact in both directions.
  \<^item> \<open>Correlation_Laws\<close>, \<open>Correlation_Grounds\<close>, \<open>Correlation_Scans\<close>, \<open>Correlation_Promises\<close>: a run
    returns exactly the relations the resident records ground (\<open>grounded\<close> states them record by
    record), within its ceilings, sorted (locale \<open>comparator\<close>).
  \<^item> \<open>Flow_Laws\<close>, \<open>Flow_Promises\<close>, \<open>Flow_Exact\<close>: an investigation never panics, fails on its subject
    alone, keeps the envelope's invariants, and over complete pages finds exactly the trace.
  \<^item> Where the code does less than it says, the theorem states what it does: \<open>identity_charge_leaks\<close>,
    \<open>oversized_refusal_releases_resident_stream\<close>, \<open>log_body_escapes_the_bound\<close>,
    \<open>first_page_pins_its_batch\<close>, \<open>later_spans_are_missed\<close>, \<open>honest_results_stop_is_rejected\<close>,
    \<open>empty_pages_wedge_the_recovery\<close>. \<open>Flow_Samples\<close> holds the concrete investigations.

  \<^bold>\<open>Loops.\<close> No fuel is chosen by hand. The explicit-stack walks of values end by their weight, the
  retention loop by the resident count, the page loop by \<open>page_fuel\<close> (the scan allowance left, and
  the stall counter at equal allowance), the scans of a correlation run by their allowance, the walk
  over pages by the pages left in the chain, and the levels of the waterfall by the span ids not yet
  visited. The recovery of identities may run forever on a driver that answers empty pages: it is a
  \<open>partial_function\<close>, where \<open>None\<close> says it does not return, and \<open>investigation_returns\<close> states when it
  does.

  \<^bold>\<open>Parameters.\<close> What the sources do not fix is an argument: \<open>prost\<close>'s parser, the \<open>size_of\<close> of the
  program's types (\<open>layout\<close>), the readings of the monotonic clock, the address of a shared payload
  (\<open>Arc::ptr_eq\<close>), and the driver behind the storage contract (\<open>query_store\<close>). A mutex is the order of
  the operations it guards. Strings are their UTF-8 bytes, doubles their bit patterns; byte totals and
  counters are naturals with the source's saturation written out.

  \<^bold>\<open>Not modelled.\<close> The server's transports and listeners (\<open>otlp_http.rs\<close>, \<open>otlp_grpc.rs\<close>,
  \<open>investigation_http.rs\<close>, \<open>listener.rs\<close>), thread spawning, logging and settings of the runtime, the
  MCP server (\<open>mcp\<close>), the desktop shell and the bench probes are input and output over the modelled
  operations. The SQL store (\<open>storage-sqlite\<close>) rests on an engine outside the repository; what is
  proved for every driver holds for it, what is proved over the memory store is not claimed of it.
  \<open>query/src/probe.rs\<close> asserts traits at compile time. Display and debug texts are left out.
\<close>

end
